(* ===== verification/Kernel_Prelude.thy ===== *)
theory Kernel_Prelude
  imports Main "HOL-Library.Word"
begin

text \<open>
  Shared vocabulary of the development: the fixed-width integer types of
  \<^verbatim>\<open>libc/include/stdint.h\<close> as words, pointers as 32-bit words (the kernel is built with
  \<^verbatim>\<open>-m32\<close>, so \<^verbatim>\<open>int\<close>, \<^verbatim>\<open>long\<close>, \<^verbatim>\<open>size_t\<close> and pointers are 32 bits wide), the collections
  of rewrite rules the component theories extend, and generic lemmas on words and lists.
\<close>

unbundle bit_operations_syntax

section \<open>Machine integers and pointers\<close>

type_synonym u8 = "8 word"
type_synonym u16 = "16 word"
type_synonym u32 = "32 word"
type_synonym u64 = "64 word"
type_synonym ptr = "32 word"

abbreviation NULL :: ptr where
  "NULL \<equiv> 0"

text \<open>The character constants the C sources use, as bytes.\<close>

abbreviation chr_of :: "char \<Rightarrow> u8" where
  "chr_of c \<equiv> of_char c"

definition bytes_of :: "string \<Rightarrow> u8 list" where
  "bytes_of s = map of_char s"

section \<open>Rule collections\<close>

named_theorems mem_simps \<open>rewriting of reads after writes in the flat memory\<close>
named_theorems io_simps \<open>rewriting of the port history\<close>
named_theorems dll_simps \<open>rewriting of list elements after pointer updates\<close>
named_theorems const_defs \<open>definitions of the constants of the headers\<close>

section \<open>Words\<close>

lemma of_nat_word_eq_iff_less:
  assumes "i < 2 ^ LENGTH('a)" and "j < 2 ^ LENGTH('a)"
  shows "(of_nat i :: 'a::len word) = of_nat j \<longleftrightarrow> i = j"
  using assms by (metis of_nat_inverse)

lemma unat_plus_one_less:
  fixes i n :: "'a::len word"
  assumes "i < n"
  shows "unat (i + 1) = Suc (unat i)"
proof -
  from assms have "unat i < unat n" by (simp add: word_less_nat_alt)
  moreover have "unat n < 2 ^ LENGTH('a)" by (rule unsigned_less)
  ultimately have "Suc (unat i) < 2 ^ LENGTH('a)" by linarith
  then show ?thesis by (simp add: unat_word_ariths)
qed

lemma word_plus_one_of_nat: "(p :: 'a::len word) + 1 + of_nat i = p + of_nat (Suc i)"
  by simp

lemma unat_u32_bound [simp]: "unat (w :: u32) < 4294967296"
  using unsigned_less [where ?'a = nat, of w] by simp

lemma unat_of_nat_u32 [simp]: "n < 4294967296 \<Longrightarrow> unat (of_nat n :: u32) = n"
  by (simp add: unat_of_nat)

lemma of_nat_u32_inject:
  "i < 4294967296 \<Longrightarrow> j < 4294967296 \<Longrightarrow> (of_nat i :: u32) = of_nat j \<longleftrightarrow> i = j"
  by (rule of_nat_word_eq_iff_less) simp_all

lemma u32_eq_of_nat_unat: "(of_nat (unat (w :: u32)) :: u32) = w"
  by simp

section \<open>Lists\<close>

lemma takeWhile_dropWhile_length:
  "length (takeWhile P xs) + length (dropWhile P xs) = length xs"
  by (metis length_append takeWhile_dropWhile_id)

lemma dropWhile_Cons_hd: "dropWhile P xs = y # ys \<Longrightarrow> \<not> P y"
  by (metis hd_dropWhile list.distinct(1) list.sel(1))

lemma distinct_ptr_length:
  fixes xs :: "ptr list"
  assumes "distinct xs" and "NULL \<notin> set xs"
  shows "length xs < 4294967296"
proof -
  have "card (insert NULL (set xs)) \<le> card (UNIV :: ptr set)"
    by (rule card_mono) simp_all
  also have "\<dots> = 4294967296" by (simp add: card_word)
  finally show ?thesis using assms by (simp add: distinct_card)
qed

end
