(* ===== verification/C_Memory.thy ===== *)
theory C_Memory
  imports Kernel_Prelude
begin

text \<open>
  The byte-addressed flat memory the C library works on. A pointer is a 32-bit address and
  pointer arithmetic wraps, as the machine's does; every address holds a byte, so a read or
  write outside an object is a read or write of some other object's bytes, which the frame
  lemmas make visible. \<open>cstr_at\<close> relates an address to the NUL-terminated string stored there.
\<close>

section \<open>Memory, byte ranges and C strings\<close>

type_synonym mem = "u32 \<Rightarrow> u8"

text \<open>The \<open>n\<close> bytes from \<open>p\<close> on, and the set of their addresses.\<close>

primrec bytes_at :: "mem \<Rightarrow> u32 \<Rightarrow> nat \<Rightarrow> u8 list" where
  "bytes_at m p 0 = []"
| "bytes_at m p (Suc n) = m p # bytes_at m (p + 1) n"

definition region :: "u32 \<Rightarrow> nat \<Rightarrow> u32 set" where
  "region p n = (\<lambda>i. p + of_nat i) ` {..<n}"

text \<open>The string \<open>s\<close> (without its terminator) is stored at \<open>p\<close>.\<close>

primrec cstr_at :: "mem \<Rightarrow> u32 \<Rightarrow> u8 list \<Rightarrow> bool" where
  "cstr_at m p [] \<longleftrightarrow> m p = 0"
| "cstr_at m p (c # s) \<longleftrightarrow> c \<noteq> 0 \<and> m p = c \<and> cstr_at m (p + 1) s"

text \<open>Writing a list of bytes one after the other.\<close>

primrec store_bytes :: "mem \<Rightarrow> u32 \<Rightarrow> u8 list \<Rightarrow> mem" where
  "store_bytes m p [] = m"
| "store_bytes m p (b # bs) = store_bytes (m(p := b)) (p + 1) bs"

section \<open>Byte ranges\<close>

lemma length_bytes_at [simp]: "length (bytes_at m p n) = n"
  by (induction n arbitrary: p) auto

lemma nth_bytes_at [simp]: "i < n \<Longrightarrow> bytes_at m p n ! i = m (p + of_nat i)"
proof (induction n arbitrary: p i)
  case (Suc n)
  then show ?case by (cases i) (simp_all add: add.assoc)
qed simp

lemma bytes_at_eq_iff: "bytes_at m p n = bytes_at m' q n \<longleftrightarrow> (\<forall>i<n. m (p + of_nat i) = m' (q + of_nat i))"
  by (simp add: list_eq_iff_nth_eq)

lemma bytes_at_append: "bytes_at m p (i + j) = bytes_at m p i @ bytes_at m (p + of_nat i) j"
  by (induction i arbitrary: p) (simp_all add: add.assoc)

lemma region_0 [simp]: "region p 0 = {}"
  by (simp add: region_def)

lemma region_Suc: "region p (Suc n) = insert p (region (p + 1) n)"
  unfolding region_def
  by (simp add: lessThan_Suc_eq_insert_0 image_image add.assoc)

lemma region_numeral: "region p (numeral k) = insert p (region (p + 1) (pred_numeral k))"
  by (simp add: numeral_eq_Suc region_Suc)

lemma bytes_at_numeral: "bytes_at m p (numeral k) = m p # bytes_at m (p + 1) (pred_numeral k)"
  by (simp add: numeral_eq_Suc)

lemma region_last: "region p (Suc n) = insert (p + of_nat n) (region p n)"
  unfolding region_def by (simp add: lessThan_Suc)

lemma in_region: "i < n \<Longrightarrow> p + of_nat i \<in> region p n"
  unfolding region_def by blast

lemma region_mono: "i \<le> n \<Longrightarrow> region p i \<subseteq> region p n"
  unfolding region_def by auto

lemma region_tail_subset: "region (p + of_nat i) j \<subseteq> region p (i + j)"
proof
  fix a assume "a \<in> region (p + of_nat i) j"
  then obtain k where "k < j" and "a = p + of_nat i + of_nat k" by (auto simp: region_def)
  then show "a \<in> region p (i + j)" using in_region [of "i + k" "i + j" p] by (simp add: add.assoc)
qed

lemma region_offset_notin:
  assumes "i < n" and "n \<le> 4294967296"
  shows "p + of_nat i \<notin> region p i"
proof
  assume "p + of_nat i \<in> region p i"
  then obtain j where "j < i" and "(of_nat i :: u32) = of_nat j" by (auto simp: region_def)
  with assms show False by (simp add: of_nat_u32_inject)
qed

lemma region_split_disjoint:
  assumes "i + j \<le> 4294967296"
  shows "region p i \<inter> region (p + of_nat i) j = {}"
proof (rule equals0I)
  fix a assume "a \<in> region p i \<inter> region (p + of_nat i) j"
  then obtain x y where xy: "x < i" "y < j" "a = p + of_nat x" "a = p + of_nat i + of_nat y"
    by (auto simp: region_def)
  then have "(of_nat x :: u32) = of_nat (i + y)" by (simp add: add.assoc)
  with assms xy show False by (subst (asm) of_nat_u32_inject) simp_all
qed

lemma bytes_at_cong:
  "(\<And>a. a \<in> region p n \<Longrightarrow> m a = m' a) \<Longrightarrow> bytes_at m p n = bytes_at m' p n"
  by (simp add: bytes_at_eq_iff in_region)

lemma bytes_at_upd [mem_simps]: "a \<notin> region p n \<Longrightarrow> bytes_at (m(a := v)) p n = bytes_at m p n"
  by (rule bytes_at_cong) auto

section \<open>C strings\<close>

lemma cstr_at_nth: "cstr_at m p s \<Longrightarrow> i < length s \<Longrightarrow> m (p + of_nat i) = s ! i"
proof (induction s arbitrary: p i)
  case (Cons c s)
  show ?case
  proof (cases i)
    case 0
    with Cons.prems show ?thesis by simp
  next
    case (Suc j)
    with Cons.prems Cons.IH [of "p + 1" j] show ?thesis by (simp add: add.assoc)
  qed
qed simp

lemma cstr_at_end: "cstr_at m p s \<Longrightarrow> m (p + of_nat (length s)) = 0"
proof (induction s arbitrary: p)
  case (Cons c s)
  from Cons.prems Cons.IH [of "p + 1"] show ?case by (simp add: add.assoc)
qed simp

lemma cstr_at_nonzero: "cstr_at m p s \<Longrightarrow> 0 \<notin> set s"
  by (induction s arbitrary: p) auto

lemma cstr_at_iff:
  "cstr_at m p s \<longleftrightarrow> bytes_at m p (length s) = s \<and> m (p + of_nat (length s)) = 0 \<and> 0 \<notin> set s"
  by (induction s arbitrary: p) (auto simp: add.assoc)

lemma cstr_at_unique: "cstr_at m p s \<Longrightarrow> cstr_at m p t \<Longrightarrow> s = t"
proof (induction s arbitrary: p t)
  case Nil
  then show ?case by (cases t) auto
next
  case (Cons c s)
  then show ?case by (cases t) auto
qed

lemma cstr_at_append:
  "cstr_at m p (s @ t) \<longleftrightarrow> bytes_at m p (length s) = s \<and> 0 \<notin> set s \<and> cstr_at m (p + of_nat (length s)) t"
  by (induction s arbitrary: p) (auto simp: add.assoc)

lemma cstr_at_suffix: "cstr_at m p s \<Longrightarrow> i \<le> length s \<Longrightarrow> cstr_at m (p + of_nat i) (drop i s)"
  using cstr_at_append [of m p "take i s" "drop i s"] by simp

text \<open>A C string never fills the address space: its terminator would be one of its bytes.\<close>

lemma cstr_at_length: assumes "cstr_at m p s" shows "length s < 4294967296"
proof (rule ccontr)
  assume "\<not> length s < 4294967296"
  then have le: "4294967296 \<le> length s" by simp
  let ?i = "length s - 4294967296"
  have "(of_nat (length s) :: u32) = of_nat (?i + 4294967296)" using le by simp
  also have "\<dots> = of_nat ?i" by (simp only: of_nat_add) simp
  finally have "m (p + of_nat ?i) = 0" using cstr_at_end [OF assms] by simp
  moreover have "m (p + of_nat ?i) = s ! ?i"
    by (rule cstr_at_nth [OF assms]) (use le in linarith)
  moreover have "s ! ?i \<in> set s" using le by (intro nth_mem) linarith
  ultimately show False using cstr_at_nonzero [OF assms] by simp
qed

lemma cstr_at_cong:
  "(\<And>a. a \<in> region p (Suc (length s)) \<Longrightarrow> m a = m' a) \<Longrightarrow> cstr_at m p s = cstr_at m' p s"
proof (induction s arbitrary: p)
  case Nil
  then show ?case by (simp add: region_Suc)
next
  case (Cons c s)
  have "cstr_at m (p + 1) s = cstr_at m' (p + 1) s"
    by (rule Cons.IH) (simp add: Cons.prems region_Suc [of p])
  moreover have "m p = m' p" by (rule Cons.prems) (simp add: region_Suc)
  ultimately show ?case by simp
qed

lemma cstr_at_upd [mem_simps]:
  "a \<notin> region p (Suc (length s)) \<Longrightarrow> cstr_at (m(a := v)) p s = cstr_at m p s"
  by (rule cstr_at_cong) auto

section \<open>Writing byte ranges\<close>

lemma store_bytes_other: "a \<notin> region p (length bs) \<Longrightarrow> store_bytes m p bs a = m a"
proof (induction bs arbitrary: m p)
  case (Cons b bs)
  then show ?case by (simp add: region_Suc)
qed simp

lemma store_bytes_append:
  "store_bytes m p (xs @ ys) = store_bytes (store_bytes m p xs) (p + of_nat (length xs)) ys"
  by (induction xs arbitrary: m p) (simp_all add: add.assoc)

lemma store_bytes_snoc: "store_bytes m p (xs @ [y]) = (store_bytes m p xs)(p + of_nat (length xs) := y)"
  by (simp add: store_bytes_append)

lemma bytes_at_store_bytes:
  "length bs \<le> 4294967296 \<Longrightarrow> bytes_at (store_bytes m p bs) p (length bs) = bs"
proof (induction bs rule: rev_induct)
  case (snoc b bs)
  have new: "p + of_nat (length bs) \<notin> region p (length bs)"
    using snoc.prems by (intro region_offset_notin [where n = "Suc (length bs)"]) simp_all
  have "bytes_at (store_bytes m p (bs @ [b])) p (length bs + 1)
      = bytes_at (store_bytes m p bs) p (length bs) @ [b]"
    unfolding bytes_at_append by (simp add: store_bytes_snoc bytes_at_upd [OF new])
  with snoc show ?case by simp
qed simp

lemma cstr_at_store_bytes:
  assumes "0 \<notin> set s" and "Suc (length s) \<le> 4294967296"
  shows "cstr_at (store_bytes m p (s @ [0])) p s"
proof -
  have all: "bytes_at (store_bytes m p (s @ [0])) p (length s + 1) = s @ [0]"
    using bytes_at_store_bytes [of "s @ [0]" m p] assms(2) by simp
  then show ?thesis
    using assms(1) by (simp only: cstr_at_iff bytes_at_append) simp
qed

end
