(* ===== verification/Libc_String.thy ===== *)
theory Libc_String
  imports C_Memory "HOL-Library.Monad_Syntax"
begin

text \<open>
  \<^verbatim>\<open>libc/string.c\<close> on the flat memory. Every function takes the memory and the pointers of the C
  function; a function that writes returns the new memory. A scan for a terminator that the
  memory does not hold never ends in C, so the scanning loops are
  \<^theory_text>\<open>partial_function (option)\<close> and a diverging call is \<open>None\<close>; loops that
  count to an argument are total. \<^verbatim>\<open>char\<close> is signed on this target, so the range tests of
  \<^verbatim>\<open>strtol\<close> read a byte with \<open>sint\<close>. \<^verbatim>\<open>strtok\<close> keeps its static variable
  \<^verbatim>\<open>next_token\<close> as an argument and a result. The lemmas of the second half say what each
  function does to the strings stored at its arguments, and what it leaves alone.
\<close>

section \<open>Definitions\<close>

partial_function (option) strlen_loop :: "mem \<Rightarrow> ptr \<Rightarrow> u32 \<Rightarrow> u32 option" where
  "strlen_loop m str len =
     (if m (str + len) \<noteq> 0 then strlen_loop m str (len + 1) else Some len)"

definition strlen :: "mem \<Rightarrow> ptr \<Rightarrow> u32 option" where
  "strlen m str = strlen_loop m str 0"

function memset_loop :: "mem \<Rightarrow> ptr \<Rightarrow> u8 \<Rightarrow> u32 \<Rightarrow> u32 \<Rightarrow> mem" where
  "memset_loop m dest c n i =
     (if i < n then memset_loop (m(dest + i := c)) dest c n (i + 1) else m)"
  by pat_completeness auto
termination
  by (relation "measure (\<lambda>(m, dest, c, n, i). unat n - unat i)")
     (auto simp: unat_plus_one_less word_less_nat_alt)

definition memset :: "mem \<Rightarrow> ptr \<Rightarrow> u32 \<Rightarrow> u32 \<Rightarrow> mem" where
  "memset m dest c n = memset_loop m dest (ucast c) n 0"

partial_function (option) strcmp :: "mem \<Rightarrow> ptr \<Rightarrow> ptr \<Rightarrow> int option" where
  "strcmp m str1 str2 =
     (if m str1 \<noteq> 0 \<and> m str1 = m str2 then strcmp m (str1 + 1) (str2 + 1)
      else Some (uint (m str1) - uint (m str2)))"

function memcpy_loop :: "mem \<Rightarrow> ptr \<Rightarrow> ptr \<Rightarrow> u32 \<Rightarrow> u32 \<Rightarrow> mem" where
  "memcpy_loop m d s n i =
     (if i < n then memcpy_loop (m(d + i := m (s + i))) d s n (i + 1) else m)"
  by pat_completeness auto
termination
  by (relation "measure (\<lambda>(m, d, s, n, i). unat n - unat i)")
     (auto simp: unat_plus_one_less word_less_nat_alt)

definition memcpy :: "mem \<Rightarrow> ptr \<Rightarrow> ptr \<Rightarrow> u32 \<Rightarrow> mem" where
  "memcpy m dest src n = memcpy_loop m dest src n 0"

function memcmp_loop :: "mem \<Rightarrow> ptr \<Rightarrow> ptr \<Rightarrow> u32 \<Rightarrow> u32 \<Rightarrow> int" where
  "memcmp_loop m p1 p2 n i =
     (if i < n
      then if m (p1 + i) \<noteq> m (p2 + i) then uint (m (p1 + i)) - uint (m (p2 + i))
           else memcmp_loop m p1 p2 n (i + 1)
      else 0)"
  by pat_completeness auto
termination
  by (relation "measure (\<lambda>(m, p1, p2, n, i). unat n - unat i)")
     (auto simp: unat_plus_one_less word_less_nat_alt)

definition memcmp :: "mem \<Rightarrow> ptr \<Rightarrow> ptr \<Rightarrow> u32 \<Rightarrow> int" where
  "memcmp m s1 s2 n = memcmp_loop m s1 s2 n 0"

partial_function (option) strcpy :: "mem \<Rightarrow> ptr \<Rightarrow> ptr \<Rightarrow> mem option" where
  "strcpy m dest src =
     (if m src \<noteq> 0 then strcpy (m(dest := m src)) (dest + 1) (src + 1)
      else Some (m(dest := 0)))"

text \<open>The two loops of \<^verbatim>\<open>strncpy\<close>: copy up to the terminator, then pad with NUL bytes.\<close>

function strncpy_copy :: "mem \<Rightarrow> ptr \<Rightarrow> ptr \<Rightarrow> u32 \<Rightarrow> u32 \<Rightarrow> mem \<times> u32" where
  "strncpy_copy m dest src n i =
     (if i < n \<and> m (src + i) \<noteq> 0
      then strncpy_copy (m(dest + i := m (src + i))) dest src n (i + 1)
      else (m, i))"
  by pat_completeness auto
termination
  by (relation "measure (\<lambda>(m, dest, src, n, i). unat n - unat i)")
     (auto simp: unat_plus_one_less word_less_nat_alt)

definition strncpy :: "mem \<Rightarrow> ptr \<Rightarrow> ptr \<Rightarrow> u32 \<Rightarrow> mem" where
  "strncpy m dest src n =
     (let (m1, i) = strncpy_copy m dest src n 0 in memset_loop m1 dest 0 n i)"

partial_function (option) strchr_loop :: "mem \<Rightarrow> ptr \<Rightarrow> u8 \<Rightarrow> ptr option" where
  "strchr_loop m str c =
     (if m str \<noteq> 0 then if m str = c then Some str else strchr_loop m (str + 1) c
      else Some NULL)"

definition strchr :: "mem \<Rightarrow> ptr \<Rightarrow> u32 \<Rightarrow> ptr option" where
  "strchr m str c = strchr_loop m str (ucast c)"

partial_function (option) strtok_scan :: "mem \<Rightarrow> ptr \<Rightarrow> ptr \<Rightarrow> ptr option" where
  "strtok_scan m delim next_token =
     (if m next_token \<noteq> 0
      then Option.bind (strchr m delim (scast (m next_token)))
             (\<lambda>r. if r = NULL then strtok_scan m delim (next_token + 1) else Some next_token)
      else Some next_token)"

text \<open>\<open>strtok m next_token str delim\<close> returns the memory, the new \<^verbatim>\<open>next_token\<close> and the token.\<close>

definition strtok :: "mem \<Rightarrow> ptr \<Rightarrow> ptr \<Rightarrow> ptr \<Rightarrow> (mem \<times> ptr \<times> ptr) option" where
  "strtok m next_token str delim =
     (let nt = (if str \<noteq> NULL then str else next_token) in
      if nt = NULL then Some (m, nt, NULL)
      else if m nt = 0 then Some (m, nt, NULL)
      else Option.bind (strtok_scan m delim nt)
             (\<lambda>e. if m e \<noteq> 0 then Some (m(e := 0), e + 1, nt) else Some (m, NULL, nt)))"

partial_function (option) is_delim_loop :: "mem \<Rightarrow> u8 \<Rightarrow> ptr \<Rightarrow> bool option" where
  "is_delim_loop m c d =
     (if m d \<noteq> 0 then if c = m d then Some True else is_delim_loop m c (d + 1) else Some False)"

partial_function (option) strtok_r_skip :: "mem \<Rightarrow> ptr \<Rightarrow> ptr \<Rightarrow> ptr option" where
  "strtok_r_skip m delim str =
     (if m str \<noteq> 0
      then Option.bind (is_delim_loop m (m str) delim)
             (\<lambda>b. if \<not> b then Some str else strtok_r_skip m delim (str + 1))
      else Some str)"

partial_function (option) strtok_r_find :: "mem \<Rightarrow> ptr \<Rightarrow> ptr \<Rightarrow> ptr option" where
  "strtok_r_find m delim str =
     (if m str \<noteq> 0
      then Option.bind (is_delim_loop m (m str) delim)
             (\<lambda>b. if b then Some str else strtok_r_find m delim (str + 1))
      else Some str)"

text \<open>\<open>strtok_r m str delim save\<close> returns the memory, the new \<^verbatim>\<open>*saveptr\<close> and the token.\<close>

definition strtok_r :: "mem \<Rightarrow> ptr \<Rightarrow> ptr \<Rightarrow> ptr \<Rightarrow> (mem \<times> ptr \<times> ptr) option" where
  "strtok_r m str delim save =
     (let str0 = (if str = NULL then save else str) in
      if str0 = NULL \<or> m str0 = 0 then Some (m, NULL, NULL)
      else Option.bind (strtok_r_skip m delim str0)
        (\<lambda>start. if m start = 0 then Some (m, NULL, NULL)
           else Option.bind (strtok_r_find m delim start)
             (\<lambda>e. if m e \<noteq> 0 then Some (m(e := 0), e + 1, start)
                  else Some (m, NULL, start))))"

partial_function (option) strcat_end :: "mem \<Rightarrow> ptr \<Rightarrow> ptr option" where
  "strcat_end m d = (if m d \<noteq> 0 then strcat_end m (d + 1) else Some d)"

definition strcat :: "mem \<Rightarrow> ptr \<Rightarrow> ptr \<Rightarrow> mem option" where
  "strcat m dest src = Option.bind (strcat_end m dest) (\<lambda>d. strcpy m d src)"

text \<open>\<^verbatim>\<open>strtol\<close>: white space, sign, base prefix, digits. \<^verbatim>\<open>long\<close> is 32 bits; the accumulation
  \<^verbatim>\<open>result * base + digit\<close> is kept at that width.\<close>

definition is_space :: "u8 \<Rightarrow> bool" where
  "is_space c \<longleftrightarrow> c = 32 \<or> c = 9 \<or> c = 10 \<or> c = 11 \<or> c = 12 \<or> c = 13"

partial_function (option) skip_space :: "mem \<Rightarrow> ptr \<Rightarrow> ptr option" where
  "skip_space m s = (if is_space (m s) then skip_space m (s + 1) else Some s)"

definition digit_of :: "u8 \<Rightarrow> u32 option" where
  "digit_of c =
     (if sint c \<ge> 48 \<and> sint c \<le> 57 then Some (scast c - 48)
      else if sint c \<ge> 97 \<and> sint c \<le> 122 then Some (scast c - 97 + 10)
      else if sint c \<ge> 65 \<and> sint c \<le> 90 then Some (scast c - 65 + 10)
      else None)"

partial_function (option) strtol_digits :: "mem \<Rightarrow> u32 \<Rightarrow> ptr \<Rightarrow> u32 \<Rightarrow> (ptr \<times> u32) option" where
  "strtol_digits m base s result =
     (if m s \<noteq> 0
      then case digit_of (m s) of
             None \<Rightarrow> Some (s, result)
           | Some digit \<Rightarrow>
               if sint digit \<ge> sint base then Some (s, result)
               else strtol_digits m base (s + 1) (result * base + digit)
      else Some (s, result))"

definition strtol_sign :: "mem \<Rightarrow> ptr \<Rightarrow> bool \<times> ptr" where
  "strtol_sign m s =
     (if m s = 45 then (True, s + 1) else if m s = 43 then (False, s + 1) else (False, s))"

definition strtol_base :: "mem \<Rightarrow> ptr \<Rightarrow> u32 \<Rightarrow> u32 \<times> ptr" where
  "strtol_base m s base =
     (if base = 0
      then if m s = 48
           then if m (s + 1) = 120 \<or> m (s + 1) = 88 then (16, s + 2) else (8, s + 1)
           else (10, s)
      else if base = 16 \<and> m s = 48 \<and> (m (s + 1) = 120 \<or> m (s + 1) = 88) then (16, s + 2)
      else (base, s))"

text \<open>\<open>strtol m str base\<close> returns the value and the final position, which the C code stores in
  \<^verbatim>\<open>*endptr\<close> when that pointer is given.\<close>

definition strtol :: "mem \<Rightarrow> ptr \<Rightarrow> u32 \<Rightarrow> (u32 \<times> ptr) option" where
  "strtol m str base =
     Option.bind (skip_space m str)
       (\<lambda>s0. let (negative, s1) = strtol_sign m s0; (b, s2) = strtol_base m s1 base in
          Option.bind (strtol_digits m b s2 0)
            (\<lambda>(s, result). Some (if negative then - result else result, s)))"

lemmas libc_loop_simps =
  strlen_loop.simps strcmp.simps strcpy.simps strchr_loop.simps strtok_scan.simps
  is_delim_loop.simps strtok_r_skip.simps strtok_r_find.simps strcat_end.simps
  skip_space.simps strtol_digits.simps

declare memset_loop.simps [simp del] memcpy_loop.simps [simp del]
  memcmp_loop.simps [simp del] strncpy_copy.simps [simp del]

section \<open>What the functions are compared with\<close>

text \<open>The comparison of two strings by their first differing byte, the terminator included.\<close>

fun cmp_bytes :: "u8 list \<Rightarrow> u8 list \<Rightarrow> int" where
  "cmp_bytes [] [] = 0"
| "cmp_bytes [] (b # t) = - uint b"
| "cmp_bytes (a # s) [] = uint a"
| "cmp_bytes (a # s) (b # t) = (if a = b then cmp_bytes s t else uint a - uint b)"

text \<open>A byte that is a digit of the given base, and the value of a run of such digits.\<close>

definition is_digit_of :: "u32 \<Rightarrow> u8 \<Rightarrow> bool" where
  "is_digit_of base c \<longleftrightarrow> (case digit_of c of None \<Rightarrow> False | Some d \<Rightarrow> sint d < sint base)"

definition num_value :: "u32 \<Rightarrow> u8 list \<Rightarrow> nat" where
  "num_value base ds = foldl (\<lambda>v c. v * unat base + unat (the (digit_of c))) 0 ds"

text \<open>The maximal delimiter-free runs of a string, and a client that calls \<^verbatim>\<open>strtok_r\<close> with the
  string first and with NULL afterwards, at most \<open>n\<close> times or until NULL comes back.\<close>

function tokens :: "u8 list \<Rightarrow> u8 list \<Rightarrow> u8 list list" where
  "tokens ds s =
     (let r = dropWhile (\<lambda>c. c \<in> set ds) s in
      if r = [] then []
      else takeWhile (\<lambda>c. c \<notin> set ds) r # tokens ds (tl (dropWhile (\<lambda>c. c \<notin> set ds) r)))"
  by pat_completeness auto
termination
proof (relation "measure (\<lambda>(ds, s). length s)")
  fix ds s r assume r: "r = dropWhile (\<lambda>c. c \<in> set ds) s" "r \<noteq> []"
  have "length (tl (dropWhile (\<lambda>c. c \<notin> set ds) r)) < length r"
    using r(2) by (cases r) (auto simp: less_Suc_eq_le intro: le_trans [OF diff_le_self length_dropWhile_le] le_trans [OF length_dropWhile_le])
  also have "length r \<le> length s" using r(1) length_dropWhile_le by blast
  finally show "((ds, tl (dropWhile (\<lambda>c. c \<notin> set ds) r)), ds, s) \<in> measure (\<lambda>(ds, s). length s)"
    by simp
qed simp

declare tokens.simps [simp del]

primrec strtok_r_calls :: "nat \<Rightarrow> mem \<Rightarrow> ptr \<Rightarrow> ptr \<Rightarrow> ptr \<Rightarrow> (mem \<times> ptr list) option" where
  "strtok_r_calls 0 m str delim save = Some (m, [])"
| "strtok_r_calls (Suc n) m str delim save =
     Option.bind (strtok_r m str delim save)
       (\<lambda>(m1, save1, t). if t = NULL then Some (m1, [])
          else Option.bind (strtok_r_calls n m1 NULL delim save1)
                 (\<lambda>(m2, ts). Some (m2, t # ts)))"

section \<open>Lengths and comparisons\<close>

lemma strlen_loop_cstr:
  "cstr_at m (str + len) s \<Longrightarrow> strlen_loop m str len = Some (len + of_nat (length s))"
proof (induction s arbitrary: len)
  case Nil
  then show ?case by (subst strlen_loop.simps) simp
next
  case (Cons c s)
  then have "strlen_loop m str (len + 1) = Some (len + 1 + of_nat (length s))"
    by (intro Cons.IH) (simp add: add.assoc)
  with Cons.prems show ?case by (subst strlen_loop.simps) simp
qed

lemma strlen_cstr: "cstr_at m p s \<Longrightarrow> strlen m p = Some (of_nat (length s))"
  using strlen_loop_cstr [of m p 0 s] by (simp add: strlen_def)

lemma strcmp_cstr: "cstr_at m p s \<Longrightarrow> cstr_at m q t \<Longrightarrow> strcmp m p q = Some (cmp_bytes s t)"
proof (induction s t arbitrary: p q rule: cmp_bytes.induct)
  case (4 a s b t)
  then show ?case by (subst strcmp.simps) auto
qed (subst strcmp.simps; simp)+

lemma uint_word_pos: "(a :: u8) \<noteq> 0 \<Longrightarrow> 0 < uint a"
  by (metis unsigned_greater_eq order_le_less unsigned_eq_0_iff)

lemma cmp_bytes_zero: "0 \<notin> set s \<Longrightarrow> 0 \<notin> set t \<Longrightarrow> cmp_bytes s t = 0 \<longleftrightarrow> s = t"
  by (induction s t rule: cmp_bytes.induct) (auto simp: unsigned_eq_0_iff dest: unsigned_word_eqI)

lemma cmp_bytes_neg:
  "0 \<notin> set s \<Longrightarrow> 0 \<notin> set t \<Longrightarrow> cmp_bytes s t < 0 \<longleftrightarrow> (s, t) \<in> lexord {(a, b). a < b}"
proof (induction s t rule: cmp_bytes.induct)
  case (2 b t)
  then show ?case using uint_word_pos [of b] by auto
next
  case (3 a s)
  then show ?case using uint_word_pos [of a] by simp
next
  case (4 a s b t)
  then show ?case by (auto simp: word_less_def)
qed simp

lemma memcmp_loop_zero:
  "memcmp_loop m p1 p2 n i = 0 \<longleftrightarrow> (\<forall>j. unat i \<le> j \<and> j < unat n \<longrightarrow> m (p1 + of_nat j) = m (p2 + of_nat j))"
proof (induction m p1 p2 n i rule: memcmp_loop.induct)
  case (1 m p1 p2 n i)
  show ?case
  proof (cases "i < n")
    case True
    have split: "(\<forall>j. unat i \<le> j \<and> j < unat n \<longrightarrow> P j) \<longleftrightarrow>
        P (unat i) \<and> (\<forall>j. unat (i + 1) \<le> j \<and> j < unat n \<longrightarrow> P j)" for P
      using True by (auto simp: unat_plus_one_less word_less_nat_alt Suc_le_eq dest: le_imp_less_or_eq)
    show ?thesis
    proof (cases "m (p1 + i) = m (p2 + i)")
      case eq: True
      with True "1.IH" show ?thesis
        by (subst split, subst memcmp_loop.simps) simp
    next
      case False
      with True show ?thesis
        by (subst split, subst memcmp_loop.simps) (simp add: word_uint_eq_iff)
    qed
  next
    case False
    then show ?thesis by (subst memcmp_loop.simps) (auto simp: word_less_nat_alt)
  qed
qed

lemma memcmp_zero_iff: "memcmp m p q n = 0 \<longleftrightarrow> bytes_at m p (unat n) = bytes_at m q (unat n)"
  by (simp add: memcmp_def memcmp_loop_zero bytes_at_eq_iff)

section \<open>Block copies\<close>

lemma memset_loop_store:
  "i \<le> n \<Longrightarrow> memset_loop m dest c n i = store_bytes m (dest + i) (replicate (unat n - unat i) c)"
proof (induction m dest c n i rule: memset_loop.induct)
  case (1 m dest c n i)
  show ?case
  proof (cases "i < n")
    case True
    then have le: "i + 1 \<le> n"
      by (simp add: word_le_nat_alt unat_plus_one_less word_less_nat_alt Suc_le_eq)
    have "unat n - unat i = Suc (unat n - unat (i + 1))"
      using True by (simp add: unat_plus_one_less word_less_nat_alt Suc_diff_Suc)
    with True "1.IH" le show ?thesis
      by (subst memset_loop.simps) (simp add: add.assoc del: fun_upd_apply)
  next
    case False
    with "1.prems" show ?thesis by (subst memset_loop.simps) simp
  qed
qed

lemma memset_store: "memset m dest c n = store_bytes m dest (replicate (unat n) (ucast c))"
  by (simp add: memset_def memset_loop_store)

lemma memcpy_loop_store:
  assumes "region d (unat n) \<inter> region s (unat n) = {}"
  shows "i \<le> n \<Longrightarrow> memcpy_loop m d s n i
      = store_bytes m (d + i) (bytes_at m (s + i) (unat n - unat i))"
  using assms
proof (induction m d s n i rule: memcpy_loop.induct)
  case (1 m d s n i)
  show ?case
  proof (cases "i < n")
    case True
    let ?m = "m(d + i := m (s + i))"
    have le: "i + 1 \<le> n"
      using True by (simp add: word_le_nat_alt unat_plus_one_less word_less_nat_alt Suc_le_eq)
    have k: "unat n - unat i = Suc (unat n - unat (i + 1))"
      using True by (simp add: unat_plus_one_less word_less_nat_alt Suc_diff_Suc)
    have "region (s + (i + 1)) (unat n - unat (i + 1)) \<subseteq> region s (unat n)"
      using region_tail_subset [of s "unat (i + 1)" "unat n - unat (i + 1)"] le
      by (simp add: word_le_nat_alt)
    moreover have "d + i \<in> region d (unat n)"
      using in_region [of "unat i" "unat n" d] True by (simp add: word_less_nat_alt)
    ultimately have frame: "d + i \<notin> region (s + (i + 1)) (unat n - unat (i + 1))"
      using "1.prems"(2) by blast
    have "memcpy_loop ?m d s n (i + 1)
        = store_bytes ?m (d + (i + 1)) (bytes_at ?m (s + (i + 1)) (unat n - unat (i + 1)))"
      by (rule "1.IH" [OF True le "1.prems"(2)])
    with True k show ?thesis
      by (subst memcpy_loop.simps) (simp add: bytes_at_upd [OF frame] add.assoc del: fun_upd_apply)
  next
    case False
    with "1.prems" show ?thesis by (subst memcpy_loop.simps) simp
  qed
qed

lemma memcpy_store:
  "region d (unat n) \<inter> region s (unat n) = {} \<Longrightarrow>
     memcpy m d s n = store_bytes m d (bytes_at m s (unat n))"
  using memcpy_loop_store [of d n s 0 m] by (simp add: memcpy_def)

lemma strcpy_store:
  "cstr_at m src s \<Longrightarrow> region dest (Suc (length s)) \<inter> region src (Suc (length s)) = {} \<Longrightarrow>
     strcpy m dest src = Some (store_bytes m dest (s @ [0]))"
proof (induction s arbitrary: m dest src)
  case Nil
  then show ?case by (subst strcpy.simps) simp
next
  case (Cons c s)
  have new: "dest \<notin> region (src + 1) (Suc (length s))"
    and dis: "region (dest + 1) (Suc (length s)) \<inter> region (src + 1) (Suc (length s)) = {}"
    using Cons.prems(2) by (auto simp: region_Suc [of dest "Suc (length s)"] region_Suc [of src "Suc (length s)"])
  have "cstr_at (m(dest := c)) (src + 1) s"
    using Cons.prems(1) by (simp add: cstr_at_upd [OF new] del: fun_upd_apply)
  from Cons.IH [OF this dis] Cons.prems(1) show ?case
    by (subst strcpy.simps) (simp del: fun_upd_apply)
qed

lemma strncpy_copy_store:
  assumes "region dest (unat n) \<inter> region src (Suc (length s)) = {}"
  shows "cstr_at m src s \<Longrightarrow> unat i \<le> length s \<Longrightarrow> i \<le> n \<Longrightarrow>
     strncpy_copy m dest src n i
       = (store_bytes m (dest + i) (take (unat n - unat i) (drop (unat i) s)),
          of_nat (min (unat n) (length s)))"
  using assms
proof (induction m dest src n i rule: strncpy_copy.induct)
  case (1 m dest src n i)
  have len: "length s < 4294967296" by (rule cstr_at_length [OF "1.prems"(1)])
  show ?case
  proof (cases "i < n \<and> unat i < length s")
    case True
    then have lt: "i < n" and li: "unat i < length s" by auto
    have suc: "unat (i + 1) = Suc (unat i)" by (rule unat_plus_one_less [OF lt])
    have c: "m (src + i) = s ! unat i" using cstr_at_nth [OF "1.prems"(1) li] by simp
    have nz: "m (src + i) \<noteq> 0"
      using c li cstr_at_nonzero [OF "1.prems"(1)] by (metis nth_mem)
    have "dest + i \<in> region dest (unat n)"
      using in_region [of "unat i" "unat n" dest] lt by (simp add: word_less_nat_alt)
    then have new: "dest + i \<notin> region src (Suc (length s))" using "1.prems"(4) by blast
    let ?m = "m(dest + i := m (src + i))"
    have "cstr_at ?m src s" using "1.prems"(1) by (simp add: cstr_at_upd [OF new])
    moreover have "i + 1 \<le> n"
      using lt by (simp add: word_le_nat_alt suc word_less_nat_alt Suc_le_eq)
    ultimately have "strncpy_copy ?m dest src n (i + 1)
        = (store_bytes ?m (dest + (i + 1)) (take (unat n - unat (i + 1)) (drop (unat (i + 1)) s)),
           of_nat (min (unat n) (length s)))"
      using "1.IH" lt nz li suc "1.prems"(4) by (simp del: fun_upd_apply)
    moreover have "take (unat n - unat i) (drop (unat i) s)
        = m (src + i) # take (unat n - unat (i + 1)) (drop (unat (i + 1)) s)"
      using lt li c suc by (simp add: Cons_nth_drop_Suc [symmetric] word_less_nat_alt Suc_diff_Suc [symmetric])
    ultimately show ?thesis
      using lt nz by (subst strncpy_copy.simps) (simp add: add.assoc del: fun_upd_apply)
  next
    case False
    then consider "i = n" | "unat i = length s" "i \<le> n"
      using "1.prems" by (metis le_neq_implies_less order_le_less)
    then show ?thesis
    proof cases
      case 1
      with \<open>unat i \<le> length s\<close> show ?thesis
        by (subst strncpy_copy.simps) (simp add: min_def)
    next
      case 2
      then have "m (src + i) = 0"
        using cstr_at_end [OF "1.prems"(1)] by (metis u32_eq_of_nat_unat)
      with 2 show ?thesis
        by (subst strncpy_copy.simps) (simp add: min_def word_le_nat_alt, metis u32_eq_of_nat_unat)
    qed
  qed
qed

lemma strncpy_store:
  assumes "cstr_at m src s" and "region dest (unat n) \<inter> region src (Suc (length s)) = {}"
  shows "strncpy m dest src n = store_bytes m dest (take (unat n) (s @ replicate (unat n) 0))"
proof -
  let ?k = "min (unat n) (length s)"
  have k: "unat (of_nat ?k :: u32) = ?k"
    using cstr_at_length [OF assms(1)] by simp
  have "strncpy m dest src n
      = memset_loop (store_bytes m dest (take (unat n) s)) dest 0 n (of_nat ?k)"
    using strncpy_copy_store [OF assms(2) assms(1), of 0] by (simp add: strncpy_def)
  also have "\<dots> = store_bytes (store_bytes m dest (take (unat n) s)) (dest + of_nat ?k)
      (replicate (unat n - ?k) 0)"
    using k by (subst memset_loop_store) (simp_all add: word_le_nat_alt)
  also have "\<dots> = store_bytes m dest (take (unat n) s @ replicate (unat n - ?k) 0)"
    by (simp add: store_bytes_append min.commute)
  finally show ?thesis by (simp add: min_def)
qed

lemma strcat_end_cstr: "cstr_at m d s \<Longrightarrow> strcat_end m d = Some (d + of_nat (length s))"
proof (induction s arbitrary: d)
  case Nil
  then show ?case by (subst strcat_end.simps) simp
next
  case (Cons c s)
  then have "strcat_end m (d + 1) = Some (d + 1 + of_nat (length s))" by simp
  with Cons.prems show ?case by (subst strcat_end.simps) (simp add: add.assoc)
qed

lemma strcat_store:
  assumes "cstr_at m dest s" and "cstr_at m src t"
    and "region dest (length s + Suc (length t)) \<inter> region src (Suc (length t)) = {}"
  shows "strcat m dest src = Some (store_bytes m (dest + of_nat (length s)) (t @ [0]))"
proof -
  have "region (dest + of_nat (length s)) (Suc (length t)) \<inter> region src (Suc (length t)) = {}"
    using assms(3) region_tail_subset [of dest "length s" "Suc (length t)"] by blast
  then show ?thesis
    using strcpy_store [OF assms(2)] by (simp add: strcat_def strcat_end_cstr [OF assms(1)])
qed

section \<open>Searching and tokenising\<close>

lemma strchr_loop_cstr:
  "cstr_at m p s \<Longrightarrow> c \<noteq> 0 \<Longrightarrow> strchr_loop m p c =
     Some (if c \<in> set s then p + of_nat (length (takeWhile (\<lambda>x. x \<noteq> c) s)) else NULL)"
proof (induction s arbitrary: p)
  case Nil
  then show ?case by (subst strchr_loop.simps) simp
next
  case (Cons a s)
  then have "strchr_loop m (p + 1) c =
     Some (if c \<in> set s then p + 1 + of_nat (length (takeWhile (\<lambda>x. x \<noteq> c) s)) else NULL)"
    by simp
  with Cons.prems show ?case by (subst strchr_loop.simps) (auto simp: add.assoc)
qed

lemma is_delim_cstr: "cstr_at m d ds \<Longrightarrow> is_delim_loop m c d = Some (c \<in> set ds)"
proof (induction ds arbitrary: d)
  case Nil
  then show ?case by (subst is_delim_loop.simps) simp
next
  case (Cons a ds)
  then show ?case by (subst is_delim_loop.simps) auto
qed

lemma strtok_r_skip_cstr:
  "cstr_at m d ds \<Longrightarrow> cstr_at m p s \<Longrightarrow>
     strtok_r_skip m d p = Some (p + of_nat (length (takeWhile (\<lambda>c. c \<in> set ds) s)))"
proof (induction s arbitrary: p)
  case Nil
  then show ?case by (subst strtok_r_skip.simps) simp
next
  case (Cons c s)
  then show ?case
    by (subst strtok_r_skip.simps) (simp add: is_delim_cstr add.assoc)
qed

lemma strtok_r_find_cstr:
  "cstr_at m d ds \<Longrightarrow> cstr_at m p s \<Longrightarrow>
     strtok_r_find m d p = Some (p + of_nat (length (takeWhile (\<lambda>c. c \<notin> set ds) s)))"
proof (induction s arbitrary: p)
  case Nil
  then show ?case by (subst strtok_r_find.simps) simp
next
  case (Cons c s)
  then show ?case
    by (subst strtok_r_find.simps) (simp add: is_delim_cstr add.assoc)
qed

text \<open>Cutting a string in memory at one of its positions.\<close>

lemma cstr_at_cut:
  assumes "cstr_at m p (s @ c # t)"
  shows "cstr_at (m(p + of_nat (length s) := 0)) p s"
    and "cstr_at (m(p + of_nat (length s) := 0)) (p + of_nat (length s) + 1) t"
proof -
  let ?e = "p + of_nat (length s)"
  have len: "length s + Suc (length t) < 4294967296" using cstr_at_length [OF assms] by simp
  have cut: "bytes_at m p (length s) = s" "0 \<notin> set s" "cstr_at m (?e + 1) t"
    using assms by (auto simp: cstr_at_append)
  have "?e \<notin> region p (length s)"
    by (rule region_offset_notin [of _ "Suc (length s)"]) (use len in simp_all)
  then show "cstr_at (m(?e := 0)) p s" using cut by (simp add: cstr_at_iff mem_simps)
  have "?e \<notin> region (?e + 1) (Suc (length t))"
  proof
    assume "?e \<in> region (?e + 1) (Suc (length t))"
    then obtain k where "k < Suc (length t)" and "(of_nat 0 :: u32) = of_nat (Suc k)"
      by (auto simp: region_def add.assoc)
    with len show False by (subst (asm) of_nat_u32_inject) simp_all
  qed
  then show "cstr_at (m(?e := 0)) (?e + 1) t" using cut(3) by (simp add: mem_simps)
qed

text \<open>One call on a string: leading delimiters are skipped, the maximal delimiter-free run that
  follows is the token, and the first delimiter after it is overwritten.\<close>

lemma strtok_r_none:
  assumes "cstr_at m d ds" and "p \<noteq> NULL" and "cstr_at m p s" and "set s \<subseteq> set ds"
  shows "strtok_r m p d save = Some (m, NULL, NULL)"
proof -
  have all: "takeWhile (\<lambda>c. c \<in> set ds) s = s" using assms(4) by (auto simp: takeWhile_eq_all_conv)
  then have "strtok_r_skip m d p = Some (p + of_nat (length s))"
    using strtok_r_skip_cstr [OF assms(1,3)] by (simp only: all)
  with assms(2) cstr_at_end [OF assms(3)] show ?thesis by (simp add: strtok_r_def Let_def)
qed

lemma strtok_r_some:
  assumes "cstr_at m d ds" and "p \<noteq> NULL" and "cstr_at m p (pre @ tok @ rest)"
    and "set pre \<subseteq> set ds" and "tok \<noteq> []" and "set tok \<inter> set ds = {}"
    and "rest = [] \<or> hd rest \<in> set ds"
  shows "strtok_r m p d save =
    (let start = p + of_nat (length pre); e = start + of_nat (length tok) in
     Some (if rest = [] then (m, NULL, start) else (m(e := 0), e + 1, start)))"
proof -
  let ?s = "pre @ tok @ rest"
  let ?start = "p + of_nat (length pre)"
  obtain c tok' where tok: "tok = c # tok'" using assms(5) by (cases tok) auto
  have "takeWhile (\<lambda>c. c \<in> set ds) ?s = pre"
    using assms(4,6) tok by (subst takeWhile_append2) auto
  then have skip: "strtok_r_skip m d p = Some ?start"
    using strtok_r_skip_cstr [OF assms(1,3)] by simp
  have cs: "cstr_at m ?start (tok @ rest)"
    using cstr_at_suffix [OF assms(3), of "length pre"] by simp
  then have nz: "m ?start \<noteq> 0" using tok by simp
  have "takeWhile (\<lambda>c. c \<notin> set ds) (tok @ rest) = tok"
    using assms(6,7) by (cases rest) (auto simp: takeWhile_append2 disjoint_iff)
  then have find: "strtok_r_find m d ?start = Some (?start + of_nat (length tok))"
    using strtok_r_find_cstr [OF assms(1) cs] by simp
  have "cstr_at m (?start + of_nat (length tok)) rest"
    using cstr_at_suffix [OF cs, of "length tok"] by simp
  then have e: "m (?start + of_nat (length tok)) = 0 \<longleftrightarrow> rest = []" by (cases rest) auto
  have "m p \<noteq> 0" using assms(3,5) by (cases pre) (auto simp: tok)
  with assms(2) skip nz find e show ?thesis by (simp add: strtok_r_def Let_def)
qed

section \<open>Numbers\<close>

lemma skip_space_cstr:
  "cstr_at m p (ws @ t) \<Longrightarrow> \<forall>c\<in>set ws. is_space c \<Longrightarrow> t = [] \<or> \<not> is_space (hd t) \<Longrightarrow>
     skip_space m p = Some (p + of_nat (length ws))"
proof (induction ws arbitrary: p)
  case Nil
  then have "\<not> is_space (m p)" by (cases t) (auto simp: is_space_def)
  then show ?case by (subst skip_space.simps) simp
next
  case (Cons c ws)
  then have "skip_space m (p + 1) = Some (p + 1 + of_nat (length ws))" by simp
  with Cons.prems show ?case by (subst skip_space.simps) (simp add: add.assoc)
qed

lemma strtol_digits_cstr:
  "cstr_at m p (ds @ t) \<Longrightarrow> \<forall>c\<in>set ds. is_digit_of base c \<Longrightarrow> t = [] \<or> \<not> is_digit_of base (hd t) \<Longrightarrow>
     strtol_digits m base p r
       = Some (p + of_nat (length ds), foldl (\<lambda>v c. v * base + the (digit_of c)) r ds)"
proof (induction ds arbitrary: p r)
  case Nil
  then show ?case
    by (subst strtol_digits.simps, cases t)
       (auto simp: is_digit_of_def not_less split: option.splits)
next
  case (Cons c ds)
  from Cons.prems obtain d where d: "digit_of c = Some d" "sint d < sint base"
    by (auto simp: is_digit_of_def split: option.splits)
  have "strtol_digits m base (p + 1) (r * base + d)
      = Some (p + 1 + of_nat (length ds), foldl (\<lambda>v c. v * base + the (digit_of c)) (r * base + d) ds)"
    by (rule Cons.IH) (use Cons.prems in auto)
  with Cons.prems d show ?case
    by (subst strtol_digits.simps) (simp add: add.assoc)
qed

lemma foldl_num_value:
  "foldl (\<lambda>v c. v * base + the (digit_of c)) (of_nat v) ds
     = (of_nat (foldl (\<lambda>v c. v * unat base + unat (the (digit_of c))) v ds) :: u32)"
proof (induction ds arbitrary: v)
  case (Cons c ds)
  have eq: "(of_nat v :: u32) * base + the (digit_of c)
      = of_nat (v * unat base + unat (the (digit_of c)))" by simp
  show ?case by (simp only: foldl_Cons eq Cons.IH)
qed simp

lemma strtol_digits_value:
  assumes "cstr_at m p (ds @ t)" "\<forall>c\<in>set ds. is_digit_of base c" "t = [] \<or> \<not> is_digit_of base (hd t)"
  shows "strtol_digits m base p 0 = Some (p + of_nat (length ds), of_nat (num_value base ds))"
  by (simp only: strtol_digits_cstr [OF assms] num_value_def foldl_num_value [of base 0 ds, symmetric]
      semiring_1_class.of_nat_0)

text \<open>The characters of the sign and prefix positions are not decimal digits, and digits are
  neither spaces nor signs.\<close>

lemma is_digit_of_not_space: "is_digit_of base c \<Longrightarrow> \<not> is_space c"
  by (auto simp: is_digit_of_def digit_of_def is_space_def split: if_splits)

lemma is_digit_of_not_sign: "is_digit_of base c \<Longrightarrow> c \<noteq> 45 \<and> c \<noteq> 43"
  by (auto simp: is_digit_of_def digit_of_def split: if_splits)

lemma strtol_decimal_gen:
  assumes cs: "cstr_at m p (ws @ sig @ ds @ t)"
    and ws: "\<forall>c\<in>set ws. is_space c" and sig: "sig = [] \<or> sig = [43] \<or> sig = [45]"
    and ds: "\<forall>c\<in>set ds. is_digit_of 10 c" "ds \<noteq> []" and t: "t = [] \<or> \<not> is_digit_of 10 (hd t)"
  shows "strtol m p 10 = Some
     (if sig = [45] then - of_nat (num_value 10 ds) else of_nat (num_value 10 ds),
      p + of_nat (length ws + length sig + length ds))"
proof -
  let ?s0 = "p + of_nat (length ws)" and ?s1 = "p + of_nat (length ws) + of_nat (length sig)"
  obtain d ds' where dd: "ds = d # ds'" using ds(2) by (cases ds) auto
  have d: "is_digit_of 10 d" using ds(1) dd by simp
  have "sig @ ds @ t = [] \<or> \<not> is_space (hd (sig @ ds @ t))"
    using sig is_digit_of_not_space [OF d] by (auto simp: dd is_space_def)
  then have skip: "skip_space m p = Some ?s0" by (rule skip_space_cstr [OF cs ws])
  have c0: "cstr_at m ?s0 (sig @ ds @ t)" using cstr_at_suffix [OF cs, of "length ws"] by simp
  then have c1: "cstr_at m ?s1 (ds @ t)" using cstr_at_suffix [of m ?s0 "sig @ ds @ t" "length sig"] by simp
  have sg: "strtol_sign m ?s0 = (sig = [45], ?s1)"
    using sig c0 is_digit_of_not_sign [OF d] by (auto simp: strtol_sign_def dd)
  have "strtol_digits m 10 ?s1 0 = Some (?s1 + of_nat (length ds), of_nat (num_value 10 ds))"
    by (rule strtol_digits_value [OF c1 ds(1) t])
  then show ?thesis
    by (simp add: strtol_def skip sg strtol_base_def add.assoc)
qed

section \<open>Repeated calls of strtok_r\<close>

lemma strtok_r_resume: "strtok_r m NULL d p = strtok_r m p d x" if "p \<noteq> NULL"
  using that by (simp add: strtok_r_def)

lemma strtok_r_stop: "strtok_r m NULL d NULL = Some (m, NULL, NULL)"
  by (simp add: strtok_r_def)

lemma strtok_r_calls_resume:
  "p \<noteq> NULL \<Longrightarrow> strtok_r_calls n m NULL d p = strtok_r_calls n m p d x"
  by (cases n) (simp_all add: strtok_r_resume [of p m d x])

lemma strtok_r_calls_stop: "strtok_r_calls n m NULL d NULL = Some (m, [])"
  by (cases n) (simp_all add: strtok_r_stop)

lemma tokens_split:
  assumes "dropWhile (\<lambda>c. c \<in> set ds) s \<noteq> []"
  obtains pre tok rest where "s = pre @ tok @ rest" "set pre \<subseteq> set ds" "tok \<noteq> []"
    "set tok \<inter> set ds = {}" "rest = [] \<or> hd rest \<in> set ds" "tokens ds s = tok # tokens ds (tl rest)"
proof -
  let ?r = "dropWhile (\<lambda>c. c \<in> set ds) s"
  let ?tok = "takeWhile (\<lambda>c. c \<notin> set ds) ?r" and ?rest = "dropWhile (\<lambda>c. c \<notin> set ds) ?r"
  have "hd ?r \<notin> set ds" using assms by (rule hd_dropWhile)
  then have tok: "?tok \<noteq> []" using assms by (cases ?r) auto
  have sp: "s = takeWhile (\<lambda>c. c \<in> set ds) s @ ?tok @ ?rest" by simp
  have pre: "set (takeWhile (\<lambda>c. c \<in> set ds) s) \<subseteq> set ds" by (auto dest: set_takeWhileD)
  have dis: "set ?tok \<inter> set ds = {}" by (auto dest: set_takeWhileD)
  have rest: "?rest = [] \<or> hd ?rest \<in> set ds"
    using hd_dropWhile [of "\<lambda>c. c \<notin> set ds" ?r] by auto
  have tk: "tokens ds s = ?tok # tokens ds (tl ?rest)"
    using assms by (subst tokens.simps) (simp add: Let_def)
  show ?thesis by (rule that [OF sp pre tok dis rest tk])
qed

lemma strtok_r_calls_tokens:
  assumes "cstr_at m d ds" and "cstr_at m p s" and "NULL \<notin> region p (Suc (length s))"
    and "region p (Suc (length s)) \<inter> region d (Suc (length ds)) = {}" and "length (tokens ds s) < n"
  shows "\<exists>m' ps. strtok_r_calls n m p d save = Some (m', ps) \<and> list_all2 (cstr_at m') ps (tokens ds s)
      \<and> (\<forall>a. a \<notin> region p (Suc (length s)) \<longrightarrow> m' a = m a)"
  using assms
proof (induction n arbitrary: m p s save)
  case (Suc n)
  have p: "p \<noteq> NULL" using Suc.prems(3) by (auto simp: region_Suc)
  show ?case
  proof (cases "dropWhile (\<lambda>c. c \<in> set ds) s = []")
    case True
    then have "strtok_r m p d save = Some (m, NULL, NULL)"
      by (intro strtok_r_none [OF Suc.prems(1) p Suc.prems(2)]) (auto simp: dropWhile_eq_Nil_conv)
    with True show ?thesis by (simp add: tokens.simps)
  next
    case False
    then obtain pre tok rest where sp: "s = pre @ tok @ rest" "set pre \<subseteq> set ds" "tok \<noteq> []"
      "set tok \<inter> set ds = {}" "rest = [] \<or> hd rest \<in> set ds" and tk: "tokens ds s = tok # tokens ds (tl rest)"
      by (rule tokens_split)
    let ?st = "p + of_nat (length pre)"
    let ?e = "?st + of_nat (length tok)"
    have call: "strtok_r m p d save =
      Some (if rest = [] then (m, NULL, ?st) else (m(?e := 0), ?e + 1, ?st))"
      using strtok_r_some [OF Suc.prems(1) p _ sp(2-5)] Suc.prems(2) sp(1) by (simp add: Let_def)
    have "?st \<in> region p (Suc (length s))" using sp(1) by (intro in_region) simp
    then have st: "?st \<noteq> NULL" using Suc.prems(3) by auto
    have cs: "cstr_at m ?st (tok @ rest)"
      using cstr_at_suffix [OF Suc.prems(2), of "length pre"] sp(1) by simp
    show ?thesis
    proof (cases rest)
      case Nil
      with call st cs tk show ?thesis
        by (auto simp: strtok_r_calls_stop tokens.simps [of ds "[]"])
    next
      case (Cons c rest')
      let ?m = "m(?e := 0)"
      have len: "length s < 4294967296" by (rule cstr_at_length [OF Suc.prems(2)])
      have ls: "Suc (length s) = (length pre + Suc (length tok)) + Suc (length rest')"
        using sp(1) Cons by simp
      have ein: "?e \<in> region p (Suc (length s))"
        using in_region [of "length pre + length tok" "Suc (length s)" p] ls by (simp add: add.assoc)
      have e1: "?e + 1 = p + of_nat (length pre + Suc (length tok))" by (simp add: add_ac)
      have sub: "region (?e + 1) (Suc (length rest')) \<subseteq> region p (Suc (length s))"
        unfolding e1 ls by (rule region_tail_subset)
      have "region p (length pre + Suc (length tok)) \<inter> region (?e + 1) (Suc (length rest')) = {}"
        unfolding e1 by (rule region_split_disjoint) (use len ls in linarith)
      moreover have "region ?st (Suc (length tok)) \<subseteq> region p (length pre + Suc (length tok))"
        by (rule region_tail_subset)
      ultimately have dis: "region ?st (Suc (length tok)) \<inter> region (?e + 1) (Suc (length rest')) = {}"
        by blast
      have cut: "cstr_at ?m ?st tok" "cstr_at ?m (?e + 1) rest'"
        using cstr_at_cut [of m ?st tok c rest'] cs Cons by auto
      have "cstr_at ?m d ds"
        using Suc.prems(1,4) ein by (subst cstr_at_upd) auto
      moreover have "?e + 1 \<in> region (?e + 1) (Suc (length rest'))" by (simp add: region_Suc)
      then have "?e + 1 \<noteq> NULL" using sub Suc.prems(3) by auto
      moreover have "length (tokens ds rest') < n" using Suc.prems(5) tk Cons by simp
      ultimately obtain m' ps where
        m': "strtok_r_calls n ?m (?e + 1) d NULL = Some (m', ps)" "list_all2 (cstr_at m') ps (tokens ds rest')"
          "\<And>a. a \<notin> region (?e + 1) (Suc (length rest')) \<Longrightarrow> m' a = ?m a"
        using Suc.IH [of ?m "?e + 1" rest' NULL] cut(2) sub Suc.prems(3,4) by blast
      have "m' a = ?m a" if "a \<in> region ?st (Suc (length tok))" for a
        using that m'(3) [of a] dis by blast
      then have "cstr_at m' ?st tok" using cut(1) cstr_at_cong by blast
      moreover have "m' a = m a" if "a \<notin> region p (Suc (length s))" for a
      proof -
        have "m' a = ?m a" by (rule m'(3)) (use that sub in blast)
        moreover have "a \<noteq> ?e" using that ein by blast
        ultimately show ?thesis by simp
      qed
      ultimately show ?thesis
        using call m'(1,2) st tk Cons strtok_r_calls_resume [OF \<open>?e + 1 \<noteq> NULL\<close>, of n ?m d NULL]
        by auto
    qed
  qed
qed simp

section \<open>Properties\<close>

text \<open>Further property: on two strings in memory \<^verbatim>\<open>strcmp\<close> returns, its result is zero exactly when the
  strings are equal, and negative exactly when the first is smaller in the lexicographic order of
  unsigned bytes.\<close>

theorem strcmp_orders:
  assumes "cstr_at m p s" and "cstr_at m q t"
  shows "\<exists>r. strcmp m p q = Some r \<and> (r = 0 \<longleftrightarrow> s = t) \<and> (r < 0 \<longleftrightarrow> (s, t) \<in> lexord {(a, b). a < b})"
  using strcmp_cstr [OF assms] cmp_bytes_zero cmp_bytes_neg cstr_at_nonzero [OF assms(1)]
    cstr_at_nonzero [OF assms(2)] by auto

definition demo_mem :: mem where
  "demo_mem = store_bytes (store_bytes (\<lambda>_. 0) 100 [44, 97, 98, 44, 44, 99, 0]) 200 [44, 0]"

lemma demo_mem_strings:
  "cstr_at demo_mem 100 [44, 97, 98, 44, 44, 99]" "cstr_at demo_mem 200 [44]"
  "cstr_at demo_mem 105 [99]"
  by (simp_all add: demo_mem_def)

theorem strcmp_orders_witness:
  "\<exists>r. strcmp demo_mem 200 105 = Some r \<and> (r = 0 \<longleftrightarrow> [44] = [99 :: u8])
     \<and> (r < 0 \<longleftrightarrow> ([44 :: u8], [99]) \<in> lexord {(a, b). a < b})"
  by (rule strcmp_orders [OF demo_mem_strings(2,3)])

text \<open>Further property: \<^verbatim>\<open>memcpy\<close> between ranges that do not overlap leaves at the destination the bytes
  the source held before, and changes no other byte of memory.\<close>

theorem memcpy_copies:
  assumes "region dest (unat n) \<inter> region src (unat n) = {}"
  shows "bytes_at (memcpy m dest src n) dest (unat n) = bytes_at m src (unat n)
     \<and> (\<forall>a. a \<notin> region dest (unat n) \<longrightarrow> memcpy m dest src n a = m a)"
proof -
  have "unat n \<le> 4294967296" using unat_u32_bound [of n] by linarith
  then show ?thesis
    using bytes_at_store_bytes [of "bytes_at m src (unat n)" m dest]
    by (simp add: memcpy_store [OF assms] store_bytes_other)
qed

theorem memcpy_copies_witness:
  "bytes_at (memcpy demo_mem 300 100 3) 300 (unat (3 :: u32)) = bytes_at demo_mem 100 (unat (3 :: u32))"
proof -
  have "region 300 (unat (3 :: u32)) \<inter> region 100 (unat (3 :: u32)) = {}"
    by (simp add: region_numeral region_Suc)
  from memcpy_copies [OF this, of demo_mem] show ?thesis by blast
qed

text \<open>Further property: \<^verbatim>\<open>strncpy\<close> fills exactly the \<open>n\<close> bytes of its destination, with the first \<open>n\<close>
  bytes of the source string padded by NUL bytes, and changes nothing else; so the copy is itself
  terminated exactly when the source is shorter than \<open>n\<close>.\<close>

theorem strncpy_fills:
  assumes "cstr_at m src s" and "region dest (unat n) \<inter> region src (Suc (length s)) = {}"
  shows "bytes_at (strncpy m dest src n) dest (unat n) = take (unat n) (s @ replicate (unat n) 0)
     \<and> (\<forall>a. a \<notin> region dest (unat n) \<longrightarrow> strncpy m dest src n a = m a)
     \<and> (0 \<in> set (bytes_at (strncpy m dest src n) dest (unat n)) \<longleftrightarrow> length s < unat n)"
proof -
  let ?bs = "take (unat n) (s @ replicate (unat n) 0) :: u8 list"
  have len: "length ?bs = unat n" by simp
  then have "length ?bs \<le> 4294967296" using unat_u32_bound [of n] by linarith
  then have at: "bytes_at (store_bytes m dest ?bs) dest (unat n) = ?bs"
    using bytes_at_store_bytes [of ?bs m dest] len by (simp del: length_take)
  moreover have "0 \<in> set ?bs \<longleftrightarrow> length s < unat n"
    using cstr_at_nonzero [OF assms(1)] by (auto dest: in_set_takeD)
  ultimately show ?thesis
    using len by (simp add: strncpy_store [OF assms] store_bytes_other del: length_take take_append)
qed

theorem strncpy_fills_witness:
  "bytes_at (strncpy demo_mem 300 105 4) 300 (unat (4 :: u32)) = [99, 0, 0, 0]"
proof -
  have "region 300 (unat (4 :: u32)) \<inter> region 105 (Suc (length [99 :: u8])) = {}"
    by (simp add: region_numeral region_Suc)
  from strncpy_fills [OF demo_mem_strings(3) this] show ?thesis by (simp add: bytes_at_numeral numeral_3_eq_3)
qed

text \<open>Further property: \<^verbatim>\<open>strcat\<close> returns, and afterwards the destination holds the concatenation of the
  two strings; only the bytes from the old terminator to the new one change.\<close>

theorem strcat_concat:
  assumes "cstr_at m dest s" and "cstr_at m src t"
    and "region dest (length s + Suc (length t)) \<inter> region src (Suc (length t)) = {}"
    and "length s + length t < 4294967295"
  shows "\<exists>m'. strcat m dest src = Some m' \<and> cstr_at m' dest (s @ t)
     \<and> (\<forall>a. a \<notin> region (dest + of_nat (length s)) (Suc (length t)) \<longrightarrow> m' a = m a)"
proof -
  let ?e = "dest + of_nat (length s)"
  let ?m = "store_bytes m ?e (t @ [0])"
  have frame: "?m a = m a" if "a \<notin> region ?e (Suc (length t))" for a
    using that by (simp add: store_bytes_other)
  have "region dest (length s) \<inter> region ?e (Suc (length t)) = {}"
    using assms(4) by (intro region_split_disjoint) simp
  then have "bytes_at ?m dest (length s) = bytes_at m dest (length s)"
    by (intro bytes_at_cong frame) blast
  moreover have "cstr_at ?m ?e t"
    using assms(4) cstr_at_nonzero [OF assms(2)] by (intro cstr_at_store_bytes) simp_all
  ultimately have "cstr_at ?m dest (s @ t)"
    using assms(1) by (simp add: cstr_at_append cstr_at_iff [of m dest])
  with frame show ?thesis using strcat_store [OF assms(1-3)] by blast
qed

theorem strcat_concat_witness:
  "\<exists>m'. strcat demo_mem 105 200 = Some m' \<and> cstr_at m' 105 [99, 44]"
proof -
  have "region 105 (length [99 :: u8] + Suc (length [44 :: u8])) \<inter> region 200 (Suc (length [44 :: u8])) = {}"
    by (simp add: region_Suc)
  from strcat_concat [OF demo_mem_strings(3,2) this] show ?thesis by auto
qed

text \<open>Property C19: calling \<^verbatim>\<open>strtok_r\<close> with a string and then with NULL until it returns NULL yields,
  in order, exactly the maximal delimiter-free runs of the string, each left in memory as a string of
  its own, and changes no byte outside the string.\<close>

theorem strtok_r_tokens:
  assumes "cstr_at m delim ds" and "cstr_at m p s" and "NULL \<notin> region p (Suc (length s))"
    and "region p (Suc (length s)) \<inter> region delim (Suc (length ds)) = {}" and "length (tokens ds s) < n"
  shows "\<exists>m' ps. strtok_r_calls n m p delim save = Some (m', ps)
      \<and> list_all2 (cstr_at m') ps (tokens ds s)
      \<and> (\<forall>a. a \<notin> region p (Suc (length s)) \<longrightarrow> m' a = m a)"
  by (rule strtok_r_calls_tokens [OF assms])

theorem strtok_r_tokens_witness:
  "\<exists>m' ps. strtok_r_calls 3 demo_mem 100 200 NULL = Some (m', ps)
      \<and> list_all2 (cstr_at m') ps [[97, 98], [99]]"
proof -
  have tk: "tokens [44] [44, 97, 98, 44, 44, 99] = [[97, 98], [99 :: u8]]"
    by (simp add: tokens.simps)
  have "NULL \<notin> region 100 (Suc (length [44, 97, 98, 44, 44, 99 :: u8]))"
    "region 100 (Suc (length [44, 97, 98, 44, 44, 99 :: u8])) \<inter> region 200 (Suc (length [44 :: u8])) = {}"
    by (simp_all add: region_Suc)
  from strtok_r_tokens [OF demo_mem_strings(2,1) this, of 3 NULL] show ?thesis
    unfolding tk by auto
qed

text \<open>Property C20: on an optional run of white space, an optional sign and decimal digits,
  \<^verbatim>\<open>strtol\<close> in base 10 returns the number the digits denote, negated after a minus sign and reduced to
  32 bits, and the position of the first character that is not a digit.\<close>

theorem strtol_decimal:
  assumes "cstr_at m p (ws @ sig @ ds @ t)"
    and "\<forall>c\<in>set ws. is_space c" and "sig = [] \<or> sig = [43] \<or> sig = [45]"
    and "\<forall>c\<in>set ds. is_digit_of 10 c" and "ds \<noteq> []" and "t = [] \<or> \<not> is_digit_of 10 (hd t)"
  shows "strtol m p 10 = Some
     (if sig = [45] then - of_nat (num_value 10 ds) else of_nat (num_value 10 ds),
      p + of_nat (length ws + length sig + length ds))"
  by (rule strtol_decimal_gen [OF assms])

theorem strtol_decimal_witness:
  "strtol (store_bytes (\<lambda>_. 0) 100 [32, 45, 52, 50, 59, 0]) 100 10 = Some (- 42, 104)"
proof -
  have "cstr_at (store_bytes (\<lambda>_. 0) 100 [32, 45, 52, 50, 59, 0]) 100 ([32] @ [45] @ [52, 50] @ [59])"
    by simp
  moreover have "is_digit_of 10 52" "is_digit_of 10 50" "\<not> is_digit_of 10 59" "is_space 32"
    by (code_simp+)
  moreover have "num_value 10 [52, 50] = 42" by code_simp
  ultimately show ?thesis
    using strtol_decimal [of "store_bytes (\<lambda>_. 0) 100 [32, 45, 52, 50, 59, 0]" 100 "[32]" "[45]" "[52, 50]" "[59]"]
    by simp
qed

end
