(* ===== verification/Libc_List.thy ===== *)
theory Libc_List
  imports Kernel_Prelude "HOL-Library.Multiset"
begin

text \<open>
  The intrusive doubly linked list of \<^verbatim>\<open>libc/kernel/list.c\<close>. The heap maps the address of a
  \<^verbatim>\<open>list_element_t\<close> to its two links; the \<^verbatim>\<open>list_t\<close> header is a record, and the list argument of
  the C functions, which each of them tests against NULL, is an optional header. \<open>dll h l xs\<close>
  says that the header \<open>l\<close> represents the sequence \<open>xs\<close> of element addresses in the heap \<open>h\<close>: the
  operations are shown to refine the operations on sequences, to keep the representation, and to
  leave every other element of the heap alone. The locale \<open>deque\<close> is the interface the clients of
  the list use as a queue or a stack.
\<close>

section \<open>Data\<close>

record list_element_t =
  e_next :: ptr
  e_prev :: ptr

record list_t =
  l_head :: ptr
  l_tail :: ptr
  l_size :: u32

type_synonym dheap = "ptr \<Rightarrow> list_element_t"

definition set_next :: "dheap \<Rightarrow> ptr \<Rightarrow> ptr \<Rightarrow> dheap" where
  "set_next h a v = h(a := (h a)\<lparr>e_next := v\<rparr>)"

definition set_prev :: "dheap \<Rightarrow> ptr \<Rightarrow> ptr \<Rightarrow> dheap" where
  "set_prev h a v = h(a := (h a)\<lparr>e_prev := v\<rparr>)"

section \<open>Operations\<close>

definition list_init :: "list_t option \<Rightarrow> list_t option" where
  "list_init list = (case list of None \<Rightarrow> None
     | Some l \<Rightarrow> Some (l\<lparr>l_head := NULL, l_tail := NULL, l_size := 0\<rparr>))"

definition list_append :: "dheap \<Rightarrow> list_t option \<Rightarrow> ptr \<Rightarrow> dheap \<times> list_t option" where
  "list_append h list element = (case list of None \<Rightarrow> (h, None)
     | Some l \<Rightarrow>
       if element = NULL then (h, Some l)
       else
         let h1 = set_next h element NULL;
             h2 = set_prev h1 element (l_tail l);
             (h3, l1) = (if l_tail l \<noteq> NULL then (set_next h2 (l_tail l) element, l)
                         else (h2, l\<lparr>l_head := element\<rparr>))
         in (h3, Some (l1\<lparr>l_tail := element, l_size := l_size l1 + 1\<rparr>)))"

definition list_remove_head :: "dheap \<Rightarrow> list_t option \<Rightarrow> ptr \<times> dheap \<times> list_t option" where
  "list_remove_head h list = (case list of None \<Rightarrow> (NULL, h, None)
     | Some l \<Rightarrow>
       if l_size l = 0 then (NULL, h, Some l)
       else
         let element = l_head l;
             l1 = l\<lparr>l_head := e_next (h element)\<rparr>;
             (h1, l2) = (if l_head l1 \<noteq> NULL then (set_prev h (l_head l1) NULL, l1)
                         else (h, l1\<lparr>l_tail := NULL\<rparr>));
             h2 = set_prev (set_next h1 element NULL) element NULL
         in (element, h2, Some (l2\<lparr>l_size := l_size l2 - 1\<rparr>)))"

definition list_remove_tail :: "dheap \<Rightarrow> list_t option \<Rightarrow> ptr \<times> dheap \<times> list_t option" where
  "list_remove_tail h list = (case list of None \<Rightarrow> (NULL, h, None)
     | Some l \<Rightarrow>
       if l_size l = 0 then (NULL, h, Some l)
       else
         let element = l_tail l;
             l1 = l\<lparr>l_tail := e_prev (h element)\<rparr>;
             (h1, l2) = (if l_tail l1 \<noteq> NULL then (set_next h (l_tail l1) NULL, l1)
                         else (h, l1\<lparr>l_head := NULL\<rparr>));
             h2 = set_prev (set_next h1 element NULL) element NULL
         in (element, h2, Some (l2\<lparr>l_size := l_size l2 - 1\<rparr>)))"

definition list_prepend :: "dheap \<Rightarrow> list_t option \<Rightarrow> ptr \<Rightarrow> dheap \<times> list_t option" where
  "list_prepend h list element = (case list of None \<Rightarrow> (h, None)
     | Some l \<Rightarrow>
       if element = NULL then (h, Some l)
       else
         let h1 = set_prev h element NULL;
             h2 = set_next h1 element (l_head l);
             (h3, l1) = (if l_head l \<noteq> NULL then (set_prev h2 (l_head l) element, l)
                         else (h2, l\<lparr>l_tail := element\<rparr>))
         in (h3, Some (l1\<lparr>l_head := element, l_size := l_size l1 + 1\<rparr>)))"

definition list_remove :: "dheap \<Rightarrow> list_t option \<Rightarrow> ptr \<Rightarrow> dheap \<times> list_t option" where
  "list_remove h list element = (case list of None \<Rightarrow> (h, None)
     | Some l \<Rightarrow>
       if element = NULL then (h, Some l)
       else if l_size l = 0 then (h, Some l)
       else
         let (h1, l1) = (if e_prev (h element) \<noteq> NULL
                         then (set_next h (e_prev (h element)) (e_next (h element)), l)
                         else (h, l\<lparr>l_head := e_next (h element)\<rparr>));
             (h2, l2) = (if e_next (h1 element) \<noteq> NULL
                         then (set_prev h1 (e_next (h1 element)) (e_prev (h1 element)), l1)
                         else (h1, l1\<lparr>l_tail := e_prev (h1 element)\<rparr>));
             h3 = set_prev (set_next h2 element NULL) element NULL
         in (h3, Some (l2\<lparr>l_size := l_size l2 - 1\<rparr>)))"

definition list_insert_after :: "dheap \<Rightarrow> list_t option \<Rightarrow> ptr \<Rightarrow> ptr \<Rightarrow> dheap \<times> list_t option" where
  "list_insert_after h list aft element = (case list of None \<Rightarrow> (h, None)
     | Some l \<Rightarrow>
       if aft = NULL \<or> element = NULL then (h, Some l)
       else
         let h1 = set_prev h element aft;
             h2 = set_next h1 element (e_next (h1 aft));
             (h3, l1) = (if e_next (h2 aft) \<noteq> NULL then (set_prev h2 (e_next (h2 aft)) element, l)
                         else (h2, l\<lparr>l_tail := element\<rparr>));
             h4 = set_next h3 aft element
         in (h4, Some (l1\<lparr>l_size := l_size l1 + 1\<rparr>)))"

definition list_insert_before :: "dheap \<Rightarrow> list_t option \<Rightarrow> ptr \<Rightarrow> ptr \<Rightarrow> dheap \<times> list_t option" where
  "list_insert_before h list bef element = (case list of None \<Rightarrow> (h, None)
     | Some l \<Rightarrow>
       if bef = NULL \<or> element = NULL then (h, Some l)
       else
         let h1 = set_next h element bef;
             h2 = set_prev h1 element (e_prev (h1 bef));
             (h3, l1) = (if e_prev (h2 bef) \<noteq> NULL then (set_next h2 (e_prev (h2 bef)) element, l)
                         else (h2, l\<lparr>l_head := element\<rparr>));
             h4 = set_prev h3 bef element
         in (h4, Some (l1\<lparr>l_size := l_size l1 + 1\<rparr>)))"

text \<open>The search of \<^verbatim>\<open>list_insert_sorted\<close>: the first element that is not smaller than the new one,
  or NULL at the end. On a cyclic structure the C loop need not end, hence the option.\<close>

partial_function (option) insert_sorted_find ::
    "(ptr \<Rightarrow> ptr \<Rightarrow> int) \<Rightarrow> dheap \<Rightarrow> ptr \<Rightarrow> ptr \<Rightarrow> ptr option" where
  "insert_sorted_find cmp h element current =
     (if current = NULL then Some NULL
      else if cmp element current \<le> 0 then Some current
      else insert_sorted_find cmp h element (e_next (h current)))"

definition list_insert_sorted :: "dheap \<Rightarrow> list_t option \<Rightarrow> ptr \<Rightarrow> (ptr \<Rightarrow> ptr \<Rightarrow> int) option
    \<Rightarrow> (dheap \<times> list_t option) option" where
  "list_insert_sorted h list element compare_func =
     (case list of None \<Rightarrow> Some (h, None)
      | Some l \<Rightarrow>
        (case compare_func of None \<Rightarrow> Some (h, Some l)
         | Some cmp \<Rightarrow>
           if element = NULL then Some (h, Some l)
           else if l_size l = 0 then Some (list_append h (Some l) element)
           else Option.bind (insert_sorted_find cmp h element (l_head l))
                  (\<lambda>current. Some (if current \<noteq> NULL then list_insert_before h (Some l) current element
                                   else list_append h (Some l) element))))"

definition list_is_empty :: "list_t option \<Rightarrow> bool" where
  "list_is_empty list = (case list of None \<Rightarrow> True | Some l \<Rightarrow> l_size l = 0)"

definition list_size :: "list_t option \<Rightarrow> u32" where
  "list_size list = (case list of None \<Rightarrow> 0 | Some l \<Rightarrow> l_size l)"

definition list_head :: "list_t option \<Rightarrow> ptr" where
  "list_head list = (case list of None \<Rightarrow> NULL | Some l \<Rightarrow> l_head l)"

definition list_tail :: "list_t option \<Rightarrow> ptr" where
  "list_tail list = (case list of None \<Rightarrow> NULL | Some l \<Rightarrow> l_tail l)"

definition list_next :: "dheap \<Rightarrow> ptr \<Rightarrow> ptr" where
  "list_next h element = (if element = NULL then NULL else e_next (h element))"

definition list_prev :: "dheap \<Rightarrow> ptr \<Rightarrow> ptr" where
  "list_prev h element = (if element = NULL then NULL else e_prev (h element))"

section \<open>Representation of a sequence\<close>

text \<open>\<open>dseg h p xs q\<close>: the elements \<open>xs\<close> are linked to each other in both directions, the first one's
  \<^verbatim>\<open>prev\<close> is \<open>p\<close> and the last one's \<^verbatim>\<open>next\<close> is \<open>q\<close>.\<close>

definition first_or :: "ptr list \<Rightarrow> ptr \<Rightarrow> ptr" where
  "first_or xs q = (case xs of [] \<Rightarrow> q | x # _ \<Rightarrow> x)"

definition last_or :: "ptr \<Rightarrow> ptr list \<Rightarrow> ptr" where
  "last_or p xs = (if xs = [] then p else last xs)"

primrec dseg :: "dheap \<Rightarrow> ptr \<Rightarrow> ptr list \<Rightarrow> ptr \<Rightarrow> bool" where
  "dseg h p [] q \<longleftrightarrow> True"
| "dseg h p (x # xs) q \<longleftrightarrow> e_prev (h x) = p \<and> e_next (h x) = first_or xs q \<and> dseg h x xs q"

definition dll :: "dheap \<Rightarrow> list_t \<Rightarrow> ptr list \<Rightarrow> bool" where
  "dll h l xs \<longleftrightarrow> distinct xs \<and> NULL \<notin> set xs \<and> dseg h NULL xs NULL
     \<and> l_head l = first_or xs NULL \<and> l_tail l = last_or NULL xs \<and> l_size l = of_nat (length xs)"

text \<open>Following the links from the head, or backwards from the tail.\<close>

primrec walk :: "nat \<Rightarrow> (ptr \<Rightarrow> ptr) \<Rightarrow> ptr \<Rightarrow> ptr list" where
  "walk 0 step a = []"
| "walk (Suc n) step a = (if a = NULL then [] else a # walk n step (step a))"

section \<open>Links and segments\<close>

lemma first_or_simps [dll_simps, simp]:
  "first_or [] q = q" "first_or (x # xs) q = x" "first_or (xs @ ys) q = first_or xs (first_or ys q)"
  by (auto simp: first_or_def split: list.splits)

lemma last_or_simps [dll_simps, simp]:
  "last_or p [] = p" "last_or p (x # xs) = last_or x xs" "last_or p (xs @ ys) = last_or (last_or p xs) ys"
  by (auto simp: last_or_def)

lemma link_simps [dll_simps, simp]:
  "e_next (set_next h a v b) = (if a = b then v else e_next (h b))"
  "e_prev (set_next h a v b) = e_prev (h b)"
  "e_prev (set_prev h a v b) = (if a = b then v else e_prev (h b))"
  "e_next (set_prev h a v b) = e_next (h b)"
  by (simp_all add: set_next_def set_prev_def)

lemma link_other [dll_simps, simp]:
  "a \<noteq> b \<Longrightarrow> set_next h a v b = h b" "a \<noteq> b \<Longrightarrow> set_prev h a v b = h b"
  by (simp_all add: set_next_def set_prev_def)

lemma dseg_cong: "(\<And>a. a \<in> set xs \<Longrightarrow> h a = h' a) \<Longrightarrow> dseg h p xs q = dseg h' p xs q"
  by (induction xs arbitrary: p) auto

lemma dseg_upd [dll_simps, simp]:
  "a \<notin> set xs \<Longrightarrow> dseg (set_next h a v) p xs q = dseg h p xs q"
  "a \<notin> set xs \<Longrightarrow> dseg (set_prev h a v) p xs q = dseg h p xs q"
  by (rule dseg_cong; metis link_other)+

lemma dseg_append [dll_simps, simp]:
  "dseg h p (xs @ ys) q \<longleftrightarrow> dseg h p xs (first_or ys q) \<and> dseg h (last_or p xs) ys q"
  by (induction xs arbitrary: p) auto

lemma last_or_mem: "last_or p xs = y \<Longrightarrow> y = p \<or> y \<in> set xs"
  by (auto simp: last_or_def)

lemma first_or_mem: "first_or xs q = y \<Longrightarrow> y = q \<or> y \<in> set xs"
  by (auto simp: first_or_def split: list.splits)

lemma dll_length: "dll h l xs \<Longrightarrow> length xs < 4294967296"
  by (simp add: dll_def distinct_ptr_length)

lemma dll_size: "dll h l xs \<Longrightarrow> unat (l_size l) = length xs"
  using dll_length [of h l xs] by (simp add: dll_def)

lemma dll_size_0: "dll h l xs \<Longrightarrow> l_size l = 0 \<longleftrightarrow> xs = []"
  using dll_size [of h l xs] by (metis length_0_conv unsigned_0 unsigned_word_eqI)

lemma dll_frame: "dll h l xs \<Longrightarrow> (\<And>a. a \<in> set xs \<Longrightarrow> h' a = h a) \<Longrightarrow> dll h' l xs"
  using dseg_cong [of xs h h'] by (simp add: dll_def)

lemma dll_null_tail: "dll h l xs \<Longrightarrow> l_tail l = NULL \<longleftrightarrow> xs = []"
  by (cases xs rule: rev_cases) (auto simp: dll_def)

lemma dll_null_head: "dll h l xs \<Longrightarrow> l_head l = NULL \<longleftrightarrow> xs = []"
  by (cases xs) (auto simp: dll_def)

section \<open>Every operation refines the operation on sequences\<close>

lemma dll_init: "\<exists>l'. list_init (Some l) = Some l' \<and> dll h l' []"
  by (simp add: list_init_def dll_def)

lemma dll_append:
  assumes "dll h l xs" and "e \<noteq> NULL" and "e \<notin> set xs"
  shows "\<exists>h' l'. list_append h (Some l) e = (h', Some l') \<and> dll h' l' (xs @ [e])
     \<and> (\<forall>a. a \<notin> set xs \<and> a \<noteq> e \<longrightarrow> h' a = h a)"
  using assms by (cases xs rule: rev_cases) (auto simp: list_append_def dll_def Let_def)

lemma dll_prepend:
  assumes "dll h l xs" and "e \<noteq> NULL" and "e \<notin> set xs"
  shows "\<exists>h' l'. list_prepend h (Some l) e = (h', Some l') \<and> dll h' l' (e # xs)
     \<and> (\<forall>a. a \<notin> set xs \<and> a \<noteq> e \<longrightarrow> h' a = h a)"
  using assms by (cases xs) (auto simp: list_prepend_def dll_def Let_def)

lemma dll_remove_head:
  assumes "dll h l (x # xs)"
  shows "\<exists>h' l'. list_remove_head h (Some l) = (x, h', Some l') \<and> dll h' l' xs
     \<and> h' x = \<lparr>e_next = NULL, e_prev = NULL\<rparr> \<and> (\<forall>a. a \<notin> set (x # xs) \<longrightarrow> h' a = h a)"
  using assms dll_size_0 [OF assms]
  by (cases xs) (auto simp: list_remove_head_def dll_def Let_def intro: list_element_t.equality)

lemma dll_remove_tail:
  assumes "dll h l (xs @ [x])"
  shows "\<exists>h' l'. list_remove_tail h (Some l) = (x, h', Some l') \<and> dll h' l' xs
     \<and> h' x = \<lparr>e_next = NULL, e_prev = NULL\<rparr> \<and> (\<forall>a. a \<notin> set (xs @ [x]) \<longrightarrow> h' a = h a)"
  using assms dll_size_0 [OF assms]
  by (cases xs rule: rev_cases)
     (auto simp: list_remove_tail_def dll_def Let_def intro: list_element_t.equality)

lemma dll_remove_head_empty: "dll h l [] \<Longrightarrow> list_remove_head h (Some l) = (NULL, h, Some l)"
  by (simp add: list_remove_head_def dll_def)

lemma dll_remove_tail_empty: "dll h l [] \<Longrightarrow> list_remove_tail h (Some l) = (NULL, h, Some l)"
  by (simp add: list_remove_tail_def dll_def)

lemma dll_remove:
  assumes "dll h l (xs @ e # ys)"
  shows "\<exists>h' l'. list_remove h (Some l) e = (h', Some l') \<and> dll h' l' (xs @ ys)
     \<and> h' e = \<lparr>e_next = NULL, e_prev = NULL\<rparr> \<and> (\<forall>a. a \<notin> set (xs @ e # ys) \<longrightarrow> h' a = h a)"
  using assms dll_size_0 [OF assms]
  by (cases xs rule: rev_cases; cases ys)
     (auto simp: list_remove_def dll_def Let_def intro: list_element_t.equality)

lemma dll_insert_after:
  assumes "dll h l (xs @ x # ys)" and "e \<noteq> NULL" and "e \<notin> set (xs @ x # ys)"
  shows "\<exists>h' l'. list_insert_after h (Some l) x e = (h', Some l') \<and> dll h' l' (xs @ x # e # ys)
     \<and> (\<forall>a. a \<notin> set (xs @ x # ys) \<and> a \<noteq> e \<longrightarrow> h' a = h a)"
  using assms
  by (cases ys) (auto simp: list_insert_after_def dll_def Let_def)

lemma dll_insert_before:
  assumes "dll h l (xs @ x # ys)" and "e \<noteq> NULL" and "e \<notin> set (xs @ x # ys)"
  shows "\<exists>h' l'. list_insert_before h (Some l) x e = (h', Some l') \<and> dll h' l' (xs @ e # x # ys)
     \<and> (\<forall>a. a \<notin> set (xs @ x # ys) \<and> a \<noteq> e \<longrightarrow> h' a = h a)"
  using assms
  by (cases xs rule: rev_cases) (auto simp: list_insert_before_def dll_def Let_def)

section \<open>Sorted insertion and traversal\<close>

lemma insert_sorted_find_dseg:
  "dseg h p xs NULL \<Longrightarrow> NULL \<notin> set xs \<Longrightarrow>
     insert_sorted_find cmp h e (first_or xs NULL) = Some (first_or (dropWhile (\<lambda>y. cmp e y > 0) xs) NULL)"
proof (induction xs arbitrary: p)
  case Nil
  then show ?case by (subst insert_sorted_find.simps) simp
next
  case (Cons x xs)
  then have "insert_sorted_find cmp h e (first_or xs NULL)
      = Some (first_or (dropWhile (\<lambda>y. cmp e y > 0) xs) NULL)" by auto
  with Cons.prems show ?case by (subst insert_sorted_find.simps) auto
qed

lemma dll_insert_sorted:
  assumes dll: "dll h l xs" and e: "e \<noteq> NULL" "e \<notin> set xs"
  shows "\<exists>h' l'. list_insert_sorted h (Some l) e (Some cmp) = Some (h', Some l')
     \<and> dll h' l' (takeWhile (\<lambda>y. cmp e y > 0) xs @ e # dropWhile (\<lambda>y. cmp e y > 0) xs)
     \<and> (\<forall>a. a \<notin> set xs \<and> a \<noteq> e \<longrightarrow> h' a = h a)"
proof (cases "dropWhile (\<lambda>y. cmp e y > 0) xs")
  case Nil
  then have all: "takeWhile (\<lambda>y. cmp e y > 0) xs = xs"
    by (metis append_Nil2 takeWhile_dropWhile_id)
  have "list_insert_sorted h (Some l) e (Some cmp) = Some (list_append h (Some l) e)"
    using insert_sorted_find_dseg [of h NULL xs cmp e] dll e Nil
    by (simp add: list_insert_sorted_def dll_def)
  then show ?thesis using dll_append [OF dll e] unfolding all Nil by simp
next
  case (Cons x ys)
  let ?xs = "takeWhile (\<lambda>y. cmp e y > 0) xs"
  have xs: "xs = ?xs @ x # ys" using Cons takeWhile_dropWhile_id [of "\<lambda>y. cmp e y > 0" xs] by simp
  then have x: "x \<noteq> NULL" using dll by (metis dll_def in_set_conv_decomp)
  have "l_size l \<noteq> 0" using dll_size_0 [OF dll] xs by (metis append_is_Nil_conv list.distinct(1))
  then have "list_insert_sorted h (Some l) e (Some cmp) = Some (list_insert_before h (Some l) x e)"
    using insert_sorted_find_dseg [of h NULL xs cmp e] dll e Cons x
    by (simp add: list_insert_sorted_def dll_def)
  then show ?thesis
    using dll_insert_before [of h l ?xs x ys e] dll e xs Cons by (metis Un_iff set_append)
qed

text \<open>If the comparison is the order of a key, sorted lists stay sorted.\<close>

lemma sorted_insert_position:
  assumes "sorted_wrt (\<lambda>x y. key x \<le> key y) xs" and "\<And>y. y \<in> set xs \<Longrightarrow> (0 < cmp e y) = (key y < key e)"
  shows "sorted_wrt (\<lambda>x y. key x \<le> (key y :: int))
     (takeWhile (\<lambda>y. cmp e y > 0) xs @ e # dropWhile (\<lambda>y. cmp e y > 0) xs)"
  using assms
proof (induction xs)
  case (Cons x xs)
  show ?case
  proof (cases "cmp e x > 0")
    case True
    then have "key x < key e" using Cons.prems(2) [of x] by simp
    with Cons True show ?thesis by (auto dest: set_takeWhileD set_dropWhileD)
  next
    case False
    then have "key e \<le> key x" using Cons.prems(2) [of x] by simp
    with Cons False show ?thesis by (auto intro: order_trans)
  qed
qed simp

lemma walk_next_take:
  "dseg h p xs NULL \<Longrightarrow> NULL \<notin> set xs \<Longrightarrow> walk n (list_next h) (first_or xs NULL) = take n xs"
proof (induction xs arbitrary: n p)
  case Nil
  then show ?case by (cases n) simp_all
next
  case (Cons x xs)
  then show ?case by (cases n) (auto simp: list_next_def)
qed

lemma walk_prev_dseg:
  "dseg h NULL xs q \<Longrightarrow> NULL \<notin> set xs \<Longrightarrow> length xs \<le> n \<Longrightarrow>
     walk n (list_prev h) (last_or NULL xs) = rev xs"
proof (induction xs arbitrary: n q rule: rev_induct)
  case Nil
  then show ?case by (cases n) simp_all
next
  case (snoc x xs)
  then obtain k where "n = Suc k" by (cases n) auto
  with snoc show ?case by (auto simp: list_prev_def)
qed

section \<open>The queue and stack interface\<close>

text \<open>What a client relies on: \<open>rep s xs\<close> relates a state to the sequence it holds, elements that
  enter are not NULL and not yet in the sequence, and removal returns \<open>nil\<close> on the empty one.\<close>

primrec drain :: "('s \<Rightarrow> 'e \<times> 's) \<Rightarrow> nat \<Rightarrow> 's \<Rightarrow> 'e list \<times> 's" where
  "drain rm 0 s = ([], s)"
| "drain rm (Suc n) s = (let (e, s1) = rm s; (es, s2) = drain rm n s1 in (e # es, s2))"

locale deque =
  fixes rep :: "'s \<Rightarrow> 'e list \<Rightarrow> bool" and nil :: 'e
    and app pre :: "'s \<Rightarrow> 'e \<Rightarrow> 's" and rmh rmt :: "'s \<Rightarrow> 'e \<times> 's"
  assumes app: "rep s xs \<Longrightarrow> e \<noteq> nil \<Longrightarrow> e \<notin> set xs \<Longrightarrow> rep (app s e) (xs @ [e])"
    and pre: "rep s xs \<Longrightarrow> e \<noteq> nil \<Longrightarrow> e \<notin> set xs \<Longrightarrow> rep (pre s e) (e # xs)"
    and rmh: "rep s (x # xs) \<Longrightarrow> fst (rmh s) = x \<and> rep (snd (rmh s)) xs"
    and rmt: "rep s (xs @ [x]) \<Longrightarrow> fst (rmt s) = x \<and> rep (snd (rmt s)) xs"
    and rmh_empty: "rep s [] \<Longrightarrow> rmh s = (nil, s)"
    and rmt_empty: "rep s [] \<Longrightarrow> rmt s = (nil, s)"
begin

lemma app_all:
  "rep s xs \<Longrightarrow> distinct (xs @ es) \<Longrightarrow> nil \<notin> set es \<Longrightarrow> rep (foldl app s es) (xs @ es)"
proof (induction es arbitrary: s xs)
  case (Cons e es)
  then show ?case using Cons.IH [of "app s e" "xs @ [e]"] app [of s xs e] by auto
qed simp

lemma pre_all:
  "rep s xs \<Longrightarrow> distinct (es @ xs) \<Longrightarrow> nil \<notin> set es \<Longrightarrow> rep (foldl pre s es) (rev es @ xs)"
proof (induction es arbitrary: s xs)
  case (Cons e es)
  then show ?case using Cons.IH [of "pre s e" "e # xs"] pre [of s xs e] by auto
qed simp

lemma drain_head:
  "rep s (xs @ ys) \<Longrightarrow> fst (drain rmh (length xs) s) = xs \<and> rep (snd (drain rmh (length xs) s)) ys"
proof (induction xs arbitrary: s)
  case (Cons x xs)
  then show ?case
    using rmh [of s x "xs @ ys"] Cons.IH [of "snd (rmh s)"] by (simp add: Let_def split_beta)
qed simp

lemma drain_tail:
  "rep s (ys @ rev xs) \<Longrightarrow> fst (drain rmt (length xs) s) = xs \<and> rep (snd (drain rmt (length xs) s)) ys"
proof (induction xs arbitrary: s)
  case (Cons x xs)
  then show ?case
    using rmt [of s "ys @ rev xs" x] Cons.IH [of "snd (rmt s)"] by (simp add: Let_def split_beta)
qed simp

lemma queue_order:
  assumes "rep s []" and "distinct es" and "nil \<notin> set es"
  shows "fst (drain rmh (length es) (foldl app s es)) = es"
  using drain_head [of "foldl app s es" es "[]"] app_all [of s "[]" es] assms by simp

lemma stack_order:
  assumes "rep s []" and "distinct es" and "nil \<notin> set es"
  shows "fst (drain rmt (length es) (foldl app s es)) = rev es"
    and "fst (drain rmh (length es) (foldl pre s es)) = rev es"
  using drain_tail [of "foldl app s es" "[]" "rev es"] app_all [of s "[]" es]
    drain_head [of "foldl pre s es" "rev es" "[]"] pre_all [of s "[]" es] assms by simp_all

lemma drain_beyond:
  assumes "rep s xs" shows "fst (rmh (snd (drain rmh (length xs) s))) = nil"
  using drain_head [of s xs "[]"] rmh_empty assms by fastforce

end

text \<open>The list with its header, as one state.\<close>

type_synonym dl_state = "dheap \<times> list_t option"

definition dl_rep :: "dl_state \<Rightarrow> ptr list \<Rightarrow> bool" where
  "dl_rep s xs \<longleftrightarrow> (case snd s of None \<Rightarrow> False | Some l \<Rightarrow> dll (fst s) l xs)"

definition dl_append :: "dl_state \<Rightarrow> ptr \<Rightarrow> dl_state" where
  "dl_append s e = list_append (fst s) (snd s) e"

definition dl_prepend :: "dl_state \<Rightarrow> ptr \<Rightarrow> dl_state" where
  "dl_prepend s e = list_prepend (fst s) (snd s) e"

definition dl_remove_head :: "dl_state \<Rightarrow> ptr \<times> dl_state" where
  "dl_remove_head s = list_remove_head (fst s) (snd s)"

definition dl_remove_tail :: "dl_state \<Rightarrow> ptr \<times> dl_state" where
  "dl_remove_tail s = list_remove_tail (fst s) (snd s)"

lemmas dl_defs = dl_rep_def dl_append_def dl_prepend_def dl_remove_head_def dl_remove_tail_def

interpretation dlq: deque dl_rep NULL dl_append dl_prepend dl_remove_head dl_remove_tail
proof unfold_locales
  fix s xs e assume "dl_rep s xs" "e \<noteq> NULL" "e \<notin> set xs"
  then show "dl_rep (dl_append s e) (xs @ [e])" and "dl_rep (dl_prepend s e) (e # xs)"
    using dll_append dll_prepend by (fastforce simp: dl_defs split: option.splits)+
next
  fix s x xs assume "dl_rep s (x # xs)"
  then show "fst (dl_remove_head s) = x \<and> dl_rep (snd (dl_remove_head s)) xs"
    using dll_remove_head by (fastforce simp: dl_defs split: option.splits)
next
  fix s xs x assume "dl_rep s (xs @ [x])"
  then show "fst (dl_remove_tail s) = x \<and> dl_rep (snd (dl_remove_tail s)) xs"
    using dll_remove_tail by (fastforce simp: dl_defs split: option.splits)
next
  fix s assume "dl_rep s []"
  then show "dl_remove_head s = (NULL, s)" and "dl_remove_tail s = (NULL, s)"
    by (auto simp: dl_defs dll_remove_head_empty dll_remove_tail_empty prod_eq_iff split: option.splits)
qed

section \<open>Sequences of operations\<close>

text \<open>A client's calls on one list, their effect on the model and on the sequence it represents.
  \<open>seq_ok\<close> is what the code leaves to its callers: an element that enters is not NULL and is not in
  the list, and the element named in a removal or as a position is in it.\<close>

datatype list_op = Append ptr | Prepend ptr | Remove_Head | Remove_Tail | Remove ptr
  | Insert_After ptr ptr | Insert_Before ptr ptr

fun list_step :: "dl_state \<Rightarrow> list_op \<Rightarrow> dl_state" where
  "list_step (h, l) (Append e) = list_append h l e"
| "list_step (h, l) (Prepend e) = list_prepend h l e"
| "list_step (h, l) Remove_Head = snd (list_remove_head h l)"
| "list_step (h, l) Remove_Tail = snd (list_remove_tail h l)"
| "list_step (h, l) (Remove e) = list_remove h l e"
| "list_step (h, l) (Insert_After x e) = list_insert_after h l x e"
| "list_step (h, l) (Insert_Before x e) = list_insert_before h l x e"

fun seq_step :: "ptr list \<Rightarrow> list_op \<Rightarrow> ptr list" where
  "seq_step xs (Append e) = xs @ [e]"
| "seq_step xs (Prepend e) = e # xs"
| "seq_step xs Remove_Head = tl xs"
| "seq_step xs Remove_Tail = butlast xs"
| "seq_step xs (Remove e) = remove1 e xs"
| "seq_step xs (Insert_After x e) = concat (map (\<lambda>y. if y = x then [y, e] else [y]) xs)"
| "seq_step xs (Insert_Before x e) = concat (map (\<lambda>y. if y = x then [e, y] else [y]) xs)"

fun seq_ok :: "ptr list \<Rightarrow> list_op \<Rightarrow> bool" where
  "seq_ok xs (Append e) \<longleftrightarrow> e \<noteq> NULL \<and> e \<notin> set xs"
| "seq_ok xs (Prepend e) \<longleftrightarrow> e \<noteq> NULL \<and> e \<notin> set xs"
| "seq_ok xs Remove_Head \<longleftrightarrow> True"
| "seq_ok xs Remove_Tail \<longleftrightarrow> True"
| "seq_ok xs (Remove e) \<longleftrightarrow> e \<in> set xs"
| "seq_ok xs (Insert_After x e) \<longleftrightarrow> x \<in> set xs \<and> e \<noteq> NULL \<and> e \<notin> set xs"
| "seq_ok xs (Insert_Before x e) \<longleftrightarrow> x \<in> set xs \<and> e \<noteq> NULL \<and> e \<notin> set xs"

primrec seq_ok_all :: "ptr list \<Rightarrow> list_op list \<Rightarrow> bool" where
  "seq_ok_all xs [] \<longleftrightarrow> True"
| "seq_ok_all xs (op # ops) \<longleftrightarrow> seq_ok xs op \<and> seq_ok_all (seq_step xs op) ops"

lemma concat_map_unchanged: "x \<notin> set xs \<Longrightarrow> concat (map (\<lambda>y. if y = x then f y else [y]) xs) = xs"
  by (induction xs) auto

lemma list_step_refines:
  assumes "dl_rep s xs" and "seq_ok xs op"
  shows "dl_rep (list_step s op) (seq_step xs op)"
proof -
  obtain h l where s: "s = (h, Some l)" and dll: "dll h l xs"
    using assms(1) by (cases s) (auto simp: dl_rep_def split: option.splits)
  have d: "distinct xs" using dll by (simp add: dll_def)
  show ?thesis
  proof (cases op)
    case (Append e)
    then show ?thesis using dll_append [OF dll, of e] assms(2) by (auto simp: s dl_rep_def)
  next
    case (Prepend e)
    then show ?thesis using dll_prepend [OF dll, of e] assms(2) by (auto simp: s dl_rep_def)
  next
    case Remove_Head
    then show ?thesis using dll dll_remove_head [of h l "hd xs" "tl xs"]
      by (cases xs) (auto simp: s dl_rep_def dll_remove_head_empty)
  next
    case Remove_Tail
    then show ?thesis using dll dll_remove_tail [of h l "butlast xs" "last xs"]
      by (cases xs rule: rev_cases) (auto simp: s dl_rep_def dll_remove_tail_empty)
  next
    case (Remove e)
    then obtain as bs where "xs = as @ e # bs" "e \<notin> set as"
      using assms(2) by (auto dest: split_list_first)
    then show ?thesis using dll dll_remove [of h l as e bs] Remove
      by (auto simp: s dl_rep_def remove1_append)
  next
    case (Insert_After x e)
    then obtain as bs where "xs = as @ x # bs" using assms(2) by (auto dest: split_list)
    then show ?thesis using dll d assms(2) dll_insert_after [of h l as x bs e] Insert_After
      by (auto simp: s dl_rep_def concat_map_unchanged)
  next
    case (Insert_Before x e)
    then obtain as bs where "xs = as @ x # bs" using assms(2) by (auto dest: split_list)
    then show ?thesis using dll d assms(2) dll_insert_before [of h l as x bs e] Insert_Before
      by (auto simp: s dl_rep_def concat_map_unchanged)
  qed
qed

section \<open>Properties\<close>

text \<open>Property C21: any sequence of appends, prepends, removals and positional inserts that respects
  the callers' obligations takes a list representing a sequence of elements to a list representing
  the sequence the same operations compute: the links in both directions, head, tail and size stay
  consistent.\<close>

theorem list_ops_refine:
  assumes "dl_rep s xs" and "seq_ok_all xs ops"
  shows "dl_rep (foldl list_step s ops) (foldl seq_step xs ops)"
  using assms
proof (induction ops arbitrary: s xs)
  case (Cons op ops)
  then show ?case using list_step_refines [of s xs op] by simp
qed simp

definition empty_list :: dl_state where
  "empty_list = ((\<lambda>_. \<lparr>e_next = 0, e_prev = 0\<rparr>), list_init (Some \<lparr>l_head = 7, l_tail = 7, l_size = 7\<rparr>))"

lemma empty_list_rep: "dl_rep empty_list []"
  by (simp add: empty_list_def dl_rep_def list_init_def dll_def)

theorem list_ops_refine_witness:
  "dl_rep (foldl list_step empty_list [Append 16, Prepend 32, Insert_After 32 48, Remove 16]) [32, 48]"
  using list_ops_refine [OF empty_list_rep, of "[Append 16, Prepend 32, Insert_After 32 48, Remove 16]"]
  by simp

text \<open>Further property: used as a queue, the list returns elements in the order they were appended; and
  one more removal returns NULL.\<close>

theorem list_queue_order:
  assumes "dl_rep s []" and "distinct es" and "NULL \<notin> set es"
  shows "fst (drain dl_remove_head (length es) (foldl dl_append s es)) = es
     \<and> fst (dl_remove_head (snd (drain dl_remove_head (length es) (foldl dl_append s es)))) = NULL"
  using dlq.queue_order [OF assms] dlq.app_all [of s "[]" es] dlq.drain_beyond [of "foldl dl_append s es" es] assms
  by simp

theorem list_queue_order_witness:
  "fst (drain dl_remove_head 3 (foldl dl_append empty_list [8, 24, 16])) = [8, 24, 16]"
  using list_queue_order [OF empty_list_rep, of "[8, 24, 16]"] by (simp add: numeral_3_eq_3)

text \<open>Property C22: sorted insertion always returns on a well-formed list; when the comparison is the
  order of a key and the list is sorted by it, the result is sorted and holds exactly the old
  elements and the new one.\<close>

theorem list_insert_sorted_sorted:
  assumes "dll h l xs" and "e \<noteq> NULL" and "e \<notin> set xs"
    and "\<And>x y. cmp x y = key x - (key y :: int)" and "sorted_wrt (\<lambda>x y. key x \<le> key y) xs"
  shows "\<exists>h' l' ys. list_insert_sorted h (Some l) e (Some cmp) = Some (h', Some l') \<and> dll h' l' ys
     \<and> sorted_wrt (\<lambda>x y. key x \<le> key y) ys \<and> mset ys = add_mset e (mset xs)"
proof -
  let ?P = "\<lambda>y. cmp e y > 0"
  let ?ys = "takeWhile ?P xs @ e # dropWhile ?P xs"
  have "mset ?ys = add_mset e (mset (takeWhile ?P xs @ dropWhile ?P xs))"
    by (simp del: takeWhile_dropWhile_id)
  then have ys: "mset ?ys = add_mset e (mset xs)" by (simp only: takeWhile_dropWhile_id)
  have "sorted_wrt (\<lambda>x y. key x \<le> key y) ?ys"
    by (rule sorted_insert_position [OF assms(5)]) (simp add: assms(4))
  then show ?thesis using dll_insert_sorted [OF assms(1-3), of cmp] ys by blast
qed

theorem list_insert_sorted_sorted_witness:
  "\<exists>h' l' ys. list_insert_sorted (\<lambda>_. \<lparr>e_next = 0, e_prev = 0\<rparr>)
       (Some \<lparr>l_head = 16, l_tail = 16, l_size = 1\<rparr>) 8 (Some (\<lambda>x y. uint x - uint y)) = Some (h', Some l')
     \<and> dll h' l' ys \<and> mset ys = {#8, 16#}"
proof -
  have "dll (\<lambda>_. \<lparr>e_next = 0, e_prev = 0\<rparr>) \<lparr>l_head = 16, l_tail = 16, l_size = 1\<rparr> [16]"
    by (simp add: dll_def)
  from list_insert_sorted_sorted [OF this, of 8 "\<lambda>x y. uint x - uint y" uint] show ?thesis by auto
qed

text \<open>Further property: following \<^verbatim>\<open>list_next\<close> from the head visits the elements in order, following
  \<^verbatim>\<open>list_prev\<close> from the tail visits them in reverse, both ending after exactly \<^verbatim>\<open>list_size\<close> steps.\<close>

theorem list_traversal:
  assumes "dll h l xs"
  shows "walk n (list_next h) (list_head (Some l)) = take n xs
     \<and> walk (unat (list_size (Some l))) (list_next h) (list_head (Some l)) = xs
     \<and> walk (unat (list_size (Some l))) (list_prev h) (list_tail (Some l)) = rev xs
     \<and> (list_is_empty (Some l) \<longleftrightarrow> xs = [])"
proof -
  have "walk n (list_next h) (list_head (Some l)) = take n xs"
    using assms walk_next_take [of h NULL xs n] by (simp add: dll_def list_head_def)
  then show ?thesis
    using assms walk_next_take [of h NULL xs "length xs"] walk_prev_dseg [of h xs NULL "length xs"]
      dll_size [OF assms] dll_size_0 [OF assms]
    by (simp add: dll_def list_head_def list_tail_def list_size_def list_is_empty_def)
qed

theorem list_traversal_witness:
  "walk 5 (list_next (\<lambda>_. \<lparr>e_next = 0, e_prev = 0\<rparr>))
     (list_head (Some \<lparr>l_head = 16, l_tail = 16, l_size = 1\<rparr>)) = [16]"
proof -
  have "dll (\<lambda>_. \<lparr>e_next = 0, e_prev = 0\<rparr>) \<lparr>l_head = 16, l_tail = 16, l_size = 1\<rparr> [16]"
    by (simp add: dll_def)
  from list_traversal [OF this, of 5] show ?thesis by simp
qed

end
