(* ===== verification/Libc_Bitmap.thy ===== *)
theory Libc_Bitmap
  imports Kernel_Prelude
begin

text \<open>
  The bitmap of \<^verbatim>\<open>libc/include/kernel/bitmap.h\<close>: an array of 32-bit words, bit \<open>i\<close> of the map being
  bit \<open>i mod 32\<close> of word \<open>i div 32\<close>. The C index is an \<^verbatim>\<open>int32_t\<close> divided by the unsigned
  \<^verbatim>\<open>BITSET_WORD_SIZE\<close>, so the division is unsigned and the index a \<open>u32\<close>; an access outside the
  array is \<open>None\<close>. The locale \<open>bit_set\<close> states what a client of the bitmap relies on: the map is
  a set of indices, with membership, insertion and deletion.
\<close>

section \<open>Definitions\<close>

type_synonym bitmap = "u32 list"

definition BITSET_WORD_SIZE :: u32 where
  "BITSET_WORD_SIZE = 32"

definition bitmap_word :: "u32 \<Rightarrow> nat" where
  "bitmap_word idx = unat (idx div BITSET_WORD_SIZE)"

definition bitmap_mask :: "u32 \<Rightarrow> u32" where
  "bitmap_mask idx = push_bit (unat (idx mod BITSET_WORD_SIZE)) 1"

definition bitmap_set :: "bitmap \<Rightarrow> u32 \<Rightarrow> bitmap option" where
  "bitmap_set bm idx =
     (if bitmap_word idx < length bm
      then Some (bm[bitmap_word idx := bm ! bitmap_word idx OR bitmap_mask idx]) else None)"

definition bitmap_unset :: "bitmap \<Rightarrow> u32 \<Rightarrow> bitmap option" where
  "bitmap_unset bm idx =
     (if bitmap_word idx < length bm
      then Some (bm[bitmap_word idx := bm ! bitmap_word idx AND NOT (bitmap_mask idx)]) else None)"

definition bitmap_test :: "bitmap \<Rightarrow> u32 \<Rightarrow> bool option" where
  "bitmap_test bm idx =
     (if bitmap_word idx < length bm
      then Some (bm ! bitmap_word idx AND bitmap_mask idx \<noteq> 0) else None)"

function bitmap_first_free_loop :: "bitmap \<Rightarrow> u32 \<Rightarrow> u32 \<Rightarrow> u32 option" where
  "bitmap_first_free_loop bm max_bits i =
     (if i < max_bits
      then case bitmap_test bm i of
             None \<Rightarrow> None
           | Some b \<Rightarrow> if \<not> b then Some i else bitmap_first_free_loop bm max_bits (i + 1)
      else Some (- 1))"
  by pat_completeness auto
termination
  by (relation "measure (\<lambda>(bm, n, i). unat n - unat i)")
     (auto simp: unat_plus_one_less word_less_nat_alt)

definition bitmap_first_free :: "bitmap \<Rightarrow> u32 \<Rightarrow> u32 option" where
  "bitmap_first_free bm max_bits = bitmap_first_free_loop bm max_bits 0"

declare bitmap_first_free_loop.simps [simp del]

text \<open>The set of indices a bitmap stands for.\<close>

definition bitmap_bits :: "bitmap \<Rightarrow> u32 set" where
  "bitmap_bits bm = {i. bitmap_test bm i = Some True}"

section \<open>Bits of the words\<close>

lemma bitmap_index_inject:
  "bitmap_word i = bitmap_word j \<Longrightarrow> unat (i mod 32) = unat (j mod 32) \<Longrightarrow> i = j"
  by (metis BITSET_WORD_SIZE_def bitmap_word_def div_mult_mod_eq unsigned_word_eqI)

lemma bitmap_word_less: "bitmap_word i < n \<longleftrightarrow> unat i < 32 * n"
  by (simp add: bitmap_word_def BITSET_WORD_SIZE_def unat_div div_less_iff_less_mult mult.commute)

lemma mod32_less: "unat (i mod 32 :: u32) < 32"
  by (simp add: unat_mod)

lemma bit_bitmap_mask: "n < 32 \<Longrightarrow> bit (bitmap_mask i) n \<longleftrightarrow> n = unat (i mod 32)"
  by (auto simp: bitmap_mask_def BITSET_WORD_SIZE_def bit_simps)

lemma bitmap_test_bit:
  "bitmap_test bm i =
     (if unat i < 32 * length bm then Some (bit (bm ! bitmap_word i) (unat (i mod 32))) else None)"
  by (simp add: bitmap_test_def bitmap_mask_def BITSET_WORD_SIZE_def bitmap_word_less
      bit_iff_and_push_bit_not_eq_0)

text \<open>Changing one word of the array by a function that only touches the bit of the mask.\<close>

lemma bitmap_test_update:
  assumes "unat i < 32 * length bm" and "bit w (unat (i mod 32)) = b"
    and "\<And>n. n < 32 \<Longrightarrow> n \<noteq> unat (i mod 32) \<Longrightarrow> bit w n = bit (bm ! bitmap_word i) n"
  shows "bitmap_test (bm[bitmap_word i := w]) j = (if j = i then Some b else bitmap_test bm j)"
proof -
  have lt: "bitmap_word i < length bm" using assms(1) by (simp add: bitmap_word_less)
  show ?thesis
  proof (cases "bitmap_word j = bitmap_word i")
    case False
    then show ?thesis by (auto simp: bitmap_test_bit)
  next
    case True
    have "j = i \<or> unat (j mod 32) \<noteq> unat (i mod 32)" using True bitmap_index_inject by blast
    then show ?thesis
    proof
      assume "j = i"
      then show ?thesis using assms lt by (simp add: bitmap_test_bit)
    next
      assume ne: "unat (j mod 32) \<noteq> unat (i mod 32)"
      then have "j \<noteq> i" by auto
      moreover have "bit w (unat (j mod 32)) = bit (bm ! bitmap_word i) (unat (j mod 32))"
        by (rule assms(3) [OF mod32_less ne])
      ultimately show ?thesis using True lt by (simp add: bitmap_test_bit)
    qed
  qed
qed

lemma bitmap_test_set:
  assumes "unat i < 32 * length bm"
  obtains bm' where "bitmap_set bm i = Some bm'" "length bm' = length bm"
    "\<And>j. bitmap_test bm' j = (if j = i then Some True else bitmap_test bm j)"
proof -
  let ?w = "bm ! bitmap_word i OR bitmap_mask i"
  have "bit ?w (unat (i mod 32)) = True" using mod32_less [of i] by (simp add: bit_or_iff bit_bitmap_mask)
  moreover have "bit ?w n = bit (bm ! bitmap_word i) n" if "n < 32" "n \<noteq> unat (i mod 32)" for n
    using that by (simp add: bit_or_iff bit_bitmap_mask)
  ultimately show ?thesis
    using that [of "bm[bitmap_word i := ?w]"] assms bitmap_test_update [OF assms]
    by (simp add: bitmap_set_def bitmap_word_less)
qed

lemma bitmap_test_unset:
  assumes "unat i < 32 * length bm"
  obtains bm' where "bitmap_unset bm i = Some bm'" "length bm' = length bm"
    "\<And>j. bitmap_test bm' j = (if j = i then Some False else bitmap_test bm j)"
proof -
  let ?w = "bm ! bitmap_word i AND NOT (bitmap_mask i)"
  have "bit ?w (unat (i mod 32)) = False"
    using mod32_less [of i] by (simp add: bit_and_iff bit_not_iff bit_bitmap_mask)
  moreover have "bit ?w n = bit (bm ! bitmap_word i) n" if "n < 32" "n \<noteq> unat (i mod 32)" for n
    using that by (auto simp: bit_and_iff bit_not_iff bit_bitmap_mask)
  ultimately show ?thesis
    using that [of "bm[bitmap_word i := ?w]"] assms bitmap_test_update [OF assms]
    by (simp add: bitmap_unset_def bitmap_word_less)
qed

section \<open>The interface of a bit set\<close>

locale bit_set =
  fixes nbits :: "'s \<Rightarrow> nat" and tst :: "'s \<Rightarrow> u32 \<Rightarrow> bool option"
    and st un :: "'s \<Rightarrow> u32 \<Rightarrow> 's option"
  assumes tst_range: "tst s i = None \<longleftrightarrow> nbits s \<le> unat i"
    and st_range: "nbits s \<le> unat i \<Longrightarrow> st s i = None"
    and un_range: "nbits s \<le> unat i \<Longrightarrow> un s i = None"
    and st_test: "unat i < nbits s \<Longrightarrow> \<exists>s'. st s i = Some s' \<and> nbits s' = nbits s
          \<and> (\<forall>j. tst s' j = (if j = i then Some True else tst s j))"
    and un_test: "unat i < nbits s \<Longrightarrow> \<exists>s'. un s i = Some s' \<and> nbits s' = nbits s
          \<and> (\<forall>j. tst s' j = (if j = i then Some False else tst s j))"
begin

lemma st_members:
  assumes "unat i < nbits s"
  shows "\<exists>s'. st s i = Some s' \<and> {j. tst s' j = Some True} = insert i {j. tst s j = Some True}"
  using st_test [OF assms] by auto

lemma un_members:
  assumes "unat i < nbits s"
  shows "\<exists>s'. un s i = Some s' \<and> {j. tst s' j = Some True} = {j. tst s j = Some True} - {i}"
  using un_test [OF assms] by auto

lemma st_un_restores:
  assumes "tst s i = Some False"
  shows "\<exists>s' s''. st s i = Some s' \<and> un s' i = Some s'' \<and> (\<forall>j. tst s'' j = tst s j)"
proof -
  have "unat i < nbits s" using assms tst_range [of s i] by (metis not_le option.distinct(1))
  then show ?thesis using assms st_test [of i s] un_test [of i] by (metis (full_types))
qed

text \<open>A client that marks a list of indices: afterwards exactly these have been added.\<close>

lemma mark_all:
  assumes "\<forall>i\<in>set is. unat i < nbits s"
  shows "\<exists>s'. fold (\<lambda>i r. Option.bind r (\<lambda>s. st s i)) is (Some s) = Some s'
      \<and> {j. tst s' j = Some True} = set is \<union> {j. tst s j = Some True}"
  using assms
proof (induction "is" arbitrary: s)
  case (Cons i "is")
  obtain s1 where s1: "st s i = Some s1" "nbits s1 = nbits s"
    "\<forall>j. tst s1 j = (if j = i then Some True else tst s j)"
    using st_test [of i s] Cons.prems by auto
  then have "{j. tst s1 j = Some True} = insert i {j. tst s j = Some True}" by auto
  then show ?case using Cons.IH [of s1] Cons.prems s1 by auto
qed simp

end

interpretation bm: bit_set "\<lambda>bm. 32 * length bm" bitmap_test bitmap_set bitmap_unset
proof unfold_locales
  fix s i
  show "(bitmap_test s i = None) = (32 * length s \<le> unat i)" by (auto simp: bitmap_test_bit)
  show "bitmap_set s i = None" "bitmap_unset s i = None" if "32 * length s \<le> unat i"
    using that bitmap_word_less [of i "length s"] by (simp_all add: bitmap_set_def bitmap_unset_def)
  show "\<exists>s'. bitmap_set s i = Some s' \<and> 32 * length s' = 32 * length s
      \<and> (\<forall>j. bitmap_test s' j = (if j = i then Some True else bitmap_test s j))" if "unat i < 32 * length s"
    using bitmap_test_set [OF that] by metis
  show "\<exists>s'. bitmap_unset s i = Some s' \<and> 32 * length s' = 32 * length s
      \<and> (\<forall>j. bitmap_test s' j = (if j = i then Some False else bitmap_test s j))" if "unat i < 32 * length s"
    using bitmap_test_unset [OF that] by metis
qed

section \<open>The search for a free bit\<close>

lemma bitmap_first_free_loop_result:
  assumes "unat max_bits \<le> 32 * length bm"
  shows "\<exists>r. bitmap_first_free_loop bm max_bits i = Some r
     \<and> (r = - 1 \<and> (\<forall>j. i \<le> j \<and> j < max_bits \<longrightarrow> j \<in> bitmap_bits bm)
      \<or> i \<le> r \<and> r < max_bits \<and> r \<notin> bitmap_bits bm \<and> (\<forall>j. i \<le> j \<and> j < r \<longrightarrow> j \<in> bitmap_bits bm))"
  using assms
proof (induction bm max_bits i rule: bitmap_first_free_loop.induct)
  case (1 bm max_bits i)
  show ?case
  proof (cases "i < max_bits")
    case False
    then show ?thesis by (subst bitmap_first_free_loop.simps) auto
  next
    case True
    have "bitmap_test bm i \<noteq> None"
      using True "1.prems" by (simp add: bitmap_test_bit word_less_nat_alt)
    then obtain b where b: "bitmap_test bm i = Some b" by auto
    have next_i: "i \<le> j \<longleftrightarrow> j = i \<or> i + 1 \<le> j" for j
      using True unat_plus_one_less [OF True]
      by (auto simp: word_le_nat_alt dest: unsigned_word_eqI le_imp_less_or_eq)
    show ?thesis
    proof (cases b)
      case False
      with True b show ?thesis
        by (subst bitmap_first_free_loop.simps) (auto simp: bitmap_bits_def)
    next
      case set: True
      with b have i_in: "i \<in> bitmap_bits bm" by (simp add: bitmap_bits_def)
      have "bitmap_first_free_loop bm max_bits i = bitmap_first_free_loop bm max_bits (i + 1)"
        using True b set by (subst bitmap_first_free_loop.simps) simp
      with "1.IH" [OF True b] "1.prems" set i_in next_i show ?thesis by (metis (full_types))
    qed
  qed
qed

section \<open>Properties\<close>

text \<open>Further property: within the array, \<^verbatim>\<open>bitmap_set\<close> adds and \<^verbatim>\<open>bitmap_unset\<close> removes exactly the given
  index of the set the bitmap stands for and \<^verbatim>\<open>bitmap_test\<close> decides membership; outside the array
  all three are out-of-bounds accesses.\<close>

theorem bitmap_is_set:
  "(if unat i < 32 * length bm
    then (\<exists>bm'. bitmap_set bm i = Some bm' \<and> bitmap_bits bm' = insert i (bitmap_bits bm))
       \<and> (\<exists>bm'. bitmap_unset bm i = Some bm' \<and> bitmap_bits bm' = bitmap_bits bm - {i})
       \<and> bitmap_test bm i = Some (i \<in> bitmap_bits bm)
    else bitmap_set bm i = None \<and> bitmap_unset bm i = None \<and> bitmap_test bm i = None)"
  using bm.st_members [of i bm] bm.un_members [of i bm] bm.tst_range [of bm i]
    bm.st_range [of bm i] bm.un_range [of bm i]
  by (auto simp: bitmap_bits_def)

text \<open>Property C23: \<^verbatim>\<open>bitmap_first_free\<close> over bits that lie inside the array returns the least clear
  index below \<^verbatim>\<open>max_bits\<close>, and -1 exactly when every bit below \<^verbatim>\<open>max_bits\<close> is set.\<close>

theorem bitmap_first_free_least:
  assumes "unat max_bits \<le> 32 * length bm"
  shows "\<exists>r. bitmap_first_free bm max_bits = Some r
     \<and> (r = - 1 \<longleftrightarrow> (\<forall>j < max_bits. j \<in> bitmap_bits bm))
     \<and> (r \<noteq> - 1 \<longrightarrow> r < max_bits \<and> r \<notin> bitmap_bits bm \<and> (\<forall>j < r. j \<in> bitmap_bits bm))"
proof -
  have "\<not> (- 1 :: u32) < max_bits" by (simp add: not_less word_order.extremum)
  then show ?thesis
    using bitmap_first_free_loop_result [OF assms, of 0]
    by (auto simp: bitmap_first_free_def)
qed

theorem bitmap_first_free_least_witness:
  "\<exists>r. bitmap_first_free [- 1, 5] 64 = Some r \<and> r < 64 \<and> r \<notin> bitmap_bits [- 1, 5]"
proof -
  have "33 \<notin> bitmap_bits [- 1, 5]" by (simp add: bitmap_bits_def) code_simp
  moreover have "(33 :: u32) < 64" by simp
  ultimately show ?thesis using bitmap_first_free_least [of 64 "[- 1, 5]"] by auto
qed

end
