(* ===== verification/Libc_Printf.thy ===== *)
theory Libc_Printf
  imports Libc_String
begin

text \<open>
  The formatted output of \<^verbatim>\<open>libc/vsprintf.c\<close> on the flat memory. The formatter is the state machine
  of the C code: one step reads one format character in one of six states, and the loop runs steps
  until the character is NUL. A variable argument list is the list of its 32-bit slots, a \<^verbatim>\<open>long long\<close>
  taking two; reading past its end has no defined result, which is \<open>None\<close>, as is a scan that
  never ends. \<^verbatim>\<open>int\<close> and \<^verbatim>\<open>long\<close> are 32 bits. \<^verbatim>\<open>fmt_int\<close> and \<^verbatim>\<open>fmt_chr\<close> first determine the characters
  to put (they read no memory) and then put them one after the other.
\<close>

section \<open>Helpers\<close>

definition is_digit :: "u8 \<Rightarrow> bool" where
  "is_digit c \<longleftrightarrow> sint c \<ge> 48 \<and> sint c \<le> 57"

partial_function (option) get_atoi_loop :: "mem \<Rightarrow> ptr \<Rightarrow> u32 \<Rightarrow> (u32 \<times> ptr) option" where
  "get_atoi_loop m str n =
     (if is_digit (m str) then get_atoi_loop m (str + 1) (n * 10 + scast (m str) - 48) else Some (n, str))"

definition get_atoi :: "mem \<Rightarrow> ptr \<Rightarrow> (u32 \<times> ptr) option" where
  "get_atoi m str = get_atoi_loop m str 0"

definition bputc :: "ptr \<Rightarrow> u32 \<Rightarrow> u8 \<Rightarrow> mem \<times> u32 \<Rightarrow> mem \<times> u32" where
  "bputc buf maxn c mp = (case mp of (m, pos) \<Rightarrow> (if pos < maxn then m(buf + pos := c) else m, pos + 1))"

definition bputs :: "ptr \<Rightarrow> u32 \<Rightarrow> u8 list \<Rightarrow> mem \<times> u32 \<Rightarrow> mem \<times> u32" where
  "bputs buf maxn cs mp = fold (bputc buf maxn) cs mp"

definition F_ALTERNATE :: u32 where [const_defs]: "F_ALTERNATE = 1"
definition F_ZEROPAD :: u32 where [const_defs]: "F_ZEROPAD = 2"
definition F_LEFT :: u32 where [const_defs]: "F_LEFT = 4"
definition F_SPACE :: u32 where [const_defs]: "F_SPACE = 8"
definition F_PLUS :: u32 where [const_defs]: "F_PLUS = 16"
definition F_SIGNED :: u32 where [const_defs]: "F_SIGNED = 32"
definition F_SMALL :: u32 where [const_defs]: "F_SMALL = 64"

definition has_flag :: "u32 \<Rightarrow> u32 \<Rightarrow> bool" where
  "has_flag flags f \<longleftrightarrow> flags AND f \<noteq> 0"

section \<open>Formatting one item\<close>

text \<open>The digit characters, and the digits of a number, the least significant first, as \<^verbatim>\<open>nbuf\<close>
  holds them.\<close>

definition digit_char :: "bool \<Rightarrow> u32 \<Rightarrow> u8" where
  "digit_char small d = (if d < 10 then 48 + ucast d else if small then 87 + ucast d else 55 + ucast d)"

function fmt_digits :: "bool \<Rightarrow> u32 \<Rightarrow> u32 \<Rightarrow> u8 list" where
  "fmt_digits small base n =
     digit_char small (n mod base) #
       (if 2 \<le> base \<and> n div base > 0 then fmt_digits small base (n div base) else [])"
  by pat_completeness auto
termination
proof (relation "measure (\<lambda>(small, base, n). unat n)")
  fix small and base n :: u32 assume "2 \<le> base \<and> 0 < n div base"
  then have "2 \<le> unat base" "0 < unat n div unat base" by (auto simp: word_le_nat_alt word_less_nat_alt unat_div)
  then have "unat n div unat base < unat n" by (intro div_less_dividend) (auto simp: div_greater_zero_iff)
  then show "((small, base, n div base), small, base, n) \<in> measure (\<lambda>(small, base, n). unat n)"
    by (simp add: unat_div)
qed simp

declare fmt_digits.simps [simp del]

definition fmt_int_chars :: "u64 \<Rightarrow> u32 \<Rightarrow> u32 \<Rightarrow> u32 \<Rightarrow> u8 list" where
  "fmt_int_chars num base width flags0 =
     (if sint base < 2 \<or> sint base > 16 then []
      else
        let flags = (if has_flag flags0 F_LEFT then flags0 AND NOT F_ZEROPAD else flags0);
            n0 = ucast num :: u32;
            (n, sgnc) =
              (if has_flag flags F_SIGNED \<and> sint num < 0 then (ucast (- num), 45)
               else if has_flag flags F_PLUS then (n0, 43)
               else if has_flag flags F_SPACE then (n0, 32) else (n0, 0 :: u8));
            nbuf = fmt_digits (has_flag flags F_SMALL) base n;
            altb = (if sgnc \<noteq> 0 then [sgnc] else [])
                 @ (if has_flag flags F_ALTERNATE \<and> (base = 8 \<or> base = 16)
                    then 48 # (if base = 16 then [if has_flag flags F_SMALL then 120 else 88] else [])
                    else []);
            w = sint width - int (length nbuf) - int (length altb);
            npad = (if w > 0 then nat w else 0)
        in if npad > 0 \<and> \<not> has_flag flags F_LEFT
           then if has_flag flags F_ZEROPAD then altb @ replicate npad 48 @ rev nbuf
                else replicate npad 32 @ altb @ rev nbuf
           else altb @ rev nbuf @ replicate npad 32)"

definition fmt_int :: "ptr \<Rightarrow> u32 \<Rightarrow> u64 \<Rightarrow> u32 \<Rightarrow> u32 \<Rightarrow> u32 \<Rightarrow> mem \<times> u32 \<Rightarrow> mem \<times> u32" where
  "fmt_int buf maxlen num base width flags mp = bputs buf maxlen (fmt_int_chars num base width flags) mp"

definition pad_chars :: "nat \<Rightarrow> u32 \<Rightarrow> u8 list \<Rightarrow> u8 list" where
  "pad_chars npad flags cs =
     (if has_flag flags F_LEFT then cs @ replicate npad 32 else replicate npad 32 @ cs)"

definition fmt_chr :: "ptr \<Rightarrow> u32 \<Rightarrow> u8 \<Rightarrow> u32 \<Rightarrow> u32 \<Rightarrow> mem \<times> u32 \<Rightarrow> mem \<times> u32" where
  "fmt_chr buf maxn c width flags mp =
     (let npad = (if sint width > 0 then nat (sint width - 1) else 0)
      in bputs buf maxn (pad_chars npad flags [c]) mp)"

text \<open>\<^verbatim>\<open>slen\<close> is the loop of \<^verbatim>\<open>strlen\<close>; the copy loop of \<^verbatim>\<open>fmt_str\<close> reads the string while it writes the
  buffer.\<close>

definition slen :: "mem \<Rightarrow> ptr \<Rightarrow> u32 option" where
  "slen m s = strlen_loop m s 0"

partial_function (option) fmt_str_copy :: "ptr \<Rightarrow> u32 \<Rightarrow> ptr \<Rightarrow> mem \<times> u32 \<Rightarrow> (mem \<times> u32) option" where
  "fmt_str_copy buf maxn s mp =
     (if fst mp s \<noteq> 0 then fmt_str_copy buf maxn (s + 1) (bputc buf maxn (fst mp s) mp) else Some mp)"

definition fmt_str :: "ptr \<Rightarrow> u32 \<Rightarrow> ptr \<Rightarrow> u32 \<Rightarrow> u32 \<Rightarrow> mem \<times> u32 \<Rightarrow> (mem \<times> u32) option" where
  "fmt_str buf maxn s width flags mp =
     Option.bind (if sint width > 0 then map_option (\<lambda>len. sint (width - len)) (slen (fst mp) s) else Some 0)
       (\<lambda>w. let npad = (if w < 0 then 0 else nat w);
                mp1 = (if has_flag flags F_LEFT then mp else bputs buf maxn (replicate npad 32) mp)
            in Option.bind (fmt_str_copy buf maxn s mp1)
                 (\<lambda>mp2. Some (if has_flag flags F_LEFT then bputs buf maxn (replicate npad 32) mp2 else mp2)))"

section \<open>The state machine\<close>

datatype fmt_mode = S_DEFAULT | S_FLAGS | S_WIDTH | S_PRECIS | S_LENGTH | S_CONV

definition L_CHAR :: u32 where [const_defs]: "L_CHAR = 1"
definition L_SHORT :: u32 where [const_defs]: "L_SHORT = 2"
definition L_LONG :: u32 where [const_defs]: "L_LONG = 3"
definition L_LLONG :: u32 where [const_defs]: "L_LLONG = 4"
definition L_DOUBLE :: u32 where [const_defs]: "L_DOUBLE = 5"

record fmt_state =
  f_out :: "mem \<times> u32"
  f_fmt :: ptr
  f_ap :: "u32 list"
  f_mode :: fmt_mode
  f_flags :: u32
  f_width :: u32
  f_precision :: u32
  f_lflags :: u32

primrec va_int :: "u32 list \<Rightarrow> (u32 \<times> u32 list) option" where
  "va_int [] = None"
| "va_int (a # ap) = Some (a, ap)"

fun va_llong :: "u32 list \<Rightarrow> (u64 \<times> u32 list) option" where
  "va_llong (lo # hi # ap) = Some (push_bit 32 (ucast hi) OR ucast lo, ap)"
| "va_llong _ = None"

definition flag_of :: "u8 \<Rightarrow> u32 option" where
  "flag_of c = (if c = 35 then Some F_ALTERNATE else if c = 48 then Some F_ZEROPAD
     else if c = 45 then Some F_LEFT else if c = 32 then Some F_SPACE else if c = 43 then Some F_PLUS
     else if c = 39 \<or> c = 73 then Some 0 else None)"

definition is_int_conv :: "u8 \<Rightarrow> bool" where
  "is_int_conv c \<longleftrightarrow> c = 100 \<or> c = 105 \<or> c = 111 \<or> c = 98 \<or> c = 117 \<or> c = 120 \<or> c = 88"

text \<open>The value of an integer conversion, its base and the flags the conversion adds.\<close>

definition fetch_num :: "u8 \<Rightarrow> u32 \<Rightarrow> u32 list \<Rightarrow> (u64 \<times> u32 list) option" where
  "fetch_num c lflags ap =
     (if lflags = L_LONG then map_option (\<lambda>(a, r). (scast a, r)) (va_int ap)
      else if lflags AND (L_LLONG OR L_DOUBLE) \<noteq> 0 then va_llong ap
      else if c = 100 \<or> c = 105 then map_option (\<lambda>(a, r). (scast a, r)) (va_int ap)
      else map_option (\<lambda>(a, r). (ucast a, r)) (va_int ap))"

definition conv_base :: "u8 \<Rightarrow> u32" where
  "conv_base c = (if c = 120 \<or> c = 88 then 16 else if c = 111 then 8 else if c = 98 then 2 else 10)"

definition conv_flags :: "u8 \<Rightarrow> u32" where
  "conv_flags c = (if c = 100 \<or> c = 105 then F_SIGNED else if c = 120 then F_SMALL else 0)"

text \<open>The conversion itself returns the character the loop tests at its end: \<^verbatim>\<open>%c\<close> overwrites it with
  its argument. \<open>null_lit\<close> is the address of the literal \<^verbatim>\<open>"(null)"\<close>.\<close>

definition fmt_conv :: "ptr \<Rightarrow> ptr \<Rightarrow> u32 \<Rightarrow> u8 \<Rightarrow> fmt_state \<Rightarrow> (u8 \<times> fmt_state) option" where
  "fmt_conv null_lit buf sz c s =
     (if is_int_conv c then
        Option.bind (fetch_num c (f_lflags s) (f_ap s))
          (\<lambda>(num, ap). Some (c, s\<lparr>f_ap := ap, f_flags := f_flags s OR conv_flags c,
             f_out := fmt_int buf sz num (conv_base c) (f_width s) (f_flags s OR conv_flags c) (f_out s)\<rparr>))
      else if c = 112 then
        Option.bind (va_int (f_ap s))
          (\<lambda>(a, ap). Some (c, s\<lparr>f_ap := ap, f_flags := f_flags s OR F_SMALL OR F_ALTERNATE,
             f_out := fmt_int buf sz (scast a) 16 (f_width s) (f_flags s OR F_SMALL OR F_ALTERNATE) (f_out s)\<rparr>))
      else if c = 115 then
        Option.bind (va_int (f_ap s))
          (\<lambda>(a, ap). Option.bind (fmt_str buf sz (if a = NULL then null_lit else a) (f_width s) (f_flags s) (f_out s))
             (\<lambda>out. Some (c, s\<lparr>f_ap := ap, f_out := out\<rparr>)))
      else if c = 99 then
        Option.bind (va_int (f_ap s))
          (\<lambda>(a, ap). Some (ucast a, s\<lparr>f_ap := ap,
             f_out := fmt_chr buf sz (ucast a) (f_width s) (f_flags s) (f_out s)\<rparr>))
      else if c = 37 then Some (c, s\<lparr>f_out := bputc buf sz c (f_out s)\<rparr>)
      else Some (c, s\<lparr>f_out := bputc buf sz c (bputc buf sz 37 (f_out s))\<rparr>))"

text \<open>One iteration of the loop: the character tested at the end and the new state. A state
  that gives the character back moves the format pointer back (\<^verbatim>\<open>fmt--\<close>).\<close>

definition fmt_step :: "ptr \<Rightarrow> ptr \<Rightarrow> u32 \<Rightarrow> fmt_state \<Rightarrow> (u8 \<times> fmt_state) option" where
  "fmt_step null_lit buf sz s0 =
     (let c = fst (f_out s0) (f_fmt s0); s = s0\<lparr>f_fmt := f_fmt s0 + 1\<rparr>; m = fst (f_out s0) in
      case f_mode s0 of
        S_DEFAULT \<Rightarrow>
          if c = 37 then Some (c, s\<lparr>f_mode := S_FLAGS, f_flags := 0\<rparr>)
          else Some (c, s\<lparr>f_out := bputc buf sz c (f_out s)\<rparr>)
      | S_FLAGS \<Rightarrow>
          (case flag_of c of
             Some f \<Rightarrow> Some (c, s\<lparr>f_flags := f_flags s OR f\<rparr>)
           | None \<Rightarrow> Some (c, s\<lparr>f_fmt := f_fmt s - 1, f_width := 0, f_mode := S_WIDTH\<rparr>))
      | S_WIDTH \<Rightarrow>
          if c = 42 then
            Option.bind (va_int (f_ap s))
              (\<lambda>(a, ap). Some (c,
                 if sint a < 0 then s\<lparr>f_ap := ap, f_width := - a, f_flags := f_flags s OR F_LEFT\<rparr>
                 else s\<lparr>f_ap := ap, f_width := a\<rparr>))
          else if is_digit c \<and> sint c > 48 then
            Option.bind (get_atoi m (f_fmt s - 1)) (\<lambda>(w, p). Some (c, s\<lparr>f_width := w, f_fmt := p\<rparr>))
          else Some (c, s\<lparr>f_fmt := f_fmt s - 1, f_precision := - 1, f_mode := S_PRECIS\<rparr>)
      | S_PRECIS \<Rightarrow>
          map_option (\<lambda>s1. (c, s1\<lparr>f_lflags := 0, f_mode := S_LENGTH\<rparr>))
            (if c = 46 then
               map_option (\<lambda>s1. s1\<lparr>f_precision := if sint (f_precision s1) < 0 then 0 else f_precision s1\<rparr>)
                 (if is_digit (m (f_fmt s)) then
                    map_option (\<lambda>(p, q). s\<lparr>f_precision := p, f_fmt := q\<rparr>) (get_atoi m (f_fmt s))
                  else if m (f_fmt s) = 42 then
                    map_option (\<lambda>(a, ap). s\<lparr>f_precision := a, f_ap := ap\<rparr>) (va_int (f_ap s))
                  else Some s)
             else Some (s\<lparr>f_fmt := f_fmt s - 1\<rparr>))
      | S_LENGTH \<Rightarrow>
          if c = 104 then Some (c, s\<lparr>f_lflags := if f_lflags s = L_CHAR then L_SHORT else L_CHAR\<rparr>)
          else if c = 108 then Some (c, s\<lparr>f_lflags := if f_lflags s = L_LONG then L_LLONG else L_LONG\<rparr>)
          else if c = 76 then Some (c, s\<lparr>f_lflags := L_DOUBLE\<rparr>)
          else Some (c, s\<lparr>f_fmt := f_fmt s - 1, f_mode := S_CONV\<rparr>)
      | S_CONV \<Rightarrow> map_option (\<lambda>(c', s1). (c', s1\<lparr>f_mode := S_DEFAULT\<rparr>)) (fmt_conv null_lit buf sz c s))"

partial_function (option) fmt_loop :: "ptr \<Rightarrow> ptr \<Rightarrow> u32 \<Rightarrow> fmt_state \<Rightarrow> fmt_state option" where
  "fmt_loop null_lit buf sz s =
     Option.bind (fmt_step null_lit buf sz s)
       (\<lambda>(c, s1). if c = 0 then Some s1 else fmt_loop null_lit buf sz s1)"

text \<open>The value returned is the \<^verbatim>\<open>int\<close> conversion of \<^verbatim>\<open>n\<close>; the initial width, precision and length
  flags are the uninitialised variables of the C function, which it sets before reading them.\<close>

definition vsnprintf :: "ptr \<Rightarrow> mem \<Rightarrow> ptr \<Rightarrow> u32 \<Rightarrow> ptr \<Rightarrow> u32 list \<Rightarrow> (mem \<times> u32) option" where
  "vsnprintf null_lit m buf sz0 fmt ap =
     (let sz = (if buf = NULL then 0 else sz0) in
      Option.bind (fmt_loop null_lit buf sz
          \<lparr>f_out = (m, 0), f_fmt = fmt, f_ap = ap, f_mode = S_DEFAULT, f_flags = 0, f_width = 0,
           f_precision = 0, f_lflags = 0\<rparr>)
        (\<lambda>s. let (m1, n1) = f_out s; n = n1 - 1 in
           Some (if n < sz then m1(buf + n := 0) else if sz > 0 then m1(buf + (sz - 1) := 0) else m1, n)))"

section \<open>Writing only inside the buffer\<close>

definition same_outside :: "ptr \<Rightarrow> u32 \<Rightarrow> mem \<Rightarrow> mem \<Rightarrow> bool" where
  "same_outside buf sz m m' \<longleftrightarrow> (\<forall>a. a \<notin> region buf (unat sz) \<longrightarrow> m' a = m a)"

lemma same_outside_refl [simp]: "same_outside buf sz m m"
  by (simp add: same_outside_def)

lemma same_outside_trans: "same_outside buf sz m m1 \<Longrightarrow> same_outside buf sz m1 m2 \<Longrightarrow> same_outside buf sz m m2"
  by (simp add: same_outside_def)

lemma same_outside_upd: "n < sz \<Longrightarrow> same_outside buf sz m (m(buf + n := v))"
  using in_region [of "unat n" "unat sz" buf] by (auto simp: same_outside_def word_less_nat_alt)

lemma bputc_outside: "same_outside buf sz (fst mp) (fst (bputc buf sz c mp))"
  by (auto simp: bputc_def same_outside_upd split: prod.splits)

lemma bputs_Nil [simp]: "bputs buf sz [] mp = mp"
  by (simp add: bputs_def)

lemma bputs_Cons: "bputs buf sz (c # cs) mp = bputs buf sz cs (bputc buf sz c mp)"
  by (simp add: bputs_def)

lemma bputs_append: "bputs buf sz (xs @ ys) mp = bputs buf sz ys (bputs buf sz xs mp)"
  by (simp add: bputs_def)

lemma bputs_outside: "same_outside buf sz (fst mp) (fst (bputs buf sz cs mp))"
proof (induction cs arbitrary: mp)
  case (Cons c cs)
  show ?case
    unfolding bputs_Cons by (rule same_outside_trans [OF bputc_outside Cons.IH])
qed simp

lemma fmt_str_copy_outside:
  assumes "fmt_str_copy buf sz s mp = Some mp'"
  shows "same_outside buf sz (fst mp) (fst mp')"
proof (rule fmt_str_copy.raw_induct [OF _ assms, of "\<lambda>buf sz s mp mp'. same_outside buf sz (fst mp) (fst mp')"])
  fix f buf sz s mp mp'
  assume ih: "\<And>buf sz s mp mp'. f buf sz s mp = Some mp' \<Longrightarrow> same_outside buf sz (fst mp) (fst mp')"
    and body: "(if fst mp s \<noteq> 0 then f buf sz (s + 1) (bputc buf sz (fst mp s) mp) else Some mp) = Some mp'"
  show "same_outside buf sz (fst mp) (fst mp')"
  proof (cases "fst mp s = 0")
    case False
    with body have "f buf sz (s + 1) (bputc buf sz (fst mp s) mp) = Some mp'" by simp
    from same_outside_trans [OF bputc_outside ih [OF this]] show ?thesis .
  qed (use body in simp)
qed

lemma fmt_str_outside:
  assumes "fmt_str buf sz s w fl mp = Some mp'"
  shows "same_outside buf sz (fst mp) (fst mp')"
proof -
  obtain npad where "Option.bind (fmt_str_copy buf sz s (if has_flag fl F_LEFT then mp else bputs buf sz (replicate npad 32) mp))
      (\<lambda>mp2. Some (if has_flag fl F_LEFT then bputs buf sz (replicate npad 32) mp2 else mp2)) = Some mp'"
    using assms unfolding fmt_str_def Let_def bind_eq_Some_conv [of "if _ then _ else _"] by blast
  then obtain mp2 where mp2: "fmt_str_copy buf sz s (if has_flag fl F_LEFT then mp
        else bputs buf sz (replicate npad 32) mp) = Some mp2"
    "mp' = (if has_flag fl F_LEFT then bputs buf sz (replicate npad 32) mp2 else mp2)"
    by (auto simp: bind_eq_Some_conv)
  show ?thesis
    using fmt_str_copy_outside [OF mp2(1)] unfolding mp2(2)
    by (auto split: if_splits intro: same_outside_trans [OF bputs_outside] same_outside_trans [OF _ bputs_outside])
qed

lemma fmt_conv_outside:
  "fmt_conv nl buf sz c s = Some (c', s') \<Longrightarrow> same_outside buf sz (fst (f_out s)) (fst (f_out s'))"
  unfolding fmt_conv_def
  by (simp add: bind_eq_Some_conv fmt_int_def fmt_chr_def Let_def split: if_splits)
     (auto simp: bputs_outside bputc_outside dest: fmt_str_outside
      intro: same_outside_trans [OF bputc_outside bputc_outside])

lemma fmt_step_outside:
  "fmt_step nl buf sz s = Some (c, s') \<Longrightarrow> same_outside buf sz (fst (f_out s)) (fst (f_out s'))"
  unfolding fmt_step_def Let_def
  by (cases "f_mode s")
     (auto simp: bind_eq_Some_conv bputc_outside split: if_splits option.splits dest!: fmt_conv_outside)

lemma fmt_loop_outside:
  assumes "fmt_loop nl buf sz s = Some s'"
  shows "same_outside buf sz (fst (f_out s)) (fst (f_out s'))"
proof (rule fmt_loop.raw_induct [OF _ assms, of "\<lambda>nl buf sz s s'. same_outside buf sz (fst (f_out s)) (fst (f_out s'))"])
  fix f nl buf sz s s'
  assume ih: "\<And>nl buf sz s s'. f nl buf sz s = Some s' \<Longrightarrow> same_outside buf sz (fst (f_out s)) (fst (f_out s'))"
    and "Option.bind (fmt_step nl buf sz s) (\<lambda>(c, s1). if c = 0 then Some s1 else f nl buf sz s1) = Some s'"
  then obtain c s1 where st: "fmt_step nl buf sz s = Some (c, s1)"
    and r: "(if c = 0 then Some s1 else f nl buf sz s1) = Some s'"
    by (auto simp: bind_eq_Some_conv)
  show "same_outside buf sz (fst (f_out s)) (fst (f_out s'))"
    using r ih fmt_step_outside [OF st] by (auto split: if_splits intro: same_outside_trans)
qed

text \<open>Putting characters from position \<open>k\<close> on stores those that fit.\<close>

lemma bputs_store:
  "k + length cs < 4294967296 \<Longrightarrow> bputs buf sz cs (m, of_nat k)
     = (store_bytes m (buf + of_nat k) (take (unat sz - k) cs), of_nat (k + length cs))"
proof (induction cs arbitrary: m k)
  case Nil
  then show ?case by simp
next
  case (Cons c cs)
  have lt: "(of_nat k :: u32) < sz \<longleftrightarrow> k < unat sz" using Cons.prems by (simp add: word_less_nat_alt)
  have ih: "bputs buf sz cs (m', of_nat (Suc k))
      = (store_bytes m' (buf + of_nat (Suc k)) (take (unat sz - Suc k) cs), of_nat (Suc k + length cs))" for m'
    by (rule Cons.IH) (use Cons.prems in simp)
  show ?case
  proof (cases "k < unat sz")
    case True
    then have "unat sz - k = Suc (unat sz - Suc k)" by simp
    with True lt ih show ?thesis by (simp add: bputs_Cons bputc_def add_ac del: fun_upd_apply)
  next
    case False
    with lt ih show ?thesis by (simp add: bputs_Cons bputc_def add_ac)
  qed
qed

section \<open>Decimal digits\<close>

lemma u32_less_10_cases:
  assumes "(d :: u32) < 10"
  shows "d \<in> {0, 1, 2, 3, 4, 5, 6, 7, 8, 9}"
proof -
  have "unat d < 10" using assms by (simp add: word_less_nat_alt)
  then have "unat d \<in> {0, 1, 2, 3, 4, 5, 6, 7, 8, 9}" by auto
  then show ?thesis by (auto simp: word_unat_eq_iff)
qed

lemma digit_char_decimal:
  assumes "d < 10"
  shows "is_digit (digit_char small d) \<and> scast (digit_char small d) - 48 = (d :: u32)
     \<and> digit_of (digit_char small d) = Some d \<and> digit_char small d \<noteq> 0"
  using u32_less_10_cases [OF assms]
  by (elim insertE) (simp_all add: digit_char_def is_digit_def digit_of_def)

lemma mod10_less: "(n :: u32) mod 10 < 10"
  by (simp add: word_less_nat_alt unat_mod)

lemma fmt_digits_nonempty [simp]: "fmt_digits small base n \<noteq> []"
  by (subst fmt_digits.simps) simp

lemma fmt_digits_10:
  "fmt_digits small 10 n = digit_char small (n mod 10) # (if n div 10 > 0 then fmt_digits small 10 (n div 10) else [])"
  by (subst fmt_digits.simps) simp

lemma fmt_digits_10_induct:
  assumes "\<And>n. (n div 10 > 0 \<Longrightarrow> P (n div 10)) \<Longrightarrow> P (n :: u32)"
  shows "P n"
proof (induction "unat n" arbitrary: n rule: less_induct)
  case less
  show ?case
  proof (rule assms)
    assume "n div 10 > 0"
    then have "unat (n div 10) < unat n"
      by (simp add: unat_div word_less_nat_alt div_greater_zero_iff)
    then show "P (n div 10)" by (rule less)
  qed
qed

lemma fmt_digits_10_digits: "\<forall>c\<in>set (fmt_digits small 10 n). is_digit c \<and> is_digit_of 10 c \<and> c \<noteq> 0"
proof (induction n rule: fmt_digits_10_induct)
  case (1 n)
  have "sint (d :: u32) < sint (10 :: u32)" if "d < 10" for d
    using u32_less_10_cases [OF that] by auto
  from this [OF mod10_less] have "sint (n mod 10 :: u32) < sint (10 :: u32)" .
  then show ?case
    using 1 digit_char_decimal [OF mod10_less, of small n]
    by (subst fmt_digits_10) (auto simp: is_digit_of_def)
qed

lemma fmt_digits_10_fold: "foldl (\<lambda>v c. v * 10 + scast c - 48) 0 (rev (fmt_digits small 10 n)) = n"
proof (induction n rule: fmt_digits_10_induct)
  case (1 n)
  have d: "scast (digit_char small (n mod 10)) - 48 = n mod 10" using digit_char_decimal [OF mod10_less] by blast
  have "n div 10 * 10 + (scast (digit_char small (n mod 10)) - 48) = n" unfolding d by (rule div_mult_mod_eq)
  then have nz: "n div 10 * 10 + scast (digit_char small (n mod 10)) - 48 = n" by (simp add: add_diff_eq)
  show ?case
  proof (cases "n div 10 > 0")
    case True
    then show ?thesis using 1 nz by (subst fmt_digits_10) simp
  next
    case False
    then have "n div 10 = 0" by (simp add: word_neq_0_conv [symmetric] del: word_neq_0_conv)
    then show ?thesis using nz by (subst fmt_digits_10) simp
  qed
qed

lemma fmt_digits_10_value: "num_value 10 (rev (fmt_digits small 10 n)) = unat n"
proof (induction n rule: fmt_digits_10_induct)
  case (1 n)
  have d: "digit_of (digit_char small (n mod 10)) = Some (n mod 10)" using digit_char_decimal [OF mod10_less] by blast
  have n: "unat n div 10 * 10 + unat n mod 10 = unat n" by simp
  show ?case
  proof (cases "n div 10 > 0")
    case True
    then have "num_value 10 (rev (fmt_digits small 10 (n div 10))) = unat (n div 10)" by (rule 1)
    then show ?thesis
      using True n d by (subst fmt_digits_10) (simp add: num_value_def unat_div unat_mod)
  next
    case False
    then have "unat n div 10 = 0" by (simp add: word_less_nat_alt unat_div)
    then show ?thesis
      using False n d by (subst fmt_digits_10) (simp add: num_value_def unat_mod)
  qed
qed

lemma get_atoi_loop_digits:
  "cstr_at m p (ds @ t) \<Longrightarrow> \<forall>c\<in>set ds. is_digit c \<Longrightarrow> t = [] \<or> \<not> is_digit (hd t) \<Longrightarrow>
     get_atoi_loop m p n = Some (foldl (\<lambda>v c. v * 10 + scast c - 48) n ds, p + of_nat (length ds))"
proof (induction ds arbitrary: p n)
  case Nil
  then have "\<not> is_digit (m p)" by (cases t) (auto simp: is_digit_def)
  then show ?case by (subst get_atoi_loop.simps) simp
next
  case (Cons c ds)
  then have "get_atoi_loop m (p + 1) (n * 10 + scast c - 48)
      = Some (foldl (\<lambda>v c. v * 10 + scast c - 48) (n * 10 + scast c - 48) ds, p + 1 + of_nat (length ds))"
    by simp
  with Cons.prems show ?case by (subst get_atoi_loop.simps) (simp add: add.assoc)
qed

section \<open>The phases of a directive\<close>

lemma fmt_loop_go: "fmt_step nl buf sz s = Some (c, s1) \<Longrightarrow> c \<noteq> 0 \<Longrightarrow> fmt_loop nl buf sz s = fmt_loop nl buf sz s1"
  by (subst fmt_loop.simps) simp

text \<open>The flags of a list of flag characters, and the text of a field width.\<close>

definition flags_of :: "u32 \<Rightarrow> u8 list \<Rightarrow> u32" where
  "flags_of f0 fl = foldl (\<lambda>f x. f OR the (flag_of x)) f0 fl"

text \<open>The specification of numbers in text, independent of the code: the digits of a number in a base, the most
  significant first, as characters.\<close>

function num_digits :: "nat \<Rightarrow> nat \<Rightarrow> nat list" where
  "num_digits base n = (if base < 2 \<or> n < base then [n] else num_digits base (n div base) @ [n mod base])"
  by pat_completeness auto
termination
proof (relation "measure snd")
  fix base n :: nat assume "\<not> (base < 2 \<or> n < base)"
  then have "n div base < n" by (intro div_less_dividend) linarith+
  then show "((base, n div base), base, n) \<in> measure snd" by simp
qed simp

declare num_digits.simps [simp del]

definition num_text :: "bool \<Rightarrow> nat \<Rightarrow> nat \<Rightarrow> u8 list" where
  "num_text small base n = map (\<lambda>d. bytes_of (if small then ''0123456789abcdef'' else ''0123456789ABCDEF'') ! d) (num_digits base n)"

definition width_text :: "nat \<Rightarrow> u8 list" where
  "width_text w = (if w = 0 then [] else num_text False 10 w)"

lemma digit_char_text:
  assumes "d < 16"
  shows "digit_char small d = bytes_of (if small then ''0123456789abcdef'' else ''0123456789ABCDEF'') ! unat d"
proof -
  have "unat d < 16" using assms by (simp add: word_less_nat_alt)
  then have "unat d \<in> {0, 1, 2, 3, 4, 5, 6, 7, 8, 9, 10, 11, 12, 13, 14, 15}" by (simp, presburger)
  then have "d \<in> {0, 1, 2, 3, 4, 5, 6, 7, 8, 9, 10, 11, 12, 13, 14, 15}" by (auto simp: word_unat_eq_iff)
  then show ?thesis by (elim insertE) (simp_all add: digit_char_def bytes_of_def)
qed

text \<open>The code puts the digits of that text in reverse order in \<^verbatim>\<open>nbuf\<close>.\<close>

lemma fmt_digits_text:
  assumes "2 \<le> base" and "base \<le> 16"
  shows "rev (fmt_digits small base n) = num_text small (unat base) (unat n)"
  using assms
proof (induction small base n rule: fmt_digits.induct)
  case (1 small base n)
  have b: "2 \<le> unat base" "0 < base" using 1(2) by (auto simp: word_le_nat_alt word_less_nat_alt)
  have "n mod base < base" using b(2) by (rule word_mod_less_divisor)
  then have "n mod base < 16" using 1(3) by (rule order_less_le_trans)
  note d = digit_char_text [OF this, of small]
  show ?case
  proof (cases "n div base > 0")
    case True
    then have "\<not> unat n < unat base" by (auto simp: word_less_nat_alt unat_div)
    then show ?thesis using True 1 b d
      by (subst fmt_digits.simps, unfold num_text_def, subst num_digits.simps) (simp add: num_text_def unat_div unat_mod)
  next
    case False
    then have "unat n < unat base" using b by (simp add: word_less_nat_alt unat_div div_eq_0_iff)
    then show ?thesis using False b d
      by (subst fmt_digits.simps, unfold num_text_def, subst num_digits.simps) (simp add: unat_mod)
  qed
qed

lemma width_text_digits: "w < 4294967296 \<Longrightarrow> width_text w = (if w = 0 then [] else rev (fmt_digits False 10 (of_nat w)))"
  using fmt_digits_text [of 10 False "of_nat w"] unat_of_nat_u32 [of w] by (simp add: width_text_def)

lemma fmt_flags_phase:
  "f_mode s = S_FLAGS \<Longrightarrow> cstr_at (fst (f_out s)) (f_fmt s) (fl @ c # rest) \<Longrightarrow>
   \<forall>x\<in>set fl. flag_of x \<noteq> None \<Longrightarrow> flag_of c = None \<Longrightarrow>
   fmt_loop nl buf sz s = fmt_loop nl buf sz (s\<lparr>f_fmt := f_fmt s + of_nat (length fl),
     f_flags := flags_of (f_flags s) fl, f_width := 0, f_mode := S_WIDTH\<rparr>)"
proof (induction fl arbitrary: s)
  case Nil
  then have "fmt_step nl buf sz s = Some (c, s\<lparr>f_width := 0, f_mode := S_WIDTH\<rparr>)"
    by (simp add: fmt_step_def Let_def)
  from fmt_loop_go [OF this] Nil show ?case by (simp add: flags_of_def)
next
  case (Cons x fl)
  then obtain f where f: "flag_of x = Some f" by auto
  let ?s = "s\<lparr>f_fmt := f_fmt s + 1, f_flags := f_flags s OR f\<rparr>"
  have "fmt_step nl buf sz s = Some (x, ?s)"
    using Cons.prems f by (simp add: fmt_step_def Let_def)
  then have "fmt_loop nl buf sz s = fmt_loop nl buf sz ?s"
    using Cons.prems by (intro fmt_loop_go) auto
  with Cons.IH [of ?s] Cons.prems f show ?case by (simp add: flags_of_def add.assoc)
qed

lemma last_fmt_digits_10: "n \<noteq> 0 \<Longrightarrow> sint (last (fmt_digits small 10 n)) > 48"
proof (induction n rule: fmt_digits_10_induct)
  case (1 n)
  have big: "sint (digit_char small d) > 48" if "d < 10" "d \<noteq> 0" for d
    using u32_less_10_cases [OF that(1)] that(2) by (elim insertE) (simp_all add: digit_char_def)
  show ?case
  proof (cases "n div 10 > 0")
    case True
    then show ?thesis using 1 by (subst fmt_digits_10) auto
  next
    case False
    then have "n div 10 = 0" by (simp add: word_neq_0_conv [symmetric] del: word_neq_0_conv)
    then have "n mod 10 \<noteq> 0" using "1.prems" div_mult_mod_eq [of n 10] by auto
    then show ?thesis using False big [OF mod10_less] by (subst fmt_digits_10) simp
  qed
qed

lemma fmt_width_phase:
  assumes "f_mode s = S_WIDTH" and "f_width s = 0" and "w < 2147483648"
    and "cstr_at (fst (f_out s)) (f_fmt s) (width_text w @ c # rest)" and "\<not> is_digit c" and "c \<noteq> 42"
  shows "fmt_loop nl buf sz s = fmt_loop nl buf sz (s\<lparr>f_fmt := f_fmt s + of_nat (length (width_text w)),
     f_width := of_nat w, f_precision := - 1, f_mode := S_PRECIS\<rparr>)"
proof -
  have stop: "fmt_loop nl buf sz t = fmt_loop nl buf sz (t\<lparr>f_precision := - 1, f_mode := S_PRECIS\<rparr>)"
    if "f_mode t = S_WIDTH" "cstr_at (fst (f_out t)) (f_fmt t) (c # rest)" for t
  proof -
    have "fmt_step nl buf sz t = Some (c, t\<lparr>f_precision := - 1, f_mode := S_PRECIS\<rparr>)"
      using that assms(5,6) by (simp add: fmt_step_def Let_def)
    then show ?thesis using that(2) by (intro fmt_loop_go) auto
  qed
  show ?thesis
  proof (cases "w = 0")
    case True
    have "s\<lparr>f_fmt := f_fmt s + of_nat (length (width_text w)), f_width := of_nat w, f_precision := - 1,
        f_mode := S_PRECIS\<rparr> = s\<lparr>f_precision := - 1, f_mode := S_PRECIS\<rparr>"
      by (rule fmt_state.equality) (simp_all add: assms(2) True width_text_def)
    moreover have "fmt_loop nl buf sz s = fmt_loop nl buf sz (s\<lparr>f_precision := - 1, f_mode := S_PRECIS\<rparr>)"
      by (rule stop) (use assms True in \<open>simp_all add: width_text_def\<close>)
    ultimately show ?thesis by (simp only:)
  next
    case False
    let ?ds = "fmt_digits False 10 (of_nat w)"
    let ?t = "s\<lparr>f_fmt := f_fmt s + of_nat (length ?ds), f_width := of_nat w\<rparr>"
    have wt: "width_text w = rev ?ds" using False assms(3) width_text_digits [of w] by simp
    have "(of_nat w :: u32) \<noteq> 0" using False assms(3) of_nat_u32_inject [of w 0] by simp
    then have hd: "sint (hd (rev ?ds)) > 48" by (simp add: hd_rev last_fmt_digits_10)
    obtain d ds where dd: "rev ?ds = d # ds" by (cases "rev ?ds") auto
    have ok: "\<forall>x\<in>set (rev ?ds). is_digit x \<and> x \<noteq> 0" using fmt_digits_10_digits by auto
    have "get_atoi (fst (f_out s)) (f_fmt s) = Some (of_nat w, f_fmt s + of_nat (length ?ds))"
      using get_atoi_loop_digits [of "fst (f_out s)" "f_fmt s" "rev ?ds" "c # rest" 0] assms(4,5) ok
      by (simp add: get_atoi_def wt fmt_digits_10_fold)
    then have "fmt_step nl buf sz s = Some (d, ?t)"
      using assms(1,4) hd ok dd by (auto simp: fmt_step_def Let_def wt)
    then have "fmt_loop nl buf sz s = fmt_loop nl buf sz ?t"
      using ok dd by (intro fmt_loop_go) auto
    also have "cstr_at (fst (f_out ?t)) (f_fmt ?t) (c # rest)"
      using cstr_at_suffix [OF assms(4), of "length (rev ?ds)"] by (simp add: wt)
    then have "fmt_loop nl buf sz ?t = fmt_loop nl buf sz (?t\<lparr>f_precision := - 1, f_mode := S_PRECIS\<rparr>)"
      using assms(1) by (intro stop) simp_all
    finally show ?thesis by (simp add: wt)
  qed
qed

lemma fmt_length_phase:
  assumes "f_mode s = S_PRECIS" and "cstr_at (fst (f_out s)) (f_fmt s) ((if lng then [108] else []) @ c # rest)"
    and "c \<notin> {46, 104, 108, 76}"
  shows "fmt_loop nl buf sz s = fmt_loop nl buf sz (s\<lparr>f_fmt := f_fmt s + (if lng then 1 else 0),
     f_lflags := (if lng then L_LONG else 0), f_mode := S_CONV\<rparr>)"
proof -
  have c: "c \<noteq> 0" using cstr_at_nonzero [OF assms(2)] by auto
  let ?t = "s\<lparr>f_lflags := 0, f_mode := S_LENGTH\<rparr>"
  let ?u = "?t\<lparr>f_fmt := f_fmt s + 1, f_lflags := L_LONG\<rparr>"
  have 1: "fmt_loop nl buf sz s = fmt_loop nl buf sz ?t"
    using assms c by (intro fmt_loop_go [where c = "if lng then 108 else c"])
      (auto simp: fmt_step_def Let_def split: if_splits)
  show ?thesis
  proof (cases lng)
    case True
    have "fmt_loop nl buf sz ?t = fmt_loop nl buf sz ?u"
      using assms True by (intro fmt_loop_go [where c = 108]) (auto simp: fmt_step_def Let_def L_LONG_def)
    also have "\<dots> = fmt_loop nl buf sz (?u\<lparr>f_mode := S_CONV\<rparr>)"
      using assms True c by (intro fmt_loop_go [where c = c]) (auto simp: fmt_step_def Let_def)
    finally show ?thesis using 1 True by simp
  next
    case False
    have "fmt_loop nl buf sz ?t = fmt_loop nl buf sz (?t\<lparr>f_mode := S_CONV\<rparr>)"
      using assms False c by (intro fmt_loop_go [where c = c]) (auto simp: fmt_step_def Let_def)
    then show ?thesis using 1 False by simp
  qed
qed

lemma cstr_at_outside:
  assumes "same_outside buf sz m m'" and "region p (Suc (length s)) \<inter> region buf (unat sz) = {}"
  shows "cstr_at m' p s = cstr_at m p s"
  using assms by (intro cstr_at_cong) (auto simp: same_outside_def)

lemma fmt_str_copy_bputs:
  "cstr_at (fst mp) p s \<Longrightarrow> region p (Suc (length s)) \<inter> region buf (unat sz) = {} \<Longrightarrow>
     fmt_str_copy buf sz p mp = Some (bputs buf sz s mp)"
proof (induction s arbitrary: p mp)
  case Nil
  then show ?case by (subst fmt_str_copy.simps) simp
next
  case (Cons c s)
  have dis: "region (p + 1) (Suc (length s)) \<inter> region buf (unat sz) = {}"
    using Cons.prems(2) by (auto simp: region_Suc [of p])
  have "cstr_at (fst (bputc buf sz c mp)) (p + 1) s"
    using Cons.prems(1) cstr_at_outside [OF bputc_outside dis] by simp
  from Cons.IH [OF this dis] Cons.prems(1) show ?case
    by (subst fmt_str_copy.simps) (simp add: bputs_Cons)
qed

section \<open>Formats built from literals and directives\<close>

text \<open>A format as its author means it: literal characters and directives with flags, a field width
  and an item. From a list of pieces follow the format text, the argument slots and the output, which is
  written down here from the flag and conversion characters alone.\<close>

datatype fmt_item = Int_Item u8 bool u32 | Ptr_Item u32 | Str_Item ptr "u8 list" | Chr_Item u32 | Pct_Item

datatype piece = Lit u8 | Dir "u8 list" nat fmt_item

fun item_text :: "fmt_item \<Rightarrow> u8 list" where
  "item_text (Int_Item c lng v) = (if lng then [108] else []) @ [c]"
| "item_text (Ptr_Item v) = [112]"
| "item_text (Str_Item p s) = [115]"
| "item_text (Chr_Item v) = [99]"
| "item_text Pct_Item = [37]"

fun item_args :: "fmt_item \<Rightarrow> u32 list" where
  "item_args (Int_Item c lng v) = [v]"
| "item_args (Ptr_Item v) = [v]"
| "item_args (Str_Item p s) = [p]"
| "item_args (Chr_Item v) = [v]"
| "item_args Pct_Item = []"

text \<open>The text of an integer. The magnitude is written in the base of the conversion; a negative number of a signed
  conversion has a minus sign, any other number a plus sign or a space when that flag is given; the flag \<^verbatim>\<open>#\<close>
  puts \<^verbatim>\<open>0x\<close>, \<^verbatim>\<open>0X\<close> or \<^verbatim>\<open>0\<close> before hexadecimal and octal digits, those of zero included, and nothing before
  binary ones. The field is filled with spaces on the right for the flag \<^verbatim>\<open>-\<close>, else with zeros behind sign and
  prefix for the flag \<^verbatim>\<open>0\<close>, else with spaces on the left.\<close>

definition int_text :: "u8 list \<Rightarrow> nat \<Rightarrow> u8 \<Rightarrow> u32 \<Rightarrow> u8 list" where
  "int_text fl w c v =
     (let neg = (c \<in> set (bytes_of ''di'') \<and> sint v < 0);
          base = (if c \<in> set (bytes_of ''xX'') then 16 else if c \<in> set (bytes_of ''o'') then 8 else if c \<in> set (bytes_of ''b'') then 2 else 10);
          digits = num_text (c \<in> set (bytes_of ''x'')) base (if neg then nat (- sint v) else unat v);
          sign = bytes_of (if neg then ''-'' else if of_char CHR ''+'' \<in> set fl then ''+'' else if of_char CHR '' '' \<in> set fl then '' '' else []);
          prefix = bytes_of (if of_char CHR ''#'' \<notin> set fl then [] else if c \<in> set (bytes_of ''x'') then ''0x''
            else if c \<in> set (bytes_of ''X'') then ''0X'' else if c \<in> set (bytes_of ''o'') then ''0'' else []);
          fill = w - length (sign @ prefix @ digits)
      in if of_char CHR ''-'' \<in> set fl then sign @ prefix @ digits @ replicate fill (of_char CHR '' '')
         else if of_char CHR ''0'' \<in> set fl then sign @ prefix @ replicate fill (of_char CHR ''0'') @ digits
         else replicate fill (of_char CHR '' '') @ sign @ prefix @ digits)"

definition field_text :: "u8 list \<Rightarrow> nat \<Rightarrow> u8 list \<Rightarrow> u8 list" where
  "field_text fl w s =
     (if of_char CHR ''-'' \<in> set fl then s @ replicate (w - length s) (of_char CHR '' '')
      else replicate (w - length s) (of_char CHR '' '') @ s)"

fun item_out :: "u8 list \<Rightarrow> nat \<Rightarrow> fmt_item \<Rightarrow> u8 list" where
  "item_out fl w (Int_Item c lng v) = int_text fl w c v"
| "item_out fl w (Ptr_Item v) = int_text (of_char CHR ''#'' # fl) w (of_char CHR ''x'') v"
| "item_out fl w (Str_Item p s) = field_text fl w s"
| "item_out fl w (Chr_Item v) = field_text fl w [ucast v]"
| "item_out fl w Pct_Item = [37]"

fun item_ok :: "mem \<Rightarrow> ptr \<Rightarrow> u32 \<Rightarrow> fmt_item \<Rightarrow> bool" where
  "item_ok m buf sz (Int_Item c lng v) \<longleftrightarrow> c \<in> set (bytes_of ''dioubxX'')"
| "item_ok m buf sz (Ptr_Item v) \<longleftrightarrow> True"
| "item_ok m buf sz (Str_Item p s) \<longleftrightarrow> p \<noteq> NULL \<and> cstr_at m p s \<and> length s < 2147483648
     \<and> region p (Suc (length s)) \<inter> region buf (unat sz) = {}"
| "item_ok m buf sz (Chr_Item v) \<longleftrightarrow> (ucast v :: u8) \<noteq> 0"
| "item_ok m buf sz Pct_Item \<longleftrightarrow> True"

fun piece_text :: "piece \<Rightarrow> u8 list" where
  "piece_text (Lit c) = [c]"
| "piece_text (Dir fl w it) = 37 # fl @ width_text w @ item_text it"

fun piece_args :: "piece \<Rightarrow> u32 list" where
  "piece_args (Lit c) = []"
| "piece_args (Dir fl w it) = item_args it"

fun piece_out :: "piece \<Rightarrow> u8 list" where
  "piece_out (Lit c) = [c]"
| "piece_out (Dir fl w it) = item_out fl w it"

fun piece_ok :: "mem \<Rightarrow> ptr \<Rightarrow> u32 \<Rightarrow> piece \<Rightarrow> bool" where
  "piece_ok m buf sz (Lit c) \<longleftrightarrow> c \<noteq> 0 \<and> c \<noteq> 37"
| "piece_ok m buf sz (Dir fl w it) \<longleftrightarrow>
     set fl \<subseteq> set (bytes_of ''#0- +'') \<union> {39, 73} \<and> w < 2147483648 \<and> item_ok m buf sz it"

lemma sint_of_nat_u32: "w < 2147483648 \<Longrightarrow> sint (of_nat w :: u32) = int w"
proof -
  assume w: "w < 2147483648"
  have "sint (of_nat w :: u32) = signed_take_bit 31 (int w)"
    by (simp add: signed_of_nat)
  also have "\<dots> = int w" using w by (intro signed_take_bit_int_eq_self) simp_all
  finally show ?thesis .
qed

text \<open>The flags and conversions the code knows are those of the specification, and the code's flag bits are set for
  the characters they stand for.\<close>

lemma flags_known: "set fl \<subseteq> set (bytes_of ''#0- +'') \<union> {39, 73} \<longleftrightarrow> (\<forall>x\<in>set fl. flag_of x \<noteq> None)"
  by (auto simp: flag_of_def bytes_of_def)

lemma int_convs: "c \<in> set (bytes_of ''dioubxX'') \<longleftrightarrow> is_int_conv c"
  by (auto simp: is_int_conv_def bytes_of_def)

lemma has_flag_or: "has_flag (a OR b) f \<longleftrightarrow> has_flag a f \<or> has_flag b f"
proof -
  have "(a OR b) AND f = (a AND f) OR (b AND f)" by (rule bit.conj_disj_distrib2)
  then show ?thesis by (simp add: has_flag_def or_eq_0_iff)
qed

lemma has_flag_flags_of: "has_flag (flags_of f0 fl) f \<longleftrightarrow> has_flag f0 f \<or> (\<exists>x\<in>set fl. has_flag (the (flag_of x)) f)"
  by (induction fl arbitrary: f0) (auto simp: flags_of_def has_flag_or)

lemma flag_bits:
  assumes "flag_of x \<noteq> None"
  shows "has_flag (the (flag_of x)) F_ALTERNATE \<longleftrightarrow> x = 35" "has_flag (the (flag_of x)) F_ZEROPAD \<longleftrightarrow> x = 48"
    "has_flag (the (flag_of x)) F_LEFT \<longleftrightarrow> x = 45" "has_flag (the (flag_of x)) F_SPACE \<longleftrightarrow> x = 32"
    "has_flag (the (flag_of x)) F_PLUS \<longleftrightarrow> x = 43" "\<not> has_flag (the (flag_of x)) F_SIGNED" "\<not> has_flag (the (flag_of x)) F_SMALL"
  using assms by (auto simp: flag_of_def has_flag_def const_defs split: if_splits)

lemma flags_given:
  assumes "\<forall>x\<in>set fl. flag_of x \<noteq> None"
  shows "has_flag (flags_of 0 fl) F_ALTERNATE \<longleftrightarrow> 35 \<in> set fl" "has_flag (flags_of 0 fl) F_ZEROPAD \<longleftrightarrow> 48 \<in> set fl"
    "has_flag (flags_of 0 fl) F_LEFT \<longleftrightarrow> 45 \<in> set fl" "has_flag (flags_of 0 fl) F_SPACE \<longleftrightarrow> 32 \<in> set fl"
    "has_flag (flags_of 0 fl) F_PLUS \<longleftrightarrow> 43 \<in> set fl" "\<not> has_flag (flags_of 0 fl) F_SIGNED" "\<not> has_flag (flags_of 0 fl) F_SMALL"
proof -
  have z: "\<not> has_flag 0 f" for f by (simp add: has_flag_def)
  show "has_flag (flags_of 0 fl) F_ALTERNATE \<longleftrightarrow> 35 \<in> set fl" "has_flag (flags_of 0 fl) F_ZEROPAD \<longleftrightarrow> 48 \<in> set fl"
    "has_flag (flags_of 0 fl) F_LEFT \<longleftrightarrow> 45 \<in> set fl" "has_flag (flags_of 0 fl) F_SPACE \<longleftrightarrow> 32 \<in> set fl"
    "has_flag (flags_of 0 fl) F_PLUS \<longleftrightarrow> 43 \<in> set fl" "\<not> has_flag (flags_of 0 fl) F_SIGNED" "\<not> has_flag (flags_of 0 fl) F_SMALL"
    using assms flag_bits by (auto simp: has_flag_flags_of z)
qed

lemma conv_flag_bits:
  "has_flag (conv_flags c) F_SIGNED \<longleftrightarrow> c = 100 \<or> c = 105" "has_flag (conv_flags c) F_SMALL \<longleftrightarrow> c = 120"
  "\<not> has_flag (conv_flags c) F_ALTERNATE" "\<not> has_flag (conv_flags c) F_ZEROPAD" "\<not> has_flag (conv_flags c) F_LEFT"
  "\<not> has_flag (conv_flags c) F_SPACE" "\<not> has_flag (conv_flags c) F_PLUS"
  by (simp_all add: conv_flags_def has_flag_def const_defs)

lemma has_flag_clear_zeropad:
  assumes "f \<in> {F_ALTERNATE, F_LEFT, F_SPACE, F_PLUS, F_SIGNED, F_SMALL}"
  shows "has_flag (a AND NOT F_ZEROPAD) f \<longleftrightarrow> has_flag a f"
proof -
  have "NOT F_ZEROPAD AND f = f" using assms by (auto simp: const_defs)
  then show ?thesis by (simp add: has_flag_def and.assoc)
qed

text \<open>The integer formatter in its own terms: sign, prefix, digits and filling.\<close>

lemma fmt_int_layout:
  assumes "2 \<le> base" and "base \<le> 16" and "w < 2147483648"
    and "sgnc = (if has_flag flags F_SIGNED \<and> sint num < 0 then [45] else if has_flag flags F_PLUS then [43] else if has_flag flags F_SPACE then [32] else [])"
    and "alt = (if has_flag flags F_ALTERNATE \<and> base = 16 then [48, if has_flag flags F_SMALL then 120 else 88]
                else if has_flag flags F_ALTERNATE \<and> base = 8 then [48] else [])"
    and "ds = num_text (has_flag flags F_SMALL) (unat base) (unat (ucast (if has_flag flags F_SIGNED \<and> sint num < 0 then - num else num) :: u32))"
    and "fill = w - length (sgnc @ alt @ ds)"
  shows "fmt_int_chars num base (of_nat w) flags =
     (if has_flag flags F_LEFT then sgnc @ alt @ ds @ replicate fill 32
      else if has_flag flags F_ZEROPAD then sgnc @ alt @ replicate fill 48 @ ds
      else replicate fill 32 @ sgnc @ alt @ ds)"
proof -
  have s: "sint (of_nat w :: u32) = int w" by (rule sint_of_nat_u32 [OF assms(3)])
  have ub: "2 \<le> unat base" "unat base \<le> 16" using assms(1,2) by (simp_all add: word_le_nat_alt)
  then have "sint base = int (unat base)" using sint_of_nat_u32 [of "unat base"] by simp
  then have b: "\<not> (sint base < 2 \<or> sint base > 16)" using ub by linarith
  define fl' where "fl' = (if has_flag flags F_LEFT then flags AND NOT F_ZEROPAD else flags)"
  have f: "has_flag fl' F_ALTERNATE = has_flag flags F_ALTERNATE" "has_flag fl' F_LEFT = has_flag flags F_LEFT"
    "has_flag fl' F_SPACE = has_flag flags F_SPACE" "has_flag fl' F_PLUS = has_flag flags F_PLUS"
    "has_flag fl' F_SIGNED = has_flag flags F_SIGNED" "has_flag fl' F_SMALL = has_flag flags F_SMALL"
    "\<not> has_flag flags F_LEFT \<Longrightarrow> has_flag fl' F_ZEROPAD = has_flag flags F_ZEROPAD"
    by (simp_all add: fl'_def has_flag_clear_zeropad)
  let ?small = "has_flag flags F_SMALL" and ?neg = "has_flag flags F_SIGNED \<and> sint num < 0"
  let ?n = "ucast (if ?neg then - num else num) :: u32"
  have ds: "rev (fmt_digits ?small base ?n) = ds" unfolding assms(6) by (rule fmt_digits_text [OF assms(1,2)])
  then have len: "length (fmt_digits ?small base ?n) = length ds" by (metis length_rev)
  have pad: "(if int w - int (length ds) - int (length p) > 0 then nat (int w - int (length ds) - int (length p)) else 0) = w - (length p + length ds)"
    for p :: "u8 list" by (simp, linarith)
  have sg: "(if ?neg then (ucast (- num), 45) else if has_flag flags F_PLUS then (ucast num, 43)
      else if has_flag flags F_SPACE then (ucast num, 32) else (ucast num, 0)) = (?n, if sgnc = [] then 0 else hd sgnc)"
    by (simp add: assms(4))
  have alt: "(if (if sgnc = [] then 0 else hd sgnc) \<noteq> 0 then [if sgnc = [] then 0 else hd sgnc] else []) @
     (if has_flag flags F_ALTERNATE \<and> (base = 8 \<or> base = 16) then 48 # (if base = 16 then [if ?small then 120 else 88] else []) else [])
     = sgnc @ alt" by (auto simp: assms(4,5))
  show ?thesis
    unfolding fmt_int_chars_def if_not_P [OF b] Let_def fl'_def [symmetric] f(1-6) s sg prod.case alt ds len pad assms(7)
    using f(7) by (simp add: add.commute add.left_commute)
qed

lemma magnitude_text:
  "sint (scast (v :: u32) :: u64) = sint v" "ucast (scast v :: u64) = v" "ucast (ucast v :: u64) = v" "ucast (- (scast v :: u64)) = - v"
  "sint v < 0 \<Longrightarrow> unat (- v) = nat (- sint v)"
proof -
  have down: "(ucast (of_int k :: u64) :: u32) = of_int k" for k
    by (rule bit_word_eqI) (simp add: bit_simps)
  have v: "(scast v :: u64) = of_int (sint v)" by simp
  show "ucast (scast v :: u64) = v" "ucast (- (scast v :: u64)) = - v" unfolding v of_int_minus [symmetric] down by simp_all
  show "ucast (ucast v :: u64) = v" by (rule bit_word_eqI) (auto simp: bit_simps)
  show "sint (scast v :: u64) = sint v" by (rule sint_up_scast) (simp add: is_up)
  assume neg: "sint v < 0"
  have "- 2147483648 \<le> sint v" using sint_greater_eq [of v] by simp
  moreover have "uint (of_int (- sint v) :: u32) = (- sint v) mod 4294967296" unfolding uint_word_of_int_eq take_bit_eq_mod by (simp del: of_int_minus of_int_sint)
  ultimately have "uint (of_int (- sint v) :: u32) = - sint v" using neg by simp
  then show "unat (- v) = nat (- sint v)" by (simp add: unat_eq_nat_uint)
qed

lemma fmt_int_text:
  assumes "\<forall>x\<in>set fl. flag_of x \<noteq> None" and "is_int_conv c" and "w < 2147483648"
  shows "fmt_int_chars (if lng \<or> c = 100 \<or> c = 105 then scast v else ucast v) (conv_base c) (of_nat w) (flags_of 0 fl OR conv_flags c)
     = int_text fl w c v"
proof -
  let ?F = "flags_of 0 fl OR conv_flags c" and ?num = "if lng \<or> c = 100 \<or> c = 105 then scast v else ucast v :: u64"
  have b: "2 \<le> conv_base c" "conv_base c \<le> 16" by (simp_all add: conv_base_def)
  have F: "has_flag ?F F_ALTERNATE \<longleftrightarrow> 35 \<in> set fl" "has_flag ?F F_ZEROPAD \<longleftrightarrow> 48 \<in> set fl" "has_flag ?F F_LEFT \<longleftrightarrow> 45 \<in> set fl"
    "has_flag ?F F_SPACE \<longleftrightarrow> 32 \<in> set fl" "has_flag ?F F_PLUS \<longleftrightarrow> 43 \<in> set fl" "has_flag ?F F_SIGNED \<longleftrightarrow> c = 100 \<or> c = 105" "has_flag ?F F_SMALL \<longleftrightarrow> c = 120"
    using flags_given [OF assms(1)] conv_flag_bits [of c] by (simp_all add: has_flag_or)
  have neg: "(c = 100 \<or> c = 105) \<and> sint ?num < 0 \<longleftrightarrow> (c = 100 \<or> c = 105) \<and> sint v < 0" using magnitude_text(1) by auto
  have mag: "unat (ucast (if (c = 100 \<or> c = 105) \<and> sint v < 0 then - ?num else ?num) :: u32)
      = (if (c = 100 \<or> c = 105) \<and> sint v < 0 then nat (- sint v) else unat v)"
    using magnitude_text(2-5) [of v] by auto
  note lay = fmt_int_layout [OF b assms(3) refl refl refl refl, where flags = ?F and num = ?num, unfolded F neg mag]
  have cb: "unat (conv_base c) = (if c = 120 \<or> c = 88 then 16 else if c = 111 then 8 else if c = 98 then 2 else 10)"
    "conv_base c = 16 \<longleftrightarrow> c = 120 \<or> c = 88" "conv_base c = 8 \<longleftrightarrow> c = 111" by (simp_all add: conv_base_def)
  have mem: "c \<in> set (bytes_of ''di'') \<longleftrightarrow> c = 100 \<or> c = 105" "c \<in> set (bytes_of ''xX'') \<longleftrightarrow> c = 120 \<or> c = 88" "c \<in> set (bytes_of ''o'') \<longleftrightarrow> c = 111"
    "c \<in> set (bytes_of ''b'') \<longleftrightarrow> c = 98" "c \<in> set (bytes_of ''x'') \<longleftrightarrow> c = 120" "c \<in> set (bytes_of ''X'') \<longleftrightarrow> c = 88"
    by (simp_all add: bytes_of_def)
  have chars: "of_char CHR ''+'' = (43 :: u8)" "of_char CHR '' '' = (32 :: u8)" "of_char CHR ''#'' = (35 :: u8)" "of_char CHR ''-'' = (45 :: u8)"
    "of_char CHR ''0'' = (48 :: u8)" by simp_all
  have sign: "bytes_of (if N then ''-'' else if P then ''+'' else if S then '' '' else []) = (if N then [45] else if P then [43] else if S then [32] else [])"
    for N P S by (simp add: bytes_of_def)
  have prefix: "bytes_of (if \<not> A then [] else if c = 120 then ''0x'' else if c = 88 then ''0X'' else if c = 111 then ''0'' else [])
      = (if A \<and> (c = 120 \<or> c = 88) then [48, if c = 120 then 120 else 88] else if A \<and> c = 111 then [48] else [])"
    for A by (auto simp: bytes_of_def)
  show ?thesis unfolding lay cb int_text_def Let_def mem chars sign prefix ..
qed

lemma fmt_ptr_text:
  assumes "\<forall>x\<in>set fl. flag_of x \<noteq> None" and "w < 2147483648"
  shows "fmt_int_chars (scast v) 16 (of_nat w) (flags_of 0 fl OR F_SMALL OR F_ALTERNATE) = int_text (35 # fl) w 120 v"
proof -
  let ?F = "flags_of 0 fl OR F_SMALL OR F_ALTERNATE"
  have b: "2 \<le> (16 :: u32)" "(16 :: u32) \<le> 16" by simp_all
  have k: "has_flag F_SMALL F_SMALL" "has_flag F_ALTERNATE F_ALTERNATE"
    "f \<in> {F_ZEROPAD, F_LEFT, F_SPACE, F_PLUS, F_SIGNED} \<Longrightarrow> \<not> has_flag F_SMALL f \<and> \<not> has_flag F_ALTERNATE f" for f
    by (auto simp: has_flag_def const_defs)
  have F: "has_flag ?F F_ALTERNATE" "has_flag ?F F_ZEROPAD \<longleftrightarrow> 48 \<in> set fl" "has_flag ?F F_LEFT \<longleftrightarrow> 45 \<in> set fl"
    "has_flag ?F F_SPACE \<longleftrightarrow> 32 \<in> set fl" "has_flag ?F F_PLUS \<longleftrightarrow> 43 \<in> set fl" "\<not> has_flag ?F F_SIGNED" "has_flag ?F F_SMALL"
    using flags_given [OF assms(1)] k by (simp_all add: has_flag_or)
  show ?thesis
    unfolding fmt_int_layout [OF b assms(2) refl refl refl refl, where flags = ?F and num = "scast v"] int_text_def Let_def
    by (simp add: F bytes_of_def magnitude_text)
qed

lemma pad_chars_text:
  assumes "\<forall>x\<in>set fl. flag_of x \<noteq> None"
  shows "pad_chars (w - length s) (flags_of 0 fl) s = field_text fl w s"
  using flags_given(3) [OF assms] by (simp add: pad_chars_def field_text_def)

lemma str_pad_width:
  assumes "w < 2147483648" and "l < 2147483648" and "0 < w"
  shows "(if sint (of_nat w - of_nat l :: u32) < 0 then 0 else nat (sint (of_nat w - of_nat l :: u32))) = w - l"
proof -
  have "(of_nat w - of_nat l :: u32) = of_int (int w - int l)" by simp
  then have "sint (of_nat w - of_nat l :: u32) = signed_take_bit 31 (int w - int l)"
    by (simp only: signed_of_int) simp
  also have "\<dots> = int w - int l" using assms by (intro signed_take_bit_int_eq_self) simp_all
  finally show ?thesis by (auto simp flip: of_nat_diff)
qed

lemma fmt_str_bputs:
  assumes "cstr_at (fst mp) p s" and "region p (Suc (length s)) \<inter> region buf (unat sz) = {}"
    and "w < 2147483648" and "length s < 2147483648"
  shows "fmt_str buf sz p (of_nat w) fl mp = Some (bputs buf sz (pad_chars (w - length s) fl s) mp)"
proof -
  have len: "slen (fst mp) p = Some (of_nat (length s))"
    using strlen_loop_cstr [of "fst mp" p 0 s] assms(1) by (simp add: slen_def)
  have copy: "fmt_str_copy buf sz p (bputs buf sz cs mp) = Some (bputs buf sz s (bputs buf sz cs mp))" for cs
    using assms(1,2) cstr_at_outside [OF bputs_outside assms(2)] by (intro fmt_str_copy_bputs) auto
  show ?thesis
  proof (cases "w = 0")
    case True
    then show ?thesis using copy [of "[]"] by (simp add: fmt_str_def pad_chars_def Let_def)
  next
    case False
    then have "sint (of_nat w :: u32) > 0" using sint_of_nat_u32 [OF assms(3)] by simp
    moreover have "(if sint (of_nat w - of_nat (length s) :: u32) < 0 then 0
        else nat (sint (of_nat w - of_nat (length s) :: u32))) = w - length s"
      using False by (intro str_pad_width assms) simp
    ultimately show ?thesis
      using copy [of "[]"] copy [of "replicate (w - length s) 32"]
      by (simp add: fmt_str_def len pad_chars_def Let_def bputs_append)
  qed
qed

text \<open>The last phase: the conversion of an item.\<close>

lemma fmt_item_phase:
  assumes "f_mode s = S_CONV" and "cstr_at (fst (f_out s)) (f_fmt s) (c # rest)"
    and "item_ok (fst (f_out s)) buf sz it" and "item_text it = (if lng then [108] else []) @ [c]"
    and "f_lflags s = (if lng then L_LONG else 0)" and "f_width s = of_nat w" and "w < 2147483648"
    and "f_ap s = item_args it @ ap" and "f_flags s = flags_of 0 fl" and "\<forall>x\<in>set fl. flag_of x \<noteq> None"
  shows "\<exists>s'. fmt_loop nl buf sz s = fmt_loop nl buf sz s' \<and> f_mode s' = S_DEFAULT
     \<and> f_fmt s' = f_fmt s + 1 \<and> f_ap s' = ap \<and> f_out s' = bputs buf sz (item_out fl w it) (f_out s)"
proof -
  have c: "fst (f_out s) (f_fmt s) = c" "c \<noteq> 0" using assms(2) by auto
  have go: ?thesis if "fmt_conv nl buf sz c (s\<lparr>f_fmt := f_fmt s + 1\<rparr>) = Some (c', t)" "c' \<noteq> 0"
    "f_fmt t = f_fmt s + 1" "f_ap t = ap" "f_out t = bputs buf sz (item_out fl w it) (f_out s)" for c' t
  proof -
    have "fmt_step nl buf sz s = Some (c', t\<lparr>f_mode := S_DEFAULT\<rparr>)"
      using that(1) assms(1) c by (simp add: fmt_step_def Let_def)
    from fmt_loop_go [OF this that(2)] that(3-5) show ?thesis by auto
  qed
  show ?thesis
  proof (cases it)
    case (Int_Item c0 lng0 v)
    then have ic: "is_int_conv c0" using assms(3) by (simp only: item_ok.simps int_convs)
    then have c0: "c0 = c" "lng0 = lng" using assms(4) Int_Item by (auto simp: is_int_conv_def split: if_splits)
    have nd: "(0 :: u32) AND (L_LLONG OR L_DOUBLE) = 0" by simp
    have tx: "fmt_int_chars (if lng \<or> c = 100 \<or> c = 105 then scast v else ucast v) (conv_base c) (of_nat w) (f_flags s OR conv_flags c) = item_out fl w it"
      using fmt_int_text [OF assms(10) ic assms(7)] assms(9) Int_Item c0 by simp
    show ?thesis
      using assms(5,6,8) ic tx [symmetric] Int_Item c0 c nd
      by (intro go [where c' = c and t = "s\<lparr>f_fmt := f_fmt s + 1, f_ap := ap, f_flags := f_flags s OR conv_flags c,
          f_out := bputs buf sz (item_out fl w it) (f_out s)\<rparr>"])
         (auto simp: fmt_conv_def fetch_num_def fmt_int_def L_LONG_def)
  next
    case (Ptr_Item v)
    then have c0: "c = 112" using assms(4) by (auto split: if_splits)
    have "fmt_int_chars (scast v) 16 (of_nat w) (f_flags s OR F_SMALL OR F_ALTERNATE) = item_out fl w it"
      using fmt_ptr_text [OF assms(10,7)] assms(9) Ptr_Item by simp
    then show ?thesis
      using assms(6,8) Ptr_Item c0 c
      by (intro go [where c' = c and t = "s\<lparr>f_fmt := f_fmt s + 1, f_ap := ap, f_flags := f_flags s OR F_SMALL OR F_ALTERNATE,
          f_out := bputs buf sz (item_out fl w it) (f_out s)\<rparr>"])
         (auto simp: fmt_conv_def is_int_conv_def fmt_int_def)
  next
    case (Str_Item p str)
    then have c0: "c = 115" using assms(4) by (auto split: if_splits)
    show ?thesis
      using assms(3,6,7,8,9) Str_Item c0 c fmt_str_bputs [of "f_out s" p str buf sz w "f_flags s"] pad_chars_text [OF assms(10), of w str]
      by (intro go [where c' = c]) (auto simp: fmt_conv_def is_int_conv_def)
  next
    case (Chr_Item v)
    then have c0: "c = 99" using assms(4) by (auto split: if_splits)
    have "nat (int w - 1) = w - 1" by simp
    then show ?thesis
      using assms(3,6,8,9) Chr_Item c0 c sint_of_nat_u32 [OF assms(7)] pad_chars_text [OF assms(10), of w "[ucast v]"]
      by (intro go [where c' = "ucast v"]) (auto simp: fmt_conv_def is_int_conv_def fmt_chr_def Let_def)
  next
    case Pct_Item
    then have c0: "c = 37" using assms(4) by (auto split: if_splits)
    show ?thesis
      using assms(8) Pct_Item c0 c
      by (intro go [where c' = c and t = "s\<lparr>f_fmt := f_fmt s + 1, f_out := bputc buf sz 37 (f_out s)\<rparr>"])
         (auto simp: fmt_conv_def is_int_conv_def bputs_Cons)
  qed
qed

text \<open>An item's text starts with a character that ends the flags and the width, and contains the
  conversion character the last phase expects.\<close>

lemma item_text_split:
  assumes "item_ok m buf sz it"
  obtains lng c where "item_text it = (if lng then [108] else []) @ [c]" "c \<notin> {46, 104, 108, 76}"
    "c = 100 \<or> c = 105 \<or> c = 111 \<or> c = 98 \<or> c = 117 \<or> c = 120 \<or> c = 88 \<or> c = 112 \<or> c = 115 \<or> c = 99 \<or> c = 37"
proof (cases it)
  case (Int_Item c lng v)
  then have "is_int_conv c" using assms by (simp only: item_ok.simps int_convs)
  then show ?thesis using that [of lng c] Int_Item by (auto simp: is_int_conv_def)
next
  case (Ptr_Item v)
  then show ?thesis using that [of False 112] by simp
next
  case (Str_Item p s)
  then show ?thesis using that [of False 115] by simp
next
  case (Chr_Item v)
  then show ?thesis using that [of False 99] by simp
next
  case Pct_Item
  then show ?thesis using that [of False 37] by simp
qed

lemma width_text_hd: "w < 2147483648 \<Longrightarrow> width_text w \<noteq> [] \<Longrightarrow> flag_of (hd (width_text w)) = None"
proof -
  assume w: "w < 2147483648" "width_text w \<noteq> []"
  then have "w \<noteq> 0" by (auto simp: width_text_def split: if_splits)
  then have "(of_nat w :: u32) \<noteq> 0" using w(1) of_nat_u32_inject [of w 0] by simp
  then have "sint (hd (width_text w)) > 48"
    using \<open>w \<noteq> 0\<close> w(1) by (simp add: width_text_digits hd_rev last_fmt_digits_10)
  moreover have "is_digit (hd (width_text w))"
    using \<open>w \<noteq> 0\<close> w(1) fmt_digits_10_digits [of False "of_nat w"] by (simp add: width_text_digits hd_rev)
  ultimately show ?thesis by (auto simp: flag_of_def is_digit_def)
qed

lemma fmt_piece_dir:
  assumes "f_mode s = S_DEFAULT" and "cstr_at (fst (f_out s)) (f_fmt s) (piece_text (Dir fl w it) @ rest)"
    and "piece_ok (fst (f_out s)) buf sz (Dir fl w it)" and "f_ap s = item_args it @ ap"
  shows "\<exists>s'. fmt_loop nl buf sz s = fmt_loop nl buf sz s' \<and> f_mode s' = S_DEFAULT
     \<and> f_fmt s' = f_fmt s + of_nat (length (piece_text (Dir fl w it))) \<and> f_ap s' = ap
     \<and> f_out s' = bputs buf sz (piece_out (Dir fl w it)) (f_out s)"
proof -
  obtain lng c where it: "item_text it = (if lng then [108] else []) @ [c]" "c \<notin> {46, 104, 108, 76}"
    "c = 100 \<or> c = 105 \<or> c = 111 \<or> c = 98 \<or> c = 117 \<or> c = 120 \<or> c = 88 \<or> c = 112 \<or> c = 115 \<or> c = 99 \<or> c = 37"
    using assms(3) item_text_split [of "fst (f_out s)" buf sz it] by auto
  define m where "m = fst (f_out s)"
  define tx where "tx = (if lng then [108] else []) @ c # rest"
  have tcs: "cstr_at m (f_fmt s) (37 # fl @ width_text w @ tx)"
    using assms(2) it(1) by (simp add: m_def tx_def)
  have w: "w < 2147483648" using assms(3) by simp
  have fl: "\<forall>x\<in>set fl. flag_of x \<noteq> None" using assms(3) by (simp only: piece_ok.simps flags_known) blast
  obtain d t where dt: "width_text w @ tx = d # t" "flag_of d = None"
  proof (cases "width_text w")
    case Nil
    have "flag_of (hd tx) = None" using it(3) by (auto simp: tx_def flag_of_def)
    then show ?thesis using Nil that [of "hd tx" "tl tx"] by (simp add: tx_def split: if_splits)
  next
    case (Cons d t)
    then show ?thesis using width_text_hd [OF w] that [of d "t @ tx"] by simp
  qed
  let ?s1 = "s\<lparr>f_fmt := f_fmt s + 1, f_mode := S_FLAGS, f_flags := 0\<rparr>"
  have 1: "fmt_loop nl buf sz s = fmt_loop nl buf sz ?s1"
    using assms(1) tcs by (intro fmt_loop_go [where c = 37]) (auto simp: fmt_step_def Let_def m_def)
  let ?s2 = "?s1\<lparr>f_fmt := f_fmt ?s1 + of_nat (length fl), f_flags := flags_of 0 fl, f_width := 0, f_mode := S_WIDTH\<rparr>"
  have 2: "fmt_loop nl buf sz ?s1 = fmt_loop nl buf sz ?s2"
    using tcs fl dt fmt_flags_phase [of ?s1 fl d t nl buf sz] by (simp add: m_def)
  have c2: "cstr_at m (f_fmt ?s2) (width_text w @ tx)"
    using cstr_at_suffix [OF tcs, of "Suc (length fl)"] by (simp add: add_ac)
  let ?s3 = "?s2\<lparr>f_fmt := f_fmt ?s2 + of_nat (length (width_text w)), f_width := of_nat w, f_precision := - 1,
     f_mode := S_PRECIS\<rparr>"
  have "\<not> is_digit (hd tx) \<and> hd tx \<noteq> 42 \<and> tx = hd tx # tl tx"
    using it(3) by (auto simp: tx_def is_digit_def)
  then have 3: "fmt_loop nl buf sz ?s2 = fmt_loop nl buf sz ?s3"
    using c2 w fmt_width_phase [of ?s2 w "hd tx" "tl tx" nl buf sz] by (simp add: m_def)
  have c3: "cstr_at m (f_fmt ?s3) tx"
    using cstr_at_suffix [OF c2, of "length (width_text w)"] by simp
  let ?s4 = "?s3\<lparr>f_fmt := f_fmt ?s3 + (if lng then 1 else 0), f_lflags := (if lng then L_LONG else 0), f_mode := S_CONV\<rparr>"
  have 4: "fmt_loop nl buf sz ?s3 = fmt_loop nl buf sz ?s4"
    using c3 it(2) fmt_length_phase [of ?s3 lng c rest nl buf sz] by (simp add: m_def tx_def)
  have c4: "cstr_at (fst (f_out ?s4)) (f_fmt ?s4) (c # rest)"
    using c3 by (auto simp: m_def tx_def split: if_splits)
  have "\<exists>s'. fmt_loop nl buf sz ?s4 = fmt_loop nl buf sz s' \<and> f_mode s' = S_DEFAULT
     \<and> f_fmt s' = f_fmt ?s4 + 1 \<and> f_ap s' = ap \<and> f_out s' = bputs buf sz (item_out fl w it) (f_out ?s4)"
    by (rule fmt_item_phase [OF _ c4 _ it(1)]) (use assms(3,4) w fl in auto)
  then obtain s' where 5: "fmt_loop nl buf sz ?s4 = fmt_loop nl buf sz s'" "f_mode s' = S_DEFAULT"
    "f_fmt s' = f_fmt ?s4 + 1" "f_ap s' = ap" "f_out s' = bputs buf sz (item_out fl w it) (f_out ?s4)"
    by blast
  moreover have "f_fmt ?s4 + 1 = f_fmt s + of_nat (length (piece_text (Dir fl w it)))"
    using it(1) by (simp add: add_ac)
  ultimately show ?thesis using 1 2 3 4 by (intro exI [of _ s']) simp
qed

lemma fmt_piece:
  assumes "f_mode s = S_DEFAULT" and "cstr_at (fst (f_out s)) (f_fmt s) (piece_text p @ rest)"
    and "piece_ok (fst (f_out s)) buf sz p" and "f_ap s = piece_args p @ ap"
  shows "\<exists>s'. fmt_loop nl buf sz s = fmt_loop nl buf sz s' \<and> f_mode s' = S_DEFAULT
     \<and> f_fmt s' = f_fmt s + of_nat (length (piece_text p)) \<and> f_ap s' = ap
     \<and> f_out s' = bputs buf sz (piece_out p) (f_out s)"
proof (cases p)
  case (Lit c)
  let ?s = "s\<lparr>f_fmt := f_fmt s + 1, f_out := bputc buf sz c (f_out s)\<rparr>"
  have "fmt_loop nl buf sz s = fmt_loop nl buf sz ?s"
    using assms Lit by (intro fmt_loop_go [where c = c]) (auto simp: fmt_step_def Let_def)
  then show ?thesis using assms Lit by (intro exI [of _ ?s]) (simp add: bputs_Cons)
next
  case (Dir fl w it)
  then show ?thesis using fmt_piece_dir [of s fl w it rest buf sz ap nl] assms by simp
qed

lemma item_ok_outside: "same_outside buf sz m m' \<Longrightarrow> item_ok m buf sz it \<Longrightarrow> item_ok m' buf sz it"
  by (cases it) (auto simp: cstr_at_outside)

lemma piece_ok_outside: "same_outside buf sz m m' \<Longrightarrow> piece_ok m buf sz p \<Longrightarrow> piece_ok m' buf sz p"
  by (cases p) (auto simp: item_ok_outside)

lemma fmt_loop_pieces:
  assumes "same_outside buf sz m (fst (f_out s))" and "f_mode s = S_DEFAULT"
    and "cstr_at m (f_fmt s) (concat (map piece_text ps))"
    and "region (f_fmt s) (Suc (length (concat (map piece_text ps)))) \<inter> region buf (unat sz) = {}"
    and "\<forall>p\<in>set ps. piece_ok m buf sz p" and "f_ap s = concat (map piece_args ps) @ ap"
  shows "\<exists>s'. fmt_loop nl buf sz s = Some s'
     \<and> f_out s' = bputs buf sz (concat (map piece_out ps) @ [0]) (f_out s)"
  using assms
proof (induction ps arbitrary: s)
  case Nil
  have "cstr_at (fst (f_out s)) (f_fmt s) []" using Nil.prems by (simp add: same_outside_def region_Suc)
  then have "fmt_step nl buf sz s = Some (0, s\<lparr>f_fmt := f_fmt s + 1, f_out := bputc buf sz 0 (f_out s)\<rparr>)"
    using Nil.prems(2) by (simp add: fmt_step_def Let_def)
  then show ?case by (subst fmt_loop.simps) (simp add: bputs_Cons)
next
  case (Cons p ps)
  let ?t = "concat (map piece_text ps)"
  have tcs: "cstr_at (fst (f_out s)) (f_fmt s) (piece_text p @ ?t)"
    using Cons.prems(1,3,4) cstr_at_outside [of buf sz m "fst (f_out s)" "f_fmt s"] by simp
  have ok: "piece_ok (fst (f_out s)) buf sz p" using Cons.prems(1,5) piece_ok_outside by auto
  obtain s1 where s1: "fmt_loop nl buf sz s = fmt_loop nl buf sz s1" "f_mode s1 = S_DEFAULT"
    "f_fmt s1 = f_fmt s + of_nat (length (piece_text p))" "f_ap s1 = concat (map piece_args ps) @ ap"
    "f_out s1 = bputs buf sz (piece_out p) (f_out s)"
    using fmt_piece [OF Cons.prems(2) tcs ok] Cons.prems(6) by auto
  have "same_outside buf sz m (fst (f_out s1))"
    unfolding s1(5) by (rule same_outside_trans [OF Cons.prems(1) bputs_outside])
  moreover have "cstr_at m (f_fmt s1) ?t"
    using cstr_at_suffix [OF Cons.prems(3), of "length (piece_text p)"] s1(3) by simp
  moreover have "region (f_fmt s1) (Suc (length ?t)) \<inter> region buf (unat sz) = {}"
    using Cons.prems(4) region_tail_subset [of "f_fmt s" "length (piece_text p)" "Suc (length ?t)"] s1(3) by auto
  ultimately obtain s' where "fmt_loop nl buf sz s1 = Some s'"
    "f_out s' = bputs buf sz (concat (map piece_out ps) @ [0]) (f_out s1)"
    using Cons.IH [of s1] s1(2,4) Cons.prems(5) by auto
  then show ?case using s1(1,5) by (simp add: bputs_append)
qed

section \<open>The whole call\<close>

lemma u32_pred_less: "(w :: u32) > 0 \<Longrightarrow> w - 1 < w"
proof -
  assume "w > 0"
  then have "unat (w - 1) = unat w - 1" "0 < unat w" by (simp_all add: word_less_nat_alt unat_minus_one word_neq_0_conv)
  then show ?thesis by (simp add: word_less_nat_alt)
qed

lemma num_digits_less: "2 \<le> base \<Longrightarrow> \<forall>d\<in>set (num_digits base n). d < base"
  by (induction base n rule: num_digits.induct) (subst num_digits.simps, auto)

lemma num_text_nonzero: "2 \<le> base \<Longrightarrow> base \<le> 16 \<Longrightarrow> 0 \<notin> set (num_text small base n)"
proof
  assume b: "2 \<le> base" "base \<le> 16" and "0 \<in> set (num_text small base n)"
  then obtain d where d: "d \<in> set (num_digits base n)" "0 = bytes_of (if small then ''0123456789abcdef'' else ''0123456789ABCDEF'') ! d"
    by (auto simp: num_text_def)
  have "d < 16" using num_digits_less [OF b(1), of n] b(2) d(1) by auto
  then have "0 \<in> set (bytes_of (if small then ''0123456789abcdef'' else ''0123456789ABCDEF''))"
    unfolding d(2) by (intro nth_mem) (simp add: bytes_of_def)
  then show False by (simp add: bytes_of_def split: if_splits)
qed

lemma int_text_nonzero: "0 \<notin> set (int_text fl w c v)"
proof -
  have all: "0 \<notin> set (if L then a @ b @ d @ replicate k (of_char CHR '' '') else if Z then a @ b @ replicate k (of_char CHR ''0'') @ d
      else replicate k (of_char CHR '' '') @ a @ b @ d)"
    if "0 \<notin> set a" "0 \<notin> set b" "0 \<notin> set d" for a b d :: "u8 list" and k L Z
    using that by auto
  show ?thesis unfolding int_text_def Let_def by (intro all num_text_nonzero) (auto simp: bytes_of_def)
qed

lemma item_out_nonzero:
  assumes "item_ok m buf sz it" shows "0 \<notin> set (item_out fl w it)"
proof (cases it)
  case (Str_Item p s)
  then show ?thesis using assms cstr_at_nonzero by (auto simp: field_text_def)
qed (use assms int_text_nonzero in \<open>auto simp: field_text_def\<close>)

lemma piece_out_nonzero: "piece_ok m buf sz p \<Longrightarrow> 0 \<notin> set (piece_out p)"
  using item_out_nonzero by (cases p) auto

lemma vsnprintf_pieces:
  assumes fmt: "cstr_at m fmt (concat (map piece_text ps))"
    and dis: "region fmt (Suc (length (concat (map piece_text ps)))) \<inter> region buf (unat sz) = {}"
    and ok: "\<forall>p\<in>set ps. piece_ok m buf sz p" and args: "ap = concat (map piece_args ps) @ rest"
    and out: "out = concat (map piece_out ps)" and len: "length out < 4294967295"
    and buf: "buf \<noteq> NULL" "sz > 0"
  shows "\<exists>m'. vsnprintf nl m buf sz fmt ap = Some (m', of_nat (length out))
     \<and> cstr_at m' buf (take (unat sz - 1) out) \<and> same_outside buf sz m m'"
proof -
  let ?s = "\<lparr>f_out = (m, 0), f_fmt = fmt, f_ap = ap, f_mode = S_DEFAULT, f_flags = 0, f_width = 0,
      f_precision = 0, f_lflags = 0\<rparr>"
  obtain s' where s': "fmt_loop nl buf sz ?s = Some s'" "f_out s' = bputs buf sz (out @ [0]) (m, 0)"
    using fmt_loop_pieces [of buf sz m ?s ps rest nl] assms by auto
  have st: "f_out s' = (store_bytes m buf (take (unat sz) (out @ [0])), of_nat (length out + 1))"
    using bputs_store [of 0 "out @ [0]" buf sz m] len s'(2) by simp
  let ?m1 = "store_bytes m buf (take (unat sz) (out @ [0]))"
  let ?n = "of_nat (length out) :: u32"
  let ?m' = "if ?n < sz then ?m1(buf + ?n := 0) else ?m1(buf + (sz - 1) := 0)"
  have call: "vsnprintf nl m buf sz fmt ap = Some (?m', ?n)"
    using buf s'(1) st by (simp add: vsnprintf_def Let_def)
  have n: "?n < sz \<longleftrightarrow> length out < unat sz" using len by (simp add: word_less_nat_alt)
  have m': "?m' = store_bytes m buf (take (unat sz - 1) out @ [0])"
  proof (cases "length out < unat sz")
    case True
    then show ?thesis using n by (simp add: store_bytes_snoc)
  next
    case False
    then have "take (unat sz) (out @ [0]) = take (unat sz - 1) out @ [out ! (unat sz - 1)]"
      using buf(2) by (cases "unat sz") (auto simp: take_Suc_conv_app_nth word_less_nat_alt)
    moreover have "(of_nat (unat sz - 1) :: u32) = sz - 1"
      using buf(2) by (simp add: word_less_nat_alt of_nat_diff)
    moreover have "length (take (unat sz - 1) out) = unat sz - 1" using False by simp
    ultimately show ?thesis using n False by (simp only: store_bytes_snoc fun_upd_upd if_False)
  qed
  have nz: "0 \<notin> set out" using ok piece_out_nonzero by (auto simp: out)
  have "cstr_at ?m' buf (take (unat sz - 1) out)"
    unfolding m' using nz len by (intro cstr_at_store_bytes) (auto dest: in_set_takeD)
  moreover have "same_outside buf sz m ?m'"
  proof -
    have "fst (f_out s') = ?m1" unfolding st by simp
    then have "same_outside buf sz m ?m1" using bputs_outside [of buf sz "(m, 0)" "out @ [0]"] s'(2) by simp
    moreover have "sz - 1 < sz" using buf(2) by (rule u32_pred_less)
    ultimately show ?thesis
      using same_outside_trans [OF _ same_outside_upd [of "sz - 1" sz buf ?m1 0]]
        same_outside_trans [OF _ same_outside_upd [of ?n sz buf ?m1 0]] by auto
  qed
  ultimately show ?thesis using call by blast
qed

lemma fmt_int_strtol_text:
  obtains sig ds where "fmt_int_chars (scast v) 10 0 F_SIGNED = sig @ ds" "sig = [] \<or> sig = [43] \<or> sig = [45]"
    "\<forall>c\<in>set ds. is_digit_of 10 c" "ds \<noteq> []"
    "(if sig = [45] then - of_nat (num_value 10 ds) else of_nat (num_value 10 ds)) = (v :: u32)"
proof -
  have fl: "has_flag F_SIGNED F_SIGNED" "\<not> has_flag F_SIGNED F_LEFT" "\<not> has_flag F_SIGNED F_PLUS"
    "\<not> has_flag F_SIGNED F_SPACE" "\<not> has_flag F_SIGNED F_ALTERNATE" "\<not> has_flag F_SIGNED F_SMALL"
    by (simp_all add: has_flag_def const_defs)
  have down: "(ucast (of_int k :: u64) :: u32) = of_int k" for k
    by (rule bit_word_eqI) (simp add: bit_simps)
  have v: "(scast v :: u64) = of_int (sint v)" by simp
  have neg: "(ucast (- (scast v :: u64)) :: u32) = - v" "(ucast (scast v :: u64) :: u32) = v"
    unfolding v of_int_minus [symmetric] down by simp_all
  show ?thesis
  proof (cases "sint (scast v :: u64) < 0")
    case True
    then have "fmt_int_chars (scast v) 10 0 F_SIGNED = [45] @ rev (fmt_digits False 10 (- v))"
      by (simp add: fmt_int_chars_def Let_def fl neg)
    then show ?thesis
      using fmt_digits_10_digits [of False "- v"] fmt_digits_10_value [of False "- v"]
      by (intro that [of "[45]" "rev (fmt_digits False 10 (- v))"]) auto
  next
    case False
    then have "fmt_int_chars (scast v) 10 0 F_SIGNED = [] @ rev (fmt_digits False 10 v)"
      by (simp add: fmt_int_chars_def Let_def fl neg)
    then show ?thesis
      using fmt_digits_10_digits [of False v] fmt_digits_10_value [of False v]
      by (intro that [of "[]" "rev (fmt_digits False 10 v)"]) auto
  qed
qed

section \<open>Properties\<close>

text \<open>Property C34: whenever \<^verbatim>\<open>vsnprintf\<close> returns, whatever the format and the arguments, it has changed
  no byte outside the first \<open>size\<close> bytes of the buffer (none at all for a NULL buffer), and a buffer
  of at least one byte contains a terminator.\<close>

theorem vsnprintf_bounded:
  assumes "vsnprintf nl m buf sz fmt ap = Some (m', n)"
  shows "(\<forall>a. a \<notin> region buf (unat sz) \<longrightarrow> m' a = m a) \<and> (buf = NULL \<longrightarrow> m' = m)
     \<and> (buf \<noteq> NULL \<and> sz > 0 \<longrightarrow> (\<exists>i < unat sz. m' (buf + of_nat i) = 0))"
proof -
  define z where "z = (if buf = NULL then 0 else sz)"
  obtain s where s: "fmt_loop nl buf z \<lparr>f_out = (m, 0), f_fmt = fmt, f_ap = ap, f_mode = S_DEFAULT,
      f_flags = 0, f_width = 0, f_precision = 0, f_lflags = 0\<rparr> = Some s"
    and m': "m' = (if n < z then (fst (f_out s))(buf + n := 0)
                   else if z > 0 then (fst (f_out s))(buf + (z - 1) := 0) else fst (f_out s))"
    using assms by (auto simp: vsnprintf_def Let_def z_def bind_eq_Some_conv split_beta)
  have "same_outside buf z m (fst (f_out s))" using fmt_loop_outside [OF s] by simp
  moreover have zlt: "z - 1 < z" if "z > 0" using that by (rule u32_pred_less)
  ultimately have out: "same_outside buf z m m'"
    unfolding m' using same_outside_trans [OF _ same_outside_upd] by auto
  have "\<exists>i < unat z. m' (buf + of_nat i) = 0" if "z > 0"
  proof (cases "n < z")
    case True
    then show ?thesis by (intro exI [of _ "unat n"]) (simp add: m' word_less_nat_alt)
  next
    case False
    then show ?thesis using that zlt by (intro exI [of _ "unat (z - 1)"]) (simp add: m' word_less_nat_alt)
  qed
  then show ?thesis using out by (auto simp: same_outside_def z_def split: if_splits)
qed


text \<open>Property C32: a format made of literal characters and directives with any flags, a field width and
  the conversions d, i, u, o, x, X, b (optionally long), p, s, c and %, called with one slot per
  argument, is formatted piece by piece: the call returns the length of the whole output, the
  buffer holds the output cut to its size, terminated, and nothing else changes. The text of a directive is the one
  of the specification: the digits of the magnitude in its base, sign, prefix and filling. Against the comment on
  \<^verbatim>\<open>F_ALTERNATE\<close>, the flag \<^verbatim>\<open>#\<close> adds nothing to a binary number.\<close>

theorem vsnprintf_formats:
  assumes "cstr_at m fmt (concat (map piece_text ps))"
    and "region fmt (Suc (length (concat (map piece_text ps)))) \<inter> region buf (unat sz) = {}"
    and "\<forall>p\<in>set ps. piece_ok m buf sz p" and "ap = concat (map piece_args ps) @ rest"
    and "out = concat (map piece_out ps)" and "length out < 4294967295" and "buf \<noteq> NULL" and "sz > 0"
  shows "\<exists>m'. vsnprintf nl m buf sz fmt ap = Some (m', of_nat (length out))
     \<and> cstr_at m' buf (take (unat sz - 1) out) \<and> (\<forall>a. a \<notin> region buf (unat sz) \<longrightarrow> m' a = m a)"
  using vsnprintf_pieces [OF assms] unfolding same_outside_def .

definition fmt_demo :: mem where
  "fmt_demo = store_bytes (\<lambda>_. 0) 100 [120, 61, 37, 48, 53, 100, 0]"

lemma fmt_demo_pieces:
  "concat (map piece_text [Lit 120, Lit 61, Dir [48] 5 (Int_Item 100 False (- 42))]) = [120, 61, 37, 48, 53, 100]"
  "concat (map piece_out [Lit 120, Lit 61, Dir [48] 5 (Int_Item 100 False (- 42))]) = [120, 61, 45, 48, 48, 52, 50]"
  by code_simp+

theorem vsnprintf_formats_witness:
  "\<exists>m'. vsnprintf 0 fmt_demo 512 7 100 [- 42] = Some (m', 7) \<and> cstr_at m' 512 [120, 61, 45, 48, 48, 52]"
proof -
  let ?ps = "[Lit 120, Lit 61, Dir [48] 5 (Int_Item 100 False (- 42))]"
  have "cstr_at fmt_demo 100 (concat (map piece_text ?ps))"
    unfolding fmt_demo_pieces by (simp add: fmt_demo_def)
  moreover have "region 100 (Suc (length (concat (map piece_text ?ps)))) \<inter> region 512 (unat (7 :: u32)) = {}"
    unfolding fmt_demo_pieces by (simp add: region_numeral region_Suc)
  moreover have "\<forall>p\<in>set ?ps. piece_ok fmt_demo 512 7 p" by (simp add: bytes_of_def)
  ultimately have "\<exists>m'. vsnprintf 0 fmt_demo 512 7 100 [- 42] = Some (m', of_nat (length [120, 61, 45, 48, 48, 52, 50 :: u8]))
     \<and> cstr_at m' 512 (take (unat (7 :: u32) - 1) [120, 61, 45, 48, 48, 52, 50])
     \<and> (\<forall>a. a \<notin> region 512 (unat (7 :: u32)) \<longrightarrow> m' a = fmt_demo a)"
    by (rule vsnprintf_formats [where rest = "[]"]) (simp_all only: fmt_demo_pieces, simp_all)
  then show ?thesis by (elim exE conjE) (rule exI, rule conjI, simp, simp)
qed

theorem vsnprintf_bounded_witness:
  "\<exists>m' n. vsnprintf 0 fmt_demo 512 7 100 [- 42] = Some (m', n) \<and> m' 519 = 0 \<and> (\<exists>i < 7. m' (512 + of_nat i) = 0)"
proof -
  let ?ps = "[Lit 120, Lit 61, Dir [48] 5 (Int_Item 100 False (- 42))]"
  have "cstr_at fmt_demo 100 (concat (map piece_text ?ps))"
    unfolding fmt_demo_pieces by (simp add: fmt_demo_def)
  moreover have "region 100 (Suc (length (concat (map piece_text ?ps)))) \<inter> region 512 (unat (7 :: u32)) = {}"
    unfolding fmt_demo_pieces by (simp add: region_numeral region_Suc)
  moreover have "\<forall>p\<in>set ?ps. piece_ok fmt_demo 512 7 p" by (simp add: bytes_of_def)
  ultimately have "\<exists>m'. vsnprintf 0 fmt_demo 512 7 100 [- 42] = Some (m', of_nat (length [120, 61, 45, 48, 48, 52, 50 :: u8]))
     \<and> cstr_at m' 512 (take (unat (7 :: u32) - 1) [120, 61, 45, 48, 48, 52, 50]) \<and> same_outside 512 7 fmt_demo m'"
    by (rule vsnprintf_pieces [where rest = "[]"]) (simp_all only: fmt_demo_pieces, simp_all)
  then obtain m' n where call: "vsnprintf 0 fmt_demo 512 7 100 [- 42] = Some (m', n)" by blast
  moreover have "519 \<notin> region 512 (unat (7 :: u32))" by (simp add: region_numeral region_Suc)
  moreover have "fmt_demo 519 = 0" by (simp add: fmt_demo_def)
  ultimately show ?thesis using vsnprintf_bounded [OF call] by auto
qed

text \<open>Property C33: every 32-bit integer survives printing with \<^verbatim>\<open>%d\<close> into a buffer that is large enough
  and reading back with \<^verbatim>\<open>strtol\<close> in base 10, the smallest negative one included.\<close>

theorem print_parse_roundtrip:
  assumes "cstr_at m fmt [37, 100]" and "region fmt 3 \<inter> region buf (unat sz) = {}"
    and "buf \<noteq> NULL" and "length (fmt_int_chars (scast v) 10 0 F_SIGNED) < unat sz"
  shows "\<exists>m' n. vsnprintf nl m buf sz fmt (v # rest) = Some (m', n) \<and> strtol m' buf 10 = Some (v, buf + n)"
proof -
  let ?ps = "[Dir [] 0 (Int_Item 100 False v)]"
  let ?out = "fmt_int_chars (scast v) 10 0 F_SIGNED"
  have ps: "concat (map piece_text ?ps) = [37, 100]" "concat (map piece_args ?ps) = [v]"
    "concat (map piece_out ?ps) = ?out"
    using fmt_int_text [of "[]" 100 0 False v] by (simp_all add: width_text_def flags_of_def conv_base_def conv_flags_def is_int_conv_def)
  have len: "length ?out < 4294967295" using assms(4) unat_u32_bound [of sz] by linarith
  have "\<exists>m'. vsnprintf nl m buf sz fmt (v # rest) = Some (m', of_nat (length ?out))
     \<and> cstr_at m' buf (take (unat sz - 1) ?out) \<and> same_outside buf sz m m'"
    by (rule vsnprintf_pieces [where ps = ?ps and rest = rest])
       (use assms len in \<open>simp_all only: ps, simp_all add: bytes_of_def numeral_3_eq_3 word_less_nat_alt\<close>)
  then obtain m' where m': "vsnprintf nl m buf sz fmt (v # rest) = Some (m', of_nat (length ?out))"
    "cstr_at m' buf ?out" using assms(4) by auto
  obtain sig ds where sd: "?out = sig @ ds" "sig = [] \<or> sig = [43] \<or> sig = [45]"
    "\<forall>c\<in>set ds. is_digit_of 10 c" "ds \<noteq> []"
    "(if sig = [45] then - of_nat (num_value 10 ds) else of_nat (num_value 10 ds)) = v"
    by (rule fmt_int_strtol_text)
  have "strtol m' buf 10 = Some (v, buf + of_nat (length ?out))"
    using strtol_decimal_gen [of m' buf "[]" sig ds "[]"] m'(2) sd by simp
  then show ?thesis using m'(1) by blast
qed

theorem print_parse_roundtrip_witness:
  "\<exists>m' n. vsnprintf 0 (store_bytes (\<lambda>_. 0) 100 [37, 100, 0]) 512 16 100 [0x80000000] = Some (m', n)
     \<and> strtol m' 512 10 = Some (0x80000000, 512 + n)"
proof -
  have len: "length (fmt_int_chars (scast (0x80000000 :: u32)) 10 0 F_SIGNED) < unat (16 :: u32)" by code_simp
  show ?thesis
    by (rule print_parse_roundtrip [OF _ _ _ len]) (simp_all add: region_numeral region_Suc)
qed

text \<open>The \<^verbatim>\<open>h\<close> modifier sets the length flag to a value that shares a bit with the mask of the \<^verbatim>\<open>long long\<close>
  test, so such a directive takes two argument words.\<close>

lemma h_modifier_reads_long_long:
  "is_int_conv c \<Longrightarrow> fetch_num c L_CHAR [v] = None \<and> fetch_num c L_CHAR (lo # hi # ap) = va_llong (lo # hi # ap)
     \<and> fetch_num 100 L_SHORT [v] = Some (scast v, [])"
  by (simp add: fetch_num_def const_defs)

end
