(* ===== verification/Mm_Paging.thy ===== *)
theory Mm_Paging
  imports Kernel_Prelude
begin

text \<open>
  The page table and page directory entries of \<^verbatim>\<open>include/mm/pte.h\<close> and \<^verbatim>\<open>include/mm/pde.h\<close>, the
  decomposition of a virtual address in \<^verbatim>\<open>include/mm/vmm.h\<close> and the alignment macros of
  \<^verbatim>\<open>include/utils.h\<close>. The memory manager itself (\<^verbatim>\<open>vmm\<close>, \<^verbatim>\<open>kmm\<close>, \<^verbatim>\<open>kheap\<close>) is in the
  repository as object files only; these headers are the part of it that can be read. The locale
  \<open>page_entry\<close> is the contract the two kinds of entry share, interpreted for both.
\<close>

section \<open>Page table entries\<close>

type_synonym pte_t = u32
type_synonym pde_t = u32

definition PTE_PRESENT :: u32 where [const_defs]: "PTE_PRESENT = 0x001"
definition PTE_WRITABLE :: u32 where [const_defs]: "PTE_WRITABLE = 0x002"
definition PTE_USER :: u32 where [const_defs]: "PTE_USER = 0x004"
definition PTE_WRITETHROUGH :: u32 where [const_defs]: "PTE_WRITETHROUGH = 0x008"
definition PTE_CACHEDISABLE :: u32 where [const_defs]: "PTE_CACHEDISABLE = 0x010"
definition PTE_ACCESSED :: u32 where [const_defs]: "PTE_ACCESSED = 0x020"
definition PTE_DIRTY :: u32 where [const_defs]: "PTE_DIRTY = 0x040"
definition PTE_PAT :: u32 where [const_defs]: "PTE_PAT = 0x080"
definition PTE_GLOBAL :: u32 where [const_defs]: "PTE_GLOBAL = 0x100"
definition PTE_LV4_GLOBAL :: u32 where [const_defs]: "PTE_LV4_GLOBAL = 0x200"
definition PTE_FRAME_MASK :: u32 where [const_defs]: "PTE_FRAME_MASK = 0xFFFFF000"

definition PTE_FRAME_ADDR :: "pte_t \<Rightarrow> u32" where
  "PTE_FRAME_ADDR pte = pte AND PTE_FRAME_MASK"

definition PTE_FLAGS :: "pte_t \<Rightarrow> u32" where
  "PTE_FLAGS pte = pte AND NOT PTE_FRAME_MASK"

definition PTE_IS_PRESENT :: "pte_t \<Rightarrow> bool" where
  "PTE_IS_PRESENT pte \<longleftrightarrow> pte AND PTE_PRESENT \<noteq> 0"

definition PTE_IS_WRITABLE :: "pte_t \<Rightarrow> bool" where
  "PTE_IS_WRITABLE pte \<longleftrightarrow> pte AND PTE_WRITABLE \<noteq> 0"

definition PTE_IS_DIRTY :: "pte_t \<Rightarrow> bool" where
  "PTE_IS_DIRTY pte \<longleftrightarrow> pte AND PTE_DIRTY \<noteq> 0"

definition PTE_SET_PRESENT :: "pte_t \<Rightarrow> pte_t" where "PTE_SET_PRESENT pte = pte OR PTE_PRESENT"
definition PTE_UNSET_PRESENT :: "pte_t \<Rightarrow> pte_t" where "PTE_UNSET_PRESENT pte = pte AND NOT PTE_PRESENT"
definition PTE_SET_WRITABLE :: "pte_t \<Rightarrow> pte_t" where "PTE_SET_WRITABLE pte = pte OR PTE_WRITABLE"
definition PTE_UNSET_WRITABLE :: "pte_t \<Rightarrow> pte_t" where "PTE_UNSET_WRITABLE pte = pte AND NOT PTE_WRITABLE"
definition PTE_SET_DIRTY :: "pte_t \<Rightarrow> pte_t" where "PTE_SET_DIRTY pte = pte OR PTE_DIRTY"
definition PTE_UNSET_DIRTY :: "pte_t \<Rightarrow> pte_t" where "PTE_UNSET_DIRTY pte = pte AND NOT PTE_DIRTY"

definition pte_set_flags :: "pte_t \<Rightarrow> u32 \<Rightarrow> pte_t" where
  "pte_set_flags pte flags = (pte AND PTE_FRAME_MASK) OR (flags AND NOT PTE_FRAME_MASK)"

definition pte_clear_flags :: "pte_t \<Rightarrow> u32 \<Rightarrow> pte_t" where
  "pte_clear_flags pte flags = pte AND NOT (flags AND NOT PTE_FRAME_MASK)"

definition pte_create :: "ptr \<Rightarrow> u32 \<Rightarrow> pte_t" where
  "pte_create frame_addr flags = (frame_addr AND PTE_FRAME_MASK) OR (flags AND NOT PTE_FRAME_MASK)"

section \<open>Page directory entries\<close>

definition PDE_PRESENT :: u32 where [const_defs]: "PDE_PRESENT = 0x001"
definition PDE_WRITABLE :: u32 where [const_defs]: "PDE_WRITABLE = 0x002"
definition PDE_USER :: u32 where [const_defs]: "PDE_USER = 0x004"
definition PDE_WRITETHROUGH :: u32 where [const_defs]: "PDE_WRITETHROUGH = 0x008"
definition PDE_CACHEDISABLE :: u32 where [const_defs]: "PDE_CACHEDISABLE = 0x010"
definition PDE_ACCESSED :: u32 where [const_defs]: "PDE_ACCESSED = 0x020"
definition PDE_DIRTY :: u32 where [const_defs]: "PDE_DIRTY = 0x040"
definition PDE_SIZE_4MB :: u32 where [const_defs]: "PDE_SIZE_4MB = 0x080"
definition PDE_GLOBAL :: u32 where [const_defs]: "PDE_GLOBAL = 0x100"
definition PDE_LV4_GLOBAL :: u32 where [const_defs]: "PDE_LV4_GLOBAL = 0x200"
definition PDE_FRAME_MASK :: u32 where [const_defs]: "PDE_FRAME_MASK = 0xFFFFF000"

definition PDE_PTABLE_ADDR :: "pde_t \<Rightarrow> u32" where
  "PDE_PTABLE_ADDR pde = pde AND PDE_FRAME_MASK"

definition PDE_FLAGS :: "pde_t \<Rightarrow> u32" where
  "PDE_FLAGS pde = pde AND NOT PDE_FRAME_MASK"

definition PDE_IS_WRITABLE :: "pde_t \<Rightarrow> bool" where "PDE_IS_WRITABLE pde \<longleftrightarrow> pde AND PDE_WRITABLE \<noteq> 0"
definition PDE_IS_PRESENT :: "pde_t \<Rightarrow> bool" where "PDE_IS_PRESENT pde \<longleftrightarrow> pde AND PDE_PRESENT \<noteq> 0"
definition PDE_IS_DIRTY :: "pde_t \<Rightarrow> bool" where "PDE_IS_DIRTY pde \<longleftrightarrow> pde AND PDE_DIRTY \<noteq> 0"
definition PDE_IS_USER :: "pde_t \<Rightarrow> bool" where "PDE_IS_USER pde \<longleftrightarrow> pde AND PDE_USER \<noteq> 0"
definition PDE_IS_4MB :: "pde_t \<Rightarrow> bool" where "PDE_IS_4MB pde \<longleftrightarrow> pde AND PDE_SIZE_4MB \<noteq> 0"

definition pde_set_flags :: "pde_t \<Rightarrow> u32 \<Rightarrow> pde_t" where
  "pde_set_flags pde flags = (pde AND PDE_FRAME_MASK) OR (flags AND NOT PDE_FRAME_MASK)"

definition pde_clear_flags :: "pde_t \<Rightarrow> u32 \<Rightarrow> pde_t" where
  "pde_clear_flags pde flags = pde AND NOT (flags AND NOT PDE_FRAME_MASK)"

definition pde_create :: "ptr \<Rightarrow> u32 \<Rightarrow> pde_t" where
  "pde_create frame_addr flags = (frame_addr AND PDE_FRAME_MASK) OR (flags AND NOT PDE_FRAME_MASK)"

section \<open>Virtual addresses and alignment\<close>

definition VMM_PAGE_SIZE :: u32 where [const_defs]: "VMM_PAGE_SIZE = 4096"
definition VMM_PAGES_PER_TABLE :: u32 where [const_defs]: "VMM_PAGES_PER_TABLE = 1024"
definition VMM_PAGES_PER_DIR :: u32 where [const_defs]: "VMM_PAGES_PER_DIR = 1024"
definition VMM_DIR_INDEX_MASK :: u32 where [const_defs]: "VMM_DIR_INDEX_MASK = 0xFFC00000"
definition VMM_TABLE_INDEX_MASK :: u32 where [const_defs]: "VMM_TABLE_INDEX_MASK = 0x003FF000"
definition VMM_PAGE_OFFSET_MASK :: u32 where [const_defs]: "VMM_PAGE_OFFSET_MASK = 0x00000FFF"

definition VMM_DIR_INDEX :: "ptr \<Rightarrow> u32" where
  "VMM_DIR_INDEX addr = drop_bit 22 (addr AND VMM_DIR_INDEX_MASK)"

definition VMM_TABLE_INDEX :: "ptr \<Rightarrow> u32" where
  "VMM_TABLE_INDEX addr = drop_bit 12 (addr AND VMM_TABLE_INDEX_MASK)"

definition VMM_PAGE_OFFSET :: "ptr \<Rightarrow> u32" where
  "VMM_PAGE_OFFSET addr = addr AND VMM_PAGE_OFFSET_MASK"

definition ALIGN :: "ptr \<Rightarrow> u32 \<Rightarrow> ptr" where
  "ALIGN addr alignment = (addr + alignment - 1) AND NOT (alignment - 1)"

definition ALIGN_SIZE :: "u32 \<Rightarrow> u32 \<Rightarrow> u32" where
  "ALIGN_SIZE sz alignment = (sz + alignment - 1) AND NOT (alignment - 1)"

definition IS_ALIGNED :: "ptr \<Rightarrow> u32 \<Rightarrow> bool" where
  "IS_ALIGNED addr alignment \<longleftrightarrow> addr AND (alignment - 1) = 0"

definition PAGE_ALIGN_UP :: "ptr \<Rightarrow> ptr" where
  "PAGE_ALIGN_UP addr = addr AND NOT 0xFFF"

definition PAGE_ALIGN_DWN :: "ptr \<Rightarrow> ptr" where
  "PAGE_ALIGN_DWN addr = (addr + 0xFFF) AND NOT 0xFFF"

section \<open>The contract of an entry\<close>

locale page_entry =
  fixes mk :: "u32 \<Rightarrow> u32 \<Rightarrow> u32" and frame flags :: "u32 \<Rightarrow> u32" and setf clrf :: "u32 \<Rightarrow> u32 \<Rightarrow> u32"
  assumes frame_mk: "frame (mk a f) = frame a"
    and flags_mk: "flags (mk a f) = flags f"
    and mk_split: "mk (frame e) (flags e) = e"
    and mk_frame: "mk (frame a) f = mk a f"
    and setf_mk: "setf e f = mk e f"
    and clrf_frame: "frame (clrf e f) = frame e"
    and clrf_flags: "flags (clrf e f) = flags e AND NOT (flags f)"
begin

lemma entry_eq_iff: "e = e' \<longleftrightarrow> frame e = frame e' \<and> flags e = flags e'"
  using mk_split [of e] mk_split [of e'] by metis

lemma setf_laws: "frame (setf e f) = frame e" "flags (setf e f) = flags f" "setf (setf e f) g = setf e g"
  using frame_mk flags_mk mk_frame by (metis setf_mk)+

lemma clrf_commute: "clrf (clrf e f) g = clrf (clrf e g) f"
  by (subst entry_eq_iff) (simp add: clrf_frame clrf_flags ac_simps)

lemma clrf_idem: "clrf (clrf e f) f = clrf e f"
  by (subst entry_eq_iff) (simp add: clrf_frame clrf_flags ac_simps)

lemma roundtrip:
  "frame a = a \<Longrightarrow> flags f = f \<Longrightarrow> frame (mk a f) = a \<and> flags (mk a f) = f"
  using frame_mk flags_mk by simp

end

interpretation pte: page_entry pte_create PTE_FRAME_ADDR PTE_FLAGS pte_set_flags pte_clear_flags
  by unfold_locales
     (rule bit_eqI; auto simp: pte_create_def PTE_FRAME_ADDR_def PTE_FLAGS_def pte_set_flags_def
        pte_clear_flags_def bit_simps)+

interpretation pde: page_entry pde_create PDE_PTABLE_ADDR PDE_FLAGS pde_set_flags pde_clear_flags
  by unfold_locales
     (rule bit_eqI; auto simp: pde_create_def PDE_PTABLE_ADDR_def PDE_FLAGS_def pde_set_flags_def
        pde_clear_flags_def bit_simps)+

section \<open>Address arithmetic\<close>

lemma vmm_masks:
  "VMM_DIR_INDEX_MASK = push_bit 22 (mask 10)" "VMM_TABLE_INDEX_MASK = push_bit 12 (mask 10)"
  "VMM_PAGE_OFFSET_MASK = mask 12"
  by (simp_all add: const_defs mask_eq_exp_minus_1)

lemma dir_index_slice: "VMM_DIR_INDEX a = take_bit 10 (drop_bit 22 a)"
  unfolding VMM_DIR_INDEX_def vmm_masks by (rule bit_eqI) (auto simp: bit_simps)

lemma table_index_slice: "VMM_TABLE_INDEX a = take_bit 10 (drop_bit 12 a)"
  unfolding VMM_TABLE_INDEX_def vmm_masks by (rule bit_eqI) (auto simp: bit_simps)

lemma page_offset_slice: "VMM_PAGE_OFFSET a = take_bit 12 a"
  unfolding VMM_PAGE_OFFSET_def vmm_masks by (rule bit_eqI) (auto simp: bit_simps)

lemma and_not_mask_shift: "(w :: u32) AND NOT (mask k) = push_bit k (drop_bit k w)"
  by (rule bit_eqI) (auto simp: bit_simps)

lemma unat_and_not_mask: "unat ((w :: u32) AND NOT (mask k)) = unat w div 2 ^ k * 2 ^ k"
proof -
  have "unat w div 2 ^ k * 2 ^ k < 4294967296"
    using unat_u32_bound [of w] div_times_less_eq_dividend [of "unat w" "2 ^ k"] by linarith
  then show ?thesis
    unfolding and_not_mask_shift
    by (simp add: unsigned_push_bit_eq unsigned_drop_bit_eq take_bit_nat_eq_self push_bit_nat_def drop_bit_nat_def)
qed

lemma unat_and_mask: "unat ((w :: u32) AND mask k) = unat w mod 2 ^ k"
  by (simp add: take_bit_eq_mask [symmetric] unsigned_take_bit_eq take_bit_nat_def)

lemma pow2_minus_1: "(2 :: u32) ^ k - 1 = mask k"
  by (simp add: mask_eq_exp_minus_1)

section \<open>Properties\<close>

text \<open>Further property: an entry created from an address and flags gives back the page of the address and
  the low 12 flag bits, for page table and page directory entries alike; setting flags replaces all
  flags and keeps the frame, clearing removes exactly the given flags and keeps the frame.\<close>

theorem page_entry_laws:
  "PTE_FRAME_ADDR (pte_create a f) = PTE_FRAME_ADDR a \<and> PTE_FLAGS (pte_create a f) = PTE_FLAGS f
     \<and> PTE_FRAME_ADDR (pte_set_flags e f) = PTE_FRAME_ADDR e \<and> PTE_FLAGS (pte_set_flags e f) = PTE_FLAGS f
     \<and> PTE_FRAME_ADDR (pte_clear_flags e f) = PTE_FRAME_ADDR e
     \<and> PTE_FLAGS (pte_clear_flags e f) = PTE_FLAGS e AND NOT (PTE_FLAGS f)
     \<and> PDE_PTABLE_ADDR (pde_create a f) = PDE_PTABLE_ADDR a \<and> PDE_FLAGS (pde_create a f) = PDE_FLAGS f
     \<and> PDE_PTABLE_ADDR (pde_set_flags e f) = PDE_PTABLE_ADDR e \<and> PDE_FLAGS (pde_set_flags e f) = PDE_FLAGS f
     \<and> PDE_PTABLE_ADDR (pde_clear_flags e f) = PDE_PTABLE_ADDR e
     \<and> PDE_FLAGS (pde_clear_flags e f) = PDE_FLAGS e AND NOT (PDE_FLAGS f)"
  by (simp add: pte.frame_mk pte.flags_mk pte.setf_laws pte.clrf_frame pte.clrf_flags
      pde.frame_mk pde.flags_mk pde.setf_laws pde.clrf_frame pde.clrf_flags)

text \<open>Further property: the directory index, table index and page offset of a virtual address are in range
  for a table of 1024 entries and a page of 4096 bytes, and determine the address.\<close>

theorem vmm_address_split:
  "VMM_DIR_INDEX a < VMM_PAGES_PER_DIR \<and> VMM_TABLE_INDEX a < VMM_PAGES_PER_TABLE
     \<and> VMM_PAGE_OFFSET a < VMM_PAGE_SIZE
     \<and> a = (VMM_DIR_INDEX a * VMM_PAGES_PER_TABLE + VMM_TABLE_INDEX a) * VMM_PAGE_SIZE + VMM_PAGE_OFFSET a"
proof -
  have r: "VMM_DIR_INDEX a < 1024" "VMM_TABLE_INDEX a < 1024" "VMM_PAGE_OFFSET a < 4096"
    by (simp_all add: dir_index_slice table_index_slice page_offset_slice word_less_nat_alt
        unsigned_take_bit_eq take_bit_nat_def)
  let ?q = "drop_bit 12 a"
  have "VMM_DIR_INDEX a = drop_bit 10 ?q"
    unfolding dir_index_slice by (rule bit_eqI) (auto simp: bit_simps dest: bit_imp_le_length)
  then have "?q = VMM_DIR_INDEX a * 1024 + VMM_TABLE_INDEX a"
    using bits_ident [of 10 ?q] by (simp add: table_index_slice push_bit_eq_mult)
  moreover have "a = ?q * 4096 + VMM_PAGE_OFFSET a"
    using bits_ident [of 12 a] by (simp add: page_offset_slice push_bit_eq_mult)
  ultimately show ?thesis using r by (simp add: const_defs)
qed

text \<open>Further property: \<^verbatim>\<open>ALIGN\<close> with a power of two rounds an address up to the next multiple when that
  does not leave the address space, and the result passes \<^verbatim>\<open>IS_ALIGNED\<close>.\<close>

theorem align_rounds_up:
  assumes "k < 32" and "unat a + 2 ^ k \<le> 4294967296"
  shows "unat (ALIGN a (2 ^ k)) = (unat a + (2 ^ k - 1)) div 2 ^ k * 2 ^ k
     \<and> IS_ALIGNED (ALIGN a (2 ^ k)) (2 ^ k) \<and> ALIGN_SIZE a (2 ^ k) = ALIGN a (2 ^ k)
     \<and> (IS_ALIGNED a (2 ^ k) \<longleftrightarrow> 2 ^ k dvd unat a)"
proof -
  have k: "(2 :: nat) ^ k < 4294967296"
    using power_strict_increasing [OF assms(1), of "2 :: nat"] by simp
  have ge: "Suc 0 \<le> (2 :: nat) ^ k" by simp
  have "unat (2 ^ k - 1 :: u32) = 2 ^ k - 1"
    using k ge by (metis of_nat_1 of_nat_diff of_nat_numeral of_nat_power One_nat_def less_imp_diff_less
        unat_of_nat_u32)
  moreover have "unat a + (2 ^ k - 1) < 4294967296" using assms(2) ge by linarith
  ultimately have sum: "unat (a + (2 ^ k - 1)) = unat a + (2 ^ k - 1)"
    by (simp add: unat_word_ariths)
  have al: "ALIGN a (2 ^ k) = (a + (2 ^ k - 1)) AND NOT (mask k)"
    by (simp add: ALIGN_def pow2_minus_1 [symmetric] add_diff_eq)
  then have r: "unat (ALIGN a (2 ^ k)) = (unat a + (2 ^ k - 1)) div 2 ^ k * 2 ^ k"
    by (simp only: unat_and_not_mask sum)
  have is_al: "IS_ALIGNED b (2 ^ k) \<longleftrightarrow> 2 ^ k dvd unat b" for b
    unfolding IS_ALIGNED_def pow2_minus_1
    by (metis dvd_eq_mod_eq_0 unat_and_mask unsigned_0 unsigned_word_eqI)
  show ?thesis using r is_al by (simp add: ALIGN_SIZE_def ALIGN_def)
qed

theorem align_rounds_up_witness:
  "unat (ALIGN 0x12345 (2 ^ 12)) = 0x13000 \<and> IS_ALIGNED (ALIGN 0x12345 (2 ^ 12)) (2 ^ 12)"
  using align_rounds_up [of 12 "0x12345"] by simp

text \<open>Further property: despite their names, \<^verbatim>\<open>PAGE_ALIGN_UP\<close> rounds down to the start of the page and
  \<^verbatim>\<open>PAGE_ALIGN_DWN\<close> rounds up to the next page boundary.\<close>

theorem page_align_directions:
  "unat (PAGE_ALIGN_UP a) = unat a div 4096 * 4096
     \<and> (unat a \<le> 4294963200 \<longrightarrow> unat (PAGE_ALIGN_DWN a) = (unat a + 4095) div 4096 * 4096)"
proof -
  have m: "(0xFFF :: u32) = mask 12" by (simp add: mask_eq_exp_minus_1)
  show ?thesis
    unfolding PAGE_ALIGN_UP_def PAGE_ALIGN_DWN_def m unat_and_not_mask
    by (simp add: unat_word_ariths mask_eq_exp_minus_1)
qed

theorem page_align_directions_witness:
  "unat (PAGE_ALIGN_UP 0x12345) = 0x12000 \<and> unat (PAGE_ALIGN_DWN 0x12345) = 0x13000"
  using page_align_directions [of "0x12345"] by simp

end
