(* ===== verification/Init_Gdt.thy ===== *)
theory Init_Gdt
  imports Kernel_Prelude
begin

text \<open>
  The global descriptor table of \<^verbatim>\<open>init/gdt.c\<close>, with the structures of \<^verbatim>\<open>include/init/gdt.h\<close> and
  the task state segment of \<^verbatim>\<open>include/proc/tss.h\<close>. The addresses of the table, of its pointer
  structure and of the TSS (which \<^verbatim>\<open>tss_get_global\<close> of an object file returns) are arguments; the
  assembly routines \<^verbatim>\<open>load_gdt\<close> and \<^verbatim>\<open>tss_flush\<close> set the two processor registers of the state. The
  decoding functions read a descriptor the way the processor does, and the lemmas say that what was
  encoded is what is decoded.
\<close>

section \<open>Constants and structures\<close>

definition GDT_ACCESS_PRESENT :: u8 where [const_defs]: "GDT_ACCESS_PRESENT = 0x80"
definition GDT_ACCESS_RING0 :: u8 where [const_defs]: "GDT_ACCESS_RING0 = 0x00"
definition GDT_ACCESS_RING3 :: u8 where [const_defs]: "GDT_ACCESS_RING3 = 0x60"
definition GDT_ACCESS_TYPE :: u8 where [const_defs]: "GDT_ACCESS_TYPE = 0x10"
definition GDT_ACCESS_CODE :: u8 where [const_defs]: "GDT_ACCESS_CODE = 0x08"
definition GDT_ACCESS_DATA :: u8 where [const_defs]: "GDT_ACCESS_DATA = 0x00"
definition GDT_ACCESS_READABLE :: u8 where [const_defs]: "GDT_ACCESS_READABLE = 0x02"
definition GDT_ACCESS_READWRITE :: u8 where [const_defs]: "GDT_ACCESS_READWRITE = 0x02"
definition GDT_ACCESS_TSS32 :: u8 where [const_defs]: "GDT_ACCESS_TSS32 = 0x09"

definition GDT_ACCESS_USER_CODE :: u8 where [const_defs]:
  "GDT_ACCESS_USER_CODE = GDT_ACCESS_PRESENT OR GDT_ACCESS_RING3 OR GDT_ACCESS_TYPE OR
     GDT_ACCESS_CODE OR GDT_ACCESS_READABLE"

definition GDT_ACCESS_USER_DATA :: u8 where [const_defs]:
  "GDT_ACCESS_USER_DATA = GDT_ACCESS_PRESENT OR GDT_ACCESS_RING3 OR GDT_ACCESS_TYPE OR
     GDT_ACCESS_DATA OR GDT_ACCESS_READWRITE"

definition GDT_ACCESS_KERNEL_CODE :: u8 where [const_defs]:
  "GDT_ACCESS_KERNEL_CODE = GDT_ACCESS_PRESENT OR GDT_ACCESS_RING0 OR GDT_ACCESS_TYPE OR
     GDT_ACCESS_CODE OR GDT_ACCESS_READABLE"

definition GDT_ACCESS_KERNEL_DATA :: u8 where [const_defs]:
  "GDT_ACCESS_KERNEL_DATA = GDT_ACCESS_PRESENT OR GDT_ACCESS_RING0 OR GDT_ACCESS_TYPE OR
     GDT_ACCESS_DATA OR GDT_ACCESS_READWRITE"

definition GDT_GRANULARITY :: u8 where [const_defs]: "GDT_GRANULARITY = 0xCF"
definition TSS_GRANULARITY :: u8 where [const_defs]: "TSS_GRANULARITY = 0x00"

definition GDT_ENTRIES :: nat where [const_defs]: "GDT_ENTRIES = 6"
definition GDT_NULL_ENTRY :: nat where [const_defs]: "GDT_NULL_ENTRY = 0"
definition GDT_KERNEL_CODE_ENTRY :: nat where [const_defs]: "GDT_KERNEL_CODE_ENTRY = 1"
definition GDT_KERNEL_DATA_ENTRY :: nat where [const_defs]: "GDT_KERNEL_DATA_ENTRY = 2"
definition GDT_USER_CODE_ENTRY :: nat where [const_defs]: "GDT_USER_CODE_ENTRY = 3"
definition GDT_USER_DATA_ENTRY :: nat where [const_defs]: "GDT_USER_DATA_ENTRY = 4"
definition GDT_TSS_ENTRY :: nat where [const_defs]: "GDT_TSS_ENTRY = 5"

record gdt_entry_t =
  limit_low :: u16
  base_low :: u16
  base_middle :: u8
  access :: u8
  granularity :: u8
  base_high :: u8

record gdt_ptr_t =
  gp_limit :: u16
  gp_base :: u32

record tss_t =
  prev_tss :: u32
  tss_esp0 :: u32
  tss_ss0 :: u32
  tss_esp1 :: u32
  tss_ss1 :: u32
  tss_esp2 :: u32
  tss_ss2 :: u32
  tss_cr3 :: u32
  tss_eip :: u32
  tss_eflags :: u32
  tss_gpregs :: "u32 list"
  tss_es :: u32
  tss_cs :: u32
  tss_ss :: u32
  tss_ds :: u32
  tss_fs :: u32
  tss_gs :: u32
  tss_ldt :: u32
  tss_trap :: u16
  tss_iomap_base :: u16

text \<open>\<^verbatim>\<open>sizeof\<close> of the packed structures: a descriptor has 8 bytes, the TSS 25 words and 2 half words.\<close>

definition sizeof_gdt_entry_t :: nat where [const_defs]: "sizeof_gdt_entry_t = 2 + 2 + 1 + 1 + 1 + 1"
definition sizeof_tss_t :: nat where [const_defs]: "sizeof_tss_t = 25 * 4 + 2 * 2"

definition GDT_SEG_OFFSET :: "nat \<Rightarrow> u32" where
  "GDT_SEG_OFFSET entry = of_nat (entry * sizeof_gdt_entry_t)"

record gdt_state =
  gdt :: "gdt_entry_t list"
  gdt_ptr :: gdt_ptr_t
  tss :: tss_t
  reg_gdtr :: "ptr option"
  reg_tr :: "u32 option"

section \<open>Operations\<close>

definition create_gdt_entry :: "gdt_entry_t \<Rightarrow> u32 \<Rightarrow> u32 \<Rightarrow> u8 \<Rightarrow> u8 \<Rightarrow> gdt_entry_t" where
  "create_gdt_entry entry base limit acc gran =
     (let e1 = entry\<lparr>base_low := ucast (base AND 0xFFFF),
                     base_middle := ucast (drop_bit 16 base AND 0xFF),
                     base_high := ucast (drop_bit 24 base AND 0xFF)\<rparr>;
          e2 = e1\<lparr>limit_low := ucast (limit AND 0xFFFF),
                  granularity := ucast (drop_bit 16 limit AND 0x0F)\<rparr>;
          e3 = e2\<lparr>granularity := granularity e2 OR (gran AND 0xF0)\<rparr>
      in e3\<lparr>access := acc\<rparr>)"

definition set_entry :: "nat \<Rightarrow> u32 \<Rightarrow> u32 \<Rightarrow> u8 \<Rightarrow> u8 \<Rightarrow> gdt_entry_t list \<Rightarrow> gdt_entry_t list" where
  "set_entry i base limit acc gran g = g[i := create_gdt_entry (g ! i) base limit acc gran]"

definition zero_tss :: tss_t where
  "zero_tss = \<lparr>prev_tss = 0, tss_esp0 = 0, tss_ss0 = 0, tss_esp1 = 0, tss_ss1 = 0, tss_esp2 = 0,
     tss_ss2 = 0, tss_cr3 = 0, tss_eip = 0, tss_eflags = 0, tss_gpregs = replicate 8 0,
     tss_es = 0, tss_cs = 0, tss_ss = 0, tss_ds = 0, tss_fs = 0, tss_gs = 0, tss_ldt = 0,
     tss_trap = 0, tss_iomap_base = 0\<rparr>"

definition PR_MEM_START :: u32 where [const_defs]: "PR_MEM_START = 0x0"
definition PR_MEM_END :: u32 where [const_defs]: "PR_MEM_END = 0xFFFFFFFF"

definition gdt_init_flat_protected :: "ptr \<Rightarrow> ptr \<Rightarrow> ptr \<Rightarrow> gdt_state \<Rightarrow> gdt_state" where
  "gdt_init_flat_protected gdt_addr gdt_ptr_addr tss_addr s =
     (let g0 = gdt s;
          g1 = set_entry GDT_NULL_ENTRY 0 0 0 0 g0;
          g2 = set_entry GDT_KERNEL_CODE_ENTRY PR_MEM_START PR_MEM_END GDT_ACCESS_KERNEL_CODE GDT_GRANULARITY g1;
          g3 = set_entry GDT_KERNEL_DATA_ENTRY PR_MEM_START PR_MEM_END GDT_ACCESS_KERNEL_DATA GDT_GRANULARITY g2;
          g4 = set_entry GDT_USER_CODE_ENTRY PR_MEM_START PR_MEM_END GDT_ACCESS_USER_CODE GDT_GRANULARITY g3;
          g5 = set_entry GDT_USER_DATA_ENTRY PR_MEM_START PR_MEM_END GDT_ACCESS_USER_DATA GDT_GRANULARITY g4;
          kdata = GDT_SEG_OFFSET GDT_KERNEL_DATA_ENTRY;
          t = zero_tss\<lparr>tss_ss0 := kdata, tss_esp0 := 0x0,
                tss_cs := GDT_SEG_OFFSET GDT_KERNEL_CODE_ENTRY OR 0x3,
                tss_ds := kdata OR 0x3, tss_ss := kdata OR 0x3,
                tss_gs := kdata OR 0x3, tss_fs := kdata OR 0x3, tss_es := kdata OR 0x3\<rparr>;
          g6 = set_entry GDT_TSS_ENTRY tss_addr (of_nat sizeof_tss_t - 1)
                 (GDT_ACCESS_PRESENT OR GDT_ACCESS_RING3 OR GDT_ACCESS_TSS32) TSS_GRANULARITY g5
      in s\<lparr>gdt_ptr := \<lparr>gp_limit = of_nat (sizeof_gdt_entry_t * GDT_ENTRIES) - 1, gp_base = gdt_addr\<rparr>,
           gdt := g6, tss := t, reg_gdtr := Some gdt_ptr_addr,
           reg_tr := Some (GDT_SEG_OFFSET GDT_TSS_ENTRY OR 0x3)\<rparr>)"

definition get_gdt_ptr :: "gdt_state \<Rightarrow> gdt_ptr_t" where
  "get_gdt_ptr s = gdt_ptr s"

section \<open>How the processor reads a descriptor\<close>

definition desc_base :: "gdt_entry_t \<Rightarrow> u32" where
  "desc_base e = push_bit 24 (ucast (base_high e)) OR push_bit 16 (ucast (base_middle e)) OR ucast (base_low e)"

definition desc_limit :: "gdt_entry_t \<Rightarrow> u32" where
  "desc_limit e = push_bit 16 (ucast (granularity e AND 0x0F)) OR ucast (limit_low e)"

definition desc_4k :: "gdt_entry_t \<Rightarrow> bool" where
  "desc_4k e \<longleftrightarrow> bit (granularity e) 7"

definition desc_last :: "gdt_entry_t \<Rightarrow> u32" where
  "desc_last e = desc_base e + (if desc_4k e then push_bit 12 (desc_limit e) OR 0xFFF else desc_limit e)"

definition desc_present :: "gdt_entry_t \<Rightarrow> bool" where
  "desc_present e \<longleftrightarrow> bit (access e) 7"

definition desc_dpl :: "gdt_entry_t \<Rightarrow> u8" where
  "desc_dpl e = drop_bit 5 (access e) AND 3"

definition desc_is_code :: "gdt_entry_t \<Rightarrow> bool" where
  "desc_is_code e \<longleftrightarrow> bit (access e) 4 \<and> bit (access e) 3"

text \<open>Whether the descriptor is for a code or data segment (bit 4), and its type (bits 3 to 0): of a segment, code or data,
  conforming or expanding down, readable or writable, and accessed; of a system descriptor, 9 for an available 32-bit
  TSS.\<close>

definition desc_type :: "gdt_entry_t \<Rightarrow> u8" where
  "desc_type e = access e AND 0x1F"

section \<open>Encoding and decoding\<close>

lemma byte_masks:
  "(0xFFFF :: u32) = mask 16" "(0xFF :: u32) = mask 8" "(0x0F :: u32) = mask 4"
  "(0x0F :: u8) = mask 4" "(0xF0 :: u8) = push_bit 4 (mask 4)"
  by (simp_all add: mask_eq_exp_minus_1)

lemma desc_base_create: "desc_base (create_gdt_entry e base limit acc gran) = base"
proof (rule bit_word_eqI)
  fix n assume "n < LENGTH(32)"
  then show "bit (desc_base (create_gdt_entry e base limit acc gran)) n \<longleftrightarrow> bit base n"
    unfolding desc_base_def create_gdt_entry_def Let_def byte_masks
    by (cases "24 \<le> n") (auto simp: bit_simps)
qed

lemma desc_limit_create: "desc_limit (create_gdt_entry e base limit acc gran) = take_bit 20 limit"
  unfolding desc_limit_def create_gdt_entry_def Let_def byte_masks
  by (rule bit_eqI) (auto simp: bit_simps)

lemma granularity_create:
  "drop_bit 4 (granularity (create_gdt_entry e base limit acc gran)) = drop_bit 4 gran"
  unfolding create_gdt_entry_def Let_def byte_masks
  by (rule bit_eqI) (auto simp: bit_simps dest: bit_imp_le_length)

lemma access_create [simp]: "access (create_gdt_entry e base limit acc gran) = acc"
  by (simp add: create_gdt_entry_def Let_def)

lemma desc_4k_create: "desc_4k (create_gdt_entry e base limit acc gran) \<longleftrightarrow> bit gran 7"
  using granularity_create [of e base limit acc gran]
  by (auto simp: desc_4k_def bit_drop_bit_eq dest: arg_cong [where f = "\<lambda>w. bit w 3"])

lemmas desc_create = desc_base_create desc_limit_create desc_4k_create

section \<open>Properties\<close>

text \<open>Further property: a descriptor built by \<^verbatim>\<open>create_gdt_entry\<close> is read back by the processor with the
  given base address, the low 20 bits of the limit, the given access byte and the upper four
  granularity bits, whatever the entry held before.\<close>

theorem gdt_entry_roundtrip:
  "desc_base (create_gdt_entry e base limit acc gran) = base
     \<and> desc_limit (create_gdt_entry e base limit acc gran) = take_bit 20 limit
     \<and> access (create_gdt_entry e base limit acc gran) = acc
     \<and> drop_bit 4 (granularity (create_gdt_entry e base limit acc gran)) = drop_bit 4 gran"
  by (simp add: desc_create granularity_create)

text \<open>Property C24: initialisation on a table of six entries installs a null descriptor, kernel code
  and data segments of ring 0 and user code and data segments of ring 3, all four present, 32-bit and covering the
  whole 4 GB address space, the code segments readable and not conforming, the data segments writable and
  expanding up, and a present ring-3 descriptor of an available 32-bit TSS that covers exactly the 104 bytes of the
  TSS; the TSS holds the kernel stack segment, and the processor registers point at the
  table and the TSS entry.\<close>

theorem gdt_init_flat:
  assumes "length (gdt s) = GDT_ENTRIES"
  shows "let s' = gdt_init_flat_protected ga gpa ta s; seg = (\<lambda>i. gdt s' ! i) in
    length (gdt s') = 6
    \<and> (desc_base (seg 0) = 0 \<and> desc_limit (seg 0) = 0 \<and> access (seg 0) = 0)
    \<and> (\<forall>i\<in>{1, 2, 3, 4}. desc_present (seg i) \<and> desc_base (seg i) = 0 \<and> desc_last (seg i) = 0xFFFFFFFF
         \<and> desc_dpl (seg i) = (if i \<le> 2 then 0 else 3) \<and> desc_type (seg i) = (if i \<in> {1, 3} then 0x1A else 0x12)
         \<and> drop_bit 4 (granularity (seg i)) = 0xC)
    \<and> (desc_present (seg 5) \<and> desc_dpl (seg 5) = 3 \<and> desc_type (seg 5) = 9 \<and> desc_base (seg 5) = ta \<and> desc_last (seg 5) = ta + 103
         \<and> drop_bit 4 (granularity (seg 5)) = 0)
    \<and> tss_ss0 (tss s') = 16 \<and> tss_esp0 (tss s') = 0 \<and> tss_cs (tss s') = 11 \<and> (\<forall>f\<in>{tss_ds, tss_ss, tss_es, tss_fs, tss_gs}. f (tss s') = 19)
    \<and> get_gdt_ptr s' = \<lparr>gp_limit = 47, gp_base = ga\<rparr> \<and> reg_gdtr s' = Some gpa \<and> reg_tr s' = Some 43"
proof -
  have lim: "take_bit 20 (0xFFFFFFFF :: u32) = 0xFFFFF" "take_bit 20 (103 :: u32) = 103"
    by (simp_all add: take_bit_eq_mod)
  show ?thesis
    using assms
    by (simp add: gdt_init_flat_protected_def Let_def set_entry_def desc_create granularity_create const_defs lim
        desc_last_def desc_type_def desc_present_def desc_dpl_def desc_is_code_def GDT_SEG_OFFSET_def get_gdt_ptr_def)
qed

theorem gdt_init_flat_witness:
  "reg_tr (gdt_init_flat_protected 0x1000 0x2000 0x3000
     \<lparr>gdt = replicate 6 \<lparr>limit_low = 1, base_low = 2, base_middle = 3, access = 4, granularity = 5, base_high = 6\<rparr>,
      gdt_ptr = \<lparr>gp_limit = 0, gp_base = 0\<rparr>, tss = zero_tss, reg_gdtr = None, reg_tr = None\<rparr>) = Some 43"
  using gdt_init_flat [of "\<lparr>gdt = replicate 6 \<lparr>limit_low = 1, base_low = 2, base_middle = 3, access = 4,
      granularity = 5, base_high = 6\<rparr>, gdt_ptr = \<lparr>gp_limit = 0, gp_base = 0\<rparr>, tss = zero_tss,
      reg_gdtr = None, reg_tr = None\<rparr>" "0x1000" "0x2000" "0x3000"]
  by (simp add: Let_def GDT_ENTRIES_def)

end
