(* ===== verification/Port_IO.thy ===== *)
theory Port_IO
  imports Kernel_Prelude "HOL-Library.Monad_Syntax"
begin

text \<open>
  Port-mapped input and output, \<^verbatim>\<open>inb\<close>, \<^verbatim>\<open>outb\<close> and their relatives of \<^verbatim>\<open>include/utils.h\<close>. A
  driver's interaction with a device is the chronological list of its port accesses and waits.
  The device itself is an argument of the definitions: a \<open>hardware\<close> record says which value a read
  returns, whether an interrupt arrives and what a DMA transfer leaves in memory, each as a
  function of everything that happened before. Nothing is assumed of it here; a lemma about a
  driver that needs a responsive device says so.
\<close>

section \<open>Events and devices\<close>

datatype io_event =
    Inb u16 u8
  | Outb u16 u8
  | Inw u16 u16
  | Outw u16 u16
  | Irq u8
  | Sleep u32

type_synonym io_trace = "io_event list"

record hardware =
  hw_in8 :: "io_trace \<Rightarrow> u16 \<Rightarrow> u8"
  hw_in16 :: "io_trace \<Rightarrow> u16 \<Rightarrow> u16"
  hw_irq :: "io_trace \<Rightarrow> u8 \<Rightarrow> bool"
  hw_dma :: "io_trace \<Rightarrow> u8 list \<Rightarrow> u8 list"

section \<open>Accesses\<close>

definition outb :: "u8 \<Rightarrow> u16 \<Rightarrow> io_trace \<Rightarrow> io_trace" where
  "outb v port tr = tr @ [Outb port v]"

definition inb :: "hardware \<Rightarrow> u16 \<Rightarrow> io_trace \<Rightarrow> u8 \<times> io_trace" where
  "inb hw port tr = (let v = hw_in8 hw tr port in (v, tr @ [Inb port v]))"

definition outw :: "u16 \<Rightarrow> u16 \<Rightarrow> io_trace \<Rightarrow> io_trace" where
  "outw v port tr = tr @ [Outw port v]"

definition inw :: "hardware \<Rightarrow> u16 \<Rightarrow> io_trace \<Rightarrow> u16 \<times> io_trace" where
  "inw hw port tr = (let v = hw_in16 hw tr port in (v, tr @ [Inw port v]))"

primrec insw :: "hardware \<Rightarrow> u16 \<Rightarrow> nat \<Rightarrow> io_trace \<Rightarrow> u16 list \<times> io_trace" where
  "insw hw port 0 tr = ([], tr)"
| "insw hw port (Suc n) tr =
     (let (v, tr1) = inw hw port tr; (vs, tr2) = insw hw port n tr1 in (v # vs, tr2))"

primrec outsw :: "u16 \<Rightarrow> u16 list \<Rightarrow> io_trace \<Rightarrow> io_trace" where
  "outsw port [] tr = tr"
| "outsw port (v # vs) tr = outsw port vs (outw v port tr)"

primrec insb :: "hardware \<Rightarrow> u16 \<Rightarrow> nat \<Rightarrow> io_trace \<Rightarrow> u8 list \<times> io_trace" where
  "insb hw port 0 tr = ([], tr)"
| "insb hw port (Suc n) tr =
     (let (v, tr1) = inb hw port tr; (vs, tr2) = insb hw port n tr1 in (v # vs, tr2))"

primrec outsb :: "u16 \<Rightarrow> u8 list \<Rightarrow> io_trace \<Rightarrow> io_trace" where
  "outsb port [] tr = tr"
| "outsb port (v # vs) tr = outsb port vs (outb v port tr)"

definition LOW_BYTE :: "u16 \<Rightarrow> u8" where
  "LOW_BYTE x = ucast (x AND 0xFF)"

definition HIGH_BYTE :: "u16 \<Rightarrow> u8" where
  "HIGH_BYTE x = ucast (drop_bit 8 x AND 0xFF)"

text \<open>A loop that tests at most \<open>n\<close> times and stops at the first success.\<close>

primrec poll_until :: "nat \<Rightarrow> ('s \<Rightarrow> bool \<times> 's) \<Rightarrow> 's \<Rightarrow> bool \<times> 's" where
  "poll_until 0 test s = (False, s)"
| "poll_until (Suc n) test s = (let (ok, s1) = test s in if ok then (True, s1) else poll_until n test s1)"

section \<open>Reading a trace\<close>

text \<open>The bytes written to a port, and the ports read, in order.\<close>

fun writes_to :: "u16 \<Rightarrow> io_trace \<Rightarrow> u8 list" where
  "writes_to p [] = []"
| "writes_to p (Outb q v # tr) = (if q = p then v # writes_to p tr else writes_to p tr)"
| "writes_to p (e # tr) = writes_to p tr"

fun reads_of :: "u16 \<Rightarrow> io_trace \<Rightarrow> u8 list" where
  "reads_of p [] = []"
| "reads_of p (Inb q v # tr) = (if q = p then v # reads_of p tr else reads_of p tr)"
| "reads_of p (e # tr) = reads_of p tr"

definition is_outb :: "io_event \<Rightarrow> bool" where
  "is_outb e = (case e of Outb p v \<Rightarrow> True | _ \<Rightarrow> False)"

lemma writes_to_append [io_simps, simp]: "writes_to p (xs @ ys) = writes_to p xs @ writes_to p ys"
  by (induction p xs rule: writes_to.induct) auto

lemma reads_of_append [io_simps, simp]: "reads_of p (xs @ ys) = reads_of p xs @ reads_of p ys"
  by (induction p xs rule: reads_of.induct) auto

lemma writes_to_outb [io_simps]:
  "writes_to p (outb v q tr) = writes_to p tr @ (if q = p then [v] else [])"
  by (simp add: outb_def)

lemma writes_to_inb [io_simps]: "writes_to p (snd (inb hw q tr)) = writes_to p tr"
  by (simp add: inb_def Let_def)

lemma low_high_byte: "ucast (LOW_BYTE x) OR push_bit 8 (ucast (HIGH_BYTE x)) = (x :: u16)"
proof -
  have m: "(0xFF :: u16) = mask 8" by (simp add: mask_eq_exp_minus_1)
  show ?thesis
    unfolding LOW_BYTE_def HIGH_BYTE_def m by (rule bit_word_eqI) (auto simp: bit_simps)
qed

section \<open>Polling with a bound\<close>

text \<open>A test that leaves the state related by \<open>R\<close> keeps it related through the whole loop; the loop
  ends in success only after a successful test.\<close>

locale bounded_poll =
  fixes test :: "'s \<Rightarrow> bool \<times> 's" and R :: "'s \<Rightarrow> 's \<Rightarrow> bool"
  assumes R_refl: "R s s" and R_trans: "R s t \<Longrightarrow> R t u \<Longrightarrow> R s u"
    and test_R: "R s (snd (test s))"
begin

lemma poll_R: "R s (snd (poll_until n test s))"
proof (induction n arbitrary: s)
  case 0
  then show ?case by (simp add: R_refl)
next
  case (Suc n)
  then show ?case
    using test_R [of s] R_trans by (auto simp: Let_def split_beta)
qed

lemma poll_success:
  "fst (poll_until n test s) \<Longrightarrow> \<exists>t. R s t \<and> fst (test t) \<and> snd (poll_until n test s) = snd (test t)"
proof (induction n arbitrary: s)
  case (Suc n)
  show ?case
  proof (cases "fst (test s)")
    case True
    then show ?thesis using R_refl [of s] by (auto simp: Let_def split_beta)
  next
    case False
    then have "poll_until (Suc n) test s = poll_until n test (snd (test s))"
      by (simp add: Let_def split_beta)
    then show ?thesis using Suc.IH [of "snd (test s)"] Suc.prems test_R [of s] R_trans by metis
  qed
qed simp

lemma poll_immediate: "fst (test s) \<Longrightarrow> 0 < n \<Longrightarrow> poll_until n test s = (True, snd (test s))"
  by (cases n) (simp_all add: Let_def split_beta)

lemma poll_never: "(\<And>t. R s t \<Longrightarrow> \<not> fst (test t)) \<Longrightarrow> \<not> fst (poll_until n test s)"
  using poll_success by blast

end

section \<open>Transfers of a block\<close>

lemma insb_reads:
  "length (fst (insb hw port n tr)) = n
     \<and> reads_of port (snd (insb hw port n tr)) = reads_of port tr @ fst (insb hw port n tr)
     \<and> writes_to q (snd (insb hw port n tr)) = writes_to q tr"
  by (induction n arbitrary: tr) (simp_all add: inb_def Let_def split_beta)

lemma outsb_writes:
  "writes_to q (outsb port bs tr) = writes_to q tr @ (if q = port then bs else []) \<and> reads_of q (outsb port bs tr) = reads_of q tr"
  by (induction bs arbitrary: tr) (simp_all add: outb_def)

lemma outsw_trace: "outsw port ws tr = tr @ map (Outw port) ws"
  by (induction ws arbitrary: tr) (simp_all add: outw_def)

text \<open>Further property: a block transfer touches the port once per element and nothing else: \<^verbatim>\<open>insb\<close> returns as
  many bytes as asked for, namely those the port gave one after the other, \<^verbatim>\<open>outsb\<close> writes the bytes of
  the buffer in their order, and \<^verbatim>\<open>outsw\<close> the words.\<close>

theorem block_io_transfers:
  "length (fst (insb hw port n tr)) = n
     \<and> reads_of port (snd (insb hw port n tr)) = reads_of port tr @ fst (insb hw port n tr)
     \<and> writes_to q (outsb port bs tr) = writes_to q tr @ (if q = port then bs else [])
     \<and> outsw port ws tr = tr @ map (Outw port) ws"
  using insb_reads [of hw port n tr] outsb_writes [of q port bs tr] by (simp add: outsw_trace)

end
