(* ===== verification/Drv_Pic.thy ===== *)
theory Drv_Pic
  imports Port_IO
begin

text \<open>
  The 8259 interrupt controllers of \<^verbatim>\<open>driver/pic.c\<close>: initialisation of the master and slave
  and the end-of-interrupt command. The second half reads the written bytes as the 8259 does, as
  a small state machine that takes four initialisation words and afterwards treats a write to the
  data port as its interrupt mask.
\<close>

section \<open>Constants\<close>

definition MASTER_PIC_COMMAND_PORT :: u16 where [const_defs]: "MASTER_PIC_COMMAND_PORT = 0x20"
definition MASTER_PIC_DATA_PORT :: u16 where [const_defs]: "MASTER_PIC_DATA_PORT = 0x21"
definition SLAVE_PIC_COMMAND_PORT :: u16 where [const_defs]: "SLAVE_PIC_COMMAND_PORT = 0xA0"
definition SLAVE_PIC_DATA_PORT :: u16 where [const_defs]: "SLAVE_PIC_DATA_PORT = 0xA1"
definition PIC_ICW1_EXPECT_ICW4 :: u8 where [const_defs]: "PIC_ICW1_EXPECT_ICW4 = 0x01"
definition PIC_ICW1_START_INIT :: u8 where [const_defs]: "PIC_ICW1_START_INIT = 0x10"
definition PIC_ICW4_8086_MODE :: u8 where [const_defs]: "PIC_ICW4_8086_MODE = 0x01"
definition PIC_OCW2_EOI :: u8 where [const_defs]: "PIC_OCW2_EOI = 0x20"

definition PIC_ICW2_IVT_BASE :: "u8 \<Rightarrow> u8" where "PIC_ICW2_IVT_BASE base = base AND 0xFF"
definition PIC_ICW3_PRIM_SLAVE_PIN :: "nat \<Rightarrow> u8" where "PIC_ICW3_PRIM_SLAVE_PIN pin = push_bit pin 1 AND 0xFF"
definition PIC_ICW3_SEC_MASTER_PIN :: "u8 \<Rightarrow> u8" where "PIC_ICW3_SEC_MASTER_PIN pin = pin AND 0x07"

section \<open>Operations\<close>

definition pic_init :: "u8 \<Rightarrow> u8 \<Rightarrow> io_trace \<Rightarrow> io_trace" where
  "pic_init master_base slave_base tr0 =
     (let tr1 = outb (PIC_ICW1_START_INIT OR PIC_ICW1_EXPECT_ICW4) MASTER_PIC_COMMAND_PORT tr0;
          tr2 = outb (PIC_ICW1_START_INIT OR PIC_ICW1_EXPECT_ICW4) SLAVE_PIC_COMMAND_PORT tr1;
          tr3 = outb (PIC_ICW2_IVT_BASE master_base) MASTER_PIC_DATA_PORT tr2;
          tr4 = outb (PIC_ICW2_IVT_BASE slave_base) SLAVE_PIC_DATA_PORT tr3;
          tr5 = outb (PIC_ICW3_PRIM_SLAVE_PIN 2) MASTER_PIC_DATA_PORT tr4;
          tr6 = outb (PIC_ICW3_SEC_MASTER_PIN 2) SLAVE_PIC_DATA_PORT tr5;
          tr7 = outb PIC_ICW4_8086_MODE MASTER_PIC_DATA_PORT tr6;
          tr8 = outb PIC_ICW4_8086_MODE SLAVE_PIC_DATA_PORT tr7;
          tr9 = outb 0x00 MASTER_PIC_DATA_PORT tr8
      in outb 0x00 SLAVE_PIC_DATA_PORT tr9)"

definition pic_send_eoi :: "u8 \<Rightarrow> io_trace \<Rightarrow> io_trace" where
  "pic_send_eoi int_no tr =
     outb PIC_OCW2_EOI MASTER_PIC_COMMAND_PORT
       (if int_no \<ge> 0x28 then outb PIC_OCW2_EOI SLAVE_PIC_COMMAND_PORT tr else tr)"

section \<open>An 8259 and the words it receives\<close>

datatype pic_phase = Pic_Reset | Want_ICW2 | Want_ICW3 | Want_ICW4 | Ready

record pic =
  pic_phase :: pic_phase
  pic_base :: u8
  pic_cascade :: u8
  pic_8086 :: bool
  pic_auto_eoi :: bool
  pic_mask :: u8
  pic_eois :: nat

text \<open>The accepted writes as a relation: bit 4 of a command starts initialisation, after which the
  data port takes the words in order, the fourth only if ICW1 announced it (as the driver's does);
  a ready controller takes end-of-interrupt commands and masks.\<close>

inductive pic_step :: "bool \<Rightarrow> u8 \<Rightarrow> pic \<Rightarrow> pic \<Rightarrow> bool" where
  icw1: "bit v 4 \<Longrightarrow> bit v 0 \<Longrightarrow> \<not> bit v 1 \<Longrightarrow> pic_step True v p (p\<lparr>pic_phase := Want_ICW2, pic_mask := 0\<rparr>)"
| icw2: "pic_phase p = Want_ICW2 \<Longrightarrow> pic_step False v p (p\<lparr>pic_phase := Want_ICW3, pic_base := v AND 0xF8\<rparr>)"
| icw3: "pic_phase p = Want_ICW3 \<Longrightarrow> pic_step False v p (p\<lparr>pic_phase := Want_ICW4, pic_cascade := v\<rparr>)"
| icw4: "pic_phase p = Want_ICW4 \<Longrightarrow>
     pic_step False v p (p\<lparr>pic_phase := Ready, pic_8086 := bit v 0, pic_auto_eoi := bit v 1\<rparr>)"
| ocw1: "pic_phase p = Ready \<Longrightarrow> pic_step False v p (p\<lparr>pic_mask := v\<rparr>)"
| ocw2_eoi: "pic_phase p = Ready \<Longrightarrow> \<not> bit v 4 \<Longrightarrow> \<not> bit v 3 \<Longrightarrow> bit v 5 \<Longrightarrow>
     pic_step True v p (p\<lparr>pic_eois := pic_eois p + 1\<rparr>)"

inductive_cases pic_commandE: "pic_step True v p p'"
inductive_cases pic_dataE: "pic_step False v p p'"

text \<open>All writes of a trace to the pair of ports of one controller.\<close>

inductive pic_run :: "u16 \<Rightarrow> u16 \<Rightarrow> io_trace \<Rightarrow> pic \<Rightarrow> pic \<Rightarrow> bool" for cmd data where
  run_nil: "pic_run cmd data [] p p"
| run_cmd: "pic_step True v p q \<Longrightarrow> pic_run cmd data tr q r \<Longrightarrow> pic_run cmd data (Outb cmd v # tr) p r"
| run_data: "data \<noteq> cmd \<Longrightarrow> pic_step False v p q \<Longrightarrow> pic_run cmd data tr q r \<Longrightarrow>
     pic_run cmd data (Outb data v # tr) p r"
| run_other: "(\<And>v. e \<noteq> Outb cmd v \<and> e \<noteq> Outb data v) \<Longrightarrow> pic_run cmd data tr p r \<Longrightarrow>
     pic_run cmd data (e # tr) p r"

inductive_cases pic_run_NilE: "pic_run cmd data [] p q"
inductive_cases pic_run_ConsE: "pic_run cmd data (e # tr) p q"

lemma pic_step_deterministic: "pic_step c v p q \<Longrightarrow> pic_step c v p r \<Longrightarrow> q = r"
  by (cases c) (auto elim!: pic_commandE pic_dataE)

lemma pic_run_deterministic: "pic_run cmd data tr p q \<Longrightarrow> pic_run cmd data tr p r \<Longrightarrow> q = r"
proof (induction arbitrary: r rule: pic_run.induct)
  case (run_nil p)
  then show ?case by (auto elim: pic_run_NilE)
next
  case (run_cmd v p q tr s)
  from run_cmd.prems show ?case
    by (rule pic_run_ConsE) (use run_cmd pic_step_deterministic in blast)+
next
  case (run_data v p q tr s)
  from run_data.prems show ?case
    by (rule pic_run_ConsE) (use run_data pic_step_deterministic in blast)+
next
  case (run_other e tr p s)
  from run_other.prems show ?case
    by (rule pic_run_ConsE) (use run_other in blast)+
qed

lemma pic_accepts_init:
  assumes "data \<noteq> cmd"
  shows "pic_run cmd data [Outb cmd 0x11, Outb data b, Outb data c, Outb data 1, Outb data 0] p
     (p\<lparr>pic_phase := Ready, pic_base := b AND 0xF8, pic_cascade := c, pic_8086 := True,
        pic_auto_eoi := False, pic_mask := 0\<rparr>)"
proof -
  define p1 where "p1 = p\<lparr>pic_phase := Want_ICW2, pic_mask := 0\<rparr>"
  define p2 where "p2 = p1\<lparr>pic_phase := Want_ICW3, pic_base := b AND 0xF8\<rparr>"
  define p3 where "p3 = p2\<lparr>pic_phase := Want_ICW4, pic_cascade := c\<rparr>"
  define p4 where "p4 = p3\<lparr>pic_phase := Ready, pic_8086 := bit (1 :: u8) 0, pic_auto_eoi := bit (1 :: u8) 1\<rparr>"
  have "pic_step True 0x11 p p1" unfolding p1_def by (rule icw1) simp_all
  moreover have "pic_step False b p1 p2" unfolding p2_def by (rule icw2) (simp add: p1_def)
  moreover have "pic_step False c p2 p3" unfolding p3_def by (rule icw3) (simp add: p2_def)
  moreover have "pic_step False 1 p3 p4" unfolding p4_def by (rule icw4) (simp add: p3_def)
  moreover have "pic_step False 0 p4 (p4\<lparr>pic_mask := 0\<rparr>)" by (rule ocw1) (simp add: p4_def)
  ultimately have "pic_run cmd data [Outb cmd 0x11, Outb data b, Outb data c, Outb data 1, Outb data 0] p
      (p4\<lparr>pic_mask := 0\<rparr>)"
    using assms by (meson run_cmd run_data run_nil)
  moreover have "p4\<lparr>pic_mask := 0\<rparr> = p\<lparr>pic_phase := Ready, pic_base := b AND 0xF8, pic_cascade := c,
      pic_8086 := True, pic_auto_eoi := False, pic_mask := 0\<rparr>"
    by (rule pic.equality) (simp_all add: p4_def p3_def p2_def p1_def)
  ultimately show ?thesis by (simp only:)
qed

lemma pic_ports_differ: "(0x21 :: u16) \<noteq> 0x20" "(0xA1 :: u16) \<noteq> 0xA0"
  by simp_all

text \<open>A controller only sees the writes to its own ports.\<close>

definition to_pic :: "u16 \<Rightarrow> u16 \<Rightarrow> io_event \<Rightarrow> bool" where
  "to_pic cmd data e = (case e of Outb p v \<Rightarrow> p = cmd \<or> p = data | _ \<Rightarrow> False)"

lemma pic_run_filter:
  "data \<noteq> cmd \<Longrightarrow> pic_run cmd data (filter (to_pic cmd data) tr) p q \<Longrightarrow> pic_run cmd data tr p q"
proof (induction tr arbitrary: p)
  case Nil
  then show ?case by simp
next
  case (Cons e tr)
  show ?case
  proof (cases "to_pic cmd data e")
    case False
    then have "\<And>v. e \<noteq> Outb cmd v \<and> e \<noteq> Outb data v" by (auto simp: to_pic_def)
    then show ?thesis using Cons False by (auto intro: run_other)
  next
    case True
    then have other: "\<not> (\<forall>v. e \<noteq> Outb cmd v \<and> e \<noteq> Outb data v)"
      by (auto simp: to_pic_def split: io_event.splits)
    from Cons.prems(2) True have "pic_run cmd data (e # filter (to_pic cmd data) tr) p q" by simp
    then show ?thesis
      by (rule pic_run_ConsE) (use Cons other in \<open>auto intro: run_cmd run_data\<close>)
  qed
qed

lemma pic_init_trace:
  "pic_init mb sb [] =
     [Outb 0x20 0x11, Outb 0xA0 0x11, Outb 0x21 mb, Outb 0xA1 sb, Outb 0x21 4, Outb 0xA1 2,
      Outb 0x21 1, Outb 0xA1 1, Outb 0x21 0, Outb 0xA1 0]"
proof -
  have "(0xFF :: u8) = - 1" by simp
  then have "(b :: u8) AND 0xFF = b" for b by (simp only: and.right_neutral)
  then show ?thesis
    by (simp add: pic_init_def outb_def const_defs Let_def PIC_ICW2_IVT_BASE_def
        PIC_ICW3_PRIM_SLAVE_PIN_def PIC_ICW3_SEC_MASTER_PIN_def)
qed

section \<open>Properties\<close>

text \<open>Property C27: whatever state the two controllers are in, they accept the initialisation sequence,
  and it can only end with both ready in 8086 mode with the given vector bases (whose low three bits
  the controllers ignore), the slave on pin 2 of the master, no interrupt masked, and without
  automatic end of interrupt.\<close>

theorem pic_init_configures:
  "(pic_run MASTER_PIC_COMMAND_PORT MASTER_PIC_DATA_PORT (pic_init mb sb []) p q \<longleftrightarrow>
     q = p\<lparr>pic_phase := Ready, pic_base := mb AND 0xF8, pic_cascade := 4, pic_8086 := True,
           pic_auto_eoi := False, pic_mask := 0\<rparr>)
   \<and> (pic_run SLAVE_PIC_COMMAND_PORT SLAVE_PIC_DATA_PORT (pic_init mb sb []) p q \<longleftrightarrow>
     q = p\<lparr>pic_phase := Ready, pic_base := sb AND 0xF8, pic_cascade := 2, pic_8086 := True,
           pic_auto_eoi := False, pic_mask := 0\<rparr>)"
proof -
  have "filter (to_pic 0x20 0x21) (pic_init mb sb [])
      = [Outb 0x20 0x11, Outb 0x21 mb, Outb 0x21 4, Outb 0x21 1, Outb 0x21 0]"
    by (simp add: pic_init_trace to_pic_def)
  then have "pic_run 0x20 0x21 (filter (to_pic 0x20 0x21) (pic_init mb sb [])) p (p\<lparr>pic_phase := Ready,
      pic_base := mb AND 0xF8, pic_cascade := 4, pic_8086 := True, pic_auto_eoi := False, pic_mask := 0\<rparr>)"
    by (simp only: pic_accepts_init [OF pic_ports_differ(1)])
  then have "pic_run 0x20 0x21 (pic_init mb sb []) p (p\<lparr>pic_phase := Ready, pic_base := mb AND 0xF8,
      pic_cascade := 4, pic_8086 := True, pic_auto_eoi := False, pic_mask := 0\<rparr>)"
    by (rule pic_run_filter [OF pic_ports_differ(1)])
  moreover have "filter (to_pic 0xA0 0xA1) (pic_init mb sb [])
      = [Outb 0xA0 0x11, Outb 0xA1 sb, Outb 0xA1 2, Outb 0xA1 1, Outb 0xA1 0]"
    by (simp add: pic_init_trace to_pic_def)
  then have "pic_run 0xA0 0xA1 (filter (to_pic 0xA0 0xA1) (pic_init mb sb [])) p (p\<lparr>pic_phase := Ready,
      pic_base := sb AND 0xF8, pic_cascade := 2, pic_8086 := True, pic_auto_eoi := False, pic_mask := 0\<rparr>)"
    by (simp only: pic_accepts_init [OF pic_ports_differ(2)])
  then have "pic_run 0xA0 0xA1 (pic_init mb sb []) p (p\<lparr>pic_phase := Ready, pic_base := sb AND 0xF8,
      pic_cascade := 2, pic_8086 := True, pic_auto_eoi := False, pic_mask := 0\<rparr>)"
    by (rule pic_run_filter [OF pic_ports_differ(2)])
  ultimately show ?thesis
    unfolding MASTER_PIC_COMMAND_PORT_def MASTER_PIC_DATA_PORT_def SLAVE_PIC_COMMAND_PORT_def
      SLAVE_PIC_DATA_PORT_def
    using pic_run_deterministic by blast
qed

text \<open>Further property: the end-of-interrupt command is written once to the master for every interrupt, and
  before that once to the slave exactly for interrupts from 0x28 on.\<close>

theorem pic_eoi_routing:
  "writes_to MASTER_PIC_COMMAND_PORT (pic_send_eoi n tr) = writes_to MASTER_PIC_COMMAND_PORT tr @ [PIC_OCW2_EOI]
   \<and> writes_to SLAVE_PIC_COMMAND_PORT (pic_send_eoi n tr)
      = writes_to SLAVE_PIC_COMMAND_PORT tr @ (if n \<ge> 0x28 then [PIC_OCW2_EOI] else [])
   \<and> last (pic_send_eoi n tr) = Outb MASTER_PIC_COMMAND_PORT PIC_OCW2_EOI"
  by (simp add: pic_send_eoi_def outb_def const_defs)

end
