(* ===== verification/Drv_Serial.thy ===== *)
theory Drv_Serial
  imports Port_IO
begin

text \<open>
  The serial port driver of \<^verbatim>\<open>driver/serial.c\<close>. Output and input poll the line status register
  without a bound, so they are \<^theory_text>\<open>partial_function (option)\<close>: \<open>None\<close> is a driver that waits
  for ever. \<^verbatim>\<open>serial_init\<close> returns the mode flag and the interrupt line it registered its handler
  for, if any, beside the trace. A string argument is the list of its bytes.
\<close>

section \<open>Registers\<close>

definition COM1_IO_BASE :: u16 where [const_defs]: "COM1_IO_BASE = 0x3F8"
definition SERIAL_RCVBUF :: "u16 \<Rightarrow> u16" where [const_defs]: "SERIAL_RCVBUF base = base + 0x00"
definition SERIAL_XMITBUF :: "u16 \<Rightarrow> u16" where [const_defs]: "SERIAL_XMITBUF base = base + 0x00"
definition SERIAL_IER :: "u16 \<Rightarrow> u16" where [const_defs]: "SERIAL_IER base = base + 0x01"
definition SERIAL_DLLSB :: "u16 \<Rightarrow> u16" where [const_defs]: "SERIAL_DLLSB base = base + 0x00"
definition SERIAL_DLMSB :: "u16 \<Rightarrow> u16" where [const_defs]: "SERIAL_DLMSB base = base + 0x01"
definition SERIAL_INTRID :: "u16 \<Rightarrow> u16" where [const_defs]: "SERIAL_INTRID base = base + 0x02"
definition SERIAL_FIFOCTRL :: "u16 \<Rightarrow> u16" where [const_defs]: "SERIAL_FIFOCTRL base = base + 0x02"
definition SERIAL_LINECTRL :: "u16 \<Rightarrow> u16" where [const_defs]: "SERIAL_LINECTRL base = base + 0x03"
definition SERIAL_MODEMCTRL :: "u16 \<Rightarrow> u16" where [const_defs]: "SERIAL_MODEMCTRL base = base + 0x04"
definition SERIAL_LINESTAT :: "u16 \<Rightarrow> u16" where [const_defs]: "SERIAL_LINESTAT base = base + 0x05"
definition LINECTRL_DLAB :: u8 where [const_defs]: "LINECTRL_DLAB = 0x80"
definition LINECTRL_PARITY_NONE :: u8 where [const_defs]: "LINECTRL_PARITY_NONE = 0x00"
definition LINECTRL_STOPBIT_1 :: u8 where [const_defs]: "LINECTRL_STOPBIT_1 = 0x00"
definition LINECTRL_DATABIT_8 :: u8 where [const_defs]: "LINECTRL_DATABIT_8 = 0x03"
definition INTREN_XMIT_EMPTY :: u8 where [const_defs]: "INTREN_XMIT_EMPTY = 0x02"
definition FIFOCTRL_ENABLE :: u8 where [const_defs]: "FIFOCTRL_ENABLE = 0x01"
definition INTRID_FIFO_UNUSABLE :: u8 where [const_defs]: "INTRID_FIFO_UNUSABLE = 0x40"
definition INTRID_FIFO_ENABLED :: u8 where [const_defs]: "INTRID_FIFO_ENABLED = 0x80"
definition MODEMCTRL_OUT2 :: u8 where [const_defs]: "MODEMCTRL_OUT2 = 0x08"
definition LINESTAT_DATARDY :: u8 where [const_defs]: "LINESTAT_DATARDY = 0x01"
definition LINESTAT_THR_EMPTY :: u8 where [const_defs]: "LINESTAT_THR_EMPTY = 0x20"
definition SERIAL_BASE_FREQ :: u32 where [const_defs]: "SERIAL_BASE_FREQ = 115200"
definition SERIAL_DEFAULT_BAUD :: u32 where [const_defs]: "SERIAL_DEFAULT_BAUD = 9600"

section \<open>Operations\<close>

definition serial_set_rate :: "u32 \<Rightarrow> io_trace \<Rightarrow> io_trace" where
  "serial_set_rate baud tr =
     (let divisor = ucast (SERIAL_BASE_FREQ div baud) :: u16;
          tr1 = outb LINECTRL_DLAB (SERIAL_LINECTRL COM1_IO_BASE) tr;
          tr2 = outb (LOW_BYTE divisor) (SERIAL_DLLSB COM1_IO_BASE) tr1;
          tr3 = outb (HIGH_BYTE divisor) (SERIAL_DLMSB COM1_IO_BASE) tr2
      in outb 0x00 (SERIAL_LINECTRL COM1_IO_BASE) tr3)"

definition serial_set_params :: "u8 \<Rightarrow> u8 \<Rightarrow> u8 \<Rightarrow> io_trace \<Rightarrow> io_trace" where
  "serial_set_params data_bits parity_type stop_bits tr =
     outb (data_bits OR parity_type OR stop_bits) (SERIAL_LINECTRL COM1_IO_BASE) tr"

definition serial_disable_intrs :: "io_trace \<Rightarrow> io_trace" where
  "serial_disable_intrs tr = outb 0x00 (SERIAL_IER COM1_IO_BASE) tr"

definition serial_enable_intrs :: "u8 \<Rightarrow> io_trace \<Rightarrow> io_trace" where
  "serial_enable_intrs intrs tr = outb intrs (SERIAL_IER COM1_IO_BASE) tr"

definition serial_enable_fifo :: "u8 \<Rightarrow> io_trace \<Rightarrow> io_trace" where
  "serial_enable_fifo trigger_level tr =
     outb (INTRID_FIFO_ENABLED OR trigger_level) (SERIAL_FIFOCTRL COM1_IO_BASE) tr"

definition serial_disable_fifo :: "io_trace \<Rightarrow> io_trace" where
  "serial_disable_fifo tr = outb INTRID_FIFO_UNUSABLE (SERIAL_FIFOCTRL COM1_IO_BASE) tr"

definition serial_set_modemctrl :: "u8 \<Rightarrow> io_trace \<Rightarrow> io_trace" where
  "serial_set_modemctrl ctrl_bits tr = outb ctrl_bits (SERIAL_MODEMCTRL COM1_IO_BASE) tr"

definition serial_intr_handler :: "hardware \<Rightarrow> io_trace \<Rightarrow> io_trace" where
  "serial_intr_handler hw tr = snd (inb hw (SERIAL_INTRID COM1_IO_BASE) tr)"

definition serial_byte_avail :: "hardware \<Rightarrow> io_trace \<Rightarrow> bool \<times> io_trace" where
  "serial_byte_avail hw tr =
     (let (v, tr1) = inb hw (SERIAL_LINESTAT COM1_IO_BASE) tr in (v AND LINESTAT_DATARDY \<noteq> 0, tr1))"

definition IRQ4_SERIAL1 :: u8 where [const_defs]: "IRQ4_SERIAL1 = 0x24"

text \<open>The mode flag, the interrupt a handler was registered for, and the trace.\<close>

definition serial_init :: "bool \<Rightarrow> io_trace \<Rightarrow> bool \<times> u8 option \<times> io_trace" where
  "serial_init intr_mode tr0 =
     (let tr1 = serial_disable_intrs tr0;
          tr2 = serial_disable_fifo tr1;
          tr3 = serial_set_rate SERIAL_DEFAULT_BAUD tr2;
          tr4 = serial_set_params LINECTRL_DATABIT_8 LINECTRL_PARITY_NONE LINECTRL_STOPBIT_1 tr3;
          tr5 = serial_set_modemctrl MODEMCTRL_OUT2 tr4
      in if intr_mode then (intr_mode, Some IRQ4_SERIAL1, serial_enable_intrs INTREN_XMIT_EMPTY tr5)
         else (intr_mode, None, tr5))"

partial_function (option) serial_wait_thr :: "hardware \<Rightarrow> io_trace \<Rightarrow> io_trace option" where
  "serial_wait_thr hw tr =
     (let (v, tr1) = inb hw (SERIAL_LINESTAT COM1_IO_BASE) tr in
      if v AND LINESTAT_THR_EMPTY = 0 then serial_wait_thr hw tr1 else Some tr1)"

definition serial_putc :: "hardware \<Rightarrow> u8 \<Rightarrow> io_trace \<Rightarrow> io_trace option" where
  "serial_putc hw c tr =
     Option.bind (serial_wait_thr hw tr) (\<lambda>tr1. Some (outb c (SERIAL_XMITBUF COM1_IO_BASE) tr1))"

primrec serial_puts :: "hardware \<Rightarrow> u8 list \<Rightarrow> io_trace \<Rightarrow> io_trace option" where
  "serial_puts hw [] tr = Some tr"
| "serial_puts hw (c # str) tr =
     Option.bind (if c = 10 then serial_putc hw 13 tr else Some tr)
       (\<lambda>tr1. Option.bind (serial_putc hw c tr1) (serial_puts hw str))"

partial_function (option) serial_wait_data :: "hardware \<Rightarrow> io_trace \<Rightarrow> io_trace option" where
  "serial_wait_data hw tr =
     (let (ok, tr1) = serial_byte_avail hw tr in if \<not> ok then serial_wait_data hw tr1 else Some tr1)"

definition serial_getc :: "hardware \<Rightarrow> io_trace \<Rightarrow> (u8 \<times> io_trace) option" where
  "serial_getc hw tr =
     Option.bind (serial_wait_data hw tr) (\<lambda>tr1. Some (inb hw (SERIAL_RCVBUF COM1_IO_BASE) tr1))"

section \<open>Waiting for the line\<close>

text \<open>The trace after \<open>n\<close> reads of the line status, register 5 of the device at 0x3F8, and a device whose
  transmitter gets ready (bit 5 of the status), or whose receiver gets data (bit 0), sooner or later however long it
  has been polled.\<close>

primrec lsr_polls :: "hardware \<Rightarrow> nat \<Rightarrow> io_trace \<Rightarrow> io_trace" where
  "lsr_polls hw 0 tr = tr"
| "lsr_polls hw (Suc n) tr = lsr_polls hw n (snd (inb hw 0x3FD tr))"

definition thr_gets_empty :: "hardware \<Rightarrow> bool" where
  "thr_gets_empty hw \<longleftrightarrow> (\<forall>tr. \<exists>n. bit (hw_in8 hw (lsr_polls hw n tr) 0x3FD) 5)"

definition data_arrives :: "hardware \<Rightarrow> bool" where
  "data_arrives hw \<longleftrightarrow> (\<forall>tr. \<exists>n. bit (hw_in8 hw (lsr_polls hw n tr) 0x3FD) 0)"

declare lsr_polls.simps(2) [simp del]

lemma lsr_polls_Suc [simp]: "lsr_polls hw (Suc n) tr = lsr_polls hw n (snd (inb hw (SERIAL_LINESTAT COM1_IO_BASE) tr))"
  by (simp add: lsr_polls.simps const_defs)

lemma line_status_bits:
  "bit (hw_in8 hw tr 0x3FD) 5 \<longleftrightarrow> hw_in8 hw tr (SERIAL_LINESTAT COM1_IO_BASE) AND LINESTAT_THR_EMPTY \<noteq> 0"
  "bit (hw_in8 hw tr 0x3FD) 0 \<longleftrightarrow> hw_in8 hw tr (SERIAL_LINESTAT COM1_IO_BASE) AND LINESTAT_DATARDY \<noteq> 0"
proof -
  have "SERIAL_LINESTAT COM1_IO_BASE = 0x3FD" "LINESTAT_THR_EMPTY = push_bit 5 1" "LINESTAT_DATARDY = push_bit 0 1"
    by (simp_all add: const_defs)
  then show "bit (hw_in8 hw tr 0x3FD) 5 \<longleftrightarrow> hw_in8 hw tr (SERIAL_LINESTAT COM1_IO_BASE) AND LINESTAT_THR_EMPTY \<noteq> 0"
    "bit (hw_in8 hw tr 0x3FD) 0 \<longleftrightarrow> hw_in8 hw tr (SERIAL_LINESTAT COM1_IO_BASE) AND LINESTAT_DATARDY \<noteq> 0"
    by (metis bit_iff_and_push_bit_not_eq_0)+
qed

lemma lsr_polls_writes: "writes_to p (lsr_polls hw n tr) = writes_to p tr"
  by (induction n arbitrary: tr) (simp_all add: writes_to_inb)

lemma serial_wait_thr_polls:
  "hw_in8 hw (lsr_polls hw n tr) (SERIAL_LINESTAT COM1_IO_BASE) AND LINESTAT_THR_EMPTY \<noteq> 0 \<Longrightarrow>
     \<exists>k. serial_wait_thr hw tr = Some (lsr_polls hw (Suc k) tr) \<and> k \<le> n"
proof (induction n arbitrary: tr)
  case 0
  then have "serial_wait_thr hw tr = Some (lsr_polls hw (Suc 0) tr)"
    by (subst serial_wait_thr.simps) (simp add: inb_def Let_def)
  then show ?case by blast
next
  case (Suc n)
  show ?case
  proof (cases "hw_in8 hw tr (SERIAL_LINESTAT COM1_IO_BASE) AND LINESTAT_THR_EMPTY = 0")
    case False
    then have "serial_wait_thr hw tr = Some (lsr_polls hw (Suc 0) tr)"
      by (subst serial_wait_thr.simps) (simp add: inb_def Let_def)
    then show ?thesis by blast
  next
    case True
    let ?tr = "snd (inb hw (SERIAL_LINESTAT COM1_IO_BASE) tr)"
    have "serial_wait_thr hw tr = serial_wait_thr hw ?tr"
      using True by (subst serial_wait_thr.simps) (simp add: inb_def Let_def)
    moreover obtain k where "serial_wait_thr hw ?tr = Some (lsr_polls hw (Suc k) ?tr)" "k \<le> n"
      using Suc.IH [of ?tr] Suc.prems by auto
    ultimately show ?thesis by (intro exI [of _ "Suc k"]) simp
  qed
qed

lemma serial_wait_data_polls:
  "hw_in8 hw (lsr_polls hw n tr) (SERIAL_LINESTAT COM1_IO_BASE) AND LINESTAT_DATARDY \<noteq> 0 \<Longrightarrow>
     \<exists>k. serial_wait_data hw tr = Some (lsr_polls hw (Suc k) tr) \<and> k \<le> n"
proof (induction n arbitrary: tr)
  case 0
  then have "serial_wait_data hw tr = Some (lsr_polls hw (Suc 0) tr)"
    by (subst serial_wait_data.simps) (simp add: serial_byte_avail_def inb_def Let_def)
  then show ?case by blast
next
  case (Suc n)
  show ?case
  proof (cases "hw_in8 hw tr (SERIAL_LINESTAT COM1_IO_BASE) AND LINESTAT_DATARDY = 0")
    case False
    then have "serial_wait_data hw tr = Some (lsr_polls hw (Suc 0) tr)"
      by (subst serial_wait_data.simps) (simp add: serial_byte_avail_def inb_def Let_def)
    then show ?thesis by blast
  next
    case True
    let ?tr = "snd (inb hw (SERIAL_LINESTAT COM1_IO_BASE) tr)"
    have "serial_wait_data hw tr = serial_wait_data hw ?tr"
      using True by (subst serial_wait_data.simps) (simp add: serial_byte_avail_def inb_def Let_def)
    moreover obtain k where "serial_wait_data hw ?tr = Some (lsr_polls hw (Suc k) ?tr)" "k \<le> n"
      using Suc.IH [of ?tr] Suc.prems by auto
    ultimately show ?thesis by (intro exI [of _ "Suc k"]) simp
  qed
qed

text \<open>What goes out on the line for a string: a carriage return before every line feed.\<close>

definition crlf :: "u8 list \<Rightarrow> u8 list" where
  "crlf s = concat (map (\<lambda>c. if c = 10 then [13, 10] else [c]) s)"

lemma serial_putc_ready:
  assumes "thr_gets_empty hw"
  shows "\<exists>tr'. serial_putc hw c tr = Some tr'
     \<and> (\<forall>p. writes_to p tr' = writes_to p tr @ (if p = SERIAL_XMITBUF COM1_IO_BASE then [c] else []))"
proof -
  obtain n where "hw_in8 hw (lsr_polls hw n tr) (SERIAL_LINESTAT COM1_IO_BASE) AND LINESTAT_THR_EMPTY \<noteq> 0"
    using assms unfolding thr_gets_empty_def line_status_bits by blast
  from serial_wait_thr_polls [OF this] obtain k where
    "serial_wait_thr hw tr = Some (lsr_polls hw (Suc k) tr)" by blast
  then show ?thesis
    by (simp add: serial_putc_def writes_to_outb lsr_polls_writes writes_to_inb)
qed

lemma serial_init_trace:
  "snd (snd (serial_init mode [])) =
     [Outb 0x3F9 0, Outb 0x3FA 0x40, Outb 0x3FB 0x80, Outb 0x3F8 12, Outb 0x3F9 0, Outb 0x3FB 0,
      Outb 0x3FB 3, Outb 0x3FC 8] @ (if mode then [Outb 0x3F9 2] else [])"
  by (simp add: serial_init_def serial_disable_intrs_def serial_disable_fifo_def serial_set_rate_def
      serial_set_params_def serial_set_modemctrl_def serial_enable_intrs_def const_defs outb_def
      LOW_BYTE_def HIGH_BYTE_def Let_def)

lemma serial_puts_ready:
  assumes "thr_gets_empty hw"
  shows "\<exists>tr'. serial_puts hw s tr = Some tr'
     \<and> writes_to (SERIAL_XMITBUF COM1_IO_BASE) tr' = writes_to (SERIAL_XMITBUF COM1_IO_BASE) tr @ crlf s
     \<and> (\<forall>p. p \<noteq> SERIAL_XMITBUF COM1_IO_BASE \<longrightarrow> writes_to p tr' = writes_to p tr)"
proof (induction s arbitrary: tr)
  case Nil
  then show ?case by (simp add: crlf_def)
next
  case (Cons c s)
  obtain tr1 where tr1: "(if c = 10 then serial_putc hw 13 tr else Some tr) = Some tr1"
    "\<forall>p. writes_to p tr1 = writes_to p tr @ (if c = 10 \<and> p = SERIAL_XMITBUF COM1_IO_BASE then [13] else [])"
    using serial_putc_ready [OF assms, of 13 tr] by (cases "c = 10") auto
  obtain tr2 where tr2: "serial_putc hw c tr1 = Some tr2"
    "\<forall>p. writes_to p tr2 = writes_to p tr1 @ (if p = SERIAL_XMITBUF COM1_IO_BASE then [c] else [])"
    using serial_putc_ready [OF assms, of c tr1] by blast
  from Cons.IH [of tr2] tr1 tr2 show ?case by (auto simp: crlf_def)
qed

section \<open>Properties\<close>

text \<open>Further property: on a transmitter that always gets ready again, \<^verbatim>\<open>serial_puts\<close> returns, having
  written to the transmit register exactly the bytes of the string with a carriage return before
  every line feed, and to no other port.\<close>

theorem serial_puts_output:
  assumes "thr_gets_empty hw"
  shows "\<exists>tr'. serial_puts hw s tr = Some tr'
     \<and> writes_to (SERIAL_XMITBUF COM1_IO_BASE) tr' = writes_to (SERIAL_XMITBUF COM1_IO_BASE) tr @ crlf s
     \<and> (\<forall>p. p \<noteq> SERIAL_XMITBUF COM1_IO_BASE \<longrightarrow> writes_to p tr' = writes_to p tr)"
  by (rule serial_puts_ready [OF assms])

definition ready_uart :: hardware where
  "ready_uart = \<lparr>hw_in8 = (\<lambda>tr p. 0x61), hw_in16 = (\<lambda>tr p. 0), hw_irq = (\<lambda>tr n. False), hw_dma = (\<lambda>tr b. b)\<rparr>"

theorem serial_puts_output_witness:
  "\<exists>tr'. serial_puts ready_uart [72, 10] [] = Some tr' \<and> writes_to 0x3F8 tr' = [72, 13, 10]"
proof -
  have "thr_gets_empty ready_uart"
    by (simp add: thr_gets_empty_def ready_uart_def)
  from serial_puts_output [OF this, of "[72, 10]" "[]"] show ?thesis
    by (auto simp: crlf_def SERIAL_XMITBUF_def COM1_IO_BASE_def)
qed

text \<open>Further property: on a line where data keeps arriving, \<^verbatim>\<open>serial_getc\<close> returns the byte read from the
  receive register, after polling only the line status, and writes to no port.\<close>

theorem serial_getc_reads:
  assumes "data_arrives hw"
  shows "\<exists>k tr1. tr1 = lsr_polls hw (Suc k) tr
     \<and> serial_getc hw tr = Some (hw_in8 hw tr1 (SERIAL_RCVBUF COM1_IO_BASE),
          tr1 @ [Inb (SERIAL_RCVBUF COM1_IO_BASE) (hw_in8 hw tr1 (SERIAL_RCVBUF COM1_IO_BASE))])
     \<and> (\<forall>p. writes_to p tr1 = writes_to p tr)"
proof -
  obtain n where "hw_in8 hw (lsr_polls hw n tr) (SERIAL_LINESTAT COM1_IO_BASE) AND LINESTAT_DATARDY \<noteq> 0"
    using assms unfolding data_arrives_def line_status_bits by blast
  from serial_wait_data_polls [OF this] obtain k where
    "serial_wait_data hw tr = Some (lsr_polls hw (Suc k) tr)" by blast
  then show ?thesis
    by (intro exI [of _ k]) (simp add: serial_getc_def inb_def Let_def lsr_polls_writes)
qed

theorem serial_getc_reads_witness: "\<exists>tr'. serial_getc ready_uart [] = Some (0x61, tr')"
proof -
  have "data_arrives ready_uart"
    by (simp add: data_arrives_def ready_uart_def)
  from serial_getc_reads [OF this, of "[]"] show ?thesis by (auto simp: ready_uart_def)
qed

end
