(* ===== verification/Drv_Dma.thy ===== *)
theory Drv_Dma
  imports Port_IO
begin

text \<open>
  The 8237 DMA controller driver of \<^verbatim>\<open>driver/dma.c\<close>. Each operation appends its port writes to
  the trace. The second half reads a trace the way the first controller (channels 0 to 3, the one
  the floppy uses) does, with its byte flip-flop, and the lemmas say which channel registers the
  operations leave programmed.
\<close>

section \<open>Registers\<close>

definition DMAC0_REG_COMMAND :: u16 where [const_defs]: "DMAC0_REG_COMMAND = 0x08"
definition DMAC0_REG_CHANMASK :: u16 where [const_defs]: "DMAC0_REG_CHANMASK = 0x0A"
definition DMAC0_REG_MODE :: u8 where [const_defs]: "DMAC0_REG_MODE = 0x0B"
definition DMAC0_REG_CLEARFLIPFLOP :: u16 where [const_defs]: "DMAC0_REG_CLEARFLIPFLOP = 0x0C"
definition DMAC0_REG_MASTERCLEAR :: u16 where [const_defs]: "DMAC0_REG_MASTERCLEAR = 0x0D"
definition DMAC0_REG_CLEARMASK :: u16 where [const_defs]: "DMAC0_REG_CLEARMASK = 0x0E"
definition DMAC1_REG_COMMAND :: u16 where [const_defs]: "DMAC1_REG_COMMAND = 0xD0"
definition DMAC1_REG_CHANMASK :: u16 where [const_defs]: "DMAC1_REG_CHANMASK = 0xD4"
definition DMAC1_REG_MODE :: u8 where [const_defs]: "DMAC1_REG_MODE = 0xD6"
definition DMAC1_REG_CLEARFLIPFLOP :: u16 where [const_defs]: "DMAC1_REG_CLEARFLIPFLOP = 0xD8"
definition DMAC1_REG_MASTERCLEAR :: u16 where [const_defs]: "DMAC1_REG_MASTERCLEAR = 0xDA"

definition dma_addr_port :: "u8 \<Rightarrow> u16 option" where
  "dma_addr_port channel =
     (if channel = 0 then Some 0x00 else if channel = 1 then Some 0x02
      else if channel = 2 then Some 0x04 else if channel = 3 then Some 0x06
      else if channel = 4 then Some 0xC0 else if channel = 5 then Some 0xC4
      else if channel = 6 then Some 0xC8 else if channel = 7 then Some 0xCC else None)"

definition dma_count_port :: "u8 \<Rightarrow> u16 option" where
  "dma_count_port channel =
     (if channel = 0 then Some 0x01 else if channel = 1 then Some 0x03
      else if channel = 2 then Some 0x05 else if channel = 3 then Some 0x07
      else if channel = 4 then Some 0xC2 else if channel = 5 then Some 0xC6
      else if channel = 6 then Some 0xCA else if channel = 7 then Some 0xCE else None)"

definition dma_page_port :: "u8 \<Rightarrow> u16 option" where
  "dma_page_port channel =
     (if channel = 0 then Some 0x87 else if channel = 1 then Some 0x83
      else if channel = 2 then Some 0x81 else if channel = 3 then Some 0x83
      else if channel = 5 then Some 0x8B else if channel = 6 then Some 0x89
      else if channel = 7 then Some 0x8A else None)"

definition DMA_CMD_DISABLE :: u8 where [const_defs]: "DMA_CMD_DISABLE = 0x04"
definition DMA_MODE_READ :: u8 where [const_defs]: "DMA_MODE_READ = 0x04"
definition DMA_MODE_WRITE :: u8 where [const_defs]: "DMA_MODE_WRITE = 0x08"
definition DMA_MODE_SINGLE :: u8 where [const_defs]: "DMA_MODE_SINGLE = 0x40"
definition DMA_CHAN_FLOPPY :: u8 where [const_defs]: "DMA_CHAN_FLOPPY = 2"

definition BYTE_LOW :: "u16 \<Rightarrow> u8" where
  "BYTE_LOW addr = ucast (addr AND 0x00FF)"

definition BYTE_HIGH :: "u16 \<Rightarrow> u8" where
  "BYTE_HIGH addr = ucast (drop_bit 8 (addr AND 0xFF00))"

section \<open>Operations\<close>

definition dma_set_address :: "u8 \<Rightarrow> u16 \<Rightarrow> io_trace \<Rightarrow> io_trace" where
  "dma_set_address channel address tr =
     (case dma_addr_port channel of None \<Rightarrow> tr
      | Some port \<Rightarrow> outb (BYTE_HIGH address) port (outb (BYTE_LOW address) port tr))"

definition dma_set_count :: "u8 \<Rightarrow> u16 \<Rightarrow> io_trace \<Rightarrow> io_trace" where
  "dma_set_count channel cnt tr =
     (case dma_count_port channel of None \<Rightarrow> tr
      | Some port \<Rightarrow> outb (BYTE_HIGH cnt) port (outb (BYTE_LOW cnt) port tr))"

definition dma_set_external_pagereg :: "u8 \<Rightarrow> u8 \<Rightarrow> io_trace \<Rightarrow> io_trace" where
  "dma_set_external_pagereg channel page tr =
     (case dma_page_port channel of None \<Rightarrow> tr | Some port \<Rightarrow> outb page port tr)"

definition dma_mask_channel :: "u8 \<Rightarrow> io_trace \<Rightarrow> io_trace" where
  "dma_mask_channel channel tr =
     (if channel > 7 then tr
      else let port = (if channel < 4 then DMAC0_REG_CHANMASK else DMAC1_REG_CHANMASK);
               chan = (if channel < 4 then channel else channel - 4)
           in outb (0x04 OR chan) port tr)"

definition dma_unmask_channel :: "u8 \<Rightarrow> io_trace \<Rightarrow> io_trace" where
  "dma_unmask_channel channel tr =
     (if channel > 7 then tr
      else let port = (if channel < 4 then DMAC0_REG_CHANMASK else DMAC1_REG_CHANMASK);
               chan = (if channel < 4 then channel else channel - 4)
           in outb (0x00 OR chan) port tr)"

definition dma_unmask_all :: "io_trace \<Rightarrow> io_trace" where
  "dma_unmask_all tr = outb 0x00 DMAC0_REG_CLEARMASK tr"

definition dma_set_mode :: "u8 \<Rightarrow> u8 \<Rightarrow> io_trace \<Rightarrow> io_trace" where
  "dma_set_mode channel mode tr =
     (if channel > 7 then tr
      else let dma_no = (if channel < 4 then 0 else 1 :: u8);
               chan_no = (if dma_no = 0 then channel else channel - 4);
               mode_reg = (if dma_no = 0 then DMAC0_REG_MODE else DMAC1_REG_MODE)
           in dma_unmask_all (outb (mode OR chan_no) (ucast mode_reg) (dma_mask_channel channel tr)))"

definition dma_setup_read :: "u8 \<Rightarrow> io_trace \<Rightarrow> io_trace" where
  "dma_setup_read channel tr = dma_set_mode channel (DMA_MODE_READ OR DMA_MODE_SINGLE) tr"

definition dma_setup_write :: "u8 \<Rightarrow> io_trace \<Rightarrow> io_trace" where
  "dma_setup_write channel tr = dma_set_mode channel (DMA_MODE_WRITE OR DMA_MODE_SINGLE) tr"

definition dma_reset_flipflop :: "u8 \<Rightarrow> io_trace \<Rightarrow> io_trace" where
  "dma_reset_flipflop dmac tr =
     outb 0xff (if dmac = 0 then DMAC0_REG_CLEARFLIPFLOP else DMAC1_REG_CLEARFLIPFLOP) tr"

definition dma_reset :: "u8 \<Rightarrow> io_trace \<Rightarrow> io_trace" where
  "dma_reset dmac tr = outb 0xff (if dmac = 0 then DMAC0_REG_MASTERCLEAR else DMAC1_REG_MASTERCLEAR) tr"

definition dma_disable :: "u8 \<Rightarrow> io_trace \<Rightarrow> io_trace" where
  "dma_disable dmac tr = outb DMA_CMD_DISABLE (if dmac = 0 then DMAC0_REG_COMMAND else DMAC1_REG_COMMAND) tr"

lemmas dma_op_defs = dma_set_address_def dma_set_count_def dma_set_external_pagereg_def
  dma_mask_channel_def dma_unmask_channel_def dma_unmask_all_def dma_set_mode_def dma_setup_read_def
  dma_setup_write_def dma_reset_flipflop_def dma_reset_def dma_disable_def

section \<open>What the first controller holds after a trace\<close>

text \<open>The registers of the 8237 that serves channels 0 to 3. A 16-bit register is written as two
  bytes through one port; the flip-flop says whether the next byte is the high one. The page
  registers of channels 0 to 3 answer at ports 0x87, 0x83, 0x81 and 0x82.\<close>

record dmac0 =
  d_high :: bool
  d_addr :: "nat \<Rightarrow> u16"
  d_count :: "nat \<Rightarrow> u16"
  d_page :: "nat \<Rightarrow> u8"
  d_mode :: "nat \<Rightarrow> u8"
  d_masked :: "nat \<Rightarrow> bool"

definition set_half :: "bool \<Rightarrow> u8 \<Rightarrow> u16 \<Rightarrow> u16" where
  "set_half high v r =
     (if high then (r AND 0x00FF) OR push_bit 8 (ucast v) else (r AND 0xFF00) OR ucast v)"

definition dmac0_write :: "u16 \<Rightarrow> u8 \<Rightarrow> dmac0 \<Rightarrow> dmac0" where
  "dmac0_write port v d =
     (let ch = unat port div 2; sel = unat (v AND 3) in
      if port < 8 then
        (if even (unat port)
         then d\<lparr>d_addr := (d_addr d)(ch := set_half (d_high d) v (d_addr d ch)), d_high := \<not> d_high d\<rparr>
         else d\<lparr>d_count := (d_count d)(ch := set_half (d_high d) v (d_count d ch)), d_high := \<not> d_high d\<rparr>)
      else if port = 0x0A then d\<lparr>d_masked := (d_masked d)(sel := bit v 2)\<rparr>
      else if port = 0x0B then d\<lparr>d_mode := (d_mode d)(sel := v)\<rparr>
      else if port = 0x0C then d\<lparr>d_high := False\<rparr>
      else if port = 0x0D then d\<lparr>d_high := False, d_masked := (\<lambda>_. True)\<rparr>
      else if port = 0x0E then d\<lparr>d_masked := (\<lambda>_. False)\<rparr>
      else if port = 0x87 then d\<lparr>d_page := (d_page d)(0 := v)\<rparr>
      else if port = 0x83 then d\<lparr>d_page := (d_page d)(1 := v)\<rparr>
      else if port = 0x81 then d\<lparr>d_page := (d_page d)(2 := v)\<rparr>
      else if port = 0x82 then d\<lparr>d_page := (d_page d)(3 := v)\<rparr>
      else d)"

fun dmac0_run :: "io_trace \<Rightarrow> dmac0 \<Rightarrow> dmac0" where
  "dmac0_run [] d = d"
| "dmac0_run (Outb p v # tr) d = dmac0_run tr (dmac0_write p v d)"
| "dmac0_run (e # tr) d = dmac0_run tr d"

lemma dmac0_run_append [io_simps, simp]: "dmac0_run (xs @ ys) d = dmac0_run ys (dmac0_run xs d)"
  by (induction xs d rule: dmac0_run.induct) auto

lemma dmac0_run_outb [io_simps]: "dmac0_run (outb v p tr) d = dmac0_write p v (dmac0_run tr d)"
  by (simp add: outb_def)

lemma set_half_both: "set_half True (BYTE_HIGH x) (set_half False (BYTE_LOW x) r) = x"
proof -
  have m: "(0x00FF :: u16) = mask 8" "(0xFF00 :: u16) = push_bit 8 (mask 8)"
    by (simp_all add: mask_eq_exp_minus_1)
  show ?thesis
    unfolding set_half_def BYTE_HIGH_def BYTE_LOW_def m by (rule bit_word_eqI) (auto simp: bit_simps)
qed

lemma u8_channel_cases:
  assumes "(c :: u8) < 4" obtains "c = 0" | "c = 1" | "c = 2" | "c = 3"
proof -
  have "unat c < 4" using assms by (simp add: word_less_nat_alt)
  then have "unat c \<in> {0, 1, 2, 3}" by auto
  then have "c \<in> {0, 1, 2, 3}"
    by (auto simp: word_unat_eq_iff)
  then show ?thesis using that by blast
qed

lemma dmac0_set_address:
  assumes "c < 4"
  shows "dmac0_run (dma_set_address c a (dma_reset_flipflop 0 tr)) d
     = (let d0 = dmac0_run tr d in d0\<lparr>d_high := False, d_addr := (d_addr d0)(unat c := a)\<rparr>)"
  using assms
  by (rule u8_channel_cases)
     (simp_all add: dma_set_address_def dma_addr_port_def dma_reset_flipflop_def const_defs Let_def
        dmac0_run_outb dmac0_write_def set_half_both)

lemma dmac0_set_count:
  assumes "c < 4"
  shows "dmac0_run (dma_set_count c a (dma_reset_flipflop 0 tr)) d
     = (let d0 = dmac0_run tr d in d0\<lparr>d_high := False, d_count := (d_count d0)(unat c := a)\<rparr>)"
  using assms
  by (rule u8_channel_cases)
     (simp_all add: dma_set_count_def dma_count_port_def dma_reset_flipflop_def const_defs Let_def
        dmac0_run_outb dmac0_write_def set_half_both)

section \<open>Properties\<close>

text \<open>Property C26: on a channel of the first controller, resetting the flip-flop before each of the
  two 16-bit writes programs exactly that channel's address and count, \<^verbatim>\<open>dma_set_mode\<close> then selects the
  mode and leaves no channel masked, whatever state the controller was in and whatever happened
  before.\<close>

theorem dma_channel_programmed:
  assumes "c < 4"
  shows "let d0 = dmac0_run tr d;
             d1 = dmac0_run (dma_set_mode c m (dma_set_count c n (dma_reset_flipflop 0
                    (dma_set_address c a (dma_reset_flipflop 0 tr))))) d
         in d_addr d1 = (d_addr d0)(unat c := a) \<and> d_count d1 = (d_count d0)(unat c := n)
            \<and> (m AND 3 = 0 \<longrightarrow> d_mode d1 = (d_mode d0)(unat c := m OR c)) \<and> d_page d1 = d_page d0
            \<and> (\<forall>k. \<not> d_masked d1 k)"
proof -
  have sel: "(m OR c) AND 3 = c" if "m AND 3 = 0"
  proof -
    have "(m OR c) AND 3 = (m AND 3) OR (c AND 3)" by (simp add: bit.conj_disj_distrib2)
    also have "c AND 3 = c" using assms by (rule u8_channel_cases) simp_all
    finally show ?thesis using that by simp
  qed
  have gt: "\<not> c > 7" using assms by (rule u8_channel_cases) simp_all
  show ?thesis
    using assms gt sel
    by (auto simp: dma_set_mode_def dma_mask_channel_def dma_unmask_all_def const_defs Let_def
        dmac0_run_outb dmac0_set_count dmac0_set_address dmac0_write_def)
qed

definition dmac0_init :: dmac0 where
  "dmac0_init = \<lparr>d_high = True, d_addr = (\<lambda>_. 0), d_count = (\<lambda>_. 0), d_page = (\<lambda>_. 0), d_mode = (\<lambda>_. 0),
     d_masked = (\<lambda>_. True)\<rparr>"

theorem dma_channel_programmed_witness:
  "d_addr (dmac0_run (dma_set_mode 2 0x44 (dma_set_count 2 511 (dma_reset_flipflop 0
     (dma_set_address 2 0x1000 (dma_reset_flipflop 0 []))))) dmac0_init) 2 = 0x1000"
  using dma_channel_programmed [of 2 "[]" dmac0_init "0x44" 511 "0x1000"]
  by (simp add: Let_def)

text \<open>Further property: no operation accesses a port for a channel number above 7.\<close>

theorem dma_invalid_channel:
  assumes "c > 7"
  shows "dma_set_address c a tr = tr \<and> dma_set_count c a tr = tr \<and> dma_set_external_pagereg c p tr = tr
     \<and> dma_set_mode c m tr = tr \<and> dma_mask_channel c tr = tr \<and> dma_unmask_channel c tr = tr"
proof -
  have "c \<noteq> 0" "c \<noteq> 1" "c \<noteq> 2" "c \<noteq> 3" "c \<noteq> 4" "c \<noteq> 5" "c \<noteq> 6" "c \<noteq> 7"
    using assms by auto
  then show ?thesis
    using assms by (simp add: dma_op_defs dma_addr_port_def dma_count_port_def dma_page_port_def)
qed

theorem dma_invalid_channel_witness: "dma_set_mode 9 0x44 [] = []"
  using dma_invalid_channel [of 9 0 "[]" 0 "0x44"] by simp

text \<open>Further property: \<^verbatim>\<open>dma_set_external_pagereg\<close> for channel 3 writes the page register of channel 1 and
  leaves that of channel 3 as it was, because both constants name port 0x83.\<close>

theorem dma_page_channel3:
  "let d0 = dmac0_run tr d; d1 = dmac0_run (dma_set_external_pagereg 3 p tr) d in
     d_page d1 3 = d_page d0 3 \<and> d_page d1 1 = p"
  by (simp add: dma_set_external_pagereg_def dma_page_port_def dmac0_run_outb dmac0_write_def Let_def)

end
