(* ===== verification/Drv_Block.thy ===== *)
theory Drv_Block
  imports Kernel_Prelude "HOL-Library.Monad_Syntax"
begin

text \<open>
  The block device layer of \<^verbatim>\<open>driver/block.c\<close>: a table of registered devices, looked up by name,
  and reads and writes dispatched to the driver's functions. The type parameter \<open>'w\<close> is the state
  a driver works on. \<^verbatim>\<open>malloc\<close> is in the kernel heap's object file: it is an argument that gets the
  state and the size and returns an address, NULL if it fails. Device structures live in a
  store; \<open>blk_live\<close> lists the structures allocated so far. A buffer argument is the contents of the
  buffer, or \<open>None\<close> for a NULL pointer; \<open>None\<close> as the result of a driver's function is a call that
  does not return.
\<close>

section \<open>Data\<close>

type_synonym buffer = "u8 list option"

record 'w block_device_ops_t =
  op_read :: "(ptr \<Rightarrow> u32 \<Rightarrow> buffer \<Rightarrow> 'w \<Rightarrow> (int \<times> buffer \<times> 'w) option) option"
  op_write :: "(ptr \<Rightarrow> u32 \<Rightarrow> buffer \<Rightarrow> 'w \<Rightarrow> (int \<times> 'w) option) option"

record 'w block_device_t =
  bd_name :: "u8 list"
  bd_block_size :: u32
  bd_num_blocks :: u32
  bd_private :: ptr
  bd_ops :: "'w block_device_ops_t option"

record 'w blk_state =
  block_devices :: "ptr list option"
  num_block_devices :: nat
  max_block_devices :: nat
  blk_store :: "ptr \<Rightarrow> 'w block_device_t option"
  blk_live :: "ptr list"

definition sizeof_block_device_t :: u32 where [const_defs]: "sizeof_block_device_t = 20"
definition sizeof_ptr :: u32 where [const_defs]: "sizeof_ptr = 4"

section \<open>Operations\<close>

text \<open>The search both functions make: the first device of the table with the given name.\<close>

primrec blk_find :: "(ptr \<Rightarrow> 'w block_device_t option) \<Rightarrow> u8 list \<Rightarrow> ptr list \<Rightarrow> ptr" where
  "blk_find store name [] = NULL"
| "blk_find store name (p # ps) =
     (if p \<noteq> NULL \<and> map_option bd_name (store p) = Some name then p else blk_find store name ps)"

definition registered :: "'w blk_state \<Rightarrow> ptr list" where
  "registered s = (case block_devices s of None \<Rightarrow> [] | Some arr \<Rightarrow> take (num_block_devices s) arr)"

definition blkdev_init_table :: "('w blk_state \<Rightarrow> u32 \<Rightarrow> ptr) \<Rightarrow> 'w blk_state \<Rightarrow> bool \<times> 'w blk_state" where
  "blkdev_init_table malloc s =
     (case block_devices s of
        Some arr \<Rightarrow> (True, s)
      | None \<Rightarrow>
          let s1 = s\<lparr>num_block_devices := 0, max_block_devices := 16\<rparr> in
          if malloc s1 (sizeof_ptr * of_nat (max_block_devices s1)) = NULL then (False, s1)
          else (True, s1\<lparr>block_devices := Some (replicate (max_block_devices s1) NULL)\<rparr>))"

definition blkdev_register :: "('w blk_state \<Rightarrow> u32 \<Rightarrow> ptr) \<Rightarrow> u8 list \<Rightarrow> u32 \<Rightarrow> u32
    \<Rightarrow> 'w block_device_ops_t option \<Rightarrow> ptr \<Rightarrow> 'w blk_state \<Rightarrow> int \<times> 'w blk_state" where
  "blkdev_register malloc name block_size num_blocks ops driver_private s0 =
     (let (ok, s) = blkdev_init_table malloc s0 in
      if \<not> ok then (- 1, s)
      else if num_block_devices s \<ge> max_block_devices s then (- 1, s)
      else
        let dev = malloc s sizeof_block_device_t in
        if dev = NULL then (- 1, s)
        else
          let s1 = s\<lparr>blk_live := dev # blk_live s\<rparr> in
          if blk_find (blk_store s1) name (registered s1) \<noteq> NULL then (- 1, s1)
          else (0, s1\<lparr>blk_store := (blk_store s1)(dev \<mapsto>
                   \<lparr>bd_name = name, bd_block_size = block_size, bd_num_blocks = num_blocks,
                    bd_private = driver_private, bd_ops = ops\<rparr>),
                 block_devices := map_option (\<lambda>arr. arr[num_block_devices s1 := dev]) (block_devices s1),
                 num_block_devices := num_block_devices s1 + 1\<rparr>))"

definition blkdev_get_by_name :: "'w blk_state \<Rightarrow> u8 list option \<Rightarrow> ptr" where
  "blkdev_get_by_name s name =
     (case name of None \<Rightarrow> NULL | Some nm \<Rightarrow> blk_find (blk_store s) nm (registered s))"

definition blkdev_get_block_size :: "'w block_device_t option \<Rightarrow> u32" where
  "blkdev_get_block_size dev = (case dev of None \<Rightarrow> 0 | Some d \<Rightarrow> bd_block_size d)"

definition blkdev_get_num_blocks :: "'w block_device_t option \<Rightarrow> u32" where
  "blkdev_get_num_blocks dev = (case dev of None \<Rightarrow> 0 | Some d \<Rightarrow> bd_num_blocks d)"

definition blkread :: "'w block_device_t option \<Rightarrow> u32 \<Rightarrow> buffer \<Rightarrow> 'w \<Rightarrow> (int \<times> buffer \<times> 'w) option" where
  "blkread dev lba buf w =
     (case dev of None \<Rightarrow> Some (- 1, buf, w)
      | Some d \<Rightarrow>
        (case Option.bind (bd_ops d) op_read of None \<Rightarrow> Some (- 1, buf, w)
         | Some rd \<Rightarrow> if lba \<ge> bd_num_blocks d then Some (- 1, buf, w) else rd (bd_private d) lba buf w))"

definition blkwrite :: "'w block_device_t option \<Rightarrow> u32 \<Rightarrow> buffer \<Rightarrow> 'w \<Rightarrow> (int \<times> 'w) option" where
  "blkwrite dev lba buf w =
     (case dev of None \<Rightarrow> Some (- 1, w)
      | Some d \<Rightarrow>
        (case Option.bind (bd_ops d) op_write of None \<Rightarrow> Some (- 1, w)
         | Some wr \<Rightarrow> if lba \<ge> bd_num_blocks d then Some (- 1, w) else wr (bd_private d) lba buf w))"

section \<open>The device table is well formed\<close>

text \<open>The invariant: the table, once allocated, has 16 slots, the first \<^verbatim>\<open>num_block_devices\<close> of which
  hold distinct allocated devices with distinct names.\<close>

definition blk_name :: "'w blk_state \<Rightarrow> ptr \<Rightarrow> u8 list" where
  "blk_name s p = (case blk_store s p of None \<Rightarrow> [] | Some d \<Rightarrow> bd_name d)"

definition blk_inv :: "'w blk_state \<Rightarrow> bool" where
  "blk_inv s \<longleftrightarrow>
     (case block_devices s of None \<Rightarrow> True
      | Some arr \<Rightarrow> length arr = 16 \<and> max_block_devices s = 16 \<and> num_block_devices s \<le> 16)
     \<and> NULL \<notin> set (registered s) \<and> (\<forall>p\<in>set (registered s). blk_store s p \<noteq> None)
     \<and> distinct (map (blk_name s) (registered s))"

text \<open>What the heap promises: a block it hands out is not a device that is in use.\<close>

definition malloc_fresh :: "('w blk_state \<Rightarrow> u32 \<Rightarrow> ptr) \<Rightarrow> bool" where
  "malloc_fresh malloc \<longleftrightarrow> (\<forall>s n. malloc s n \<noteq> NULL \<longrightarrow> malloc s n \<notin> set (registered s))"

lemma blk_find_mem: "blk_find st nm ps = p \<Longrightarrow> p \<noteq> NULL \<Longrightarrow> p \<in> set ps \<and> map_option bd_name (st p) = Some nm"
  by (induction ps) (auto split: if_splits)

lemma blk_find_none:
  "blk_find st nm ps = NULL \<longleftrightarrow> (\<forall>p\<in>set ps. p = NULL \<or> map_option bd_name (st p) \<noteq> Some nm)"
  by (induction ps) auto

lemma blk_find_append: "blk_find st nm (ps @ qs) =
   (if blk_find st nm ps \<noteq> NULL then blk_find st nm ps else blk_find st nm qs)"
  by (induction ps) auto

lemma blk_find_cong: "(\<And>p. p \<in> set ps \<Longrightarrow> st p = st' p) \<Longrightarrow> blk_find st nm ps = blk_find st' nm ps"
  by (induction ps) auto

lemma registered_updates [simp]:
  "registered (s\<lparr>blk_live := l\<rparr>) = registered s" "registered (s\<lparr>blk_store := m\<rparr>) = registered s"
  by (simp_all add: registered_def split: option.splits)

lemma blkdev_init_table_keeps:
  assumes "blk_inv s" and "blkdev_init_table malloc s = (ok, s1)"
  shows "blk_inv s1 \<and> registered s1 = registered s \<and> blk_store s1 = blk_store s \<and> blk_live s1 = blk_live s
     \<and> (ok \<longrightarrow> (\<exists>arr. block_devices s1 = Some arr \<and> length arr = 16 \<and> max_block_devices s1 = 16))"
proof (cases "block_devices s")
  case None
  then show ?thesis
    using assms by (auto simp: blkdev_init_table_def blk_inv_def registered_def Let_def split: if_splits)
next
  case (Some arr)
  then show ?thesis using assms by (auto simp: blkdev_init_table_def blk_inv_def)
qed

text \<open>The two outcomes of a registration.\<close>

lemma blkdev_register_cases:
  assumes inv: "blk_inv s" and fresh: "malloc_fresh malloc"
    and reg: "blkdev_register malloc name bs nb ops priv s = (r, s')"
  obtains (failed) "r = - 1" "registered s' = registered s" "blk_store s' = blk_store s" "blk_inv s'"
  | (stored) dev where "r = 0" "dev \<noteq> NULL" "dev \<notin> set (registered s)" "registered s' = registered s @ [dev]"
      "blk_store s' = (blk_store s)(dev \<mapsto> \<lparr>bd_name = name, bd_block_size = bs, bd_num_blocks = nb,
          bd_private = priv, bd_ops = ops\<rparr>)"
      "blk_find (blk_store s) name (registered s) = NULL" "length (registered s) < 16"
      "\<exists>arr. block_devices s' = Some arr \<and> length arr = 16 \<and> max_block_devices s' = 16 \<and> num_block_devices s' \<le> 16"
proof -
  obtain ok s1 where i: "blkdev_init_table malloc s = (ok, s1)" by fastforce
  note keep = blkdev_init_table_keeps [OF inv i]
  let ?dev = "malloc s1 sizeof_block_device_t"
  show ?thesis
  proof (cases "ok \<and> num_block_devices s1 < max_block_devices s1 \<and> ?dev \<noteq> NULL
      \<and> blk_find (blk_store s1) name (registered s1) = NULL")
    case False
    have "r = - 1 \<and> (s' = s1 \<or> s' = s1\<lparr>blk_live := ?dev # blk_live s1\<rparr>)"
      using False reg i by (auto simp: blkdev_register_def Let_def split: if_splits)
    moreover have "blk_inv (s1\<lparr>blk_live := ?dev # blk_live s1\<rparr>)"
      using keep by (auto simp: blk_inv_def blk_name_def [abs_def] split: option.splits)
    ultimately show ?thesis using keep by (intro failed) auto
  next
    case True
    then obtain arr where arr: "block_devices s1 = Some arr" "length arr = 16" "max_block_devices s1 = 16"
      using keep by blast
    have reg_arr: "registered s1 = take (num_block_devices s1) arr" using arr(1) by (simp add: registered_def)
    have "?dev \<notin> set (registered s1)" using fresh True by (simp add: malloc_fresh_def)
    moreover have "registered s' = registered s1 @ [?dev]"
      using True reg i arr
      by (auto simp: blkdev_register_def Let_def registered_def take_Suc_conv_app_nth)
    moreover have "length (registered s1) < 16" using True arr by (simp add: reg_arr)
    ultimately show ?thesis
      using True reg i arr keep
      by (intro stored [of ?dev]) (auto simp: blkdev_register_def Let_def)
  qed
qed

lemma blk_name_upd: "dev \<notin> set ps \<Longrightarrow> map (blk_name s) ps = map (blk_name t) ps
   \<Longrightarrow> blk_store s' = (blk_store t)(dev \<mapsto> d) \<Longrightarrow> map (blk_name s') ps = map (blk_name s) ps"
  by (auto simp: blk_name_def)

lemma blk_find_new_name:
  assumes "blk_inv s" and "blk_find (blk_store s) name (registered s) = NULL"
  shows "name \<notin> set (map (blk_name s) (registered s))"
proof
  assume "name \<in> set (map (blk_name s) (registered s))"
  then obtain p where p: "p \<in> set (registered s)" "blk_name s p = name" by auto
  then obtain d where "blk_store s p = Some d" "p \<noteq> NULL" using assms(1) by (auto simp: blk_inv_def)
  with p assms(2) show False by (auto simp: blk_find_none blk_name_def)
qed

lemma blkdev_register_keeps_inv:
  assumes "blk_inv s" and "malloc_fresh malloc" and reg: "blkdev_register malloc name bs nb ops priv s = (r, s')"
  shows "blk_inv s'"
  using assms
proof (cases rule: blkdev_register_cases)
  case (stored dev)
  have "map (blk_name s') (registered s) = map (blk_name s) (registered s)"
    by (rule blk_name_upd [OF stored(3) refl stored(5)])
  moreover have "name \<notin> set (map (blk_name s) (registered s))"
    by (rule blk_find_new_name [OF assms(1) stored(6)])
  moreover have "blk_name s' dev = name" using stored(5) by (simp add: blk_name_def)
  ultimately have "distinct (map (blk_name s') (registered s'))"
    using stored(4) assms(1) by (simp add: blk_inv_def del: map_eq_conv)
  then show ?thesis using stored assms(1) by (auto simp: blk_inv_def)
qed

text \<open>A registration changes no device that is in the table, and no name but its own finds another device.\<close>

lemma blkdev_register_keeps_devices:
  assumes "blk_inv s" and "malloc_fresh malloc" and reg: "blkdev_register malloc name bs nb ops priv s = (r, s')"
    and "p = blkdev_get_by_name s (Some n)" and "p \<noteq> NULL" and "n \<noteq> name"
  shows "blkdev_get_by_name s' (Some n) = p" "blk_store s' p = blk_store s p"
proof -
  have p: "p \<in> set (registered s)" using blk_find_mem assms(4,5) by (fastforce simp: blkdev_get_by_name_def)
  have "blkdev_get_by_name s' (Some n) = p \<and> blk_store s' p = blk_store s p"
    using assms(1-3)
  proof (cases rule: blkdev_register_cases)
    case failed
    then show ?thesis using assms(4) by (simp add: blkdev_get_by_name_def)
  next
    case (stored dev)
    have "blk_find (blk_store s') n (registered s) = blk_find (blk_store s) n (registered s)"
      using stored(3,5) by (intro blk_find_cong) auto
    then show ?thesis using stored p assms(4,5) by (auto simp: blkdev_get_by_name_def blk_find_append)
  qed
  then show "blkdev_get_by_name s' (Some n) = p" "blk_store s' p = blk_store s p" by simp_all
qed

section \<open>Properties\<close>

text \<open>Property C28: registering a device, successfully or not, keeps the table well formed: at most 16
  devices, all allocated, with pairwise different names.\<close>

theorem blkdev_register_inv:
  assumes "blk_inv s" and "malloc_fresh malloc"
  shows "blk_inv (snd (blkdev_register malloc name bs nb ops priv s))"
  using blkdev_register_keeps_inv [OF assms] by (metis prod.collapse)

definition no_devices :: "'w blk_state" where
  "no_devices = \<lparr>block_devices = None, num_block_devices = 0, max_block_devices = 16,
     blk_store = (\<lambda>_. None), blk_live = []\<rparr>"

text \<open>An allocator that hands out the address above the largest one in use, or fails.\<close>

definition bump_malloc :: "'w blk_state \<Rightarrow> u32 \<Rightarrow> ptr" where
  "bump_malloc s n =
     (let p = fold max (registered s) 0 + 32 in if p \<in> set (registered s) then NULL else p)"

lemma bump_malloc_fresh: "malloc_fresh bump_malloc"
  by (auto simp: malloc_fresh_def bump_malloc_def Let_def)

lemma no_devices_inv: "blk_inv no_devices"
  by (simp add: blk_inv_def no_devices_def registered_def)

theorem blkdev_register_inv_witness:
  "blk_inv (snd (blkdev_register bump_malloc [102, 100, 48] 512 2880 None 0 no_devices))"
  by (rule blkdev_register_inv [OF no_devices_inv bump_malloc_fresh])

lemma blkdev_lookup_registered:
  assumes "blk_inv s" and "malloc_fresh malloc"
    and "blkdev_register malloc name bs nb ops priv s = (r, s')"
  shows "(r = 0 \<longrightarrow> (let p = blkdev_get_by_name s' (Some name) in p \<noteq> NULL
             \<and> blk_store s' p = Some \<lparr>bd_name = name, bd_block_size = bs, bd_num_blocks = nb,
                  bd_private = priv, bd_ops = ops\<rparr>))
     \<and> (\<forall>n. n \<noteq> name \<or> r \<noteq> 0 \<longrightarrow> blkdev_get_by_name s' (Some n) = blkdev_get_by_name s (Some n))
     \<and> (blkdev_get_by_name s (Some name) \<noteq> NULL \<or> length (registered s) = 16 \<longrightarrow> r = - 1)
     \<and> (r = 0 \<or> r = - 1)"
  using assms
proof (cases rule: blkdev_register_cases)
  case failed
  then show ?thesis by (simp add: blkdev_get_by_name_def)
next
  case (stored dev)
  have old: "blk_find ((blk_store s)(dev \<mapsto> d)) n (registered s) = blk_find (blk_store s) n (registered s)" for n d
    using stored(3) by (intro blk_find_cong) auto
  show ?thesis
    using stored by (simp add: blkdev_get_by_name_def blk_find_append old Let_def)
qed

text \<open>Property C29: after a successful registration the name finds the new device with the registered
  data and every other name finds what it found before; a registration under a name that is taken,
  or in a full table, fails; and a failed one changes no lookup.\<close>

theorem blkdev_lookup_after_register:
  assumes "blk_inv s" and "malloc_fresh malloc"
    and "blkdev_register malloc name bs nb ops priv s = (r, s')"
  shows "(r = 0 \<longrightarrow> (let p = blkdev_get_by_name s' (Some name) in p \<noteq> NULL
             \<and> blk_store s' p = Some \<lparr>bd_name = name, bd_block_size = bs, bd_num_blocks = nb,
                  bd_private = priv, bd_ops = ops\<rparr>))
     \<and> (\<forall>n. n \<noteq> name \<or> r \<noteq> 0 \<longrightarrow> blkdev_get_by_name s' (Some n) = blkdev_get_by_name s (Some n))
     \<and> (blkdev_get_by_name s (Some name) \<noteq> NULL \<or> length (registered s) = 16 \<longrightarrow> r = - 1)
     \<and> (r = 0 \<or> r = - 1)"
  by (rule blkdev_lookup_registered [OF assms])

theorem blkdev_lookup_after_register_witness:
  "\<exists>r s'. blkdev_register bump_malloc [102, 100, 48] 512 2880 None 0 (no_devices :: unit blk_state) = (r, s')
     \<and> r = 0 \<and> blkdev_get_by_name s' (Some [102, 100, 48]) \<noteq> NULL"
proof -
  obtain r s' where reg: "blkdev_register bump_malloc [102, 100, 48] 512 2880 None 0
      (no_devices :: unit blk_state) = (r, s')" by fastforce
  moreover have "r = 0"
    using reg by (auto simp: blkdev_register_def blkdev_init_table_def bump_malloc_def no_devices_def
        registered_def Let_def)
  ultimately show ?thesis
    using blkdev_lookup_after_register [OF no_devices_inv bump_malloc_fresh reg] by (auto simp: Let_def)
qed

text \<open>Further property: registering under a name that is already taken allocates a device structure that
  the table never refers to.\<close>

theorem blkdev_register_duplicate_leaks:
  assumes "blk_inv s" and "malloc_fresh malloc" and "block_devices s \<noteq> None"
    and "blkdev_get_by_name s (Some name) \<noteq> NULL" and "length (registered s) < 16"
    and "malloc s sizeof_block_device_t = dev" and "dev \<noteq> NULL"
  shows "\<exists>s'. blkdev_register malloc name bs nb ops priv s = (- 1, s') \<and> blk_live s' = dev # blk_live s
     \<and> dev \<notin> set (registered s')"
proof -
  obtain arr where arr: "block_devices s = Some arr" using assms(3) by auto
  have "num_block_devices s < max_block_devices s"
    using assms(1,5) arr by (auto simp: blk_inv_def registered_def)
  then show ?thesis
    using assms arr
    by (auto simp: blkdev_register_def blkdev_init_table_def blkdev_get_by_name_def malloc_fresh_def Let_def)
qed

theorem blkdev_register_duplicate_leaks_witness:
  "\<exists>s'. blkdev_register bump_malloc [102] 512 1 None 0
      (snd (blkdev_register bump_malloc [102] 512 1 None 0 (no_devices :: unit blk_state))) = (- 1, s')
     \<and> blk_live s' = [64, 32]"
proof -
  let ?s = "snd (blkdev_register bump_malloc [102] 512 1 None 0 (no_devices :: unit blk_state))"
  have r16: "replicate 16 NULL = NULL # replicate 15 NULL" by (simp add: numeral_eq_Suc)
  have eval: "block_devices ?s \<noteq> None" "blkdev_get_by_name ?s (Some [102]) \<noteq> NULL"
    "length (registered ?s) < 16" "blk_inv ?s" "bump_malloc ?s sizeof_block_device_t = 64" "blk_live ?s = [32]"
    by (simp_all add: blkdev_register_def blkdev_init_table_def bump_malloc_def no_devices_def
        registered_def Let_def blkdev_get_by_name_def blk_inv_def blk_name_def r16)
  from blkdev_register_duplicate_leaks [OF eval(4) bump_malloc_fresh eval(1-3,5), of 512 1 None 0] eval(6) show ?thesis by auto
qed

end
