(* ===== verification/Drv_Fdc.thy ===== *)
theory Drv_Fdc
  imports Drv_Dma Drv_Block
begin

text \<open>
  The floppy disk controller driver of \<^verbatim>\<open>driver/fdc.c\<close>, on the port trace. The state is the
  driver's static variables, the trace and the 512-byte DMA buffer in low memory. Commands and
  results go through the data port one byte at a time, each after at most 500 polls of the
  status register; the driver ignores the result of most sends, and so does the model. The wait for
  the interrupt is unbounded: \<open>None\<close> is a driver that waits for ever. The interrupt handler runs when
  the hardware argument says the interrupt has arrived, which is also when a DMA transfer is seen in
  the buffer. \<^verbatim>\<open>sleep\<close> (an object file) is an event of the trace.
\<close>

section \<open>Constants\<close>

definition FDC_PRIM_DOR :: u16 where [const_defs]: "FDC_PRIM_DOR = 0x3F0 + 0x2"
definition FDC_PRIM_MSR :: u16 where [const_defs]: "FDC_PRIM_MSR = 0x3F0 + 0x4"
definition FDC_PRIM_FIFO :: u16 where [const_defs]: "FDC_PRIM_FIFO = 0x3F0 + 0x5"
definition FDC_PRIM_CCR :: u16 where [const_defs]: "FDC_PRIM_CCR = 0x3F0 + 0x7"

definition FDC_CMD_WRITE_SECTOR :: u8 where [const_defs]: "FDC_CMD_WRITE_SECTOR = 0x05"
definition FDC_CMD_READ_SECTOR :: u8 where [const_defs]: "FDC_CMD_READ_SECTOR = 0x06"
definition FDC_CMD_SPECIFY :: u8 where [const_defs]: "FDC_CMD_SPECIFY = 0x03"
definition FDC_CMD_RECALIBRATE :: u8 where [const_defs]: "FDC_CMD_RECALIBRATE = 0x07"
definition FDC_CMD_SENSE_INTERRUPT :: u8 where [const_defs]: "FDC_CMD_SENSE_INTERRUPT = 0x08"
definition FDC_CMD_SEEK :: u8 where [const_defs]: "FDC_CMD_SEEK = 0x0F"

definition FDC_DOR_DISABLE :: u8 where [const_defs]: "FDC_DOR_DISABLE = 0x00"
definition FDC_DOR_ENABLE :: u8 where [const_defs]: "FDC_DOR_ENABLE = 0x04"
definition FDC_DOR_IRQ_DMA :: u8 where [const_defs]: "FDC_DOR_IRQ_DMA = 0x08"
definition FDC_DOR_MOTOR0_MASK :: u8 where [const_defs]: "FDC_DOR_MOTOR0_MASK = 0x10"
definition FDC_DOR_MOTOR1_MASK :: u8 where [const_defs]: "FDC_DOR_MOTOR1_MASK = 0x20"
definition FDC_DOR_MOTOR2_MASK :: u8 where [const_defs]: "FDC_DOR_MOTOR2_MASK = 0x40"
definition FDC_DOR_MOTOR3_MASK :: u8 where [const_defs]: "FDC_DOR_MOTOR3_MASK = 0x80"
definition FDC_MSR_DATAREG_MASK :: u8 where [const_defs]: "FDC_MSR_DATAREG_MASK = 0x80"
definition FDC_CCR_500KBPS :: u8 where [const_defs]: "FDC_CCR_500KBPS = 0x00"
definition FDC_EXT_SD :: u8 where [const_defs]: "FDC_EXT_SD = 0x20"
definition FDC_EXT_DD :: u8 where [const_defs]: "FDC_EXT_DD = 0x40"
definition FDC_EXT_MT :: u8 where [const_defs]: "FDC_EXT_MT = 0x80"
definition FDC_GPL_3_5 :: u8 where [const_defs]: "FDC_GPL_3_5 = 0x1B"
definition FDC_BPS_512 :: u8 where [const_defs]: "FDC_BPS_512 = 0x02"
definition FLOPPY_DMA_BUFFER :: u32 where [const_defs]: "FLOPPY_DMA_BUFFER = 0x1000"
definition IRQ6_FLOPPY :: u8 where [const_defs]: "IRQ6_FLOPPY = 38"

section \<open>State and register access\<close>

record fdc_state =
  fdc_current_drive :: u8
  fdc_irq_fired :: bool
  fdc_trace :: io_trace
  fdc_dmabuf :: "u8 list"

definition fdc_io :: "(io_trace \<Rightarrow> io_trace) \<Rightarrow> fdc_state \<Rightarrow> fdc_state" where
  "fdc_io f s = s\<lparr>fdc_trace := f (fdc_trace s)\<rparr>"

definition fdc_init_dma :: "u16 \<Rightarrow> bool \<Rightarrow> fdc_state \<Rightarrow> fdc_state" where
  "fdc_init_dma cnt is_write s =
     (let s1 = fdc_io (dma_mask_channel DMA_CHAN_FLOPPY) s;
          s2 = fdc_io (dma_reset_flipflop 0) s1;
          s3 = fdc_io (dma_set_address DMA_CHAN_FLOPPY (ucast FLOPPY_DMA_BUFFER)) s2;
          s4 = fdc_io (dma_reset_flipflop 0) s3;
          s5 = fdc_io (dma_set_count DMA_CHAN_FLOPPY cnt) s4;
          s6 = fdc_io (dma_set_external_pagereg DMA_CHAN_FLOPPY 0) s5;
          s7 = fdc_io (if is_write then dma_setup_write DMA_CHAN_FLOPPY else dma_setup_read DMA_CHAN_FLOPPY) s6
      in fdc_io dma_unmask_all s7)"

definition fdc_get_status :: "hardware \<Rightarrow> fdc_state \<Rightarrow> u8 \<times> fdc_state" where
  "fdc_get_status hw s = (let (v, tr) = inb hw FDC_PRIM_MSR (fdc_trace s) in (v, s\<lparr>fdc_trace := tr\<rparr>))"

definition fdc_write_dor :: "u8 \<Rightarrow> fdc_state \<Rightarrow> fdc_state" where
  "fdc_write_dor v s = fdc_io (outb v FDC_PRIM_DOR) s"

definition fdc_write_ccr :: "u8 \<Rightarrow> fdc_state \<Rightarrow> fdc_state" where
  "fdc_write_ccr v s = fdc_io (outb v FDC_PRIM_CCR) s"

definition fdc_ready :: "hardware \<Rightarrow> fdc_state \<Rightarrow> bool \<times> fdc_state" where
  "fdc_ready hw s = (let (v, s1) = fdc_get_status hw s in (v AND FDC_MSR_DATAREG_MASK \<noteq> 0, s1))"

definition fdc_send_command :: "hardware \<Rightarrow> u8 \<Rightarrow> fdc_state \<Rightarrow> int \<times> fdc_state" where
  "fdc_send_command hw command s =
     (let (ok, s1) = poll_until 500 (fdc_ready hw) s in
      if ok then (0, fdc_io (outb command FDC_PRIM_FIFO) s1) else (- 1, s1))"

definition fdc_read_fifo :: "hardware \<Rightarrow> fdc_state \<Rightarrow> u8 \<times> fdc_state" where
  "fdc_read_fifo hw s =
     (let (ok, s1) = poll_until 500 (fdc_ready hw) s in
      if ok then let (v, tr) = inb hw FDC_PRIM_FIFO (fdc_trace s1) in (v, s1\<lparr>fdc_trace := tr\<rparr>)
      else (0, s1))"

definition fdc_disable :: "fdc_state \<Rightarrow> fdc_state" where
  "fdc_disable s = fdc_write_dor FDC_DOR_DISABLE s"

definition fdc_enable :: "fdc_state \<Rightarrow> fdc_state" where
  "fdc_enable s = fdc_write_dor (FDC_DOR_ENABLE OR FDC_DOR_IRQ_DMA) s"

definition fdc_motor_mask :: "u8 \<Rightarrow> u8 option" where
  "fdc_motor_mask drive =
     (if drive = 0 then Some FDC_DOR_MOTOR0_MASK else if drive = 1 then Some FDC_DOR_MOTOR1_MASK
      else if drive = 2 then Some FDC_DOR_MOTOR2_MASK else if drive = 3 then Some FDC_DOR_MOTOR3_MASK
      else None)"

definition fdc_control_motor :: "u8 \<Rightarrow> bool \<Rightarrow> fdc_state \<Rightarrow> fdc_state" where
  "fdc_control_motor drive enable s =
     (case fdc_motor_mask drive of None \<Rightarrow> s
      | Some motor \<Rightarrow>
          let s1 = fdc_write_dor (if enable then motor OR drive OR FDC_DOR_IRQ_DMA OR FDC_DOR_ENABLE
                                  else FDC_DOR_ENABLE OR FDC_DOR_IRQ_DMA) s
          in fdc_io (\<lambda>tr. tr @ [Sleep 10]) s1)"

definition fdc_irq_handler :: "fdc_state \<Rightarrow> fdc_state" where
  "fdc_irq_handler s = s\<lparr>fdc_irq_fired := True\<rparr>"

text \<open>The busy wait, interrupted by the handler when the interrupt arrives; the data of a transfer
  that caused it is in the buffer from then on.\<close>

definition fdc_wait_for_irq :: "hardware \<Rightarrow> fdc_state \<Rightarrow> fdc_state option" where
  "fdc_wait_for_irq hw s =
     (let s1 = (if hw_irq hw (fdc_trace s) IRQ6_FLOPPY
                then fdc_irq_handler (s\<lparr>fdc_dmabuf := hw_dma hw (fdc_trace s) (fdc_dmabuf s),
                                        fdc_trace := fdc_trace s @ [Irq IRQ6_FLOPPY]\<rparr>)
                else s)
      in if fdc_irq_fired s1 then Some (s1\<lparr>fdc_irq_fired := False\<rparr>) else None)"

section \<open>Commands\<close>

text \<open>Sending bytes one after the other, their results ignored, and reading \<open>n\<close> result bytes.\<close>

primrec fdc_send_all :: "hardware \<Rightarrow> u8 list \<Rightarrow> fdc_state \<Rightarrow> fdc_state" where
  "fdc_send_all hw [] s = s"
| "fdc_send_all hw (c # cs) s = fdc_send_all hw cs (snd (fdc_send_command hw c s))"

primrec fdc_drop_results :: "hardware \<Rightarrow> nat \<Rightarrow> fdc_state \<Rightarrow> fdc_state" where
  "fdc_drop_results hw 0 s = s"
| "fdc_drop_results hw (Suc n) s = fdc_drop_results hw n (snd (fdc_read_fifo hw s))"

definition fdc_sense_interrupt :: "hardware \<Rightarrow> fdc_state \<Rightarrow> u8 \<times> u8 \<times> fdc_state" where
  "fdc_sense_interrupt hw s =
     (let (r, s1) = fdc_send_command hw FDC_CMD_SENSE_INTERRUPT s;
          (st0, s2) = fdc_read_fifo hw s1;
          (cyl, s3) = fdc_read_fifo hw s2
      in (st0, cyl, s3))"

definition fdc_eot :: "u8 \<Rightarrow> u8" where
  "fdc_eot sector = (if unat sector + 1 \<ge> 18 then 18 else sector + 1)"

definition fdc_rw_bytes :: "u8 \<Rightarrow> u8 \<Rightarrow> u8 \<Rightarrow> u8 \<Rightarrow> u8 \<Rightarrow> u8 list" where
  "fdc_rw_bytes cmd drive head track sector =
     [cmd OR FDC_EXT_DD OR FDC_EXT_MT OR FDC_EXT_SD, push_bit 2 head OR drive, track, head, sector,
      FDC_BPS_512, fdc_eot sector, FDC_GPL_3_5, 0xff]"

definition fdc_read_sector_chs :: "hardware \<Rightarrow> u8 \<Rightarrow> u8 \<Rightarrow> u8 \<Rightarrow> fdc_state \<Rightarrow> fdc_state option" where
  "fdc_read_sector_chs hw head track sector s =
     (let s1 = fdc_init_dma 511 False s;
          s2 = fdc_send_all hw (fdc_rw_bytes FDC_CMD_READ_SECTOR (fdc_current_drive s1) head track sector) s1
      in Option.bind (fdc_wait_for_irq hw s2)
           (\<lambda>s3. let s4 = fdc_drop_results hw 7 s3; (st0, cyl, s5) = fdc_sense_interrupt hw s4 in Some s5))"

definition fdc_write_sector_chs :: "hardware \<Rightarrow> u8 \<Rightarrow> u8 \<Rightarrow> u8 \<Rightarrow> fdc_state \<Rightarrow> fdc_state option" where
  "fdc_write_sector_chs hw head track sector s =
     (let s1 = fdc_init_dma 511 True s;
          s2 = fdc_send_all hw (fdc_rw_bytes FDC_CMD_WRITE_SECTOR (fdc_current_drive s1) head track sector) s1
      in Option.bind (fdc_wait_for_irq hw s2)
           (\<lambda>s3. let s4 = fdc_drop_results hw 7 s3; (st0, cyl, s5) = fdc_sense_interrupt hw s4 in Some s5))"

definition fdc_fix_drivedata :: "hardware \<Rightarrow> u32 \<Rightarrow> u32 \<Rightarrow> u32 \<Rightarrow> bool \<Rightarrow> fdc_state \<Rightarrow> fdc_state" where
  "fdc_fix_drivedata hw steprate loadtime unloadtime usedma s =
     fdc_send_all hw [FDC_CMD_SPECIFY,
       ucast (push_bit 4 (steprate AND 0x0F) OR (unloadtime AND 0x0F)),
       ucast (push_bit 1 (loadtime AND 0x7F) OR (if usedma then 0 else 1))] s"

primrec fdc_recalibrate_loop :: "hardware \<Rightarrow> u8 \<Rightarrow> nat \<Rightarrow> fdc_state \<Rightarrow> (int \<times> fdc_state) option" where
  "fdc_recalibrate_loop hw drive 0 s = Some (- 1, fdc_control_motor drive False s)"
| "fdc_recalibrate_loop hw drive (Suc n) s =
     Option.bind (fdc_wait_for_irq hw (fdc_send_all hw [FDC_CMD_RECALIBRATE, drive] s))
       (\<lambda>s1. let (st0, cyl, s2) = fdc_sense_interrupt hw s1 in
          if cyl = 0 then Some (0, fdc_control_motor drive False s2)
          else fdc_recalibrate_loop hw drive n s2)"

definition fdc_recalibrate :: "hardware \<Rightarrow> u8 \<Rightarrow> fdc_state \<Rightarrow> (int \<times> fdc_state) option" where
  "fdc_recalibrate hw drive s =
     (if drive > 3 then Some (- 1, s)
      else fdc_recalibrate_loop hw drive 10 (fdc_control_motor drive True s))"

primrec fdc_seek_loop :: "hardware \<Rightarrow> u8 \<Rightarrow> u8 \<Rightarrow> nat \<Rightarrow> fdc_state \<Rightarrow> (int \<times> fdc_state) option" where
  "fdc_seek_loop hw cyl head 0 s = Some (- 1, s)"
| "fdc_seek_loop hw cyl head (Suc n) s =
     Option.bind (fdc_wait_for_irq hw
         (fdc_send_all hw [FDC_CMD_SEEK, push_bit 2 head OR fdc_current_drive s, cyl] s))
       (\<lambda>s1. let (st0, cyl_returned, s2) = fdc_sense_interrupt hw s1 in
          if cyl_returned = cyl then Some (0, s2) else fdc_seek_loop hw cyl head n s2)"

definition fdc_seek :: "hardware \<Rightarrow> u8 \<Rightarrow> u8 \<Rightarrow> fdc_state \<Rightarrow> (int \<times> fdc_state) option" where
  "fdc_seek hw cyl head s = fdc_seek_loop hw cyl head 10 s"

section \<open>Public functions\<close>

definition fdc_set_drive :: "u8 \<Rightarrow> fdc_state \<Rightarrow> fdc_state" where
  "fdc_set_drive drive s = (if drive > 3 then s else s\<lparr>fdc_current_drive := drive\<rparr>)"

definition fdc_get_drive :: "fdc_state \<Rightarrow> u8" where
  "fdc_get_drive s = fdc_current_drive s"

text \<open>Cylinder, head and sector of a block, as the three \<^verbatim>\<open>uint32_t\<close> results.\<close>

definition fdc_lba_to_chs :: "u32 \<Rightarrow> u32 \<times> u32 \<times> u32" where
  "fdc_lba_to_chs lba =
     (ucast (ucast (lba div (18 * 2)) :: u8), (lba mod (2 * 18)) div 18, ((lba mod (2 * 18)) mod 18) + 1)"

primrec fdc_sense_all :: "hardware \<Rightarrow> nat \<Rightarrow> fdc_state \<Rightarrow> fdc_state" where
  "fdc_sense_all hw 0 s = s"
| "fdc_sense_all hw (Suc n) s = (let (st0, cyl, s1) = fdc_sense_interrupt hw s in fdc_sense_all hw n s1)"

definition fdc_reset :: "hardware \<Rightarrow> fdc_state \<Rightarrow> fdc_state option" where
  "fdc_reset hw s =
     Option.bind (fdc_wait_for_irq hw (fdc_enable (fdc_disable s)))
       (\<lambda>s1. let s2 = fdc_sense_all hw 4 s1;
                 s3 = fdc_write_ccr FDC_CCR_500KBPS s2;
                 s4 = fdc_fix_drivedata hw 3 16 240 True s3
             in map_option snd (fdc_recalibrate hw (fdc_current_drive s4) s4))"

text \<open>\<^verbatim>\<open>memcpy\<close> of the 512 bytes of the DMA buffer into the caller's buffer: a shorter buffer would be
  written past its end, which has no defined result.\<close>

definition copy_out :: "u8 list \<Rightarrow> u8 list \<Rightarrow> u8 list option" where
  "copy_out dmabuf b = (if length b < 512 then None else Some (take 512 dmabuf @ drop 512 b))"

definition fdc_read_sector :: "hardware \<Rightarrow> u32 \<Rightarrow> buffer \<Rightarrow> fdc_state \<Rightarrow> (int \<times> buffer \<times> fdc_state) option" where
  "fdc_read_sector hw sectorLBA buff s =
     (let (cylinder, head, sector) = fdc_lba_to_chs sectorLBA;
          s1 = fdc_control_motor (fdc_current_drive s) True s
      in Option.bind (fdc_seek hw (ucast cylinder) (ucast head) s1)
           (\<lambda>(r, s2).
              if r \<noteq> 0 then Some (- 1, buff, s2)
              else Option.bind (fdc_read_sector_chs hw (ucast head) (ucast cylinder) (ucast sector) s2)
                (\<lambda>s3. let s4 = fdc_control_motor (fdc_current_drive s3) False s3 in
                   case buff of None \<Rightarrow> Some (- 1, None, s4)
                   | Some b \<Rightarrow> Option.bind (copy_out (fdc_dmabuf s4) b) (\<lambda>b'. Some (0, Some b', s4)))))"

definition fdc_write_sector :: "hardware \<Rightarrow> u32 \<Rightarrow> buffer \<Rightarrow> fdc_state \<Rightarrow> (int \<times> fdc_state) option" where
  "fdc_write_sector hw sectorLBA data s =
     (case data of None \<Rightarrow> Some (- 1, s)
      | Some b \<Rightarrow>
        if length b < 512 then None
        else
          let (cylinder, head, sector) = fdc_lba_to_chs sectorLBA;
              s0 = s\<lparr>fdc_dmabuf := take 512 b\<rparr>;
              s1 = fdc_control_motor (fdc_current_drive s0) True s0
          in Option.bind (fdc_seek hw (ucast cylinder) (ucast head) s1)
               (\<lambda>(r, s2).
                  if r \<noteq> 0 then Some (- 1, fdc_control_motor (fdc_current_drive s2) False s2)
                  else Option.bind (fdc_write_sector_chs hw (ucast head) (ucast cylinder) (ucast sector) s2)
                    (\<lambda>s3. Some (0, fdc_control_motor (fdc_current_drive s3) False s3))))"

definition fdc_blk_read :: "hardware \<Rightarrow> ptr \<Rightarrow> u32 \<Rightarrow> buffer \<Rightarrow> fdc_state \<Rightarrow> (int \<times> buffer \<times> fdc_state) option" where
  "fdc_blk_read hw priv lba buf s = fdc_read_sector hw lba buf s"

definition fdc_blk_write :: "hardware \<Rightarrow> ptr \<Rightarrow> u32 \<Rightarrow> buffer \<Rightarrow> fdc_state \<Rightarrow> (int \<times> fdc_state) option" where
  "fdc_blk_write hw priv lba buf s = fdc_write_sector hw lba buf s"

text \<open>The driver's state, the device table and the interrupt its handler is registered for.\<close>

text \<open>The block layer keeps functions on the state of the machine it serves; \<open>emb\<close> makes the driver's functions
  into such functions, and is the identity where the driver is alone.\<close>

definition fdc_init :: "(fdc_state block_device_ops_t \<Rightarrow> 'w block_device_ops_t) \<Rightarrow> hardware \<Rightarrow> ('w blk_state \<Rightarrow> u32 \<Rightarrow> ptr)
    \<Rightarrow> fdc_state \<Rightarrow> 'w blk_state \<Rightarrow> (fdc_state \<times> 'w blk_state \<times> u8) option" where
  "fdc_init emb hw malloc s bs =
     Option.bind (fdc_reset hw (fdc_set_drive 0 s))
       (\<lambda>s1. let (r, bs1) = blkdev_register malloc [102, 100, 48] 512 2880
                 (Some (emb \<lparr>op_read = Some (fdc_blk_read hw), op_write = Some (fdc_blk_write hw)\<rparr>)) NULL bs
             in Some (s1, bs1, IRQ6_FLOPPY))"

section \<open>Polling the status register\<close>

definition fdc_polled :: "fdc_state \<Rightarrow> fdc_state \<Rightarrow> bool" where
  "fdc_polled s t \<longleftrightarrow> (\<exists>vs. t = s\<lparr>fdc_trace := fdc_trace s @ map (Inb FDC_PRIM_MSR) vs\<rparr>)"

lemma fdc_ready_eq:
  "fdc_ready hw s = (let v = hw_in8 hw (fdc_trace s) FDC_PRIM_MSR in
     (v AND FDC_MSR_DATAREG_MASK \<noteq> 0, s\<lparr>fdc_trace := fdc_trace s @ [Inb FDC_PRIM_MSR v]\<rparr>))"
  by (simp add: fdc_ready_def fdc_get_status_def inb_def Let_def)

interpretation fdcp: bounded_poll "fdc_ready hw" fdc_polled for hw
proof unfold_locales
  show "fdc_polled s s" for s
    unfolding fdc_polled_def by (rule exI [of _ "[]"]) simp
  show "fdc_polled s u" if st: "fdc_polled s t" "fdc_polled t u" for s t u
  proof -
    obtain vs ws where "t = s\<lparr>fdc_trace := fdc_trace s @ map (Inb FDC_PRIM_MSR) vs\<rparr>"
      "u = t\<lparr>fdc_trace := fdc_trace t @ map (Inb FDC_PRIM_MSR) ws\<rparr>"
      using st by (auto simp: fdc_polled_def)
    then show ?thesis unfolding fdc_polled_def by (intro exI [of _ "vs @ ws"]) simp
  qed
  show "fdc_polled s (snd (fdc_ready hw s))" for s
    unfolding fdc_polled_def fdc_ready_eq Let_def
    by (intro exI [of _ "[hw_in8 hw (fdc_trace s) FDC_PRIM_MSR]"]) simp
qed

lemma fdc_poll_trace:
  "poll_until n (fdc_ready hw) s = (ok, s') \<Longrightarrow>
     \<exists>vs. s' = s\<lparr>fdc_trace := fdc_trace s @ map (Inb FDC_PRIM_MSR) vs\<rparr> \<and> length vs \<le> n
       \<and> (\<forall>v\<in>set (butlast vs). v AND FDC_MSR_DATAREG_MASK = 0)
       \<and> (if ok then vs \<noteq> [] \<and> last vs AND FDC_MSR_DATAREG_MASK \<noteq> 0
          else length vs = n \<and> (\<forall>v\<in>set vs. v AND FDC_MSR_DATAREG_MASK = 0))"
proof (induction n arbitrary: s)
  case 0
  then show ?case by (intro exI [of _ "[]"]) auto
next
  case (Suc n)
  let ?v = "hw_in8 hw (fdc_trace s) FDC_PRIM_MSR"
  show ?case
  proof (cases "?v AND FDC_MSR_DATAREG_MASK = 0")
    case False
    then show ?thesis using Suc.prems by (intro exI [of _ "[?v]"]) (auto simp: fdc_ready_eq Let_def)
  next
    case True
    then have "poll_until n (fdc_ready hw) (s\<lparr>fdc_trace := fdc_trace s @ [Inb FDC_PRIM_MSR ?v]\<rparr>) = (ok, s')"
      using Suc.prems by (simp add: fdc_ready_eq [of hw s] Let_def)
    from Suc.IH [OF this] obtain vs where
      "s' = s\<lparr>fdc_trace := fdc_trace s @ map (Inb FDC_PRIM_MSR) (?v # vs)\<rparr>" "length vs \<le> n"
      "\<forall>v\<in>set (butlast vs). v AND FDC_MSR_DATAREG_MASK = 0"
      "if ok then vs \<noteq> [] \<and> last vs AND FDC_MSR_DATAREG_MASK \<noteq> 0
       else length vs = n \<and> (\<forall>v\<in>set vs. v AND FDC_MSR_DATAREG_MASK = 0)" by auto
    then show ?thesis using True by (intro exI [of _ "?v # vs"]) (auto split: if_splits)
  qed
qed

section \<open>A controller that answers\<close>

text \<open>The controller's data port is ready whenever it is polled and its interrupt arrives whenever
  it is waited for; after a seek, the sense command reports the cylinder of the seek.\<close>

fun fifo_log :: "io_trace \<Rightarrow> io_trace" where
  "fifo_log [] = []"
| "fifo_log (Outb p v # tr) = (if p = FDC_PRIM_FIFO then Outb p v # fifo_log tr else fifo_log tr)"
| "fifo_log (Inb p v # tr) = (if p = FDC_PRIM_FIFO then Inb p v # fifo_log tr else fifo_log tr)"
| "fifo_log (e # tr) = fifo_log tr"

lemma fifo_log_append [simp]: "fifo_log (xs @ ys) = fifo_log xs @ fifo_log ys"
  by (induction xs rule: fifo_log.induct) auto

definition fdc_answers :: "hardware \<Rightarrow> bool" where
  "fdc_answers hw \<longleftrightarrow> (\<forall>tr. hw_in8 hw tr 0x3F4 AND 0x80 \<noteq> 0) \<and> (\<forall>tr. hw_irq hw tr 0x26)"

definition fdc_reports_seek :: "hardware \<Rightarrow> bool" where
  "fdc_reports_seek hw \<longleftrightarrow> (\<forall>tr a x c st0. fifo_log tr = a @ map (Outb 0x3F5) [0x0F, x, c, 0x08] @ [Inb 0x3F5 st0]
       \<longrightarrow> hw_in8 hw tr 0x3F5 = c)"

lemma fdc_answers_ports:
  "fdc_answers hw \<longleftrightarrow> (\<forall>tr. hw_in8 hw tr FDC_PRIM_MSR AND FDC_MSR_DATAREG_MASK \<noteq> 0) \<and> (\<forall>tr. hw_irq hw tr IRQ6_FLOPPY)"
  "fdc_reports_seek hw \<longleftrightarrow> (\<forall>tr a x c st0. fifo_log tr = a @ map (Outb FDC_PRIM_FIFO) [FDC_CMD_SEEK, x, c,
       FDC_CMD_SENSE_INTERRUPT] @ [Inb FDC_PRIM_FIFO st0] \<longrightarrow> hw_in8 hw tr FDC_PRIM_FIFO = c)"
  by (simp_all add: fdc_answers_def fdc_reports_seek_def const_defs)

definition fdc_sent :: "hardware \<Rightarrow> u8 \<Rightarrow> fdc_state \<Rightarrow> fdc_state" where
  "fdc_sent hw c s = s\<lparr>fdc_trace := fdc_trace s @
     [Inb FDC_PRIM_MSR (hw_in8 hw (fdc_trace s) FDC_PRIM_MSR), Outb FDC_PRIM_FIFO c]\<rparr>"

definition fdc_result :: "hardware \<Rightarrow> fdc_state \<Rightarrow> u8" where
  "fdc_result hw s = hw_in8 hw (fdc_trace s @
     [Inb FDC_PRIM_MSR (hw_in8 hw (fdc_trace s) FDC_PRIM_MSR)]) FDC_PRIM_FIFO"

definition fdc_got :: "hardware \<Rightarrow> fdc_state \<Rightarrow> fdc_state" where
  "fdc_got hw s = s\<lparr>fdc_trace := fdc_trace s @
     [Inb FDC_PRIM_MSR (hw_in8 hw (fdc_trace s) FDC_PRIM_MSR), Inb FDC_PRIM_FIFO (fdc_result hw s)]\<rparr>"

definition fdc_interrupted :: "hardware \<Rightarrow> fdc_state \<Rightarrow> fdc_state" where
  "fdc_interrupted hw s = s\<lparr>fdc_irq_fired := False, fdc_dmabuf := hw_dma hw (fdc_trace s) (fdc_dmabuf s),
     fdc_trace := fdc_trace s @ [Irq IRQ6_FLOPPY]\<rparr>"

lemma fdc_poll_answers:
  "fdc_answers hw \<Longrightarrow> poll_until 500 (fdc_ready hw) s = (True, s\<lparr>fdc_trace := fdc_trace s @
     [Inb FDC_PRIM_MSR (hw_in8 hw (fdc_trace s) FDC_PRIM_MSR)]\<rparr>)"
  using fdcp.poll_immediate [of hw s 500] by (simp add: fdc_ready_eq Let_def fdc_answers_ports)

lemma fdc_send_answers: "fdc_answers hw \<Longrightarrow> fdc_send_command hw c s = (0, fdc_sent hw c s)"
  by (simp add: fdc_send_command_def fdc_poll_answers fdc_io_def outb_def fdc_sent_def)

lemma fdc_read_fifo_answers: "fdc_answers hw \<Longrightarrow> fdc_read_fifo hw s = (fdc_result hw s, fdc_got hw s)"
  by (simp add: fdc_read_fifo_def fdc_poll_answers inb_def Let_def fdc_got_def fdc_result_def)

lemma fdc_wait_answers: "fdc_answers hw \<Longrightarrow> fdc_wait_for_irq hw s = Some (fdc_interrupted hw s)"
  by (simp add: fdc_wait_for_irq_def fdc_answers_ports fdc_irq_handler_def fdc_interrupted_def Let_def)

lemmas fdc_answers_simps = fdc_send_answers fdc_read_fifo_answers fdc_wait_answers

lemma fifo_log_ops [simp]:
  "fifo_log (fdc_trace (fdc_sent hw c s)) = fifo_log (fdc_trace s) @ [Outb FDC_PRIM_FIFO c]"
  "fifo_log (fdc_trace (fdc_got hw s)) = fifo_log (fdc_trace s) @ [Inb FDC_PRIM_FIFO (fdc_result hw s)]"
  "fifo_log (fdc_trace (fdc_interrupted hw s)) = fifo_log (fdc_trace s)"
  by (simp_all add: fdc_sent_def fdc_got_def fdc_interrupted_def const_defs)

lemma writes_ops [simp]:
  "writes_to p (fdc_trace (fdc_sent hw c s)) = writes_to p (fdc_trace s) @ (if p = FDC_PRIM_FIFO then [c] else [])"
  "writes_to p (fdc_trace (fdc_got hw s)) = writes_to p (fdc_trace s)"
  "writes_to p (fdc_trace (fdc_interrupted hw s)) = writes_to p (fdc_trace s)"
  by (simp_all add: fdc_sent_def fdc_got_def fdc_interrupted_def)

lemma drive_ops [simp]:
  "fdc_current_drive (fdc_sent hw c s) = fdc_current_drive s"
  "fdc_current_drive (fdc_got hw s) = fdc_current_drive s"
  "fdc_current_drive (fdc_interrupted hw s) = fdc_current_drive s"
  by (simp_all add: fdc_sent_def fdc_got_def fdc_interrupted_def)

lemma buffer_ops [simp]:
  "fdc_dmabuf (fdc_sent hw c s) = fdc_dmabuf s" "fdc_dmabuf (fdc_got hw s) = fdc_dmabuf s"
  "fdc_dmabuf (fdc_interrupted hw s) = hw_dma hw (fdc_trace s) (fdc_dmabuf s)"
  "fdc_irq_fired (fdc_sent hw c s) = fdc_irq_fired s" "fdc_irq_fired (fdc_got hw s) = fdc_irq_fired s"
  "\<not> fdc_irq_fired (fdc_interrupted hw s)"
  by (simp_all add: fdc_sent_def fdc_got_def fdc_interrupted_def)

text \<open>Writes to the controller's own ports do not reach the DMA controller.\<close>

lemma dmac0_write_fdc [simp]:
  "dmac0_write FDC_PRIM_FIFO v d = d" "dmac0_write FDC_PRIM_DOR v d = d" "dmac0_write FDC_PRIM_CCR v d = d"
  by (simp_all add: dmac0_write_def const_defs Let_def)

lemma dmac0_ops [simp]:
  "dmac0_run (fdc_trace (fdc_sent hw c s)) d = dmac0_run (fdc_trace s) d"
  "dmac0_run (fdc_trace (fdc_got hw s)) d = dmac0_run (fdc_trace s) d"
  "dmac0_run (fdc_trace (fdc_interrupted hw s)) d = dmac0_run (fdc_trace s) d"
  by (simp_all add: fdc_sent_def fdc_got_def fdc_interrupted_def)

section \<open>Sequences of commands\<close>

lemma fdc_send_all_answers:
  assumes "fdc_answers hw"
  shows "fifo_log (fdc_trace (fdc_send_all hw cs s)) = fifo_log (fdc_trace s) @ map (Outb FDC_PRIM_FIFO) cs"
    and "writes_to p (fdc_trace (fdc_send_all hw cs s))
      = writes_to p (fdc_trace s) @ (if p = FDC_PRIM_FIFO then cs else [])"
    and "fdc_current_drive (fdc_send_all hw cs s) = fdc_current_drive s"
    and "fdc_dmabuf (fdc_send_all hw cs s) = fdc_dmabuf s"
    and "dmac0_run (fdc_trace (fdc_send_all hw cs s)) d = dmac0_run (fdc_trace s) d"
  by (induction cs arbitrary: s) (simp_all add: fdc_send_answers [OF assms])

lemma fdc_drop_results_answers:
  assumes "fdc_answers hw"
  shows "writes_to p (fdc_trace (fdc_drop_results hw n s)) = writes_to p (fdc_trace s)"
    and "fdc_current_drive (fdc_drop_results hw n s) = fdc_current_drive s"
    and "fdc_dmabuf (fdc_drop_results hw n s) = fdc_dmabuf s"
  by (induction n arbitrary: s) (simp_all add: fdc_read_fifo_answers [OF assms])

lemma fdc_sense_answers:
  "fdc_answers hw \<Longrightarrow> fdc_sense_interrupt hw s =
     (let s1 = fdc_sent hw FDC_CMD_SENSE_INTERRUPT s; s2 = fdc_got hw s1
      in (fdc_result hw s1, fdc_result hw s2, fdc_got hw s2))"
  by (simp add: fdc_sense_interrupt_def fdc_answers_simps Let_def)

lemma fifo_log_poll [simp]: "fifo_log (tr @ [Inb FDC_PRIM_MSR v]) = fifo_log tr"
  by (simp add: const_defs)

lemma fdc_seek_answers:
  assumes "fdc_answers hw" and "fdc_reports_seek hw"
  shows "\<exists>s'. fdc_seek hw cyl head s = Some (0, s')
     \<and> writes_to FDC_PRIM_FIFO (fdc_trace s') = writes_to FDC_PRIM_FIFO (fdc_trace s)
          @ [FDC_CMD_SEEK, push_bit 2 head OR fdc_current_drive s, cyl, FDC_CMD_SENSE_INTERRUPT]
     \<and> (\<forall>p. p \<noteq> FDC_PRIM_FIFO \<longrightarrow> writes_to p (fdc_trace s') = writes_to p (fdc_trace s))
     \<and> fdc_current_drive s' = fdc_current_drive s
     \<and> (\<exists>st0. fifo_log (fdc_trace s') = fifo_log (fdc_trace s)
          @ map (Outb FDC_PRIM_FIFO) [FDC_CMD_SEEK, push_bit 2 head OR fdc_current_drive s, cyl, FDC_CMD_SENSE_INTERRUPT]
          @ [Inb FDC_PRIM_FIFO st0, Inb FDC_PRIM_FIFO cyl])"
proof -
  let ?s1 = "fdc_interrupted hw (fdc_send_all hw [FDC_CMD_SEEK, push_bit 2 head OR fdc_current_drive s, cyl] s)"
  let ?s2 = "fdc_got hw (fdc_sent hw FDC_CMD_SENSE_INTERRUPT ?s1)"
  have log: "fifo_log (fdc_trace ?s2) = fifo_log (fdc_trace s)
      @ map (Outb FDC_PRIM_FIFO) [FDC_CMD_SEEK, push_bit 2 head OR fdc_current_drive s, cyl, FDC_CMD_SENSE_INTERRUPT]
      @ [Inb FDC_PRIM_FIFO (fdc_result hw (fdc_sent hw FDC_CMD_SENSE_INTERRUPT ?s1))]"
    by (simp add: fdc_send_all_answers [OF assms(1)] del: fdc_send_all.simps)
  then have res: "fdc_result hw ?s2 = cyl"
    using assms(2) unfolding fdc_answers_ports fdc_result_def by (metis fifo_log_poll)
  then have "fdc_seek hw cyl head s = Some (0, fdc_got hw ?s2)"
    by (simp add: fdc_seek_def numeral_eq_Suc fdc_wait_answers [OF assms(1)] fdc_sense_answers [OF assms(1)]
        Let_def del: fdc_send_all.simps)
  moreover have "fifo_log (fdc_trace (fdc_got hw ?s2)) = fifo_log (fdc_trace ?s2) @ [Inb FDC_PRIM_FIFO cyl]" using res by simp
  ultimately show ?thesis using log
    by (simp add: fdc_send_all_answers [OF assms(1)] del: fdc_send_all.simps)
qed

section \<open>The DMA channel of the floppy\<close>

text \<open>Channel 2 holds the buffer's address, a count of 512 bytes and the given mode.\<close>

definition floppy_dma_ready :: "u8 \<Rightarrow> dmac0 \<Rightarrow> bool" where
  "floppy_dma_ready mode d \<longleftrightarrow> d_addr d 2 = 0x1000 \<and> d_page d 2 = 0 \<and> d_count d 2 = 511
     \<and> d_mode d 2 = mode \<and> \<not> d_masked d 2"

lemma fdc_init_dma_ready:
  "floppy_dma_ready (if w then 0x4A else 0x46) (dmac0_run (fdc_trace (fdc_init_dma 511 w s)) d)"
  by (simp add: fdc_init_dma_def fdc_io_def floppy_dma_ready_def Let_def const_defs
      dma_mask_channel_def dma_reset_flipflop_def dma_set_address_def dma_addr_port_def dma_set_count_def
      dma_count_port_def dma_set_external_pagereg_def dma_page_port_def dma_setup_read_def dma_setup_write_def
      dma_set_mode_def dma_unmask_all_def dmac0_run_outb dmac0_write_def set_half_both)

lemma dma_ports_not_fdc:
  "p \<in> {FDC_PRIM_FIFO, FDC_PRIM_DOR} \<Longrightarrow> writes_to p (fdc_trace (fdc_init_dma n w s)) = writes_to p (fdc_trace s)"
  "fifo_log (fdc_trace (fdc_init_dma n w s)) = fifo_log (fdc_trace s)"
  "fdc_current_drive (fdc_init_dma n w s) = fdc_current_drive s"
  by (auto simp: fdc_init_dma_def fdc_io_def Let_def const_defs
      dma_mask_channel_def dma_reset_flipflop_def dma_set_address_def dma_addr_port_def dma_set_count_def
      dma_count_port_def dma_set_external_pagereg_def dma_page_port_def dma_setup_read_def dma_setup_write_def
      dma_set_mode_def dma_unmask_all_def outb_def)

text \<open>The controller's command to read data, as its data sheet has it: nine bytes, of which the first has the
  operation code 6 in its low five bits and the bit for double density, the second the head in bit 2 and the
  drive in bits 1 and 0, then cylinder, head, sector, 2 for sectors of 512 bytes, the last sector of the track, the
  gap of a 3.5 inch disk and the data length, which is unused.\<close>

definition read_data_command :: "u8 list \<Rightarrow> (u8 \<times> u8 \<times> u8 \<times> u8) option" where
  "read_data_command bs = (case bs of
     [op, hds, c, h, r, n, eot, gpl, dtl] \<Rightarrow>
       if op AND 0x5F = 0x46 \<and> hds AND 0xF8 = 0 \<and> drop_bit 2 hds = h \<and> n = 2 \<and> 1 \<le> r \<and> r \<le> eot \<and> eot \<le> 18
          \<and> gpl = 0x1B \<and> dtl = 0xFF
       then Some (hds AND 3, c, h, r) else None
   | _ \<Rightarrow> None)"

text \<open>A drive with a disk in it: when the heads have been moved to a cylinder by the last seek (operation code 15, and
  a sense command with its two results), a command to read a sector of that cylinder from the same drive has
  been sent and the DMA channel is set up for it, the buffer holds the sector's 512 bytes once the interrupt
  has come.\<close>

definition floppy_serves :: "hardware \<Rightarrow> dmac0 \<Rightarrow> (u8 \<Rightarrow> u8 \<Rightarrow> u8 \<Rightarrow> u8 list) \<Rightarrow> bool" where
  "floppy_serves hw d0 disk \<longleftrightarrow>
     (\<forall>tr a b x st0 st1 bs drive track head sector.
        fifo_log tr = a @ map (Outb 0x3F5) [0x0F, x, track, 0x08] @ [Inb 0x3F5 st0, Inb 0x3F5 st1] @ map (Outb 0x3F5) bs
        \<and> read_data_command bs = Some (drive, track, head, sector) \<and> x AND 3 = drive
        \<and> floppy_dma_ready 0x46 (dmac0_run tr d0)
        \<longrightarrow> hw_dma hw tr b = disk track head sector)
     \<and> (\<forall>track head sector. length (disk track head sector) = 512)"

lemma u8_below_4: "(d :: u8) < 4 \<Longrightarrow> d = 0 \<or> d = 1 \<or> d = 2 \<or> d = 3"
proof -
  assume "d < 4"
  then have "unat d < 4" by (simp add: word_less_nat_alt)
  then have "unat d = 0 \<or> unat d = 1 \<or> unat d = 2 \<or> unat d = 3" by arith
  then show ?thesis by (auto simp: word_unat_eq_iff)
qed

lemma u8_below_2: "(h :: u8) < 2 \<Longrightarrow> h = 0 \<or> h = 1"
  using u8_below_4 [of h] by (auto simp: word_less_nat_alt)

lemma fdc_eot_bounds: "1 \<le> sector \<Longrightarrow> sector \<le> 18 \<Longrightarrow> sector \<le> fdc_eot sector \<and> fdc_eot sector \<le> 18"
  by (auto simp: fdc_eot_def word_le_nat_alt unat_word_ariths)

lemma fdc_eot_eq: "1 \<le> sector \<Longrightarrow> sector \<le> 18 \<Longrightarrow> fdc_eot sector = (if sector < 18 then sector + 1 else 18)"
  by (auto simp: fdc_eot_def word_le_nat_alt word_less_nat_alt intro: word_unat_eq_iff [THEN iffD2])

lemma fdc_read_command:
  assumes "drive < 4" and "head < 2" and "1 \<le> sector" and "sector \<le> 18"
  shows "read_data_command (fdc_rw_bytes FDC_CMD_READ_SECTOR drive head track sector) = Some (drive, track, head, sector)"
  using u8_below_4 [OF assms(1)] u8_below_2 [OF assms(2)] assms(3,4) fdc_eot_bounds [OF assms(3,4)]
  by (elim disjE) (simp_all add: read_data_command_def fdc_rw_bytes_def const_defs)

lemma fdc_seek_drive: "drive < 4 \<Longrightarrow> head < 2 \<Longrightarrow> (push_bit 2 head OR drive :: u8) AND 3 = drive"
  by (drule u8_below_4, drule u8_below_2) (elim disjE; simp)

lemma fdc_read_chs_answers:
  assumes "fdc_answers hw" and "floppy_serves hw d0 disk"
    and at: "fdc_current_drive s < 4" "head < 2" "1 \<le> sector" "sector \<le> 18"
    and seek: "fifo_log (fdc_trace s) = a
          @ map (Outb FDC_PRIM_FIFO) [FDC_CMD_SEEK, push_bit 2 head OR fdc_current_drive s, track, FDC_CMD_SENSE_INTERRUPT]
          @ [Inb FDC_PRIM_FIFO st0, Inb FDC_PRIM_FIFO st1]"
  shows "\<exists>s'. fdc_read_sector_chs hw head track sector s = Some s' \<and> fdc_dmabuf s' = disk track head sector
     \<and> writes_to FDC_PRIM_FIFO (fdc_trace s') = writes_to FDC_PRIM_FIFO (fdc_trace s)
          @ fdc_rw_bytes FDC_CMD_READ_SECTOR (fdc_current_drive s) head track sector @ [FDC_CMD_SENSE_INTERRUPT]
     \<and> writes_to FDC_PRIM_DOR (fdc_trace s') = writes_to FDC_PRIM_DOR (fdc_trace s)
     \<and> fdc_current_drive s' = fdc_current_drive s"
proof -
  define cmd where "cmd = fdc_rw_bytes FDC_CMD_READ_SECTOR (fdc_current_drive s) head track sector"
  let ?s1 = "fdc_init_dma 511 False s"
  let ?s2 = "fdc_send_all hw cmd ?s1"
  have "fifo_log (fdc_trace ?s2) = fifo_log (fdc_trace s) @ map (Outb FDC_PRIM_FIFO) cmd"
    by (simp add: fdc_send_all_answers [OF assms(1)] dma_ports_not_fdc)
  then have "fifo_log (fdc_trace ?s2) = a @ map (Outb 0x3F5) [0x0F, push_bit 2 head OR fdc_current_drive s, track, 0x08]
      @ [Inb 0x3F5 st0, Inb 0x3F5 st1] @ map (Outb 0x3F5) cmd" using seek by (simp add: const_defs)
  moreover have "read_data_command cmd = Some (fdc_current_drive s, track, head, sector)" unfolding cmd_def by (rule fdc_read_command [OF at])
  moreover have "floppy_dma_ready 0x46 (dmac0_run (fdc_trace ?s2) d0)"
    using fdc_init_dma_ready [of False s d0] by (simp add: fdc_send_all_answers [OF assms(1)])
  ultimately have "hw_dma hw (fdc_trace ?s2) (fdc_dmabuf ?s2) = disk track head sector"
    using assms(2) fdc_seek_drive [OF at(1,2)] unfolding floppy_serves_def by blast
  moreover have "FDC_PRIM_DOR \<noteq> FDC_PRIM_FIFO" by (simp add: const_defs)
  ultimately show ?thesis
    by (simp add: fdc_read_sector_chs_def dma_ports_not_fdc cmd_def [symmetric] Let_def
        fdc_wait_answers [OF assms(1)] fdc_sense_answers [OF assms(1)] fdc_drop_results_answers [OF assms(1)]
        fdc_send_all_answers [OF assms(1)])
qed

lemma dor_not_fifo: "FDC_PRIM_DOR \<noteq> FDC_PRIM_FIFO"
  by (simp add: const_defs)

lemma fdc_motor_writes:
  assumes "fdc_motor_mask drive = Some m"
  shows "writes_to FDC_PRIM_DOR (fdc_trace (fdc_control_motor drive e s)) = writes_to FDC_PRIM_DOR (fdc_trace s)
      @ [if e then m OR drive OR FDC_DOR_IRQ_DMA OR FDC_DOR_ENABLE else FDC_DOR_ENABLE OR FDC_DOR_IRQ_DMA]"
    and "writes_to FDC_PRIM_FIFO (fdc_trace (fdc_control_motor drive e s)) = writes_to FDC_PRIM_FIFO (fdc_trace s)"
    and "fdc_current_drive (fdc_control_motor drive e s) = fdc_current_drive s"
    and "fdc_dmabuf (fdc_control_motor drive e s) = fdc_dmabuf s"
  using assms by (auto simp: fdc_control_motor_def fdc_write_dor_def fdc_io_def outb_def const_defs Let_def)

lemma fdc_lba_to_chs_arith:
  assumes "unat lba < 2880"
  shows "case fdc_lba_to_chs lba of (c, h, s) \<Rightarrow>
     unat c = unat lba div 36 \<and> unat h = unat lba mod 36 div 18 \<and> unat s = unat lba mod 36 mod 18 + 1"
proof -
  have "unat (lba div 36) = unat lba div 36" "unat lba div 36 < 256"
    using assms by (simp_all add: unat_div)
  then have c: "unat (ucast (ucast (lba div 36) :: u8) :: u32) = unat lba div 36"
    by (simp add: unsigned_ucast_eq unsigned_take_bit_eq take_bit_nat_def)
  have "unat lba mod 36 mod 18 + 1 < 4294967296"
    using mod_less_divisor [of 18 "unat lba mod 36"] by linarith
  then have s: "unat (lba mod 36 mod 18 + 1) = unat lba mod 36 mod 18 + 1"
    by (simp add: unat_word_ariths unat_mod)
  show ?thesis using c s by (simp add: fdc_lba_to_chs_def unat_div unat_mod)
qed

lemma fdc_seek_loop_fails:
  assumes "fdc_answers hw" and "\<And>tr. hw_in8 hw tr FDC_PRIM_FIFO \<noteq> cyl"
  shows "\<exists>s'. fdc_seek_loop hw cyl head n s = Some (- 1, s')
     \<and> writes_to FDC_PRIM_DOR (fdc_trace s') = writes_to FDC_PRIM_DOR (fdc_trace s)
     \<and> fdc_current_drive s' = fdc_current_drive s"
proof (induction n arbitrary: s)
  case (Suc n)
  let ?s1 = "fdc_interrupted hw (fdc_send_all hw [FDC_CMD_SEEK, push_bit 2 head OR fdc_current_drive s, cyl] s)"
  let ?s2 = "fdc_got hw (fdc_sent hw FDC_CMD_SENSE_INTERRUPT ?s1)"
  have "fdc_result hw ?s2 \<noteq> cyl" using assms(2) by (simp add: fdc_result_def)
  then have "fdc_seek_loop hw cyl head (Suc n) s = fdc_seek_loop hw cyl head n (fdc_got hw ?s2)"
    by (simp add: fdc_wait_answers [OF assms(1)] fdc_sense_answers [OF assms(1)] Let_def del: fdc_send_all.simps)
  moreover have "FDC_PRIM_DOR \<noteq> FDC_PRIM_FIFO" by (simp add: const_defs)
  ultimately show ?case
    using Suc.IH [of "fdc_got hw ?s2"]
    by (simp add: fdc_send_all_answers [OF assms(1)] del: fdc_send_all.simps)
qed simp

section \<open>Properties\<close>

text \<open>Further property: for the 2880 blocks of the disk the computed cylinder, head and sector are on the
  disk (80 cylinders, 2 heads, sectors 1 to 18) and determine the block number.\<close>

theorem fdc_lba_chs_inverse:
  assumes "lba < 2880" and "fdc_lba_to_chs lba = (c, h, s)"
  shows "c < 80 \<and> h < 2 \<and> 1 \<le> s \<and> s \<le> 18 \<and> unat lba = (unat c * 2 + unat h) * 18 + (unat s - 1)"
proof -
  have lt: "unat lba < 2880" using assms(1) by (simp add: word_less_nat_alt)
  have chs: "unat c = unat lba div 36" "unat h = unat lba mod 36 div 18" "unat s = unat lba mod 36 mod 18 + 1"
    using fdc_lba_to_chs_arith [OF lt] assms(2) by auto
  have "unat lba = unat lba div 36 * 36 + (unat lba mod 36 div 18 * 18 + unat lba mod 36 mod 18)"
    by simp
  then have "unat lba = (unat c * 2 + unat h) * 18 + (unat s - 1)" unfolding chs by simp
  moreover have "unat c < 80" "unat h < 2" "unat s \<le> 18"
    using lt unfolding chs by (simp_all add: less_mult_imp_div_less Suc_le_eq)
  ultimately show ?thesis using chs(3) by (simp add: word_less_nat_alt word_le_nat_alt)
qed

theorem fdc_lba_chs_inverse_witness: "fdc_lba_to_chs 2879 = (79, 1, 18) \<and> (79 :: u32) < 80"
proof -
  have "fdc_lba_to_chs 2879 = (79, 1, 18)" by (simp add: fdc_lba_to_chs_def)
  with fdc_lba_chs_inverse [OF _ this] show ?thesis by simp
qed

text \<open>Property C31: sending a byte polls the status register at most 500 times; the byte is written to
  the data port exactly once, right after the first poll that shows the port ready, and not at all
  when none of the 500 polls does; nothing else happens on any port.\<close>

theorem fdc_send_command_bounded:
  "\<exists>vs. length vs \<le> 500 \<and> (\<forall>v\<in>set (butlast vs). v AND FDC_MSR_DATAREG_MASK = 0) \<and>
     (if fst (fdc_send_command hw c s) = 0
      then vs \<noteq> [] \<and> last vs AND FDC_MSR_DATAREG_MASK \<noteq> 0
         \<and> snd (fdc_send_command hw c s)
           = s\<lparr>fdc_trace := fdc_trace s @ map (Inb FDC_PRIM_MSR) vs @ [Outb FDC_PRIM_FIFO c]\<rparr>
      else fst (fdc_send_command hw c s) = - 1 \<and> length vs = 500 \<and> (\<forall>v\<in>set vs. v AND FDC_MSR_DATAREG_MASK = 0)
         \<and> snd (fdc_send_command hw c s) = s\<lparr>fdc_trace := fdc_trace s @ map (Inb FDC_PRIM_MSR) vs\<rparr>)"
proof -
  obtain ok s1 where p: "poll_until 500 (fdc_ready hw) s = (ok, s1)" by fastforce
  obtain vs where vs: "s1 = s\<lparr>fdc_trace := fdc_trace s @ map (Inb FDC_PRIM_MSR) vs\<rparr>" "length vs \<le> 500"
    "\<forall>v\<in>set (butlast vs). v AND FDC_MSR_DATAREG_MASK = 0"
    "if ok then vs \<noteq> [] \<and> last vs AND FDC_MSR_DATAREG_MASK \<noteq> 0
     else length vs = 500 \<and> (\<forall>v\<in>set vs. v AND FDC_MSR_DATAREG_MASK = 0)"
    using fdc_poll_trace [OF p] by blast
  show ?thesis
    using vs(2-4)
    by (intro exI [of _ vs]) (cases ok; simp add: fdc_send_command_def p vs(1) fdc_io_def outb_def)
qed

definition demo_fdc :: hardware where
  "demo_fdc = \<lparr>hw_in8 = (\<lambda>tr p. if p = FDC_PRIM_MSR then 0x80
                 else case rev (fifo_log tr) of Inb _ _ # Outb _ _ # Outb _ c # _ \<Rightarrow> c | _ \<Rightarrow> 0),
     hw_in16 = (\<lambda>tr p. 0), hw_irq = (\<lambda>tr n. True), hw_dma = (\<lambda>tr b. replicate 512 7)\<rparr>"

theorem fdc_send_command_bounded_witness:
  "\<exists>vs. length vs \<le> 500 \<and> snd (fdc_send_command demo_fdc 8
       \<lparr>fdc_current_drive = 0, fdc_irq_fired = False, fdc_trace = [], fdc_dmabuf = []\<rparr>)
     = \<lparr>fdc_current_drive = 0, fdc_irq_fired = False,
        fdc_trace = map (Inb FDC_PRIM_MSR) vs @ [Outb FDC_PRIM_FIFO 8], fdc_dmabuf = []\<rparr>"
proof -
  let ?s = "\<lparr>fdc_current_drive = 0, fdc_irq_fired = False, fdc_trace = [], fdc_dmabuf = []\<rparr>"
  have "fdc_answers demo_fdc" by (simp add: fdc_answers_def demo_fdc_def const_defs)
  then have "fst (fdc_send_command demo_fdc 8 ?s) = 0" by (simp add: fdc_send_answers)
  then show ?thesis using fdc_send_command_bounded [of demo_fdc 8 ?s] by auto
qed

lemma ucast_of_unat: "unat (c :: u32) = k \<Longrightarrow> ucast c = (of_nat k :: u8)"
  by (auto simp: unsigned_ucast_eq)

lemma fdc_motor_drive4: "fdc_motor_mask drive = Some m \<Longrightarrow> drive < 4"
  by (auto simp: fdc_motor_mask_def split: if_splits)

lemma fdc_read_sector_answers:
  assumes hw: "fdc_answers hw" "fdc_reports_seek hw" "floppy_serves hw d0 disk"
    and m: "fdc_motor_mask (fdc_current_drive s) = Some m" and b: "512 \<le> length b"
    and chs: "fdc_lba_to_chs lba = (c, h, sec)" and lba: "unat lba < 2880"
  shows "\<exists>s'. fdc_read_sector hw lba (Some b) s
       = Some (0, Some (disk (ucast c) (ucast h) (ucast sec) @ drop 512 b), s')
     \<and> writes_to FDC_PRIM_FIFO (fdc_trace s') = writes_to FDC_PRIM_FIFO (fdc_trace s)
         @ [FDC_CMD_SEEK, push_bit 2 (ucast h) OR fdc_current_drive s, ucast c, FDC_CMD_SENSE_INTERRUPT]
         @ fdc_rw_bytes FDC_CMD_READ_SECTOR (fdc_current_drive s) (ucast h) (ucast c) (ucast sec)
         @ [FDC_CMD_SENSE_INTERRUPT]
     \<and> writes_to FDC_PRIM_DOR (fdc_trace s') = writes_to FDC_PRIM_DOR (fdc_trace s)
         @ [m OR fdc_current_drive s OR FDC_DOR_IRQ_DMA OR FDC_DOR_ENABLE, FDC_DOR_ENABLE OR FDC_DOR_IRQ_DMA]
     \<and> fdc_current_drive s' = fdc_current_drive s"
proof -
  let ?s1 = "fdc_control_motor (fdc_current_drive s) True s"
  note mw = fdc_motor_writes [OF m]
  have "unat h < 2" "1 \<le> unat sec" "unat sec \<le> 18"
    using fdc_lba_to_chs_arith [OF lba] chs by (auto simp: less_mult_imp_div_less Suc_le_eq)
  then have at: "(ucast h :: u8) < 2" "1 \<le> (ucast sec :: u8)" "(ucast sec :: u8) \<le> 18"
    by (simp_all add: word_less_nat_alt word_le_nat_alt unsigned_ucast_eq take_bit_nat_def)
  obtain s2 st0 where s2: "fdc_seek hw (ucast c) (ucast h) ?s1 = Some (0, s2)"
    "writes_to FDC_PRIM_FIFO (fdc_trace s2) = writes_to FDC_PRIM_FIFO (fdc_trace s)
       @ [FDC_CMD_SEEK, push_bit 2 (ucast h) OR fdc_current_drive s, ucast c, FDC_CMD_SENSE_INTERRUPT]"
    "writes_to FDC_PRIM_DOR (fdc_trace s2) = writes_to FDC_PRIM_DOR (fdc_trace ?s1)"
    "fdc_current_drive s2 = fdc_current_drive s"
    "fifo_log (fdc_trace s2) = fifo_log (fdc_trace ?s1)
       @ map (Outb FDC_PRIM_FIFO) [FDC_CMD_SEEK, push_bit 2 (ucast h) OR fdc_current_drive s, ucast c, FDC_CMD_SENSE_INTERRUPT]
       @ [Inb FDC_PRIM_FIFO st0, Inb FDC_PRIM_FIFO (ucast c)]"
    using fdc_seek_answers [OF hw(1,2), of "ucast c" "ucast h" ?s1] mw dor_not_fifo by auto
  have d2: "fdc_current_drive s2 < 4" using s2(4) fdc_motor_drive4 [OF m] by simp
  obtain s3 where s3: "fdc_read_sector_chs hw (ucast h) (ucast c) (ucast sec) s2 = Some s3"
    "fdc_dmabuf s3 = disk (ucast c) (ucast h) (ucast sec)"
    "writes_to FDC_PRIM_FIFO (fdc_trace s3) = writes_to FDC_PRIM_FIFO (fdc_trace s2)
       @ fdc_rw_bytes FDC_CMD_READ_SECTOR (fdc_current_drive s) (ucast h) (ucast c) (ucast sec)
       @ [FDC_CMD_SENSE_INTERRUPT]"
    "writes_to FDC_PRIM_DOR (fdc_trace s3) = writes_to FDC_PRIM_DOR (fdc_trace s2)"
    "fdc_current_drive s3 = fdc_current_drive s"
    using fdc_read_chs_answers [OF hw(1,3) d2 at s2(5) [folded s2(4)]] s2(4) by auto
  have len: "length (disk (ucast c) (ucast h) (ucast sec)) = 512" using hw(3) by (simp add: floppy_serves_def)
  show ?thesis
    using s2 s3 b len by (simp add: fdc_read_sector_def chs copy_out_def mw Let_def)
qed


definition demo_sector :: "u8 \<Rightarrow> u8 \<Rightarrow> u8 \<Rightarrow> u8 list" where
  "demo_sector track head sector = [track, head, sector] @ replicate 509 0"

text \<open>A drive that takes the address of the sector from the last command on the data port.\<close>

definition fd_with_disk :: "(u8 \<Rightarrow> u8 \<Rightarrow> u8 \<Rightarrow> u8 list) \<Rightarrow> hardware" where
  "fd_with_disk disk = demo_fdc\<lparr>hw_dma := \<lambda>tr b. (case rev (fifo_log tr) of
      Outb _ _ # Outb _ _ # Outb _ _ # Outb _ _ # Outb _ sector # Outb _ head # Outb _ track # _ \<Rightarrow> disk track head sector | _ \<Rightarrow> b)\<rparr>"

lemma fd_with_disk_hyps:
  assumes "\<forall>track head sector. length (disk track head sector) = 512"
  shows "fdc_answers (fd_with_disk disk)" "fdc_reports_seek (fd_with_disk disk)" "floppy_serves (fd_with_disk disk) dmac0_init disk"
  using assms by (auto simp: fdc_answers_def fdc_reports_seek_def floppy_serves_def read_data_command_def fd_with_disk_def demo_fdc_def const_defs
      split: list.splits if_splits)


text \<open>Further property: when the drive never reaches the cylinder, a read fails with -1 and leaves the
  motor running, while a write fails with -1 and turns it off.\<close>

theorem fdc_seek_failure_motor:
  assumes hw: "fdc_answers hw" "\<And>tr. hw_in8 hw tr FDC_PRIM_FIFO \<noteq> ucast c"
    and m: "fdc_motor_mask (fdc_current_drive s) = Some m" and b: "512 \<le> length b"
    and chs: "fdc_lba_to_chs lba = (c, h, sec)"
  shows "(\<exists>s'. fdc_read_sector hw lba (Some b) s = Some (- 1, Some b, s')
       \<and> last (writes_to FDC_PRIM_DOR (fdc_trace s')) = m OR fdc_current_drive s OR FDC_DOR_IRQ_DMA OR FDC_DOR_ENABLE)
     \<and> (\<exists>s'. fdc_write_sector hw lba (Some b) s = Some (- 1, s')
       \<and> last (writes_to FDC_PRIM_DOR (fdc_trace s')) = FDC_DOR_ENABLE OR FDC_DOR_IRQ_DMA)"
proof -
  note mw = fdc_motor_writes [OF m]
  note fails = fdc_seek_loop_fails [OF hw, of "ucast h" 10]
  have m': "fdc_motor_mask (fdc_current_drive (s\<lparr>fdc_dmabuf := take 512 b\<rparr>)) = Some m" using m by simp
  show ?thesis
    using fails [of "fdc_control_motor (fdc_current_drive s) True s"]
      fails [of "fdc_control_motor (fdc_current_drive s) True (s\<lparr>fdc_dmabuf := take 512 b\<rparr>)"] b
    by (auto simp: fdc_read_sector_def fdc_write_sector_def chs fdc_seek_def mw Let_def)
qed

theorem fdc_seek_failure_motor_witness:
  "\<exists>s'. fdc_read_sector (demo_fdc\<lparr>hw_in8 := (\<lambda>tr p. 0x80)\<rparr>) 33 (Some (replicate 512 0))
      \<lparr>fdc_current_drive = 0, fdc_irq_fired = False, fdc_trace = [], fdc_dmabuf = []\<rparr>
     = Some (- 1, Some (replicate 512 0), s') \<and> last (writes_to FDC_PRIM_DOR (fdc_trace s')) = 0x1C"
proof -
  let ?s = "\<lparr>fdc_current_drive = 0, fdc_irq_fired = False, fdc_trace = [], fdc_dmabuf = []\<rparr>"
  let ?hw = "demo_fdc\<lparr>hw_in8 := (\<lambda>tr p. 0x80)\<rparr>"
  have "fdc_motor_mask (fdc_current_drive ?s) = Some FDC_DOR_MOTOR0_MASK" by (simp add: fdc_motor_mask_def)
  moreover have "fdc_lba_to_chs 33 = (0, 1, 16)" by (simp add: fdc_lba_to_chs_def)
  moreover have "fdc_answers ?hw" by (simp add: fdc_answers_def demo_fdc_def const_defs)
  ultimately show ?thesis
    using fdc_seek_failure_motor [of ?hw 0 ?s FDC_DOR_MOTOR0_MASK "replicate 512 0" 33 1 16]
    by (auto simp: const_defs)
qed

end
