(* ===== verification/Drv_Ide.thy ===== *)
theory Drv_Ide
  imports Port_IO Drv_Block
begin

text \<open>
  The IDE driver of \<^verbatim>\<open>driver/ide.c\<close>, on the port trace. The state is the primary controller, the
  only one the driver knows, with its two device structures, the current device and the trace. A
  device pointer is \<open>None\<close> for NULL or the index of the structure in the controller; every device's
  \<^verbatim>\<open>ctrl\<close> points to that controller. The address of the controller is an argument of the block
  operations, since the block layer keeps a pointer to the device. The delay loops have no
  effect the model can see, and the log messages are left out. Every wait is a poll of the status
  register with the driver's bound of 100000.
\<close>

section \<open>Constants\<close>

definition IDE_PRIM_CMD_BASE :: u16 where [const_defs]: "IDE_PRIM_CMD_BASE = 0x1F0"
definition IDE_PRIM_CTRL_BASE :: u16 where [const_defs]: "IDE_PRIM_CTRL_BASE = 0x3F6"

definition OFFS_DATA :: u16 where [const_defs]: "OFFS_DATA = 0"
definition OFFS_ERROR :: u16 where [const_defs]: "OFFS_ERROR = 1"
definition OFFS_SECTCOUNT :: u16 where [const_defs]: "OFFS_SECTCOUNT = 2"
definition OFFS_LBALO :: u16 where [const_defs]: "OFFS_LBALO = 3"
definition OFFS_LBAMID :: u16 where [const_defs]: "OFFS_LBAMID = 4"
definition OFFS_LBAHI :: u16 where [const_defs]: "OFFS_LBAHI = 5"
definition OFFS_DEVICE :: u16 where [const_defs]: "OFFS_DEVICE = 6"
definition OFFS_COMMAND :: u16 where [const_defs]: "OFFS_COMMAND = 7"
definition OFFS_STATUS :: u16 where [const_defs]: "OFFS_STATUS = 7"
definition OFFS_ALTSTATUS :: u16 where [const_defs]: "OFFS_ALTSTATUS = 0"
definition OFFS_DEVICECTRL :: u16 where [const_defs]: "OFFS_DEVICECTRL = 0"

definition IDE_DEV_DRIVE_SEL :: u8 where [const_defs]: "IDE_DEV_DRIVE_SEL = 0x10"
definition IDE_DEV_LBA_MODE :: u8 where [const_defs]: "IDE_DEV_LBA_MODE = 0x40"
definition IDE_DEV_DEFAULT :: u8 where [const_defs]: "IDE_DEV_DEFAULT = 0xA0"
definition IDE_STAT_ERR :: u8 where [const_defs]: "IDE_STAT_ERR = 0x01"
definition IDE_STAT_DRQ :: u8 where [const_defs]: "IDE_STAT_DRQ = 0x08"
definition IDE_STAT_RDY :: u8 where [const_defs]: "IDE_STAT_RDY = 0x40"
definition IDE_STAT_BSY :: u8 where [const_defs]: "IDE_STAT_BSY = 0x80"
definition IDE_DEVCTRL_SRST :: u8 where [const_defs]: "IDE_DEVCTRL_SRST = 0x04"
definition IDE_DEVCTRL_DEFAULT :: u8 where [const_defs]: "IDE_DEVCTRL_DEFAULT = 0x00"
definition IDE_CMD_IDENTIFY :: u8 where [const_defs]: "IDE_CMD_IDENTIFY = 0xEC"
definition IDE_CMD_READ_SECTORS :: u8 where [const_defs]: "IDE_CMD_READ_SECTORS = 0x20"
definition IDE_CMD_WRITE_SECTORS :: u8 where [const_defs]: "IDE_CMD_WRITE_SECTORS = 0x30"
definition IDE_MAX_DEVICES :: nat where [const_defs]: "IDE_MAX_DEVICES = 2"
definition IDE_SECTOR_SIZE :: u32 where [const_defs]: "IDE_SECTOR_SIZE = 512"
definition IRQ14_HDC :: u8 where [const_defs]: "IRQ14_HDC = 46"

section \<open>Data\<close>

record ide_device_t =
  ide_model :: "u8 list"
  ide_present :: bool
  ide_is_hdd :: bool
  ide_cylinders :: u32
  ide_heads :: u32
  ide_sectors_per_track :: u32
  ide_total_sectors :: u32
  ide_device_num :: u8

record ide_controller_t =
  ide_devices :: "ide_device_t list"
  command_base :: u16
  control_base :: u16
  ide_name :: "u8 list"

record ide_state =
  ide_prim :: ide_controller_t
  ide_current_dev :: "nat option"
  ide_trace :: io_trace

abbreviation ide_dev :: "ide_state \<Rightarrow> nat \<Rightarrow> ide_device_t" where
  "ide_dev s d \<equiv> ide_devices (ide_prim s) ! d"

definition ide_cmd_port :: "u16 \<Rightarrow> ide_state \<Rightarrow> u16" where
  "ide_cmd_port offs s = command_base (ide_prim s) + offs"

definition ide_ctrl_port :: "u16 \<Rightarrow> ide_state \<Rightarrow> u16" where
  "ide_ctrl_port offs s = control_base (ide_prim s) + offs"

definition ide_out :: "u8 \<Rightarrow> u16 \<Rightarrow> ide_state \<Rightarrow> ide_state" where
  "ide_out v port s = s\<lparr>ide_trace := outb v port (ide_trace s)\<rparr>"

definition ide_in :: "hardware \<Rightarrow> u16 \<Rightarrow> ide_state \<Rightarrow> u8 \<times> ide_state" where
  "ide_in hw port s = (let (v, tr) = inb hw port (ide_trace s) in (v, s\<lparr>ide_trace := tr\<rparr>))"

definition ide_set_dev :: "nat \<Rightarrow> (ide_device_t \<Rightarrow> ide_device_t) \<Rightarrow> ide_state \<Rightarrow> ide_state" where
  "ide_set_dev d f s =
     s\<lparr>ide_prim := (ide_prim s)\<lparr>ide_devices := (ide_devices (ide_prim s))[d := f (ide_dev s d)]\<rparr>\<rparr>"

section \<open>Registers\<close>

definition ide_read_status :: "hardware \<Rightarrow> ide_state \<Rightarrow> u8 \<times> ide_state" where
  "ide_read_status hw s = ide_in hw (ide_cmd_port OFFS_STATUS s) s"

definition ide_read_error :: "hardware \<Rightarrow> ide_state \<Rightarrow> u8 \<times> ide_state" where
  "ide_read_error hw s = ide_in hw (ide_cmd_port OFFS_ERROR s) s"

definition ide_read_data :: "hardware \<Rightarrow> nat \<Rightarrow> ide_state \<Rightarrow> u16 list \<times> ide_state" where
  "ide_read_data hw n s =
     (let (ws, tr) = insw hw (ide_cmd_port OFFS_DATA s) n (ide_trace s) in (ws, s\<lparr>ide_trace := tr\<rparr>))"

definition ide_write_data :: "u16 list \<Rightarrow> ide_state \<Rightarrow> ide_state" where
  "ide_write_data ws s = s\<lparr>ide_trace := outsw (ide_cmd_port OFFS_DATA s) ws (ide_trace s)\<rparr>"

definition ide_device_reg :: "ide_device_t \<Rightarrow> u8" where
  "ide_device_reg dev =
     IDE_DEV_LBA_MODE OR IDE_DEV_DEFAULT OR (if ide_device_num dev \<noteq> 0 then IDE_DEV_DRIVE_SEL else 0)"

primrec ide_altstatus_delay :: "hardware \<Rightarrow> nat \<Rightarrow> ide_state \<Rightarrow> ide_state" where
  "ide_altstatus_delay hw 0 s = s"
| "ide_altstatus_delay hw (Suc n) s = ide_altstatus_delay hw n (snd (ide_in hw (ide_ctrl_port OFFS_ALTSTATUS s) s))"

definition ide_select_drive :: "hardware \<Rightarrow> nat \<Rightarrow> ide_state \<Rightarrow> ide_state" where
  "ide_select_drive hw d s =
     ide_altstatus_delay hw 4 (ide_out (ide_device_reg (ide_dev s d)) (ide_cmd_port OFFS_DEVICE s) s)"

definition ide_write_lbaregs :: "u32 \<Rightarrow> ide_state \<Rightarrow> ide_state" where
  "ide_write_lbaregs lba s =
     (let s1 = ide_out (ucast (lba AND 0xFF)) (ide_cmd_port OFFS_LBALO s) s;
          s2 = ide_out (ucast (drop_bit 8 lba AND 0xFF)) (ide_cmd_port OFFS_LBAMID s1) s1
      in ide_out (ucast (drop_bit 16 lba AND 0xFF)) (ide_cmd_port OFFS_LBAHI s2) s2)"

definition ide_write_sectcount :: "u8 \<Rightarrow> ide_state \<Rightarrow> ide_state" where
  "ide_write_sectcount n s = ide_out n (ide_cmd_port OFFS_SECTCOUNT s) s"

definition ide_write_command :: "u8 \<Rightarrow> ide_state \<Rightarrow> ide_state" where
  "ide_write_command cmd s = ide_out cmd (ide_cmd_port OFFS_COMMAND s) s"

section \<open>Waits\<close>

definition ide_status_test :: "hardware \<Rightarrow> (u8 \<Rightarrow> bool) \<Rightarrow> ide_state \<Rightarrow> bool \<times> ide_state" where
  "ide_status_test hw P s = (let (v, s1) = ide_read_status hw s in (P v, s1))"

definition ide_wait :: "hardware \<Rightarrow> (u8 \<Rightarrow> bool) \<Rightarrow> ide_state \<Rightarrow> int \<times> ide_state" where
  "ide_wait hw P s = (let (ok, s1) = poll_until 100000 (ide_status_test hw P) s in (if ok then 0 else - 1, s1))"

definition ide_wait_idle :: "hardware \<Rightarrow> ide_state \<Rightarrow> int \<times> ide_state" where
  "ide_wait_idle hw = ide_wait hw (\<lambda>v. v AND (IDE_STAT_BSY OR IDE_STAT_DRQ) = 0)"

definition ide_wait_drq :: "hardware \<Rightarrow> ide_state \<Rightarrow> int \<times> ide_state" where
  "ide_wait_drq hw = ide_wait hw (\<lambda>v. v AND IDE_STAT_DRQ \<noteq> 0)"

definition ide_wait_bsy :: "hardware \<Rightarrow> ide_state \<Rightarrow> int \<times> ide_state" where
  "ide_wait_bsy hw = ide_wait hw (\<lambda>v. v AND IDE_STAT_BSY = 0)"

definition ide_wait_drdy :: "hardware \<Rightarrow> ide_state \<Rightarrow> int \<times> ide_state" where
  "ide_wait_drdy hw = ide_wait hw (\<lambda>v. v AND IDE_STAT_BSY = 0 \<and> v AND IDE_STAT_RDY \<noteq> 0)"

definition ide_intr_handler :: "hardware \<Rightarrow> ide_state \<Rightarrow> ide_state" where
  "ide_intr_handler hw s = snd (ide_read_status hw s)"

definition ide_reset :: "ide_state \<Rightarrow> ide_state" where
  "ide_reset s =
     (let s1 = ide_out IDE_DEVCTRL_SRST (ide_ctrl_port OFFS_DEVICECTRL s) s;
          s2 = ide_out IDE_DEVCTRL_DEFAULT (ide_ctrl_port OFFS_DEVICECTRL s1) s1
      in ide_out IDE_DEV_DEFAULT (ide_cmd_port OFFS_DEVICE s2) s2)"

section \<open>Detection\<close>

definition ide_check_type :: "hardware \<Rightarrow> nat \<Rightarrow> ide_state \<Rightarrow> ide_state" where
  "ide_check_type hw d s =
     (let (lba_mid, s1) = ide_in hw (ide_cmd_port OFFS_LBAMID s) s;
          (lba_hi, s2) = ide_in hw (ide_cmd_port OFFS_LBAHI s1) s1
      in if lba_mid = 0 \<and> lba_hi = 0 then ide_set_dev d (\<lambda>dev. dev\<lparr>ide_is_hdd := True\<rparr>) s2
         else if lba_mid = 0x14 \<and> lba_hi = 0xEB then ide_set_dev d (\<lambda>dev. dev\<lparr>ide_is_hdd := False\<rparr>) s2
         else ide_set_dev d (\<lambda>dev. dev\<lparr>ide_is_hdd := False\<rparr>) s2)"

text \<open>The 41 bytes of the model string: the bytes of words 27 to 46, high byte first, and a
  terminator; then trailing spaces are cleared from the end.\<close>

definition ide_model_bytes :: "u16 list \<Rightarrow> u8 list" where
  "ide_model_bytes ws =
     concat (map (\<lambda>i. [ucast (drop_bit 8 (ws ! (27 + i)) AND 0xFF), ucast (ws ! (27 + i) AND 0xFF)]) [0..<20]) @ [0]"

primrec ide_trim :: "nat \<Rightarrow> u8 list \<Rightarrow> u8 list" where
  "ide_trim 0 model = model"
| "ide_trim (Suc i) model = (if model ! i = 32 then ide_trim i (model[i := 0]) else model)"

definition ide_parse_identify :: "u16 list \<Rightarrow> ide_device_t \<Rightarrow> ide_device_t" where
  "ide_parse_identify ws dev =
     dev\<lparr>ide_is_hdd := (ws ! 0 AND 0x8000 = 0),
         ide_model := ide_trim 40 (ide_model_bytes ws),
         ide_total_sectors := push_bit 16 (ucast (ws ! 61)) OR ucast (ws ! 60),
         ide_cylinders := ucast (ws ! 1),
         ide_heads := ucast (ws ! 3),
         ide_sectors_per_track := ucast (ws ! 6),
         ide_present := True\<rparr>"

definition ide_absent :: "nat \<Rightarrow> ide_state \<Rightarrow> ide_state" where
  "ide_absent d s = ide_set_dev d (\<lambda>dev. dev\<lparr>ide_present := False\<rparr>) s"

definition ide_device_identify :: "hardware \<Rightarrow> nat \<Rightarrow> ide_state \<Rightarrow> ide_state" where
  "ide_device_identify hw d s0 =
     (let s1 = ide_select_drive hw d s0;
          (r, s2) = ide_wait_drdy hw s1 in
      if r \<noteq> 0 then ide_absent d s2
      else
        let s3 = ide_write_command IDE_CMD_IDENTIFY s2;
            (r, s4) = ide_wait_bsy hw s3 in
        if r \<noteq> 0 then ide_absent d s4
        else
          let (status, s5) = ide_read_status hw s4 in
          if status = 0 then ide_absent d s5
          else if status AND IDE_STAT_ERR \<noteq> 0 then ide_absent d s5
          else
            let (r, s6) = ide_wait_drq hw s5 in
            if r \<noteq> 0 then ide_absent d s6
            else
              let (ws, s7) = ide_read_data hw 256 s6 in
              ide_set_dev d (ide_parse_identify ws) s7)"

section \<open>Sector transfers\<close>

fun words_bytes :: "u16 list \<Rightarrow> u8 list" where
  "words_bytes [] = []"
| "words_bytes (w # ws) = LOW_BYTE w # HIGH_BYTE w # words_bytes ws"

fun bytes_words :: "u8 list \<Rightarrow> u16 list" where
  "bytes_words (a # b # bs) = (ucast a OR push_bit 8 (ucast b)) # bytes_words bs"
| "bytes_words bs = []"

text \<open>The guard both transfers begin with.\<close>

definition ide_usable :: "nat option \<Rightarrow> u32 \<Rightarrow> ide_state \<Rightarrow> bool" where
  "ide_usable drive sector s =
     (case drive of None \<Rightarrow> False
      | Some d \<Rightarrow> ide_present (ide_dev s d) \<and> ide_is_hdd (ide_dev s d) \<and> \<not> sector \<ge> ide_total_sectors (ide_dev s d))"

text \<open>Writing the registers and the command of a transfer.\<close>

definition ide_command_sector :: "nat \<Rightarrow> u32 \<Rightarrow> u8 \<Rightarrow> ide_state \<Rightarrow> ide_state" where
  "ide_command_sector d sector cmd s =
     (let s1 = ide_write_sectcount 1 s;
          s2 = ide_write_lbaregs sector s1;
          device_reg = ide_device_reg (ide_dev s2 d) OR ucast (drop_bit 24 sector AND 0x0F);
          s3 = ide_out device_reg (ide_cmd_port OFFS_DEVICE s2) s2
      in ide_write_command cmd s3)"

text \<open>A buffer that is NULL or too short is written or read outside its bounds: no defined result.\<close>

definition ide_read_sector :: "hardware \<Rightarrow> nat option \<Rightarrow> u32 \<Rightarrow> buffer \<Rightarrow> ide_state \<Rightarrow> (buffer \<times> ide_state) option" where
  "ide_read_sector hw drive sector buf s =
     (if \<not> ide_usable drive sector s then Some (buf, s)
      else
        let d = the drive;
            s1 = ide_select_drive hw d s;
            (r, s2) = ide_wait_drdy hw s1 in
        if r \<noteq> 0 then Some (buf, s2)
        else
          let s3 = ide_command_sector d sector IDE_CMD_READ_SECTORS s2;
              (r, s4) = ide_wait_bsy hw s3 in
          if r \<noteq> 0 then Some (buf, s4)
          else
            let (status, s5) = ide_read_status hw s4 in
            if status AND IDE_STAT_ERR \<noteq> 0 then Some (buf, snd (ide_read_error hw s5))
            else
              let (r, s6) = ide_wait_drq hw s5 in
              if r \<noteq> 0 then Some (buf, s6)
              else
                let (ws, s7) = ide_read_data hw 256 s6 in
                (case buf of None \<Rightarrow> None
                 | Some b \<Rightarrow> if length b < 512 then None else Some (Some (words_bytes ws @ drop 512 b), s7)))"

definition ide_write_sector :: "hardware \<Rightarrow> nat option \<Rightarrow> u32 \<Rightarrow> buffer \<Rightarrow> ide_state \<Rightarrow> ide_state option" where
  "ide_write_sector hw drive sector buf s =
     (if \<not> ide_usable drive sector s then Some s
      else
        let d = the drive;
            s1 = ide_select_drive hw d s;
            (r, s2) = ide_wait_drdy hw s1 in
        if r \<noteq> 0 then Some s2
        else
          let s3 = ide_command_sector d sector IDE_CMD_WRITE_SECTORS s2;
              (r, s4) = ide_wait_drq hw s3 in
          if r \<noteq> 0 then Some s4
          else
            (case buf of None \<Rightarrow> None
             | Some b \<Rightarrow>
                if length b < 512 then None
                else
                  let s5 = ide_write_data (bytes_words (take 512 b)) s4;
                      (r, s6) = ide_wait_bsy hw s5 in
                  if r \<noteq> 0 then Some s6
                  else
                    let (status, s7) = ide_read_status hw s6 in
                    if status AND IDE_STAT_ERR \<noteq> 0 then Some (snd (ide_read_error hw s7)) else Some s7))"

section \<open>Block operations and initialisation\<close>

text \<open>The address of a device structure inside the controller at \<open>prim\<close>, and back.\<close>

definition sizeof_ide_device_t :: u32 where [const_defs]: "sizeof_ide_device_t = 68"

definition ide_dev_ptr :: "ptr \<Rightarrow> nat \<Rightarrow> ptr" where
  "ide_dev_ptr prim i = prim + of_nat i * sizeof_ide_device_t"

definition ide_dev_at :: "ptr \<Rightarrow> ptr \<Rightarrow> nat option" where
  "ide_dev_at prim p =
     (if p = NULL then None else if p = ide_dev_ptr prim 0 then Some 0
      else if p = ide_dev_ptr prim 1 then Some 1 else None)"

definition ide_blk_read :: "hardware \<Rightarrow> ptr \<Rightarrow> ptr \<Rightarrow> u32 \<Rightarrow> buffer \<Rightarrow> ide_state \<Rightarrow> (int \<times> buffer \<times> ide_state) option" where
  "ide_blk_read hw prim priv lba buf s =
     map_option (\<lambda>(b, s1). (0, b, s1)) (ide_read_sector hw (ide_dev_at prim priv) lba buf s)"

definition ide_blk_write :: "hardware \<Rightarrow> ptr \<Rightarrow> ptr \<Rightarrow> u32 \<Rightarrow> buffer \<Rightarrow> ide_state \<Rightarrow> (int \<times> ide_state) option" where
  "ide_blk_write hw prim priv lba buf s =
     map_option (\<lambda>s1. (0, s1)) (ide_write_sector hw (ide_dev_at prim priv) lba buf s)"

definition ide_block_device_ops :: "hardware \<Rightarrow> ptr \<Rightarrow> ide_state block_device_ops_t" where
  "ide_block_device_ops hw prim = \<lparr>op_read = Some (ide_blk_read hw prim), op_write = Some (ide_blk_write hw prim)\<rparr>"

definition ide_probe :: "hardware \<Rightarrow> nat \<Rightarrow> ide_state \<Rightarrow> ide_state" where
  "ide_probe hw i s =
     (let s1 = ide_set_dev i (\<lambda>dev. dev\<lparr>ide_device_num := of_nat i, ide_present := False\<rparr>) s;
          s2 = ide_select_drive hw i s1;
          s3 = ide_check_type hw i s2
      in ide_device_identify hw i s3)"

text \<open>The block layer keeps functions on the state of the machine it serves; \<open>emb\<close> makes the driver's functions
  into such functions, and is the identity where the driver is alone.\<close>

definition ide_register :: "(ide_state block_device_ops_t \<Rightarrow> 'w block_device_ops_t) \<Rightarrow> hardware \<Rightarrow> ptr
    \<Rightarrow> ('w blk_state \<Rightarrow> u32 \<Rightarrow> ptr) \<Rightarrow> nat \<Rightarrow> ide_device_t \<Rightarrow> 'w blk_state \<Rightarrow> 'w blk_state" where
  "ide_register emb hw prim malloc i dev bs =
     (if ide_present dev \<and> ide_is_hdd dev \<and> ide_total_sectors dev > 0
      then snd (blkdev_register malloc (if i = 0 then [104, 100, 48] else [104, 100, 49]) IDE_SECTOR_SIZE
             (ide_total_sectors dev) (Some (emb (ide_block_device_ops hw prim))) (ide_dev_ptr prim i) bs)
      else bs)"

fun ide_init_loop :: "(ide_state block_device_ops_t \<Rightarrow> 'w block_device_ops_t) \<Rightarrow> hardware \<Rightarrow> ptr
    \<Rightarrow> ('w blk_state \<Rightarrow> u32 \<Rightarrow> ptr) \<Rightarrow> nat list \<Rightarrow> ide_state \<times> 'w blk_state \<Rightarrow> ide_state \<times> 'w blk_state" where
  "ide_init_loop emb hw prim malloc [] (s, bs) = (s, bs)"
| "ide_init_loop emb hw prim malloc (i # is) (s, bs) =
     (let s1 = ide_probe hw i s in
      ide_init_loop emb hw prim malloc is (s1, ide_register emb hw prim malloc i (ide_dev s1 i) bs))"

definition ide_init :: "(ide_state block_device_ops_t \<Rightarrow> 'w block_device_ops_t) \<Rightarrow> hardware \<Rightarrow> ptr
    \<Rightarrow> ('w blk_state \<Rightarrow> u32 \<Rightarrow> ptr) \<Rightarrow> ide_state \<Rightarrow> 'w blk_state \<Rightarrow> ide_state \<times> 'w blk_state \<times> u8" where
  "ide_init emb hw prim malloc s bs =
     (let c = (ide_prim s)\<lparr>command_base := IDE_PRIM_CMD_BASE, control_base := IDE_PRIM_CTRL_BASE,
                 ide_name := [105, 100, 101, 48, 0, 0, 0, 0]\<rparr>;
          s1 = ide_reset (s\<lparr>ide_prim := c\<rparr>);
          s2 = s1\<lparr>ide_current_dev := Some 0\<rparr>;
          (s3, bs1) = ide_init_loop emb hw prim malloc [0..<IDE_MAX_DEVICES] (s2, bs)
      in (s3, bs1, IRQ14_HDC))"

section \<open>Reads leave the device alone\<close>

text \<open>The second state is the first after some register reads.\<close>

definition is_inb :: "io_event \<Rightarrow> bool" where
  "is_inb e = (case e of Inb p v \<Rightarrow> True | _ \<Rightarrow> False)"

definition ide_quiet :: "ide_state \<Rightarrow> ide_state \<Rightarrow> bool" where
  "ide_quiet s t \<longleftrightarrow> (\<exists>evs. t = s\<lparr>ide_trace := ide_trace s @ evs\<rparr> \<and> list_all is_inb evs)"

lemma ide_quiet_refl [simp]: "ide_quiet s s"
  unfolding ide_quiet_def by (rule exI [of _ "[]"]) simp

lemma ide_quiet_trans: "ide_quiet s t \<Longrightarrow> ide_quiet t u \<Longrightarrow> ide_quiet s u"
  unfolding ide_quiet_def by (elim exE conjE) (rule exI, rule conjI, simp, simp)

lemma ide_in_quiet [simp]: "ide_quiet s (snd (ide_in hw p s))"
  unfolding ide_quiet_def by (rule exI [of _ "[Inb p (fst (ide_in hw p s))]"]) (simp add: ide_in_def inb_def Let_def is_inb_def)

lemma ide_quiet_prim: "ide_quiet s t \<Longrightarrow> ide_prim t = ide_prim s"
  by (auto simp: ide_quiet_def)

lemma ide_read_status_quiet [simp]: "ide_quiet s (snd (ide_read_status hw s))"
  by (simp add: ide_read_status_def)

lemma ide_read_error_quiet [simp]: "ide_quiet s (snd (ide_read_error hw s))"
  by (simp add: ide_read_error_def)

interpretation idep: bounded_poll "ide_status_test hw P" ide_quiet for hw P
proof unfold_locales
  show "ide_quiet s (snd (ide_status_test hw P s))" for s
    using ide_read_status_quiet [of s hw] by (simp add: ide_status_test_def split_beta Let_def)
qed (auto intro: ide_quiet_trans)

lemma ide_wait_quiet: "ide_quiet s (snd (ide_wait hw P s))"
  using idep.poll_R [of s 100000 hw P] by (simp add: ide_wait_def split_beta Let_def)

lemma ide_waits_quiet [simp]:
  "ide_quiet s (snd (ide_wait_drdy hw s))" "ide_quiet s (snd (ide_wait_bsy hw s))"
  "ide_quiet s (snd (ide_wait_drq hw s))" "ide_quiet s (snd (ide_wait_idle hw s))"
  by (simp_all add: ide_wait_drdy_def ide_wait_bsy_def ide_wait_drq_def ide_wait_idle_def ide_wait_quiet)

text \<open>A wait that succeeds has read a status with the bits it waits for; a wait fails only after
  100000 reads without one.\<close>

lemma ide_wait_success:
  assumes "ide_wait hw P s = (0, s')"
  shows "\<exists>t. ide_quiet s t \<and> P (fst (ide_read_status hw t)) \<and> s' = snd (ide_read_status hw t)"
proof -
  have "fst (poll_until 100000 (ide_status_test hw P) s)" "snd (poll_until 100000 (ide_status_test hw P) s) = s'"
    using assms by (auto simp: ide_wait_def split_beta Let_def split: if_splits)
  then show ?thesis
    using idep.poll_success [of 100000 hw P s] by (auto simp: ide_status_test_def split_beta Let_def)
qed

lemma ide_wait_now:
  assumes "P (fst (ide_read_status hw s))"
  shows "ide_wait hw P s = (0, snd (ide_read_status hw s))"
  using idep.poll_immediate [of hw P s 100000] assms
  by (simp add: ide_wait_def ide_status_test_def split_beta Let_def)

lemma ide_wait_result: "fst (ide_wait hw P s) = 0 \<or> fst (ide_wait hw P s) = - 1"
  by (simp add: ide_wait_def split_beta Let_def)

lemma ide_altstatus_delay_quiet: "ide_quiet s (ide_altstatus_delay hw n s)"
proof (induction n arbitrary: s)
  case (Suc n)
  then show ?case using ide_quiet_trans [OF ide_in_quiet] by simp blast
qed simp

section \<open>What a transfer sends\<close>

lemma ide_out_simps [simp]:
  "ide_prim (ide_out v p s) = ide_prim s" "ide_trace (ide_out v p s) = ide_trace s @ [Outb p v]"
  by (simp_all add: ide_out_def outb_def)

lemma ide_cmd_port_cong: "ide_prim t = ide_prim s \<Longrightarrow> ide_cmd_port offs t = ide_cmd_port offs s"
  by (simp add: ide_cmd_port_def)

lemma ide_out_port [simp]: "ide_cmd_port offs (ide_out v p s) = ide_cmd_port offs s"
  by (simp add: ide_cmd_port_def)

lemma ide_command_sector_trace:
  "ide_trace (ide_command_sector d sector cmd s) = ide_trace s @
     [Outb (ide_cmd_port OFFS_SECTCOUNT s) 1,
      Outb (ide_cmd_port OFFS_LBALO s) (ucast (sector AND 0xFF)),
      Outb (ide_cmd_port OFFS_LBAMID s) (ucast (drop_bit 8 sector AND 0xFF)),
      Outb (ide_cmd_port OFFS_LBAHI s) (ucast (drop_bit 16 sector AND 0xFF)),
      Outb (ide_cmd_port OFFS_DEVICE s) (ide_device_reg (ide_dev s d) OR ucast (drop_bit 24 sector AND 0x0F)),
      Outb (ide_cmd_port OFFS_COMMAND s) cmd]"
  by (simp add: ide_command_sector_def ide_write_sectcount_def ide_write_lbaregs_def ide_write_command_def Let_def)

lemma ide_command_sector_prim [simp]: "ide_prim (ide_command_sector d sector cmd s) = ide_prim s"
  by (simp add: ide_command_sector_def ide_write_sectcount_def ide_write_lbaregs_def ide_write_command_def Let_def)

lemma ide_quiet_writes: "ide_quiet s t \<Longrightarrow> writes_to p (ide_trace t) = writes_to p (ide_trace s)"
proof -
  have "list_all is_inb evs \<Longrightarrow> writes_to p evs = []" for evs
    by (induction p evs rule: writes_to.induct) (auto simp: is_inb_def)
  then show "ide_quiet s t \<Longrightarrow> ?thesis" by (auto simp: ide_quiet_def)
qed

section \<open>The device the driver is written for\<close>

text \<open>An ATA device pair as the PIO protocol describes it: the task file registers, the command
  under way with the number of words moved, and the contents of the sectors by drive and block
  address. Each event of the trace drives it.\<close>

record ata =
  ata_count :: u8
  ata_lo :: u8
  ata_mid :: u8
  ata_hi :: u8
  ata_dev :: u8
  ata_cmd :: u8
  ata_pos :: nat
  ata_disk :: "bool \<Rightarrow> nat \<Rightarrow> u16 list"

definition ata_slave :: "ata \<Rightarrow> bool" where
  "ata_slave a = bit (ata_dev a) 4"

definition ata_lba :: "ata \<Rightarrow> nat" where
  "ata_lba a = unat (ata_lo a) + 256 * unat (ata_mid a) + 65536 * unat (ata_hi a) + 16777216 * unat (ata_dev a AND 15)"

definition ata_store :: "u16 \<Rightarrow> ata \<Rightarrow> ata" where
  "ata_store w a = a\<lparr>ata_disk := (ata_disk a)(ata_slave a :=
     (ata_disk a (ata_slave a))(ata_lba a := (ata_disk a (ata_slave a) (ata_lba a))[ata_pos a := w]))\<rparr>"

fun ata_event :: "io_event \<Rightarrow> ata \<Rightarrow> ata" where
  "ata_event (Outb p v) a =
     (if p = 0x1F2 then a\<lparr>ata_count := v\<rparr> else if p = 0x1F3 then a\<lparr>ata_lo := v\<rparr>
      else if p = 0x1F4 then a\<lparr>ata_mid := v\<rparr> else if p = 0x1F5 then a\<lparr>ata_hi := v\<rparr>
      else if p = 0x1F6 then a\<lparr>ata_dev := v\<rparr>
      else if p = 0x1F7 then a\<lparr>ata_cmd := v, ata_pos := 0\<rparr> else a)"
| "ata_event (Inw p w) a = (if p = 0x1F0 then a\<lparr>ata_pos := ata_pos a + 1\<rparr> else a)"
| "ata_event (Outw p w) a =
     (if p = 0x1F0 then (if ata_cmd a = 0x30 \<and> ata_pos a < 256 then ata_store w a else a)\<lparr>ata_pos := ata_pos a + 1\<rparr> else a)"
| "ata_event e a = a"

definition ata_run :: "ata \<Rightarrow> io_trace \<Rightarrow> ata" where
  "ata_run a tr = fold ata_event tr a"

text \<open>The hardware answers as that device does: ready and without error whenever it is asked,
  requesting data while a transfer is under way, and with the addressed word at the data port.\<close>

definition ata_answers :: "hardware \<Rightarrow> (bool \<Rightarrow> u16 list) \<Rightarrow> ata \<Rightarrow> bool" where
  "ata_answers hw idn a \<longleftrightarrow>
     (\<forall>tr. let v = hw_in8 hw tr 0x1F7; b = ata_run a tr in
        v AND IDE_STAT_BSY = 0 \<and> v AND IDE_STAT_RDY \<noteq> 0 \<and> v AND IDE_STAT_ERR = 0
        \<and> (ata_cmd b \<in> {0x20, 0x30, 0xEC} \<and> ata_pos b < 256 \<longrightarrow> v AND IDE_STAT_DRQ \<noteq> 0)
        \<and> (ata_pos b < 256 \<longrightarrow>
             (ata_cmd b = 0x20 \<longrightarrow> hw_in16 hw tr 0x1F0 = ata_disk b (ata_slave b) (ata_lba b) ! ata_pos b)
             \<and> (ata_cmd b = 0xEC \<longrightarrow> hw_in16 hw tr 0x1F0 = idn (ata_slave b) ! ata_pos b)))"

definition ide_at_ports :: "ide_state \<Rightarrow> bool" where
  "ide_at_ports s \<longleftrightarrow> command_base (ide_prim s) = IDE_PRIM_CMD_BASE \<and> control_base (ide_prim s) = IDE_PRIM_CTRL_BASE"

lemma ata_run_append [simp]: "ata_run a (xs @ ys) = ata_run (ata_run a xs) ys"
  by (simp add: ata_run_def)

lemma ata_run_simps [simp]: "ata_run a [] = a" "ata_run a (e # es) = ata_run (ata_event e a) es"
  by (simp_all add: ata_run_def)

lemma ata_run_inbs: "list_all is_inb evs \<Longrightarrow> ata_run a evs = a"
  by (induction evs) (auto simp: is_inb_def split: io_event.splits)

lemma ata_run_quiet: "ide_quiet s t \<Longrightarrow> ata_run a (ide_trace t) = ata_run a (ide_trace s)"
  by (auto simp: ide_quiet_def ata_run_inbs)

lemma ide_at_ports_cong: "ide_prim t = ide_prim s \<Longrightarrow> ide_at_ports t = ide_at_ports s"
  by (simp add: ide_at_ports_def)

lemma ide_ports:
  assumes "ide_at_ports s"
  shows "ide_cmd_port OFFS_DATA s = 0x1F0" "ide_cmd_port OFFS_SECTCOUNT s = 0x1F2"
    "ide_cmd_port OFFS_LBALO s = 0x1F3" "ide_cmd_port OFFS_LBAMID s = 0x1F4" "ide_cmd_port OFFS_LBAHI s = 0x1F5"
    "ide_cmd_port OFFS_DEVICE s = 0x1F6" "ide_cmd_port OFFS_COMMAND s = 0x1F7" "ide_cmd_port OFFS_STATUS s = 0x1F7"
  using assms by (simp_all add: ide_at_ports_def ide_cmd_port_def const_defs)

text \<open>With that device no wait fails, and none of them disturbs it.\<close>

lemma ata_read_status:
  assumes "ide_at_ports s"
  shows "fst (ide_read_status hw s) = hw_in8 hw (ide_trace s) 0x1F7"
  using assms by (simp add: ide_read_status_def ide_in_def inb_def Let_def ide_ports)

lemma ata_waits:
  assumes "ata_answers hw idn a" and "ide_at_ports s"
  shows "ide_wait_drdy hw s = (0, snd (ide_read_status hw s))" "ide_wait_bsy hw s = (0, snd (ide_read_status hw s))"
    "fst (ide_read_status hw s) AND IDE_STAT_ERR = 0" "fst (ide_read_status hw s) \<noteq> 0"
proof -
  let ?v = "fst (ide_read_status hw s)"
  have v: "?v AND IDE_STAT_BSY = 0" "?v AND IDE_STAT_RDY \<noteq> 0" "?v AND IDE_STAT_ERR = 0"
    using assms by (simp_all add: ata_answers_def Let_def ata_read_status)
  from v(2) show "?v \<noteq> 0" by auto
  from v show "ide_wait_drdy hw s = (0, snd (ide_read_status hw s))" "ide_wait_bsy hw s = (0, snd (ide_read_status hw s))"
    "?v AND IDE_STAT_ERR = 0"
    unfolding ide_wait_drdy_def ide_wait_bsy_def by (simp_all add: ide_wait_now)
qed

lemma ata_wait_drq:
  assumes "ata_answers hw idn a" and "ide_at_ports s"
    and "ata_cmd (ata_run a (ide_trace s)) \<in> {0x20, 0x30, 0xEC}" and "ata_pos (ata_run a (ide_trace s)) < 256"
  shows "ide_wait_drq hw s = (0, snd (ide_read_status hw s))"
  using assms unfolding ide_wait_drq_def
  by (auto simp: ata_answers_def Let_def ata_read_status intro!: ide_wait_now)

lemma ata_select:
  assumes "ide_at_ports s"
  shows "ata_run a (ide_trace (ide_select_drive hw d s)) = (ata_run a (ide_trace s))\<lparr>ata_dev := ide_device_reg (ide_dev s d)\<rparr>"
    "ide_prim (ide_select_drive hw d s) = ide_prim s"
  using assms ata_run_quiet [OF ide_altstatus_delay_quiet] ide_quiet_prim [OF ide_altstatus_delay_quiet]
  by (simp_all add: ide_select_drive_def ide_ports)

text \<open>Reading all the words of a transfer.\<close>

lemma insw_words:
  assumes "\<And>tr ws. tr = tr0 @ map (Inw p) ws \<Longrightarrow> length ws < n \<Longrightarrow> hw_in16 hw tr p = f (length ws)"
  shows "insw hw p n tr0 = (map f [0..<n], tr0 @ map (\<lambda>i. Inw p (f i)) [0..<n])"
proof -
  have "insw hw p k (tr0 @ map (Inw p) us) = (map f [length us..<n], tr0 @ map (Inw p) (us @ map f [length us..<n]))"
    if "length us + k = n" for k us
    using that
  proof (induction k arbitrary: us)
    case (Suc k)
    have "hw_in16 hw (tr0 @ map (Inw p) us) p = f (length us)" using assms Suc.prems by simp
    moreover have "[length us..<n] = length us # [Suc (length us)..<n]" using Suc.prems by (simp add: upt_conv_Cons)
    ultimately show ?case using Suc.IH [of "us @ [f (length us)]"] Suc.prems by (simp add: inw_def Let_def)
  qed simp
  from this [of "[]" n] show ?thesis by (simp add: comp_def)
qed

lemma ata_run_inws:
  "ata_run a (map (Inw 0x1F0) ws) = a\<lparr>ata_pos := ata_pos a + length ws\<rparr>"
  by (induction ws arbitrary: a) simp_all

lemma ata_read_data:
  assumes "ata_answers hw idn a" and "ide_at_ports s" and b: "b = ata_run a (ide_trace s)"
    and "ata_cmd b \<in> {0x20, 0xEC}" and "ata_pos b = 0"
    and ws: "ws = (if ata_cmd b = 0x20 then ata_disk b (ata_slave b) (ata_lba b) else idn (ata_slave b))"
    and "length ws = 256"
  shows "ide_read_data hw 256 s = (ws, s\<lparr>ide_trace := ide_trace s @ map (Inw 0x1F0) ws\<rparr>)"
proof -
  have word: "hw_in16 hw tr 0x1F0 = ws ! length us"
    if tr: "tr = ide_trace s @ map (Inw 0x1F0) us" and len: "length us < 256" for tr us
  proof -
    have "ata_run a tr = b\<lparr>ata_pos := length us\<rparr>" using assms tr by (simp add: ata_run_inws)
    then show ?thesis
      using assms(1,4) ws len by (auto simp: ata_answers_def Let_def ata_slave_def ata_lba_def dest!: spec [of _ tr])
  qed
  have "insw hw 0x1F0 256 (ide_trace s) = (map ((!) ws) [0..<256], ide_trace s @ map (\<lambda>i. Inw 0x1F0 (ws ! i)) [0..<256])"
    by (rule insw_words) (rule word)
  moreover have "map ((!) ws) [0..<256] = ws" using assms(7) by (metis map_nth)
  moreover have "map (\<lambda>i. Inw 0x1F0 (ws ! i)) [0..<256] = map (Inw 0x1F0) (map ((!) ws) [0..<256])" by simp
  ultimately show ?thesis using assms(2) by (simp add: ide_read_data_def ide_ports)
qed

section \<open>Addressing a sector\<close>

lemma nibble_mask: "(0x0F :: u32) = mask 4" "(0xFF :: u32) = mask 8" "(15 :: u8) = mask 4"
  by (simp_all add: mask_eq_exp_minus_1)

lemma ide_device_reg_cases: "ide_device_reg dev = (if ide_device_num dev \<noteq> 0 then 0xF0 else 0xE0)"
  by (simp add: ide_device_reg_def const_defs)

lemma ide_device_reg_nibble: "(ide_device_reg dev OR ucast (drop_bit 24 (w :: u32) AND 0x0F)) AND 15 = ucast (drop_bit 24 w AND 0x0F)"
proof -
  have "(r OR ucast (drop_bit 24 w AND 0x0F)) AND 15 = ucast (drop_bit 24 w AND 0x0F)" if "r AND 15 = 0" for r :: u8
  proof -
    have "\<not> bit r n" if "n < 4" for n
      using \<open>r AND 15 = 0\<close> that unfolding nibble_mask by (metis bit_and_iff bit_mask_iff bit_0_eq bot_apply bot_bool_def bit_imp_le_length possible_bit_word)
    then show ?thesis unfolding nibble_mask by (intro bit_word_eqI) (auto simp: bit_simps)
  qed
  then show ?thesis by (simp add: ide_device_reg_cases)
qed

lemma ide_device_reg_slave:
  "bit (ide_device_reg dev OR ucast (drop_bit 24 (w :: u32) AND 0x0F)) 4 \<longleftrightarrow> ide_device_num dev \<noteq> 0"
proof -
  have "bit (0xF0 :: u8) 4" "\<not> bit (0xE0 :: u8) 4" by code_simp+
  moreover have "\<not> bit (ucast (drop_bit 24 w AND 0x0F) :: u8) 4" unfolding nibble_mask by (simp add: bit_simps)
  ultimately show ?thesis by (simp add: bit_or_iff ide_device_reg_cases)
qed

lemma unat_byte_of: "unat (ucast (drop_bit k (w :: u32) AND 0xFF) :: u8) = unat w div 2 ^ k mod 256"
  unfolding nibble_mask
  by (simp add: take_bit_eq_mask [symmetric] unsigned_ucast_eq unsigned_take_bit_eq unsigned_drop_bit_eq
        take_bit_nat_def drop_bit_nat_def take_bit_take_bit)

lemma unat_nibble_of: "unat (ucast (drop_bit k (w :: u32) AND 0x0F) :: u8) = unat w div 2 ^ k mod 16"
proof -
  have "unat w div 2 ^ k mod 256 mod 16 = unat w div 2 ^ k mod 16" by (rule mod_mod_cancel) simp
  then show ?thesis
    unfolding nibble_mask
    by (simp add: take_bit_eq_mask [symmetric] unsigned_ucast_eq unsigned_take_bit_eq unsigned_drop_bit_eq
          take_bit_nat_def drop_bit_nat_def take_bit_take_bit)
qed

lemma lba28_split:
  fixes n :: nat
  assumes "n < 2 ^ 28"
  shows "n mod 256 + 256 * (n div 256 mod 256) + 65536 * (n div 65536 mod 256) + 16777216 * (n div 16777216 mod 16) = n"
proof -
  have a: "n div 65536 = n div 256 div 256" "n div 16777216 = n div 256 div 256 div 256"
    by (simp_all add: div_mult2_eq [symmetric])
  have b: "n div 256 div 256 div 256 mod 16 = n div 256 div 256 div 256"
    using assms by (simp add: div_mult2_eq [symmetric] less_mult_imp_div_less)
  have c: "k mod 256 + 256 * (k div 256) = k" for k :: nat by simp
  have "n mod 256 + 256 * (n div 256 mod 256 + 256 * (n div 256 div 256 mod 256 + 256 * (n div 256 div 256 div 256))) = n"
    by (simp only: c)
  then show ?thesis unfolding a b unfolding distrib_left mult.assoc [symmetric] add.assoc [symmetric] by simp
qed

lemma ata_command:
  assumes "ide_at_ports s" and "sector < 2 ^ 28" and t: "t = ide_command_sector d sector cmd s"
    and b: "b = ata_run a (ide_trace s)" and c: "c = ata_run a (ide_trace t)"
  shows "ata_cmd c = cmd" "ata_pos c = 0" "ata_lba c = unat sector"
    "ata_slave c \<longleftrightarrow> ide_device_num (ide_dev s d) \<noteq> 0" "ata_disk c = ata_disk b"
proof -
  have c': "c = b\<lparr>ata_count := 1, ata_lo := ucast (sector AND 0xFF), ata_mid := ucast (drop_bit 8 sector AND 0xFF),
      ata_hi := ucast (drop_bit 16 sector AND 0xFF),
      ata_dev := ide_device_reg (ide_dev s d) OR ucast (drop_bit 24 sector AND 0x0F), ata_cmd := cmd, ata_pos := 0\<rparr>"
    using assms by (simp add: ide_command_sector_trace ide_ports)
  show "ata_cmd c = cmd" "ata_pos c = 0" "ata_disk c = ata_disk b" using c' by simp_all
  show "ata_slave c \<longleftrightarrow> ide_device_num (ide_dev s d) \<noteq> 0" using c' by (simp add: ata_slave_def ide_device_reg_slave)
  have "unat sector < 2 ^ 28" using assms(2) by (simp add: word_less_nat_alt)
  from lba28_split [OF this] show "ata_lba c = unat sector"
    using unat_byte_of [of 0 sector] unat_byte_of [of 8 sector] unat_byte_of [of 16 sector] unat_nibble_of [of 24 sector]
    by (simp add: c' ata_lba_def ide_device_reg_nibble)
qed

section \<open>Sector transfers on that device\<close>

lemma ata_status_quiet [simp]:
  "ide_prim (snd (ide_read_status hw s)) = ide_prim s"
  "ata_run a (ide_trace (snd (ide_read_status hw s))) = ata_run a (ide_trace s)"
  using ide_quiet_prim [OF ide_read_status_quiet] ata_run_quiet [OF ide_read_status_quiet] by blast+

lemma ide_at_ports_steps [simp]:
  "ide_at_ports (snd (ide_read_status hw s)) = ide_at_ports s"
  "ide_at_ports (ide_command_sector d sector cmd s) = ide_at_ports s"
  "ide_at_ports s \<Longrightarrow> ide_at_ports (ide_select_drive hw d s)"
  by (rule ide_at_ports_cong, simp)+ (simp add: ide_at_ports_def ata_select)

lemma ide_read_sector_ata:
  assumes dev: "ata_answers hw idn a" and ports: "ide_at_ports s" and use: "ide_usable (Some d) sector s"
    and "sector < 2 ^ 28" and sl: "sl = (ide_device_num (ide_dev s d) \<noteq> 0)"
    and ws: "ws = ata_disk (ata_run a (ide_trace s)) sl (unat sector)" and len: "length ws = 256" and "512 \<le> length b"
  shows "\<exists>s'. ide_read_sector hw (Some d) sector (Some b) s = Some (Some (words_bytes ws @ drop 512 b), s')
     \<and> ide_prim s' = ide_prim s \<and> ata_disk (ata_run a (ide_trace s')) = ata_disk (ata_run a (ide_trace s))"
proof -
  let ?s1 = "ide_select_drive hw d s"
  let ?s2 = "snd (ide_read_status hw ?s1)"
  let ?s3 = "ide_command_sector d sector IDE_CMD_READ_SECTORS ?s2"
  let ?s4 = "snd (ide_read_status hw ?s3)"
  let ?s5 = "snd (ide_read_status hw ?s4)"
  let ?s6 = "snd (ide_read_status hw ?s5)"
  let ?c = "ata_run a (ide_trace ?s3)"
  have p: "ide_at_ports ?s1" "ide_at_ports ?s2" "ide_at_ports ?s3" "ide_at_ports ?s4" "ide_at_ports ?s5" "ide_at_ports ?s6"
    using ports by simp_all
  have prim: "ide_prim ?s2 = ide_prim s" using ports by (simp add: ata_select)
  have c: "ata_cmd ?c = 0x20" "ata_pos ?c = 0" "ata_lba ?c = unat sector" "ata_slave ?c = sl"
    "ata_disk ?c = ata_disk (ata_run a (ide_trace s))"
    using ata_command [OF p(2) assms(4) refl refl refl, where d = d and cmd = IDE_CMD_READ_SECTORS and a = a] prim ports
    by (simp_all add: sl ata_select const_defs)
  have dat: "ide_read_data hw 256 ?s6 = (ws, ?s6\<lparr>ide_trace := ide_trace ?s6 @ map (Inw 0x1F0) ws\<rparr>)"
    by (rule ata_read_data [OF dev p(6) refl]) (use c ws len in simp_all)
  have "ide_read_sector hw (Some d) sector (Some b) s
      = Some (Some (words_bytes ws @ drop 512 b), ?s6\<lparr>ide_trace := ide_trace ?s6 @ map (Inw 0x1F0) ws\<rparr>)"
    using use assms(8) c ata_waits [OF dev] ata_wait_drq [OF dev p(5)] p dat
    by (simp add: ide_read_sector_def Let_def split_beta)
  moreover have "ata_disk (ata_run a (ide_trace (?s6\<lparr>ide_trace := ide_trace ?s6 @ map (Inw 0x1F0) ws\<rparr>))) = ata_disk ?c"
    by (simp add: ata_run_inws)
  ultimately show ?thesis using c prim by auto
qed

lemma ata_store_fields [simp]:
  "ata_cmd (ata_store w b) = ata_cmd b" "ata_pos (ata_store w b) = ata_pos b"
  "ata_lba (ata_store w b) = ata_lba b" "ata_slave (ata_store w b) = ata_slave b"
  by (simp_all add: ata_store_def ata_lba_def ata_slave_def)

lemma ata_disk_store:
  "ata_disk (ata_store w b) = (ata_disk b)(ata_slave b :=
     (ata_disk b (ata_slave b))(ata_lba b := (ata_disk b (ata_slave b) (ata_lba b))[ata_pos b := w]))"
  by (simp add: ata_store_def)

lemma ata_pos_fields [simp]: "ata_lba (b\<lparr>ata_pos := n\<rparr>) = ata_lba b" "ata_slave (b\<lparr>ata_pos := n\<rparr>) = ata_slave b"
  by (simp_all add: ata_lba_def ata_slave_def)

text \<open>The words written during a transfer replace the words of the addressed sector, one after the
  other.\<close>

lemma ata_run_outws:
  assumes "ata_cmd b = 0x30" and "ata_pos b + length ws \<le> 256" and "old = ata_disk b (ata_slave b) (ata_lba b)"
    and "length old = 256"
  shows "ata_disk (ata_run b (map (Outw 0x1F0) ws)) = (ata_disk b)(ata_slave b := (ata_disk b (ata_slave b))
     (ata_lba b := take (ata_pos b) old @ ws @ drop (ata_pos b + length ws) old))"
  using assms
proof (induction ws arbitrary: b old)
  case (Cons w ws)
  let ?b = "(ata_store w b)\<lparr>ata_pos := ata_pos b + 1\<rparr>"
  have pos: "ata_pos b < 256" using Cons.prems(2) by simp
  have sec: "ata_disk ?b (ata_slave ?b) (ata_lba ?b) = old[ata_pos b := w]"
    using Cons.prems(3) by (simp add: ata_disk_store)
  have "ata_disk (ata_run ?b (map (Outw 0x1F0) ws)) = (ata_disk ?b)(ata_slave ?b := (ata_disk ?b (ata_slave ?b))
     (ata_lba ?b := take (ata_pos ?b) (old[ata_pos b := w]) @ ws @ drop (ata_pos ?b + length ws) (old[ata_pos b := w])))"
    by (rule Cons.IH) (use Cons.prems sec in simp_all)
  moreover have "take (ata_pos b + 1) (old[ata_pos b := w]) = take (ata_pos b) old @ [w]"
    using pos Cons.prems(4) by (simp add: take_Suc_conv_app_nth take_update_swap list_update_append)
  moreover have "drop (ata_pos b + 1 + length ws) (old[ata_pos b := w]) = drop (ata_pos b + 1 + length ws) old"
    by simp
  ultimately show ?case
    using pos Cons.prems(1) by (simp add: ata_disk_store fun_eq_iff)
qed simp

lemma ide_write_sector_ata:
  assumes dev: "ata_answers hw idn a" and ports: "ide_at_ports s" and use: "ide_usable (Some d) sector s"
    and "sector < 2 ^ 28" and sl: "sl = (ide_device_num (ide_dev s d) \<noteq> 0)"
    and b0: "b0 = ata_run a (ide_trace s)" and len: "length (ata_disk b0 sl (unat sector)) = 256"
    and "512 \<le> length b" and ws: "ws = bytes_words (take 512 b)" and wlen: "length ws = 256"
  shows "\<exists>s'. ide_write_sector hw (Some d) sector (Some b) s = Some s' \<and> ide_prim s' = ide_prim s
     \<and> ata_disk (ata_run a (ide_trace s')) = (ata_disk b0)(sl := (ata_disk b0 sl)(unat sector := ws))"
proof -
  let ?s1 = "ide_select_drive hw d s"
  let ?s2 = "snd (ide_read_status hw ?s1)"
  let ?s3 = "ide_command_sector d sector IDE_CMD_WRITE_SECTORS ?s2"
  let ?s4 = "snd (ide_read_status hw ?s3)"
  let ?s5 = "ide_write_data ws ?s4"
  let ?s6 = "snd (ide_read_status hw ?s5)"
  let ?s7 = "snd (ide_read_status hw ?s6)"
  let ?c = "ata_run a (ide_trace ?s3)"
  have prim5: "ide_prim ?s5 = ide_prim ?s4" by (simp add: ide_write_data_def)
  have p: "ide_at_ports ?s1" "ide_at_ports ?s2" "ide_at_ports ?s3" "ide_at_ports ?s4" "ide_at_ports ?s5" "ide_at_ports ?s6"
    using ports ide_at_ports_cong [OF prim5] by simp_all
  have prim: "ide_prim ?s2 = ide_prim s" using ports by (simp add: ata_select)
  have c: "ata_cmd ?c = 0x30" "ata_pos ?c = 0" "ata_lba ?c = unat sector" "ata_slave ?c = sl"
    "ata_disk ?c = ata_disk b0"
    using ata_command [OF p(2) assms(4) refl refl refl, where d = d and cmd = IDE_CMD_WRITE_SECTORS and a = a] prim ports
    by (simp_all add: sl b0 ata_select const_defs)
  have "ide_write_sector hw (Some d) sector (Some b) s = Some ?s7"
    using use assms(8) c ata_waits [OF dev] ata_wait_drq [OF dev p(3)] p ws
    by (simp add: ide_write_sector_def Let_def split_beta)
  moreover have "ata_disk (ata_run a (ide_trace ?s5)) = ata_disk (ata_run ?c (map (Outw 0x1F0) ws))"
    using p(4) by (simp add: ide_write_data_def outsw_trace ide_ports)
  moreover have "\<dots> = (ata_disk b0)(sl := (ata_disk b0 sl)(unat sector := ws))"
    using ata_run_outws [of ?c ws, OF _ _ refl] c len wlen by simp
  ultimately show ?thesis using prim prim5 by auto
qed

section \<open>Bytes and words\<close>

lemma words_bytes_of_bytes: "even (length bs) \<Longrightarrow> words_bytes (bytes_words bs) = bs"
proof (induction bs rule: bytes_words.induct)
  case (1 a b bs)
  have m: "(0xFF :: u16) = mask 8" by (simp add: mask_eq_exp_minus_1)
  have "LOW_BYTE (ucast a OR push_bit 8 (ucast b)) = a" "HIGH_BYTE (ucast a OR push_bit 8 (ucast b)) = b"
    unfolding LOW_BYTE_def HIGH_BYTE_def m by (rule bit_word_eqI, auto simp: bit_simps dest: bit_imp_le_length)+
  then show ?case using 1 by simp
qed simp_all

lemma length_bytes_words: "length (bytes_words bs) = length bs div 2"
  by (induction bs rule: bytes_words.induct) simp_all

lemma length_words_bytes [simp]: "length (words_bytes ws) = 2 * length ws"
  by (induction ws rule: words_bytes.induct) simp_all

section \<open>Properties of the transfers\<close>

text \<open>Property C35: on a device that follows the ATA PIO protocol and is ready, reading a sector of a
  drive the driver knows returns exactly the 512 bytes of that sector of that drive, low byte of each
  word first, leaves the rest of the buffer alone and changes nothing on the disk. The block
  address reaches the device whole: its 28 bits are spread over four registers.\<close>

theorem ide_read_sector_correct:
  assumes "ata_answers hw idn a" and "ide_at_ports s" and "ide_usable (Some d) sector s" and "sector < 2 ^ 28"
    and "disk = ata_disk (ata_run a (ide_trace s))" and "slave = (ide_device_num (ide_dev s d) \<noteq> 0)"
    and "length (disk slave (unat sector)) = 256" and "512 \<le> length b"
  shows "\<exists>s'. ide_read_sector hw (Some d) sector (Some b) s
           = Some (Some (words_bytes (disk slave (unat sector)) @ drop 512 b), s')
     \<and> ide_prim s' = ide_prim s \<and> ata_disk (ata_run a (ide_trace s')) = disk"
  using ide_read_sector_ata [OF assms(1-4,6), of _ b] assms(5,7,8) by simp

text \<open>Property C36: what is written to a sector is read back: after a write of 512 bytes a read of the
  same sector of the same drive returns those bytes, and the disk differs from the one before only
  in that sector.\<close>

theorem ide_write_read_roundtrip:
  assumes dev: "ata_answers hw idn a" and "ide_at_ports s" and use: "ide_usable (Some d) sector s" and "sector < 2 ^ 28"
    and "disk = ata_disk (ata_run a (ide_trace s))" and "slave = (ide_device_num (ide_dev s d) \<noteq> 0)"
    and "length (disk slave (unat sector)) = 256" and "length b = 512" and "length b' = 512"
  shows "\<exists>s1 s2. ide_write_sector hw (Some d) sector (Some b) s = Some s1
     \<and> ide_read_sector hw (Some d) sector (Some b') s1 = Some (Some b, s2)
     \<and> (\<forall>sl n. (sl, n) \<noteq> (slave, unat sector) \<longrightarrow> ata_disk (ata_run a (ide_trace s2)) sl n = disk sl n)"
proof -
  let ?ws = "bytes_words (take 512 b)"
  have wlen: "length ?ws = 256" using assms(8) by (simp add: length_bytes_words)
  obtain s1 where s1: "ide_write_sector hw (Some d) sector (Some b) s = Some s1" "ide_prim s1 = ide_prim s"
    "ata_disk (ata_run a (ide_trace s1)) = disk(slave := (disk slave)(unat sector := ?ws))"
    using ide_write_sector_ata [OF assms(1-4,6) refl _ _ refl wlen] assms(5,7,8) by auto
  have "ide_at_ports s1" "ide_usable (Some d) sector s1"
    using ide_at_ports_cong [OF s1(2)] assms(2) use s1(2) by (simp_all add: ide_usable_def)
  moreover have "slave = (ide_device_num (ide_dev s1 d) \<noteq> 0)" using assms(6) s1(2) by simp
  moreover have "ata_disk (ata_run a (ide_trace s1)) slave (unat sector) = ?ws" using s1(3) by simp
  ultimately obtain s2 where s2: "ide_read_sector hw (Some d) sector (Some b') s1 = Some (Some (words_bytes ?ws @ drop 512 b'), s2)"
    "ata_disk (ata_run a (ide_trace s2)) = ata_disk (ata_run a (ide_trace s1))"
    using ide_read_sector_ata [OF dev _ _ assms(4) _ refl, of s1 d slave b'] wlen assms(9) by auto
  moreover have "words_bytes ?ws @ drop 512 b' = b" using assms(8,9) words_bytes_of_bytes [of b] by simp
  ultimately show ?thesis using s1 by (intro exI [of _ s1] exI [of _ s2]) auto
qed

section \<open>An instance of the device\<close>

definition ata_hw :: "ata \<Rightarrow> (bool \<Rightarrow> u16 list) \<Rightarrow> hardware" where
  "ata_hw a idn = \<lparr>hw_in8 = \<lambda>tr p. 0x48,
     hw_in16 = \<lambda>tr p. let b = ata_run a tr in
       (if ata_cmd b = 0x20 then ata_disk b (ata_slave b) (ata_lba b) else idn (ata_slave b)) ! ata_pos b,
     hw_irq = \<lambda>tr n. True, hw_dma = \<lambda>tr b. b\<rparr>"

definition ata_demo :: ata where
  "ata_demo = \<lparr>ata_count = 0, ata_lo = 0, ata_mid = 0, ata_hi = 0, ata_dev = 0, ata_cmd = 0, ata_pos = 0,
     ata_disk = \<lambda>sl n. replicate 256 (if sl then 0x4142 else 0)\<rparr>"

definition ide_demo :: ide_state where
  "ide_demo = \<lparr>ide_prim = \<lparr>ide_devices =
       [\<lparr>ide_model = [], ide_present = True, ide_is_hdd = True, ide_cylinders = 0, ide_heads = 0,
         ide_sectors_per_track = 0, ide_total_sectors = 1000, ide_device_num = 0\<rparr>,
        \<lparr>ide_model = [], ide_present = True, ide_is_hdd = True, ide_cylinders = 0, ide_heads = 0,
         ide_sectors_per_track = 0, ide_total_sectors = 1000, ide_device_num = 1\<rparr>],
     command_base = 0x1F0, control_base = 0x3F6, ide_name = []\<rparr>, ide_current_dev = Some 0, ide_trace = []\<rparr>"

lemma ata_hw_answers: "ata_answers (ata_hw a idn) idn a"
  by (simp add: ata_answers_def ata_hw_def Let_def const_defs)

lemma ata_demo_disk [simp]: "ata_disk ata_demo sl n = replicate 256 (if sl then 0x4142 else 0)"
  by (simp add: ata_demo_def)

lemma ide_demo_simps [simp]:
  "ide_at_ports ide_demo" "ide_trace ide_demo = []" "ide_device_num (ide_dev ide_demo (Suc 0)) = 1"
  "ide_usable (Some (Suc 0)) 999 ide_demo"
  by (simp_all add: ide_demo_def ide_at_ports_def ide_usable_def const_defs)

theorem ide_read_sector_correct_witness:
  "\<exists>s'. ide_read_sector (ata_hw ata_demo (\<lambda>_. [])) (Some 1) 999 (Some (replicate 513 9)) ide_demo
     = Some (Some (words_bytes (replicate 256 0x4142) @ [9]), s')"
  using ide_read_sector_correct [OF ata_hw_answers _ _ _ refl refl, where s = ide_demo and d = "Suc 0" and sector = 999
      and a = ata_demo and idn = "\<lambda>_. []" and b = "replicate 513 9"]
  by auto

theorem ide_write_read_roundtrip_witness:
  "\<exists>s1 s2. ide_write_sector (ata_hw ata_demo (\<lambda>_. [])) (Some 1) 999 (Some (replicate 512 7)) ide_demo = Some s1
     \<and> ide_read_sector (ata_hw ata_demo (\<lambda>_. [])) (Some 1) 999 (Some (replicate 512 0)) s1 = Some (Some (replicate 512 7), s2)"
  using ide_write_read_roundtrip [OF ata_hw_answers _ _ _ refl refl, where s = ide_demo and d = "Suc 0" and sector = 999
      and a = ata_demo and idn = "\<lambda>_. []" and b = "replicate 512 7" and b' = "replicate 512 0"]
  by auto

section \<open>What a read can and cannot do to a device\<close>

definition no_outw :: "io_event \<Rightarrow> bool" where
  "no_outw e = (case e of Outw p w \<Rightarrow> False | _ \<Rightarrow> True)"

text \<open>The second state is the first after events that send the commands \<open>cmds\<close> and write no data.\<close>

definition ide_sends :: "u8 list \<Rightarrow> ide_state \<Rightarrow> ide_state \<Rightarrow> bool" where
  "ide_sends cmds s t \<longleftrightarrow> ide_prim t = ide_prim s
     \<and> (\<exists>evs. ide_trace t = ide_trace s @ evs \<and> list_all no_outw evs \<and> writes_to (ide_cmd_port OFFS_COMMAND s) evs = cmds)"

lemma inb_writes: "list_all is_inb evs \<Longrightarrow> list_all no_outw evs \<and> writes_to p evs = []"
  by (induction p evs rule: writes_to.induct) (auto simp: is_inb_def no_outw_def)

lemma ide_sends_quiet: "ide_quiet s t \<Longrightarrow> ide_sends [] s t"
  unfolding ide_sends_def ide_quiet_def using inb_writes by fastforce

lemma ide_sends_trans:
  assumes "ide_sends xs s t" and "ide_sends ys t u"
  shows "ide_sends (xs @ ys) s u"
proof -
  obtain es fs where "ide_trace t = ide_trace s @ es" "list_all no_outw es" "writes_to (ide_cmd_port OFFS_COMMAND s) es = xs"
    "ide_trace u = ide_trace t @ fs" "list_all no_outw fs" "writes_to (ide_cmd_port OFFS_COMMAND t) fs = ys"
    "ide_prim t = ide_prim s" "ide_prim u = ide_prim t"
    using assms by (auto simp: ide_sends_def)
  then show ?thesis unfolding ide_sends_def by (intro conjI exI [of _ "es @ fs"]) (auto simp: ide_cmd_port_def)
qed

lemma ide_sends_select: "ide_sends [] s (ide_select_drive hw d s)"
proof -
  have "ide_sends [] s (ide_out v (ide_cmd_port OFFS_DEVICE s) s)" for v
    unfolding ide_sends_def
    by (intro conjI exI [of _ "[Outb (ide_cmd_port OFFS_DEVICE s) v]"]) (simp_all add: no_outw_def ide_cmd_port_def const_defs)
  from ide_sends_trans [OF this ide_sends_quiet [OF ide_altstatus_delay_quiet]]
  show ?thesis by (simp add: ide_select_drive_def)
qed

lemma ide_sends_command: "ide_sends [cmd] s (ide_command_sector d sector cmd s)"
  unfolding ide_sends_def by (simp add: ide_command_sector_trace no_outw_def ide_cmd_port_def const_defs)

lemma ide_sends_read_data: "ide_sends [] s (snd (ide_read_data hw n s))"
proof -
  have "\<exists>ws. snd (insw hw p n tr) = tr @ map (Inw p) ws" for p tr
  proof (induction n arbitrary: tr)
    case (Suc n)
    from Suc.IH [of "tr @ [Inw p (hw_in16 hw tr p)]"] obtain ws where
      "snd (insw hw p n (tr @ [Inw p (hw_in16 hw tr p)])) = (tr @ [Inw p (hw_in16 hw tr p)]) @ map (Inw p) ws" by auto
    then show ?case by (intro exI [of _ "hw_in16 hw tr p # ws"]) (simp add: inw_def Let_def split_beta)
  qed (simp add: exI [of _ "[]"])
  then obtain ws where "snd (insw hw (ide_cmd_port OFFS_DATA s) n (ide_trace s)) = ide_trace s @ map (Inw (ide_cmd_port OFFS_DATA s)) ws"
    by blast
  moreover have "list_all no_outw (map (Inw p) ws) \<and> writes_to q (map (Inw p) ws) = []" for p q
    by (induction ws) (simp_all add: no_outw_def)
  ultimately show ?thesis
    unfolding ide_sends_def by (simp add: ide_read_data_def split_beta Let_def)
qed

lemma ide_sends_quiets:
  "ide_sends xs s t \<Longrightarrow> ide_quiet t u \<Longrightarrow> ide_sends xs s u"
  using ide_sends_trans [of xs s t "[]" u] ide_sends_quiet by simp

text \<open>Further property: whatever the hardware answers, a read sends at most one command, the read command,
  writes no data to the device, and sends nothing at all for a missing drive, a drive that is no hard
  disk or a sector past its end; in those cases the buffer is left alone too.\<close>

theorem ide_read_sector_sends:
  assumes "ide_read_sector hw drive sector buf s = Some (buf', s')"
  shows "(ide_sends [] s s' \<or> ide_sends [IDE_CMD_READ_SECTORS] s s')
     \<and> (\<not> ide_usable drive sector s \<longrightarrow> buf' = buf \<and> s' = s)"
proof (cases "ide_usable drive sector s")
  case False
  then show ?thesis using assms ide_sends_quiet [OF ide_quiet_refl] by (auto simp: ide_read_sector_def)
next
  case True
  let ?s1 = "ide_select_drive hw (the drive) s"
  let ?s2 = "snd (ide_wait_drdy hw ?s1)"
  let ?s3 = "ide_command_sector (the drive) sector IDE_CMD_READ_SECTORS ?s2"
  let ?s4 = "snd (ide_wait_bsy hw ?s3)"
  let ?s5 = "snd (ide_read_status hw ?s4)"
  let ?s6 = "snd (ide_wait_drq hw ?s5)"
  have 2: "ide_sends [] s ?s2" using ide_sends_quiets [OF ide_sends_select ide_waits_quiet(1)] .
  have 4: "ide_sends [IDE_CMD_READ_SECTORS] s ?s4"
    using ide_sends_quiets [OF ide_sends_trans [OF 2 ide_sends_command] ide_waits_quiet(2)] by simp
  have 6: "ide_sends [IDE_CMD_READ_SECTORS] s ?s6"
    using ide_sends_quiets [OF ide_sends_quiets [OF 4 ide_read_status_quiet] ide_waits_quiet(3)] .
  have e: "ide_sends [IDE_CMD_READ_SECTORS] s (snd (ide_read_error hw ?s5))"
    using ide_sends_quiets [OF ide_sends_quiets [OF 4 ide_read_status_quiet] ide_read_error_quiet] .
  have 7: "ide_sends [IDE_CMD_READ_SECTORS] s (snd (ide_read_data hw 256 ?s6))"
    using ide_sends_trans [OF 6 ide_sends_read_data] by simp
  have "s' \<in> {?s2, ?s4, snd (ide_read_error hw ?s5), ?s6, snd (ide_read_data hw 256 ?s6)}"
    using assms True by (auto simp: ide_read_sector_def Let_def split_beta split: if_splits option.splits)
  then show ?thesis using 2 4 6 7 e True by auto
qed

definition ide_status_hw :: "u8 \<Rightarrow> hardware" where
  "ide_status_hw v = \<lparr>hw_in8 = \<lambda>tr p. v, hw_in16 = \<lambda>tr p. 0, hw_irq = \<lambda>tr n. False, hw_dma = \<lambda>tr b. b\<rparr>"

theorem ide_read_sector_sends_witness:
  "ide_read_sector (ata_hw ata_demo (\<lambda>_. [])) (Some 1) 1000 None ide_demo = Some (None, ide_demo)
   \<and> \<not> ide_usable (Some 1) 1000 ide_demo"
proof -
  have "\<not> ide_usable (Some 1) 1000 ide_demo" by (simp add: ide_usable_def ide_demo_def)
  moreover from this have "ide_read_sector (ata_hw ata_demo (\<lambda>_. [])) (Some 1) 1000 None ide_demo = Some (None, ide_demo)"
    by (simp add: ide_read_sector_def)
  ultimately show ?thesis using ide_read_sector_sends [of "ata_hw ata_demo (\<lambda>_. [])" "Some 1" 1000 None ide_demo] by blast
qed

lemma ide_wait_never:
  assumes "\<And>tr. \<not> P (hw_in8 hw tr (ide_cmd_port OFFS_STATUS s))"
  shows "fst (ide_wait hw P s) = - 1"
proof -
  have "\<not> fst (ide_status_test hw P t)" if "ide_quiet s t" for t
    using assms ide_cmd_port_cong [OF ide_quiet_prim [OF that]]
    by (simp add: ide_status_test_def ide_read_status_def ide_in_def inb_def Let_def)
  then show ?thesis using idep.poll_never [of s hw P 100000] by (simp add: ide_wait_def split_beta Let_def)
qed

lemma ide_never_ready:
  assumes "\<And>tr p. v = hw_in8 hw tr p" and "v AND IDE_STAT_BSY \<noteq> 0 \<or> v AND IDE_STAT_RDY = 0"
  shows "fst (ide_wait_drdy hw s) = - 1"
  unfolding ide_wait_drdy_def by (rule ide_wait_never) (use assms in metis)

text \<open>Property C37: the block layer is told that a read succeeded even when it did not: with a drive
  whose status never shows it ready, the operation the driver registers returns 0 and leaves the
  buffer as it was, without having sent a command.\<close>

theorem ide_blk_read_hides_errors:
  assumes "\<And>tr p. hw_in8 hw tr p = v" and "v AND IDE_STAT_BSY \<noteq> 0 \<or> v AND IDE_STAT_RDY = 0"
  shows "\<exists>s'. ide_blk_read hw prim priv lba buf s = Some (0, buf, s') \<and> ide_sends [] s s'"
proof (cases "ide_usable (ide_dev_at prim priv) lba s")
  case False
  then show ?thesis using ide_sends_quiet [OF ide_quiet_refl] by (auto simp: ide_blk_read_def ide_read_sector_def)
next
  case True
  let ?s1 = "ide_select_drive hw (the (ide_dev_at prim priv)) s"
  have "fst (ide_wait_drdy hw ?s1) = - 1" by (rule ide_never_ready) (use assms in auto)
  then have "ide_blk_read hw prim priv lba buf s = Some (0, buf, snd (ide_wait_drdy hw ?s1))"
    using True by (simp add: ide_blk_read_def ide_read_sector_def Let_def split_beta)
  then show ?thesis using ide_sends_quiets [OF ide_sends_select ide_waits_quiet(1)] by blast
qed

theorem ide_blk_read_hides_errors_witness:
  "\<exists>s'. ide_blk_read (ide_status_hw 0xFF) 0x5000 0x5000 5 (Some [1, 2]) ide_demo = Some (0, Some [1, 2], s')"
  using ide_blk_read_hides_errors [where hw = "ide_status_hw 0xFF" and v = "0xFF" and prim = "0x5000" and priv = "0x5000"
      and lba = 5 and buf = "Some [1, 2]" and s = ide_demo]
  by (auto simp: ide_status_hw_def const_defs)

section \<open>Identification\<close>

definition rstrip :: "u8 list \<Rightarrow> u8 list" where
  "rstrip bs = rev (dropWhile (\<lambda>c. c = 32) (rev bs))"

lemma ide_trim_rstrip:
  "i \<le> length bs \<Longrightarrow> ide_trim i (take i bs @ zs) = rstrip (take i bs) @ replicate (i - length (rstrip (take i bs))) 0 @ zs"
proof (induction i arbitrary: zs)
  case (Suc i)
  have t: "take (Suc i) bs = take i bs @ [bs ! i]" using Suc.prems by (simp add: take_Suc_conv_app_nth)
  have len: "length (rstrip xs) \<le> length xs" for xs using length_dropWhile_le [of _ "rev xs"] by (simp add: rstrip_def)
  show ?case
  proof (cases "bs ! i = 32")
    case True
    have "ide_trim (Suc i) (take (Suc i) bs @ zs) = ide_trim i (take i bs @ 0 # zs)"
      using True Suc.prems by (simp add: t nth_append list_update_append)
    also have "\<dots> = rstrip (take i bs) @ replicate (i - length (rstrip (take i bs))) 0 @ 0 # zs"
      using Suc by simp
    also have "\<dots> = rstrip (take (Suc i) bs) @ replicate (Suc i - length (rstrip (take (Suc i) bs))) 0 @ zs"
      using True Suc.prems len [of "take i bs"]
      by (simp add: t rstrip_def Suc_diff_le replicate_append_same [symmetric] del: replicate.simps) (simp add: replicate_app_Cons_same)
    finally show ?thesis .
  next
    case False
    then have "rstrip (take (Suc i) bs) = take (Suc i) bs" by (simp add: t rstrip_def)
    then show ?thesis using False Suc.prems by (simp add: t nth_append)
  qed
qed (simp add: rstrip_def)

definition ide_model_text :: "u16 list \<Rightarrow> u8 list" where
  "ide_model_text ws = concat (map (\<lambda>w. [ucast (drop_bit 8 w), ucast w]) (take 20 (drop 27 ws)))"

lemma ide_model_bytes_text:
  assumes "length ws = 256"
  shows "ide_model_bytes ws = ide_model_text ws @ [0]"
proof -
  have m: "(0xFF :: u16) = mask 8" by (simp add: mask_eq_exp_minus_1)
  have byte: "(ucast (w AND 0xFF) :: u8) = ucast w" for w :: u16
    unfolding m by (rule bit_word_eqI) (auto simp: bit_simps)
  have "take 20 (drop 27 ws) = map (\<lambda>i. ws ! (27 + i)) [0..<20]"
    using assms by (intro nth_equalityI) simp_all
  then show ?thesis
    unfolding ide_model_bytes_def ide_model_text_def byte by (simp add: comp_def)
qed

lemma length_ide_model_text: "length ws = 256 \<Longrightarrow> length (ide_model_text ws) = 40"
  by (simp add: ide_model_text_def length_concat comp_def sum_list_triv)

lemma ide_set_dev_simps [simp]:
  "ide_trace (ide_set_dev d f s) = ide_trace s"
  "d < length (ide_devices (ide_prim s)) \<Longrightarrow> ide_dev (ide_set_dev d f s) d = f (ide_dev s d)"
  "i \<noteq> d \<Longrightarrow> ide_dev (ide_set_dev d f s) i = ide_dev s i"
  "length (ide_devices (ide_prim (ide_set_dev d f s))) = length (ide_devices (ide_prim s))"
  "command_base (ide_prim (ide_set_dev d f s)) = command_base (ide_prim s)"
  "control_base (ide_prim (ide_set_dev d f s)) = control_base (ide_prim s)"
  by (simp_all add: ide_set_dev_def)

lemma ide_identify_ata:
  assumes dev: "ata_answers hw idn a" and ports: "ide_at_ports s" and "d < length (ide_devices (ide_prim s))"
    and sl: "sl = (ide_device_num (ide_dev s d) \<noteq> 0)" and ws: "ws = idn sl" and len: "length ws = 256"
  shows "ide_dev (ide_device_identify hw d s) d = ide_parse_identify ws (ide_dev s d)"
proof -
  let ?s1 = "ide_select_drive hw d s"
  let ?s2 = "snd (ide_read_status hw ?s1)"
  let ?s3 = "ide_write_command IDE_CMD_IDENTIFY ?s2"
  let ?s4 = "snd (ide_read_status hw ?s3)"
  let ?s5 = "snd (ide_read_status hw ?s4)"
  let ?s6 = "snd (ide_read_status hw ?s5)"
  let ?c = "ata_run a (ide_trace ?s3)"
  have prim3: "ide_prim ?s3 = ide_prim ?s2" by (simp add: ide_write_command_def)
  have p: "ide_at_ports ?s1" "ide_at_ports ?s2" "ide_at_ports ?s3" "ide_at_ports ?s4" "ide_at_ports ?s5" "ide_at_ports ?s6"
    using ports ide_at_ports_cong [OF prim3] by simp_all
  have prim: "ide_prim ?s6 = ide_prim s" using ports by (simp add: ata_select prim3)
  have slave: "bit (ide_device_reg dev) 4 \<longleftrightarrow> ide_device_num dev \<noteq> 0" for dev
    using ide_device_reg_slave [of dev 0] by simp
  have c: "ata_cmd ?c = 0xEC" "ata_pos ?c = 0" "ata_slave ?c = sl"
    using ports ide_ports [OF p(2)]
    by (simp_all add: ide_write_command_def ata_select ata_slave_def slave sl IDE_CMD_IDENTIFY_def)
  have dat: "ide_read_data hw 256 ?s6 = (ws, ?s6\<lparr>ide_trace := ide_trace ?s6 @ map (Inw 0x1F0) ws\<rparr>)"
    by (rule ata_read_data [OF dev p(6) refl]) (use c ws len in simp_all)
  have "ide_device_identify hw d s = ide_set_dev d (ide_parse_identify ws) (?s6\<lparr>ide_trace := ide_trace ?s6 @ map (Inw 0x1F0) ws\<rparr>)"
    using c ata_waits [OF dev] ata_wait_drq [OF dev p(5)] p dat
    by (simp add: ide_device_identify_def Let_def split_beta)
  then show ?thesis using prim assms(3) by simp
qed

text \<open>Property C38: identifying a drive that answers records what its 256 identification words say: the
  drive is present, it is a hard disk unless bit 15 of word 0 is set, words 60 and 61 give the number
  of sectors, and the model string is the text of words 27 to 46 without its trailing
  spaces, padded with zero bytes to 41.\<close>

theorem ide_identify_correct:
  assumes "ata_answers hw idn a" and "ide_at_ports s" and "d < length (ide_devices (ide_prim s))"
    and "ws = idn (ide_device_num (ide_dev s d) \<noteq> 0)" and "length ws = 256"
    and "dev = ide_dev (ide_device_identify hw d s) d"
  shows "ide_present dev \<and> (ide_is_hdd dev \<longleftrightarrow> \<not> bit (ws ! 0) 15)
     \<and> unat (ide_total_sectors dev) = unat (ws ! 60) + 65536 * unat (ws ! 61)
     \<and> ide_model dev = rstrip (ide_model_text ws) @ replicate (41 - length (rstrip (ide_model_text ws))) 0"
proof -
  have dev: "dev = ide_parse_identify ws (ide_dev s d)" using ide_identify_ata [OF assms(1-3) refl assms(4,5)] assms(6) by simp
  have "(0x8000 :: u16) = push_bit 15 1" by simp
  then have hdd: "ws ! 0 AND 0x8000 = 0 \<longleftrightarrow> \<not> bit (ws ! 0) 15" by (metis bit_iff_and_push_bit_not_eq_0)
  have tot: "unat (push_bit 16 (ucast h) OR ucast l :: u32) = unat l + 65536 * unat h" for h l :: u16
  proof -
    have "push_bit 16 (ucast h :: u32) OR ucast l = push_bit 16 (ucast h) + ucast l"
      by (rule disjunctive_add [symmetric]) (auto simp: bit_simps dest: bit_imp_le_length)
    moreover have "unat (push_bit 16 (ucast h) + ucast l :: u32) = unat l + 65536 * unat h"
      using unsigned_less [where ?'a = nat, of h] unsigned_less [where ?'a = nat, of l]
      by (simp add: push_bit_eq_mult unat_word_ariths unsigned_ucast_eq take_bit_nat_def)
    ultimately show ?thesis by simp
  qed
  have len: "length (ide_model_text ws) = 40" using assms(5) by (rule length_ide_model_text)
  have "ide_trim 40 (ide_model_bytes ws) = rstrip (ide_model_text ws) @ replicate (40 - length (rstrip (ide_model_text ws))) 0 @ [0]"
    using ide_trim_rstrip [of 40 "ide_model_text ws" "[0]"] len by (simp add: ide_model_bytes_text [OF assms(5)])
  moreover have "replicate (40 - k) (0 :: u8) @ [0] = replicate (41 - k) 0" if "k \<le> 40" for k
  proof -
    have "41 - k = Suc (40 - k)" using that by simp
    then show ?thesis by (simp only: replicate_Suc replicate_append_same)
  qed
  moreover have "length (rstrip (ide_model_text ws)) \<le> 40"
    using length_dropWhile_le [of "\<lambda>c. c = 32" "rev (ide_model_text ws)"] len by (simp add: rstrip_def)
  ultimately show ?thesis by (simp add: dev ide_parse_identify_def hdd tot)
qed

theorem ide_identify_correct_witness:
  "ide_total_sectors (ide_dev (ide_device_identify (ata_hw ata_demo (\<lambda>_. replicate 256 0x2020)) 0 ide_demo) 0) = 0x20202020
   \<and> ide_model (ide_dev (ide_device_identify (ata_hw ata_demo (\<lambda>_. replicate 256 0x2020)) 0 ide_demo) 0) = replicate 41 0"
proof -
  have len: "0 < length (ide_devices (ide_prim ide_demo))" by (simp add: ide_demo_def)
  have "rstrip (ide_model_text (replicate 256 0x2020)) = []" by code_simp
  then show ?thesis
    using ide_identify_correct [OF ata_hw_answers _ len refl _ refl, where a = ata_demo and idn = "\<lambda>_. replicate 256 0x2020"]
    by (simp add: word_unat_eq_iff)
qed

end
