(* ===== verification/Drv_Keyboard.thy ===== *)
theory Drv_Keyboard
  imports Kernel_Prelude
begin

text \<open>
  The key codes of \<^verbatim>\<open>include/driver/keyboard.h\<close>. The driver itself is an object file.
\<close>

section \<open>Key codes\<close>

text \<open>The enumeration as the header lists it: each name with the value it is given, if any.\<close>

definition KBD_KEYCODE :: "(string \<times> int option) list" where
  "KBD_KEYCODE =
     [(''KEY_SPACE'', Some 32), (''KEY_0'', Some 48), (''KEY_1'', Some 49), (''KEY_2'', Some 50), (''KEY_3'', Some 51), (''KEY_4'', Some 52),
      (''KEY_5'', Some 53), (''KEY_6'', Some 54), (''KEY_7'', Some 55), (''KEY_8'', Some 56), (''KEY_9'', Some 57), (''KEY_A'', Some 97),
      (''KEY_B'', Some 98), (''KEY_C'', Some 99), (''KEY_D'', Some 100), (''KEY_E'', Some 101), (''KEY_F'', Some 102), (''KEY_G'', Some 103),
      (''KEY_H'', Some 104), (''KEY_I'', Some 105), (''KEY_J'', Some 106), (''KEY_K'', Some 107), (''KEY_L'', Some 108), (''KEY_M'', Some 109),
      (''KEY_N'', Some 110), (''KEY_O'', Some 111), (''KEY_P'', Some 112), (''KEY_Q'', Some 113), (''KEY_R'', Some 114), (''KEY_S'', Some 115),
      (''KEY_T'', Some 116), (''KEY_U'', Some 117), (''KEY_V'', Some 118), (''KEY_W'', Some 119), (''KEY_X'', Some 120), (''KEY_Y'', Some 121),
      (''KEY_Z'', Some 122), (''KEY_RETURN'', Some 13), (''KEY_ESCAPE'', Some 0x1001), (''KEY_BACKSPACE'', Some 8), (''KEY_UP'', Some 0x1100), (''KEY_DOWN'', Some 0x1101),
      (''KEY_LEFT'', Some 0x1102), (''KEY_RIGHT'', Some 0x1103), (''KEY_F1'', Some 0x1201), (''KEY_F2'', Some 0x1202), (''KEY_F3'', Some 0x1203), (''KEY_F4'', Some 0x1204),
      (''KEY_F5'', Some 0x1205), (''KEY_F6'', Some 0x1206), (''KEY_F7'', Some 0x1207), (''KEY_F8'', Some 0x1208), (''KEY_F9'', Some 0x1209), (''KEY_F10'', Some 0x120a),
      (''KEY_F11'', Some 0x120b), (''KEY_F12'', Some 0x120b), (''KEY_F13'', Some 0x120c), (''KEY_F14'', Some 0x120d), (''KEY_F15'', Some 0x120e), (''KEY_DOT'', Some 46),
      (''KEY_COMMA'', Some 44), (''KEY_COLON'', Some 58), (''KEY_SEMICOLON'', Some 59), (''KEY_SLASH'', Some 47), (''KEY_BACKSLASH'', Some 92), (''KEY_PLUS'', Some 43),
      (''KEY_MINUS'', Some 45), (''KEY_ASTERISK'', Some 42), (''KEY_EXCLAMATION'', Some 33), (''KEY_QUESTION'', Some 63), (''KEY_QUOTEDOUBLE'', Some 34), (''KEY_QUOTE'', Some 39),
      (''KEY_EQUAL'', Some 61), (''KEY_HASH'', Some 35), (''KEY_PERCENT'', Some 37), (''KEY_AMPERSAND'', Some 38), (''KEY_UNDERSCORE'', Some 95), (''KEY_LEFTPAREN'', Some 40),
      (''KEY_RIGHTPAREN'', Some 41), (''KEY_LEFTBRACKET'', Some 91), (''KEY_RIGHTBRACKET'', Some 93), (''KEY_LEFTCURL'', Some 123), (''KEY_RIGHTCURL'', Some 125), (''KEY_DOLLAR'', Some 36),
      (''KEY_POUND'', Some 36), (''KEY_EURO'', Some 36), (''KEY_LESS'', Some 60), (''KEY_GREATER'', Some 62), (''KEY_BAR'', Some 124), (''KEY_GRAVE'', Some 96),
      (''KEY_TILDE'', Some 126), (''KEY_AT'', Some 64), (''KEY_CARRET'', Some 94), (''KEY_KP_0'', Some 48), (''KEY_KP_1'', Some 49), (''KEY_KP_2'', Some 50),
      (''KEY_KP_3'', Some 51), (''KEY_KP_4'', Some 52), (''KEY_KP_5'', Some 53), (''KEY_KP_6'', Some 54), (''KEY_KP_7'', Some 55), (''KEY_KP_8'', Some 56),
      (''KEY_KP_9'', Some 57), (''KEY_KP_PLUS'', Some 43), (''KEY_KP_MINUS'', Some 45), (''KEY_KP_DECIMAL'', Some 46), (''KEY_KP_DIVIDE'', Some 47), (''KEY_KP_ASTERISK'', Some 42),
      (''KEY_KP_NUMLOCK'', Some 0x300f), (''KEY_KP_ENTER'', Some 0x3010), (''KEY_TAB'', Some 0x4000), (''KEY_CAPSLOCK'', Some 0x4001), (''KEY_LSHIFT'', Some 0x4002), (''KEY_LCTRL'', Some 0x4003),
      (''KEY_LALT'', Some 0x4004), (''KEY_LWIN'', Some 0x4005), (''KEY_RSHIFT'', Some 0x4006), (''KEY_RCTRL'', Some 0x4007), (''KEY_RALT'', Some 0x4008), (''KEY_RWIN'', Some 0x4009),
      (''KEY_INSERT'', Some 0x400a), (''KEY_DELETE'', Some 0x400b), (''KEY_HOME'', Some 0x400c), (''KEY_END'', Some 0x400d), (''KEY_PAGEUP'', Some 0x400e), (''KEY_PAGEDOWN'', Some 0x400f),
      (''KEY_SCROLLLOCK'', Some 0x4010), (''KEY_PAUSE'', Some 0x4011), (''KEY_UNKNOWN'', None), (''KEY_NUMKEYCODES'', None)]"

text \<open>How C numbers an enumeration: an entry without a value is one more than the entry before it.\<close>

primrec enum_values :: "int \<Rightarrow> (string \<times> int option) list \<Rightarrow> (string \<times> int) list" where
  "enum_values nxt [] = []"
| "enum_values nxt (e # es) =
     (let v = (case snd e of None \<Rightarrow> nxt | Some v \<Rightarrow> v) in (fst e, v) # enum_values (v + 1) es)"

definition keycodes :: "(string \<times> int) list" where
  "keycodes = enum_values 0 KBD_KEYCODE"

definition KBD_IS_ASCII :: "int \<Rightarrow> bool" where
  "KBD_IS_ASCII c \<longleftrightarrow> c \<ge> 0x7 \<and> c \<le> 0x7F"

text \<open>The codes with more than one name, in the order the header gives them.\<close>

definition shared_codes :: "int list" where
  "shared_codes = (let cs = map snd keycodes in filter (\<lambda>c. 1 < length (filter ((=) c) cs)) (remdups cs))"

text \<open>Further property: every key code is either a character that \<^verbatim>\<open>KBD_IS_ASCII\<close> accepts or a code from 0x1001 to 0x4013
  that it rejects, and the only codes with several names are 0x120B, which \<^verbatim>\<open>KEY_F11\<close> and \<^verbatim>\<open>KEY_F12\<close> both
  have, the dollar sign, which stands for two other currency signs too, and the digits and operators that the keypad
  repeats.\<close>

theorem keycodes_classified:
  "list_all (\<lambda>(n, c). KBD_IS_ASCII c \<noteq> (0x1001 \<le> c \<and> c \<le> 0x4013)) keycodes
   \<and> [c. (n, c) \<leftarrow> keycodes, n = ''KEY_F11'' \<or> n = ''KEY_F12''] = [0x120B, 0x120B]
   \<and> set shared_codes = {0x120B, 36, 48, 49, 50, 51, 52, 53, 54, 55, 56, 57, 43, 45, 46, 47, 42}"
  by code_simp

end
