(* ===== verification/Fs_Node.thy ===== *)
theory Fs_Node
  imports Drv_Block Libc_String
begin

text \<open>
  What the file system layer and its drivers share: the structures of \<^verbatim>\<open>include/fs/vfs.h\<close> and of
  \<^verbatim>\<open>include/fs/fat12.h\<close>, and the store they live in. The kernel heap is an object file, so \<^verbatim>\<open>malloc\<close>
  and \<^verbatim>\<open>realloc\<close> are arguments: which address a request gets (NULL if it fails) and which bytes a
  fresh block holds. A block is live from its allocation until \<^verbatim>\<open>free\<close>; reading a structure through
  a pointer to no live structure of that type has no defined result, which is \<open>None\<close>, and so has
  freeing a block twice. A table of operations is named by the file system it belongs to.
\<close>

section \<open>Structures\<close>

datatype vnode_type_t = V_FILE | V_DIRECTORY | V_CHARDEVICE | V_BLOCKDEVICE | V_PIPE | V_SOCKET | V_SYMLINK

text \<open>The two file systems of the table \<^verbatim>\<open>fs_types\<close>.\<close>

datatype fs_id = FAT12_FS | HFS_FS

record vnode =
  vn_name :: "u8 list"
  vn_mountedhere :: ptr
  vn_vfs_ptr :: ptr
  vn_type :: vnode_type_t
  vn_ops :: "fs_id option"
  vn_flags :: u32
  vn_data :: ptr

record vfs =
  vfs_type :: fs_id
  vfs_vcovered :: ptr
  vfs_vroot :: ptr
  vfs_fs_data :: ptr

record file_t =
  f_vnode_ptr :: ptr
  f_offset :: u32
  f_flags :: u32

record fat12_dir_entry_t =
  de_filename :: "u8 list"
  de_extension :: "u8 list"
  de_attributes :: u8
  de_reserved :: u8
  de_create_time_tenth :: u8
  de_create_time :: u16
  de_create_date :: u16
  de_last_access_date :: u16
  de_first_cluster_high :: u16
  de_last_write_time :: u16
  de_last_write_date :: u16
  de_first_cluster_low :: u16
  de_file_size :: u32

record fat12_handle_t =
  fh_bpb :: ptr
  fh_ebr :: ptr
  fh_fat_start :: u32
  fh_root_dir_start :: u32
  fh_root_dir_sectors :: u32
  fh_data_area_start :: u32
  fh_fat_table :: ptr
  fh_block_dev :: ptr

record inode =
  in_dir_entry :: fat12_dir_entry_t
  in_dir_sector :: u32
  in_dir_offset :: u32

section \<open>The heap\<close>

datatype kobj = KBytes "u8 list" | KVnode vnode | KVfs vfs | KFile file_t | KHandle fat12_handle_t | KInode inode

text \<open>The file system's view of the kernel: the heap blocks, the devices and what drives them, the
  table of mounted file systems (\<open>None\<close> before it is allocated; a slot is \<open>None\<close> until it is written)
  with its size.\<close>

record 'w kstate =
  ks_store :: "ptr \<Rightarrow> kobj option"
  ks_blk :: "'w blk_state"
  ks_world :: 'w
  mountpoints :: "ptr option list option"
  curr_size :: nat
  vfs_root_vnode :: ptr

record 'w kheap =
  kh_malloc :: "'w kstate \<Rightarrow> u32 \<Rightarrow> ptr"
  kh_junk :: "'w kstate \<Rightarrow> u32 \<Rightarrow> u8 list"
  kh_realloc :: "'w kstate \<Rightarrow> u32 \<Rightarrow> bool"

definition kput :: "ptr \<Rightarrow> kobj \<Rightarrow> 'w kstate \<Rightarrow> 'w kstate" where
  "kput p ob s = s\<lparr>ks_store := (ks_store s)(p \<mapsto> ob)\<rparr>"

definition kalloc :: "'w kheap \<Rightarrow> u32 \<Rightarrow> 'w kstate \<Rightarrow> ptr \<times> 'w kstate" where
  "kalloc kh n s =
     (let p = kh_malloc kh s n in
      (p, if p = NULL then s else kput p (KBytes (take (unat n) (kh_junk kh s n))) s))"

definition kfree :: "ptr \<Rightarrow> 'w kstate \<Rightarrow> 'w kstate option" where
  "kfree p s =
     (if p = NULL then Some s
      else case ks_store s p of None \<Rightarrow> None | Some ob \<Rightarrow> Some (s\<lparr>ks_store := (ks_store s)(p := None)\<rparr>))"

text \<open>Reading a structure through a pointer.\<close>

definition get_vnode :: "'w kstate \<Rightarrow> ptr \<Rightarrow> vnode option" where
  "get_vnode s p = (case ks_store s p of Some (KVnode v) \<Rightarrow> Some v | _ \<Rightarrow> None)"

definition get_vfs :: "'w kstate \<Rightarrow> ptr \<Rightarrow> vfs option" where
  "get_vfs s p = (case ks_store s p of Some (KVfs v) \<Rightarrow> Some v | _ \<Rightarrow> None)"

definition get_file :: "'w kstate \<Rightarrow> ptr \<Rightarrow> file_t option" where
  "get_file s p = (case ks_store s p of Some (KFile v) \<Rightarrow> Some v | _ \<Rightarrow> None)"

definition get_handle :: "'w kstate \<Rightarrow> ptr \<Rightarrow> fat12_handle_t option" where
  "get_handle s p = (case ks_store s p of Some (KHandle v) \<Rightarrow> Some v | _ \<Rightarrow> None)"

definition get_inode :: "'w kstate \<Rightarrow> ptr \<Rightarrow> inode option" where
  "get_inode s p = (case ks_store s p of Some (KInode v) \<Rightarrow> Some v | _ \<Rightarrow> None)"

definition get_bytes :: "'w kstate \<Rightarrow> ptr \<Rightarrow> u8 list option" where
  "get_bytes s p = (case ks_store s p of Some (KBytes v) \<Rightarrow> Some v | _ \<Rightarrow> None)"

text \<open>A character array read as a string: without a terminator the reader runs past its end.\<close>

definition cstr_of :: "u8 list \<Rightarrow> u8 list option" where
  "cstr_of bs = (if 0 \<in> set bs then Some (takeWhile (\<lambda>c. c \<noteq> 0) bs) else None)"

text \<open>The array \<^verbatim>\<open>strncpy\<close> fills, as shown of the byte-level routine.\<close>

definition strncpy_array :: "nat \<Rightarrow> u8 list \<Rightarrow> u8 list" where
  "strncpy_array n str = take n (str @ replicate n 0)"

text \<open>\<^verbatim>\<open>blkread\<close> through a device pointer.\<close>

definition kblkread :: "ptr \<Rightarrow> u32 \<Rightarrow> u8 list \<Rightarrow> 'w kstate \<Rightarrow> (u8 list \<times> 'w kstate) option" where
  "kblkread dev lba buf s =
     (if dev \<noteq> NULL \<and> blk_store (ks_blk s) dev = None then None
      else case blkread (if dev = NULL then None else blk_store (ks_blk s) dev) lba (Some buf) (ks_world s) of
             None \<Rightarrow> None
           | Some (r, b, w) \<Rightarrow> Option.bind b (\<lambda>bs. Some (bs, s\<lparr>ks_world := w\<rparr>)))"

section \<open>Laws of the heap\<close>

text \<open>What the heap promises: a block it hands out is not live, and a fresh block has the size asked for.\<close>

definition heap_ok :: "'w kheap \<Rightarrow> bool" where
  "heap_ok kh \<longleftrightarrow> (\<forall>s n. (kh_malloc kh s n \<noteq> NULL \<longrightarrow> ks_store s (kh_malloc kh s n) = None) \<and> length (kh_junk kh s n) = unat n)"

lemma get_simps [simp]:
  "get_vnode (kput p ob s) q = (if q = p then (case ob of KVnode v \<Rightarrow> Some v | _ \<Rightarrow> None) else get_vnode s q)"
  "get_vfs (kput p ob s) q = (if q = p then (case ob of KVfs f \<Rightarrow> Some f | _ \<Rightarrow> None) else get_vfs s q)"
  "get_file (kput p ob s) q = (if q = p then (case ob of KFile f \<Rightarrow> Some f | _ \<Rightarrow> None) else get_file s q)"
  "get_handle (kput p ob s) q = (if q = p then (case ob of KHandle h \<Rightarrow> Some h | _ \<Rightarrow> None) else get_handle s q)"
  "get_inode (kput p ob s) q = (if q = p then (case ob of KInode i \<Rightarrow> Some i | _ \<Rightarrow> None) else get_inode s q)"
  "get_bytes (kput p ob s) q = (if q = p then (case ob of KBytes b \<Rightarrow> Some b | _ \<Rightarrow> None) else get_bytes s q)"
  by (simp_all add: kput_def get_vnode_def get_vfs_def get_file_def get_handle_def get_inode_def get_bytes_def split: kobj.splits)

lemma kput_simps [simp]:
  "ks_store (kput p ob s) = (ks_store s)(p \<mapsto> ob)" "ks_blk (kput p ob s) = ks_blk s"
  "ks_world (kput p ob s) = ks_world s" "mountpoints (kput p ob s) = mountpoints s" "curr_size (kput p ob s) = curr_size s"
  by (simp_all add: kput_def)

lemma kput_kput [simp]: "kput p a (kput p b s) = kput p a s"
  by (simp add: kput_def)

lemma kalloc_fresh:
  assumes "heap_ok kh" and "kalloc kh n s = (p, s1)"
  shows "(p = NULL \<and> s1 = s) \<or> (p \<noteq> NULL \<and> ks_store s p = None \<and> (\<exists>bs. length bs = unat n \<and> s1 = kput p (KBytes bs) s))"
proof -
  have "p \<noteq> NULL \<longrightarrow> ks_store s p = None" "length (kh_junk kh s n) = unat n"
    using assms by (auto simp: heap_ok_def kalloc_def Let_def)
  then show ?thesis using assms(2) by (auto simp: kalloc_def Let_def split: if_splits)
qed

lemma cstr_of_strncpy: "0 \<notin> set str \<Longrightarrow> length str < n \<Longrightarrow> cstr_of (strncpy_array n str) = Some str"
proof -
  assume a: "0 \<notin> set str" "length str < n"
  then have "strncpy_array n str = str @ replicate (n - length str) 0" by (simp add: strncpy_array_def)
  moreover have "replicate (n - length str) (0 :: u8) = 0 # replicate (n - length str - 1) 0"
    using a(2) by (metis Suc_diff_1 replicate_Suc zero_less_diff)
  ultimately show ?thesis using a(1) by (auto simp: cstr_of_def takeWhile_append)
qed

end
