(* ===== verification/Fs_Fat12.thy ===== *)
theory Fs_Fat12
  imports Fs_Node
begin

text \<open>
  The FAT12 driver of \<^verbatim>\<open>fs/fat12.c\<close>, on the heap of structures and the block layer: mounting and
  unmounting, the search of the root directory, reading a file along its cluster chain and the
  conversions of file names. The boot sector and the FAT are the bytes the driver keeps in memory, read at
  the offsets of the packed structures. A read or copy outside a block, and a division by zero, have no
  defined result (\<open>None\<close>). Log output is left out.
\<close>

section \<open>Constants and on-disk structures\<close>

definition FAT12_VID :: u8 where [const_defs]: "FAT12_VID = 0x08"
definition FAT12_DIR :: u8 where [const_defs]: "FAT12_DIR = 0x10"
definition FAT12_CLUSTER_MASK :: u16 where [const_defs]: "FAT12_CLUSTER_MASK = 0xFFF"
definition FAT12_EOC_MIN :: u16 where [const_defs]: "FAT12_EOC_MIN = 0xFF8"
definition FAT12_DELETED :: u8 where [const_defs]: "FAT12_DELETED = 0xE5"
definition FAT12_ENDDIR :: u8 where [const_defs]: "FAT12_ENDDIR = 0x00"

definition sizeof_fat12_handle_t :: u32 where [const_defs]: "sizeof_fat12_handle_t = 32"
definition sizeof_fat12_bpb_t :: u32 where [const_defs]: "sizeof_fat12_bpb_t = 36"
definition sizeof_fat12_dir_entry_t :: u32 where [const_defs]: "sizeof_fat12_dir_entry_t = 32"
definition sizeof_inode :: u32 where [const_defs]: "sizeof_inode = 40"
definition sizeof_vnode :: u32 where [const_defs]: "sizeof_vnode = 52"
definition sizeof_vfs :: u32 where [const_defs]: "sizeof_vfs = 16"

definition le16 :: "u8 list \<Rightarrow> nat \<Rightarrow> u16" where
  "le16 bs i = ucast (bs ! i) OR push_bit 8 (ucast (bs ! (i + 1)))"

definition le32 :: "u8 list \<Rightarrow> nat \<Rightarrow> u32" where
  "le32 bs i = ucast (le16 bs i) OR push_bit 16 (ucast (le16 bs (i + 2)))"

record fat12_bpb_t =
  bpb_bytes_per_sector :: u16
  bpb_sectors_per_cluster :: u8
  bpb_rsrvd_cnt :: u16
  bpb_num_fats :: u8
  bpb_max_root_dir_entries :: u16
  bpb_total_sectors :: u16
  bpb_media_descriptor :: u8
  bpb_sectors_per_fat :: u16
  bpb_sectors_per_track :: u16
  bpb_num_heads :: u16
  bpb_hidden_sectors :: u32
  bpb_total_sectors_large :: u32

definition bpb_of :: "u8 list \<Rightarrow> fat12_bpb_t" where
  "bpb_of bs = \<lparr>bpb_bytes_per_sector = le16 bs 11, bpb_sectors_per_cluster = bs ! 13, bpb_rsrvd_cnt = le16 bs 14,
     bpb_num_fats = bs ! 16, bpb_max_root_dir_entries = le16 bs 17, bpb_total_sectors = le16 bs 19,
     bpb_media_descriptor = bs ! 21, bpb_sectors_per_fat = le16 bs 22, bpb_sectors_per_track = le16 bs 24,
     bpb_num_heads = le16 bs 26, bpb_hidden_sectors = le32 bs 28, bpb_total_sectors_large = le32 bs 32\<rparr>"

definition dir_entry_of :: "u8 list \<Rightarrow> fat12_dir_entry_t" where
  "dir_entry_of e = \<lparr>de_filename = take 8 e, de_extension = take 3 (drop 8 e), de_attributes = e ! 11,
     de_reserved = e ! 12, de_create_time_tenth = e ! 13, de_create_time = le16 e 14, de_create_date = le16 e 16,
     de_last_access_date = le16 e 18, de_first_cluster_high = le16 e 20, de_last_write_time = le16 e 22,
     de_last_write_date = le16 e 24, de_first_cluster_low = le16 e 26, de_file_size = le32 e 28\<rparr>"

definition zero_dir_entry :: fat12_dir_entry_t where
  "zero_dir_entry = dir_entry_of (replicate 32 0)"

section \<open>Helpers\<close>

definition fat12_get_fentry :: "u8 list \<Rightarrow> u16 \<Rightarrow> u16 option" where
  "fat12_get_fentry fat_table cluster =
     (let fat_offset = (unat cluster * 3) div 2 in
      if fat_offset + 1 < length fat_table
      then let entry = le16 fat_table fat_offset;
               entry = (if cluster AND 1 \<noteq> 0 then drop_bit 4 entry else entry AND 0x0FFF)
           in Some (entry AND FAT12_CLUSTER_MASK)
      else None)"

definition fat12_8_3to_normal :: "u8 list \<Rightarrow> u8 list" where
  "fat12_8_3to_normal fat_name =
     takeWhile (\<lambda>c. c \<noteq> 32) (take 8 fat_name) @
     (if fat_name ! 8 \<noteq> 32 then 46 # takeWhile (\<lambda>c. c \<noteq> 32) (take 3 (drop 8 fat_name)) else [])"

definition pad_to :: "nat \<Rightarrow> u8 list \<Rightarrow> u8 list" where
  "pad_to n xs = xs @ replicate (n - length xs) 32"

definition fat12_normal_to_8_3 :: "u8 list \<Rightarrow> u8 list" where
  "fat12_normal_to_8_3 name =
     (let base = takeWhile (\<lambda>c. c \<noteq> 46) (take 8 name);
          rest = drop (length base) name;
          rest = (case rest of c # cs \<Rightarrow> if c = 46 then cs else rest | [] \<Rightarrow> [])
      in pad_to 8 base @ pad_to 3 (take 3 rest))"

definition fat12_cluster_to_lba :: "fat12_handle_t \<Rightarrow> fat12_bpb_t \<Rightarrow> u16 \<Rightarrow> u32" where
  "fat12_cluster_to_lba fs bpb cluster =
     (if cluster < 2 then 0
      else fh_data_area_start fs + (ucast cluster - 2) * ucast (bpb_sectors_per_cluster bpb))"

section \<open>Directory search\<close>

datatype scan = Scan_End | Scan_Found nat | Scan_More

definition dir_slot :: "u8 list \<Rightarrow> nat \<Rightarrow> u8 list" where
  "dir_slot dir_entries i = take 32 (drop (32 * i) dir_entries)"

primrec fat12_scan :: "u8 list \<Rightarrow> u8 list \<Rightarrow> nat list \<Rightarrow> scan" where
  "fat12_scan fat_name dir_entries [] = Scan_More"
| "fat12_scan fat_name dir_entries (i # is) =
     (let e = dir_slot dir_entries i in
      if e ! 0 = FAT12_ENDDIR then Scan_End
      else if e ! 0 = FAT12_DELETED \<or> e ! 11 AND FAT12_VID \<noteq> 0 then fat12_scan fat_name dir_entries is
      else if take 11 e = fat_name then Scan_Found i
      else fat12_scan fat_name dir_entries is)"

definition fat12_new_node :: "'w kheap \<Rightarrow> vnode \<Rightarrow> u8 list \<Rightarrow> u8 list \<Rightarrow> u32 \<Rightarrow> nat \<Rightarrow> 'w kstate \<Rightarrow> (ptr \<times> 'w kstate) option" where
  "fat12_new_node kh dir_node name e sector i s =
     (let (new_node, s1) = kalloc kh sizeof_vnode s in
      if new_node = NULL then Some (NULL, s1)
      else
        let (new_inode, s2) = kalloc kh sizeof_inode s1 in
        if new_inode = NULL then do { s3 \<leftarrow> kfree new_node s2; Some (NULL, s3) }
        else
          let s3 = kput new_inode (KInode \<lparr>in_dir_entry = dir_entry_of e, in_dir_sector = sector,
                     in_dir_offset = of_nat i\<rparr>) s2;
              s4 = kput new_node (KVnode \<lparr>vn_name = strncpy_array 28 name, vn_mountedhere = NULL,
                     vn_vfs_ptr = vn_vfs_ptr dir_node,
                     vn_type = (if de_attributes (dir_entry_of e) AND FAT12_DIR \<noteq> 0 then V_DIRECTORY else V_FILE),
                     vn_ops = Some FAT12_FS, vn_flags = 0, vn_data = new_inode\<rparr>) s3
          in Some (new_node, s4))"

text \<open>The loop over the sectors of the root directory; the buffer of 16 entries is reused, so a read
  that fails leaves the previous sector in it.\<close>

primrec fat12_lookup_loop :: "'w kheap \<Rightarrow> fat12_handle_t \<Rightarrow> vnode \<Rightarrow> u8 list \<Rightarrow> u8 list \<Rightarrow> nat list \<Rightarrow> u8 list
    \<Rightarrow> 'w kstate \<Rightarrow> (ptr \<times> 'w kstate) option" where
  "fat12_lookup_loop kh fs dir_node name fat_name [] dir_entries s = Some (NULL, s)"
| "fat12_lookup_loop kh fs dir_node name fat_name (k # ks) dir_entries s =
     do {
       let sector = fh_root_dir_start fs + of_nat k;
       (entries, s1) \<leftarrow> kblkread (fh_block_dev fs) sector dir_entries s;
       (case fat12_scan fat_name entries [0..<16] of
          Scan_End \<Rightarrow> Some (NULL, s1)
        | Scan_Found i \<Rightarrow> fat12_new_node kh dir_node name (dir_slot entries i) sector i s1
        | Scan_More \<Rightarrow> fat12_lookup_loop kh fs dir_node name fat_name ks entries s1)
     }"

text \<open>\<open>stack\<close> is what the uninitialised buffer of 16 directory entries holds.\<close>

definition fat12_lookup :: "'w kheap \<Rightarrow> u8 list \<Rightarrow> ptr \<Rightarrow> u8 list \<Rightarrow> 'w kstate \<Rightarrow> (ptr \<times> 'w kstate) option" where
  "fat12_lookup kh stack dir name s =
     do {
       dir_node \<leftarrow> get_vnode s dir;
       dname \<leftarrow> cstr_of (vn_name dir_node);
       if dname \<noteq> [47] then Some (NULL, s)
       else do {
         f \<leftarrow> get_vfs s (vn_vfs_ptr dir_node);
         if vfs_fs_data f = NULL then Some (NULL, s)
         else do {
           fs \<leftarrow> get_handle s (vfs_fs_data f);
           let p = dropWhile (\<lambda>c. c = 47) name;
           fat12_lookup_loop kh fs dir_node name (fat12_normal_to_8_3 p) [0..<unat (fh_root_dir_sectors fs)]
             (take 512 stack) s
         }
       }
     }"

section \<open>Mounting and unmounting\<close>

text \<open>The layout of the volume, computed from the boot sector; the hidden sectors go through an
  8-bit variable.\<close>

definition fat12_layout :: "fat12_bpb_t \<Rightarrow> ptr \<Rightarrow> ptr \<Rightarrow> fat12_handle_t" where
  "fat12_layout bpb bootsector block_dev =
     (let lba_begin = (ucast (bpb_hidden_sectors bpb) :: u8);
          fat_start = ucast lba_begin + ucast (bpb_rsrvd_cnt bpb);
          root_dir_start = fat_start + ucast (bpb_num_fats bpb) * ucast (bpb_sectors_per_fat bpb);
          root_dir_sectors = (ucast (bpb_max_root_dir_entries bpb) * sizeof_fat12_dir_entry_t) div ucast (bpb_bytes_per_sector bpb)
      in \<lparr>fh_bpb = bootsector, fh_ebr = bootsector + sizeof_fat12_bpb_t, fh_fat_start = fat_start,
          fh_root_dir_start = root_dir_start, fh_root_dir_sectors = root_dir_sectors,
          fh_data_area_start = root_dir_start + root_dir_sectors, fh_fat_table = NULL, fh_block_dev = block_dev\<rparr>)"

primrec fat12_load_fat :: "ptr \<Rightarrow> u32 \<Rightarrow> nat \<Rightarrow> nat list \<Rightarrow> u8 list \<Rightarrow> 'w kstate \<Rightarrow> (u8 list \<times> 'w kstate) option" where
  "fat12_load_fat dev fat_start bps [] table s = Some (table, s)"
| "fat12_load_fat dev fat_start bps (i # is) table s =
     do {
       (b, s1) \<leftarrow> kblkread dev (fat_start + of_nat i) (drop (i * bps) table) s;
       fat12_load_fat dev fat_start bps is (take (i * bps) table @ b) s1
     }"

text \<open>The last part of mounting: the file system object with its root vnode; their allocations are not
  checked for the root vnode and its inode.\<close>

definition fat12_mount_root :: "'w kheap \<Rightarrow> ptr \<Rightarrow> fat12_handle_t \<Rightarrow> 'w kstate \<Rightarrow> (ptr \<times> 'w kstate) option" where
  "fat12_mount_root kh fs h s =
     (let (fsys, s1) = kalloc kh sizeof_vfs s in
      if fsys = NULL then
        do { s2 \<leftarrow> kfree (fh_fat_table h) s1; s3 \<leftarrow> kfree (fh_bpb h) s2; s4 \<leftarrow> kfree fs s3; Some (NULL, s4) }
      else
        let (vroot, s2) = kalloc kh sizeof_vnode s1 in
        if vroot = NULL then None
        else
          let s3 = kput fsys (KVfs \<lparr>vfs_type = FAT12_FS, vfs_vcovered = NULL, vfs_vroot = vroot, vfs_fs_data = fs\<rparr>) s2;
              (root_inode, s4) = kalloc kh sizeof_inode s3 in
          if root_inode = NULL then None
          else
            let s5 = kput root_inode (KInode \<lparr>in_dir_entry = zero_dir_entry, in_dir_sector = fh_root_dir_start h,
                       in_dir_offset = 0\<rparr>) s4;
                s6 = kput vroot (KVnode \<lparr>vn_name = strncpy_array 28 [47], vn_mountedhere = NULL, vn_vfs_ptr = fsys,
                       vn_type = V_DIRECTORY, vn_ops = Some FAT12_FS, vn_flags = 0, vn_data = root_inode\<rparr>) s5
            in Some (fsys, s6))"

definition fat12_mount :: "'w kheap \<Rightarrow> u8 list option \<Rightarrow> 'w kstate \<Rightarrow> (ptr \<times> 'w kstate) option" where
  "fat12_mount kh device s =
     (let (fs, s1) = kalloc kh sizeof_fat12_handle_t s in
      if fs = NULL then Some (NULL, s1)
      else
        let (bootsector, s2) = kalloc kh 512 s1 in
        if bootsector = NULL then do { s3 \<leftarrow> kfree fs s2; Some (NULL, s3) }
        else
          let block_dev = blkdev_get_by_name (ks_blk s2) device in
          if block_dev = NULL then do { s3 \<leftarrow> kfree bootsector s2; s4 \<leftarrow> kfree fs s3; Some (NULL, s4) }
          else do {
            b0 \<leftarrow> get_bytes s2 bootsector;
            (b, s3) \<leftarrow> kblkread block_dev 0 b0 s2;
            let bpb = bpb_of b;
            if bpb_bytes_per_sector bpb = 0 then None
            else do {
              let h = fat12_layout bpb bootsector block_dev;
              let s4 = kput fs (KHandle h) (kput bootsector (KBytes b) s3);
              let fat_size = ucast (bpb_sectors_per_fat bpb) * ucast (bpb_bytes_per_sector bpb);
              let (fat_table, s5) = kalloc kh fat_size s4;
              if fat_table = NULL then
                do { s6 \<leftarrow> kfree bootsector s5; s7 \<leftarrow> kfree fs s6; Some (NULL, s7) }
              else do {
                t0 \<leftarrow> get_bytes s5 fat_table;
                (t, s6) \<leftarrow> fat12_load_fat block_dev (fh_fat_start h) (unat (bpb_bytes_per_sector bpb))
                             [0..<unat (bpb_sectors_per_fat bpb)] t0 s5;
                let h1 = h\<lparr>fh_fat_table := fat_table\<rparr>;
                fat12_mount_root kh fs h1 (kput fs (KHandle h1) (kput fat_table (KBytes t) s6))
              }
            }
          })"

definition fat12_unmount :: "ptr \<Rightarrow> 'w kstate \<Rightarrow> (int \<times> 'w kstate) option" where
  "fat12_unmount fsys s =
     do {
       f \<leftarrow> get_vfs s fsys;
       let fs = vfs_fs_data f;
       if fs = NULL then Some (- 1, s)
       else do {
         h \<leftarrow> get_handle s fs;
         s1 \<leftarrow> (if fh_fat_table h \<noteq> NULL
               then map_option (kput fs (KHandle (h\<lparr>fh_fat_table := NULL\<rparr>))) (kfree (fh_fat_table h) s) else Some s);
         s2 \<leftarrow> (if fh_bpb h \<noteq> NULL
               then map_option (kput fs (KHandle (h\<lparr>fh_fat_table := NULL, fh_bpb := NULL\<rparr>))) (kfree (fh_bpb h) s1) else Some s1);
         s3 \<leftarrow> kfree fs s2;
         r \<leftarrow> get_vnode s3 (vfs_vroot f);
         s4 \<leftarrow> kfree (vn_data r) s3;
         s5 \<leftarrow> kfree (vfs_vroot f) s4;
         s6 \<leftarrow> kfree fsys s5;
         Some (0, s6)
       }
     }"

section \<open>File operations\<close>

definition fat12_open :: "'w kheap \<Rightarrow> u8 list \<Rightarrow> ptr \<Rightarrow> u8 list option \<Rightarrow> u32 \<Rightarrow> 'w kstate \<Rightarrow> (ptr \<times> 'w kstate) option" where
  "fat12_open kh stack node path flags s =
     (if node = NULL \<or> path = None \<or> path = Some [] then Some (NULL, s)
      else do {
        v \<leftarrow> get_vnode s node;
        f \<leftarrow> get_vfs s (vn_vfs_ptr v);
        fat12_lookup kh stack (vfs_vroot f) (the path) s
      })"

definition memcpy_into :: "u8 list \<Rightarrow> u32 \<Rightarrow> u8 list \<Rightarrow> u32 \<Rightarrow> u32 \<Rightarrow> u8 list option" where
  "memcpy_into dst off src start n =
     (if unat off + unat n \<le> length dst \<and> unat start + unat n \<le> length src
      then Some (take (unat off) dst @ take (unat n) (drop (unat start) src) @ drop (unat off + unat n) dst)
      else None)"

text \<open>The loop over the clusters: \<open>tot\<close> is \<^verbatim>\<open>clusters_to_read\<close>, \<open>n\<close> the iterations left and \<open>rb\<close> the cluster
  buffer.\<close>

primrec fat12_read_loop :: "fat12_handle_t \<Rightarrow> fat12_bpb_t \<Rightarrow> u8 list \<Rightarrow> u32 \<Rightarrow> u32 \<Rightarrow> u32 \<Rightarrow> nat \<Rightarrow> nat \<Rightarrow> u16 \<Rightarrow> u32
    \<Rightarrow> u8 list \<Rightarrow> u8 list \<Rightarrow> 'w kstate \<Rightarrow> (u8 list \<times> 'w kstate) option" where
  "fat12_read_loop fs bpb fat bpc offs sz tot 0 curr_cluster bytes_read rb buf s = Some (buf, s)"
| "fat12_read_loop fs bpb fat bpc offs sz tot (Suc n) curr_cluster bytes_read rb buf s =
     do {
       fentry \<leftarrow> fat12_get_fentry fat curr_cluster;
       let lba = fat12_cluster_to_lba fs bpb curr_cluster;
       (rb1, s1) \<leftarrow> kblkread (fh_block_dev fs) lba rb s;
       let copy_start = (if Suc n = tot then offs mod bpc else 0);
       let copy_end = (if n = 0 then (offs + sz) mod bpc else bpc);
       let copy_end = (if copy_end = 0 then bpc else copy_end);
       buf1 \<leftarrow> memcpy_into buf bytes_read rb1 copy_start (copy_end - copy_start);
       if curr_cluster \<ge> FAT12_EOC_MIN then Some (buf1, s1)
       else fat12_read_loop fs bpb fat bpc offs sz tot n fentry (bytes_read + (copy_end - copy_start)) rb1 buf1 s1
     }"

definition fat12_read_file :: "'w kheap \<Rightarrow> fat12_handle_t \<Rightarrow> fat12_dir_entry_t \<Rightarrow> u32 \<Rightarrow> u32 \<Rightarrow> u8 list \<Rightarrow> 'w kstate
    \<Rightarrow> (int \<times> buffer \<times> 'w kstate) option" where
  "fat12_read_file kh fs entry offs sz0 buf s =
     do {
       let file_size = de_file_size entry;
       if offs \<ge> file_size then Some (0, Some buf, s)
       else do {
         let sz = (if offs + sz0 > file_size then file_size - offs else sz0);
         bs \<leftarrow> get_bytes s (fh_bpb fs);
         let bpb = bpb_of bs;
         let bpc = ucast (bpb_sectors_per_cluster bpb) * ucast (bpb_bytes_per_sector bpb);
         if bpc = 0 then None
         else do {
           let cluster_offset = offs div bpc;
           let start_cluster = (ucast (ucast (de_first_cluster_low entry) + cluster_offset) :: u16);
           let offset_in_cluster = offs mod bpc;
           let clusters_to_read = (ucast ((offset_in_cluster + sz) div bpc
                                 + (if (offset_in_cluster + sz) mod bpc \<noteq> 0 then 1 else 0)) :: u16);
           let (read_buf, s1) = kalloc kh bpc s;
           if read_buf = NULL then Some (- 1, Some buf, s1)
           else do {
             fat \<leftarrow> get_bytes s1 (fh_fat_table fs);
             rb \<leftarrow> get_bytes s1 read_buf;
             (buf1, s2) \<leftarrow> fat12_read_loop fs bpb fat bpc offs sz (unat clusters_to_read) (unat clusters_to_read)
                             start_cluster 0 rb buf s1;
             s3 \<leftarrow> kfree read_buf s2;
             Some (sint sz, Some buf1, s3)
           }
         }
       }
     }"

definition fat12_read :: "'w kheap \<Rightarrow> ptr \<Rightarrow> u32 \<Rightarrow> u32 \<Rightarrow> buffer \<Rightarrow> 'w kstate \<Rightarrow> (int \<times> buffer \<times> 'w kstate) option" where
  "fat12_read kh node offs sz buf s =
     (if node = NULL then Some (- 1, buf, s)
      else do {
        v \<leftarrow> get_vnode s node;
        if vn_data v = NULL \<or> buf = None \<or> sz = 0 then Some (- 1, buf, s)
        else do {
          f \<leftarrow> get_vfs s (vn_vfs_ptr v);
          if vfs_fs_data f = NULL then Some (- 1, buf, s)
          else do {
            ino \<leftarrow> get_inode s (vn_data v);
            if de_attributes (in_dir_entry ino) AND FAT12_DIR \<noteq> 0 then Some (- 1, buf, s)
            else do {
              fs \<leftarrow> get_handle s (vfs_fs_data f);
              fat12_read_file kh fs (in_dir_entry ino) offs sz (the buf) s
            }
          }
        }
      })"

definition fat12_close :: "ptr \<Rightarrow> 'w kstate \<Rightarrow> (int \<times> 'w kstate) option" where
  "fat12_close node s = Some (- 1, s)"

definition fat12_write :: "ptr \<Rightarrow> u32 \<Rightarrow> u32 \<Rightarrow> buffer \<Rightarrow> 'w kstate \<Rightarrow> (int \<times> 'w kstate) option" where
  "fat12_write node offs sz buf s = Some (- 1, s)"

definition fat12_readdir :: "ptr \<Rightarrow> ptr \<Rightarrow> ptr \<Rightarrow> 'w kstate \<Rightarrow> (int \<times> 'w kstate) option" where
  "fat12_readdir node dirents count s = Some (- 1, s)"

section \<open>File names\<close>

text \<open>A name in the usual notation, and what the driver can represent: a base of one to eight
  characters and an extension of at most three, none of them a space, a dot or a terminator.\<close>

definition dotted :: "u8 list \<Rightarrow> u8 list \<Rightarrow> u8 list" where
  "dotted base ext = base @ (if ext = [] then [] else 46 # ext)"

definition name_chars :: "u8 list \<Rightarrow> bool" where
  "name_chars xs \<longleftrightarrow> (\<forall>c\<in>set xs. c \<noteq> 0 \<and> c \<noteq> 32 \<and> c \<noteq> 46)"

lemma takeWhile_pad: "name_chars xs \<Longrightarrow> takeWhile (\<lambda>c. c \<noteq> 32) (pad_to n xs) = xs"
  by (auto simp: pad_to_def name_chars_def takeWhile_append)

lemma length_pad_to: "length xs \<le> n \<Longrightarrow> length (pad_to n xs) = n"
  by (simp add: pad_to_def)

lemma base_of_dotted:
  assumes "name_chars base" and "length base \<le> 8"
  shows "takeWhile (\<lambda>c. c \<noteq> 46) (take 8 (dotted base ext)) = base"
proof -
  have nb: "\<forall>c\<in>set base. c \<noteq> 46" using assms(1) by (simp add: name_chars_def)
  have "take 8 (dotted base ext) = base @ take (8 - length base) (if ext = [] then [] else 46 # ext)"
    using assms(2) by (simp add: dotted_def)
  moreover have "takeWhile (\<lambda>c. c \<noteq> 46) (take k (if ext = [] then [] else 46 # ext)) = []" for k
    by (cases k) simp_all
  ultimately show ?thesis using nb by (simp add: takeWhile_append2)
qed

lemma normal_to_8_3_dotted:
  assumes "name_chars base" and "length base \<le> 8" and "length ext \<le> 3"
  shows "fat12_normal_to_8_3 (dotted base ext) = pad_to 8 base @ pad_to 3 ext"
proof -
  have "drop (length base) (dotted base ext) = (if ext = [] then [] else 46 # ext)" by (simp add: dotted_def)
  then show ?thesis
    unfolding fat12_normal_to_8_3_def base_of_dotted [OF assms(1,2)] using assms(3) by (simp add: Let_def)
qed

text \<open>Property C39: a file name the driver can represent survives the conversion to the 11 bytes of a
  directory entry and back.\<close>

theorem fat12_name_roundtrip:
  assumes "name_chars base" and "name_chars ext" and "length base \<le> 8" and "length ext \<le> 3"
  shows "length (fat12_normal_to_8_3 (dotted base ext)) = 11
     \<and> fat12_8_3to_normal (fat12_normal_to_8_3 (dotted base ext)) = dotted base ext"
proof -
  have len: "length (pad_to 8 base) = 8" "length (pad_to 3 ext) = 3" using assms by (simp_all add: length_pad_to)
  have "(pad_to 8 base @ pad_to 3 ext) ! 8 = pad_to 3 ext ! 0" using len by (simp add: nth_append)
  moreover have "pad_to 3 ext ! 0 = 32 \<longleftrightarrow> ext = []"
    using assms(2) by (cases ext) (auto simp: pad_to_def name_chars_def)
  ultimately have "fat12_8_3to_normal (pad_to 8 base @ pad_to 3 ext) = dotted base ext"
    using len assms by (simp add: fat12_8_3to_normal_def takeWhile_pad dotted_def)
  then show ?thesis using len assms by (simp add: normal_to_8_3_dotted)
qed

theorem fat12_name_roundtrip_witness:
  "fat12_8_3to_normal (fat12_normal_to_8_3 [75, 69, 82, 78, 46, 66, 73, 78]) = [75, 69, 82, 78, 46, 66, 73, 78]"
  using fat12_name_roundtrip [of "[75, 69, 82, 78]" "[66, 73, 78]"] by (simp add: name_chars_def dotted_def)

section \<open>The file allocation table\<close>

text \<open>The packing of 12-bit entries, two in three bytes.\<close>

fun fat_pack :: "u16 list \<Rightarrow> u8 list" where
  "fat_pack (a # b # es) =
     ucast a # ucast (drop_bit 8 a OR push_bit 4 (b AND 0xF)) # ucast (drop_bit 4 b) # fat_pack es"
| "fat_pack [a] = [ucast a, ucast (drop_bit 8 a)]"
| "fat_pack [] = []"

lemma fat12_mask: "(0x0FFF :: u16) = mask 12" "(0xF :: u16) = mask 4" "(1 :: u16) = mask 1"
  by (simp_all add: mask_eq_exp_minus_1)

lemma get_fentry_shift:
  assumes "i + 2 < 65536"
  shows "fat12_get_fentry (x # y # z # t) (of_nat (i + 2)) = fat12_get_fentry t (of_nat i)"
proof -
  have "unat (of_nat k :: u16) = k" if "k < 65536" for k using that by (simp add: unat_of_nat)
  then have u: "unat (of_nat (i + 2) :: u16) = i + 2" "unat (of_nat i :: u16) = i" using assms by (blast, simp)
  have off: "((i + 2) * 3) div 2 = 3 + (i * 3) div 2" by simp
  have le: "le16 (x # y # z # t) (3 + k) = le16 t k" for k by (simp add: le16_def numeral_3_eq_3)
  have par: "((of_nat (i + 2) :: u16) AND 1 \<noteq> 0) = ((of_nat i :: u16) AND 1 \<noteq> 0)"
    by (simp add: and_one_eq mod_2_eq_odd)
  show ?thesis unfolding fat12_get_fentry_def u off par by (simp add: Let_def le)
qed

lemma twelve_bits: "a < (0x1000 :: u16) \<Longrightarrow> 12 \<le> n \<Longrightarrow> \<not> bit a n"
proof -
  assume "a < 0x1000" "12 \<le> n"
  then have "take_bit 12 a = a"
    by (intro unsigned_word_eqI [where ?'a = nat]) (simp add: unsigned_take_bit_eq take_bit_nat_def word_less_nat_alt)
  then show ?thesis using \<open>12 \<le> n\<close> by (metis bit_take_bit_iff not_le)
qed

lemma twelve_bits_less: "bit a n \<Longrightarrow> a < (0x1000 :: u16) \<Longrightarrow> n < 12"
  using twelve_bits not_le by blast

lemma fentry_even: "a < 0x1000 \<Longrightarrow>
  ((ucast (ucast a :: u8) OR push_bit 8 (ucast (ucast (drop_bit 8 a OR push_bit 4 (b AND 0xF)) :: u8))) AND 0x0FFF) AND 0xFFF = (a :: u16)"
  unfolding fat12_mask by (intro bit_word_eqI) (auto simp: bit_simps twelve_bits dest: twelve_bits_less)

lemma fentry_odd: "a < 0x1000 \<Longrightarrow> b < 0x1000 \<Longrightarrow>
  drop_bit 4 (ucast (ucast (drop_bit 8 a OR push_bit 4 (b AND 0xF)) :: u8) OR push_bit 8 (ucast (ucast (drop_bit 4 b) :: u8))) AND 0xFFF = (b :: u16)"
proof -
  assume ab: "a < 0x1000" "b < 0x1000"
  have b: "n < 4 \<or> n < 12 \<and> 4 + (n - 4) = n" if "bit b n" for n using twelve_bits_less [OF that ab(2)] by linarith
  show ?thesis
    unfolding fat12_mask by (intro bit_word_eqI) (use ab b in \<open>auto simp: bit_simps twelve_bits dest: b, metis\<close>)
qed

lemma fentry_last: "a < 0x1000 \<Longrightarrow>
  ((ucast (ucast a :: u8) OR push_bit 8 (ucast (ucast (drop_bit 8 a) :: u8))) AND 0x0FFF) AND 0xFFF = (a :: u16)"
  unfolding fat12_mask by (intro bit_word_eqI) (auto simp: bit_simps twelve_bits dest: twelve_bits_less)

text \<open>Property C40: the entry read for a cluster is the 12-bit value the table stores for it, whether the
  cluster number is even or odd.\<close>

theorem fat12_fat_roundtrip:
  assumes "i < length es" and "length es \<le> 65536" and "\<forall>e\<in>set es. e < 0x1000"
  shows "fat12_get_fentry (fat_pack es) (of_nat i) = Some (es ! i)"
  using assms
proof (induction es arbitrary: i rule: fat_pack.induct)
  case (1 a b es)
  then have ab: "a < 0x1000" "b < 0x1000" by simp_all
  consider "i = 0" | "i = 1" | j where "i = j + 2" by (metis One_nat_def Suc_eq_plus1 add_2_eq_Suc' not0_implies_Suc)
  then show ?case
  proof cases
    case 1
    then show ?thesis using fentry_even [OF ab(1)] by (simp add: fat12_get_fentry_def le16_def FAT12_CLUSTER_MASK_def Let_def)
  next
    case 2
    then show ?thesis
      using fentry_odd [OF ab] by (simp add: fat12_get_fentry_def le16_def FAT12_CLUSTER_MASK_def Let_def)
  next
    case (3 j)
    then have "fat12_get_fentry (fat_pack (a # b # es)) (of_nat i) = fat12_get_fentry (fat_pack es) (of_nat j)"
      using 1(3,2) by (simp only: fat_pack.simps) (rule get_fentry_shift, simp)
    then show ?thesis using 1 \<open>i = j + 2\<close> by simp
  qed
next
  case (2 a)
  then show ?case using fentry_last [of a] by (simp add: fat12_get_fentry_def le16_def FAT12_CLUSTER_MASK_def Let_def)
qed simp

theorem fat12_fat_roundtrip_witness: "fat12_get_fentry (fat_pack [0xFF0, 0xFFF, 3, 0xFFF]) 2 = Some 3"
  using fat12_fat_roundtrip [of 2 "[0xFF0, 0xFFF, 3, 0xFFF]"] by simp

end
