(* ===== verification/Fs_Fat12_Read.thy ===== *)
theory Fs_Fat12_Read
  imports Fs_Fat12
begin

text \<open>
  Reading a file from a FAT12 volume. The interface to the device is the locale \<open>block_disk\<close>: blocks can
  be read and the device stays readable. On it, the loop of \<^verbatim>\<open>fat12_read\<close> over a cluster chain copies the
  bytes the file has there.
\<close>

section \<open>A device whose blocks can be read\<close>

text \<open>What the file system needs of a block device: while the state of the device satisfies \<open>I\<close>, a
  read of one of the first \<open>n\<close> blocks returns, gives the 512 bytes of that block and keeps \<open>I\<close>. The
  state of the device may change, as it does on real hardware.\<close>

definition reads_disk :: "ptr \<Rightarrow> ('w blk_state \<Rightarrow> 'w \<Rightarrow> bool) \<Rightarrow> (nat \<Rightarrow> u8 list) \<Rightarrow> nat \<Rightarrow> bool" where
  "reads_disk dev I disk n \<longleftrightarrow>
     n \<le> 4294967296 \<and> (\<forall>lba<n. length (disk lba) = 512)
     \<and> (\<forall>s lba b. I (ks_blk s) (ks_world s) \<and> lba < n \<and> 512 \<le> length b \<longrightarrow>
          (\<exists>w. kblkread dev (of_nat lba) b s = Some (disk lba @ drop 512 b, s\<lparr>ks_world := w\<rparr>) \<and> I (ks_blk s) w))"

locale block_disk =
  fixes dev :: ptr and I :: "'w blk_state \<Rightarrow> 'w \<Rightarrow> bool" and disk :: "nat \<Rightarrow> u8 list" and nblk :: nat
  assumes readable: "reads_disk dev I disk nblk"
begin

lemma disk_length: "unat lba < nblk \<Longrightarrow> length (disk (unat lba)) = 512"
  using readable by (simp add: reads_disk_def)

lemma disk_read:
  assumes "I (ks_blk s) (ks_world s)" and "unat lba < nblk" and "512 \<le> length b"
  obtains w where "kblkread dev lba b s = Some (disk (unat lba) @ drop 512 b, s\<lparr>ks_world := w\<rparr>)" and "I (ks_blk s) w"
proof -
  have "kblkread dev (of_nat (unat lba)) b s = kblkread dev lba b s" by simp
  then show ?thesis using that assms readable unfolding reads_disk_def by metis
qed

end

section \<open>Following a cluster chain\<close>

text \<open>The clusters of a list are linked in the table, one after the other, all of them data clusters.\<close>

definition fat12_chain :: "u8 list \<Rightarrow> u16 list \<Rightarrow> bool" where
  "fat12_chain fat cs \<longleftrightarrow>
     (\<forall>c\<in>set cs. 2 \<le> c \<and> c < FAT12_EOC_MIN \<and> fat12_get_fentry fat c \<noteq> None)
     \<and> (\<forall>i. Suc i < length cs \<longrightarrow> fat12_get_fentry fat (cs ! i) = Some (cs ! Suc i))"

lemma fat12_chain_Cons:
  assumes "fat12_chain fat (c # cs)"
  shows "c < FAT12_EOC_MIN" "2 \<le> c" "fat12_chain fat cs" "\<exists>v. fat12_get_fentry fat c = Some v \<and> (cs \<noteq> [] \<longrightarrow> v = hd cs)"
proof -
  show "c < FAT12_EOC_MIN" "2 \<le> c" using assms by (simp_all add: fat12_chain_def)
  show "fat12_chain fat cs" using assms unfolding fat12_chain_def by (metis list.set_intros(2) length_Cons Suc_less_eq nth_Cons_Suc)
  obtain v where v: "fat12_get_fentry fat c = Some v" using assms by (auto simp: fat12_chain_def)
  moreover have "v = hd cs" if "cs \<noteq> []"
    using assms v that unfolding fat12_chain_def by (cases cs) (auto dest: spec [of _ 0])
  ultimately show "\<exists>v. fat12_get_fentry fat c = Some v \<and> (cs \<noteq> [] \<longrightarrow> v = hd cs)" by blast
qed

lemma fat12_chain_drop: "fat12_chain fat cs \<Longrightarrow> fat12_chain fat (drop k cs)"
  unfolding fat12_chain_def using set_drop_subset [of k cs] by auto

lemma fat12_chain_take: "fat12_chain fat cs \<Longrightarrow> fat12_chain fat (take k cs)"
  unfolding fat12_chain_def using set_take_subset [of k cs] by auto

text \<open>The bytes of a list of clusters as the driver sees them: it reads the first sector of a cluster into its
  buffer, and behind that sector the buffer keeps what it held, \<open>pad\<close>. With one sector per cluster \<open>pad\<close> is empty.\<close>

definition cluster_bytes :: "(nat \<Rightarrow> u8 list) \<Rightarrow> fat12_handle_t \<Rightarrow> fat12_bpb_t \<Rightarrow> u8 list \<Rightarrow> u16 list \<Rightarrow> u8 list" where
  "cluster_bytes disk fs bpb pad cs = concat (map (\<lambda>c. disk (unat (fat12_cluster_to_lba fs bpb c)) @ pad) cs)"

lemma memcpy_into_at:
  assumes "off + k \<le> length dst" and "unat woff = off" and "unat wstart = st" and "unat wn = k" and "st + k \<le> length src"
  shows "memcpy_into dst woff src wstart wn = Some (take off dst @ take k (drop st src) @ drop (off + k) dst)"
  using assms by (simp add: memcpy_into_def)

lemma take_drop_block:
  assumes "length blk = B" and "st \<le> en" and "en \<le> B"
  shows "take (en - st) (drop st (blk @ rest)) = take (en - st) (drop st blk)"
  using assms by simp

context block_disk
begin

lemma fat12_read_loop_step:
  assumes "fh_block_dev fs = dev" and "I (ks_blk s) (ks_world s)" and "fat12_chain fat (c # cs)"
    and "unat (fat12_cluster_to_lba fs bpb c) < nblk" and "length rb = B" and "drop 512 rb = pad" and B: "unat bpc = B" "512 \<le> B"
    and st: "unat st = (if Suc n = tot then unat (offs mod bpc) else 0)"
    and en: "unat en = (if n = 0 \<and> unat (offs + sz) mod B \<noteq> 0 then unat (offs + sz) mod B else B)"
    and le: "unat st \<le> unat en" and fit: "unat br + (unat en - unat st) \<le> length buf"
    and blk: "blk = disk (unat (fat12_cluster_to_lba fs bpb c)) @ pad"
  obtains v w where "I (ks_blk s) w" and "cs \<noteq> [] \<longrightarrow> v = hd cs"
    and "fat12_read_loop fs bpb fat bpc offs sz tot (Suc n) c br rb buf s =
      fat12_read_loop fs bpb fat bpc offs sz tot n v (br + (en - st)) blk
        (take (unat br) buf @ take (unat en - unat st) (drop (unat st) blk) @ drop (unat br + (unat en - unat st)) buf)
        (s\<lparr>ks_world := w\<rparr>)"
proof -
  let ?lba = "fat12_cluster_to_lba fs bpb c"
  obtain v where v: "fat12_get_fentry fat c = Some v" "cs \<noteq> [] \<longrightarrow> v = hd cs"
    using fat12_chain_Cons(4) [OF assms(3)] by blast
  have blen: "length blk = B" using disk_length [OF assms(4)] blk assms(5,6) B(2) by auto
  obtain w where w: "kblkread dev ?lba rb s = Some (blk, s\<lparr>ks_world := w\<rparr>)" "I (ks_blk s) w"
    using disk_read [OF assms(2,4), of rb] assms(5,6) B(2) blk by auto
  have enB: "unat en \<le> B" using en B(2) by (auto simp: less_imp_le split: if_splits)
  have st': "(if Suc n = tot then offs mod bpc else 0) = st" using st by (simp add: word_unat_eq_iff)
  have bpc0: "bpc \<noteq> 0" using B by auto
  have en': "(if (if n = 0 then (offs + sz) mod bpc else bpc) = 0 then bpc else (if n = 0 then (offs + sz) mod bpc else bpc)) = en"
    using en B bpc0 by (auto simp: word_unat_eq_iff unat_mod)
  have sub: "unat (en - st) = unat en - unat st" using le by (simp add: unat_sub word_le_nat_alt)
  have "memcpy_into buf br blk st (en - st) = Some (take (unat br) buf @ take (unat en - unat st) (drop (unat st) blk)
      @ drop (unat br + (unat en - unat st)) buf)"
    by (rule memcpy_into_at) (use fit sub enB le blen in auto)
  then have "fat12_read_loop fs bpb fat bpc offs sz tot (Suc n) c br rb buf s =
      fat12_read_loop fs bpb fat bpc offs sz tot n v (br + (en - st)) blk
        (take (unat br) buf @ take (unat en - unat st) (drop (unat st) blk) @ drop (unat br + (unat en - unat st)) buf)
        (s\<lparr>ks_world := w\<rparr>)"
    using v w fat12_chain_Cons(1) [OF assms(3), THEN not_le [THEN iffD2]] assms(1)
    unfolding fat12_read_loop.simps Let_def st' en' by simp
  then show ?thesis using that v(2) w(2) by blast
qed

end

text \<open>How many blocks of \<open>B\<close> bytes a length takes, as the driver counts them, and where it ends in the last one.\<close>

lemma blocks_needed:
  fixes x :: nat
  assumes "0 < x" and "0 < B" and "tot = x div B + (if x mod B \<noteq> 0 then 1 else 0)"
  shows "0 < tot" "B * (tot - 1) < x" "x \<le> B * tot"
    "x = B * (tot - 1) + (if x mod B = 0 then B else x mod B)"
proof -
  have d: "x = B * (x div B) + x mod B" by simp
  have r: "x mod B < B" using assms(2) by simp
  have "0 < tot \<and> B * (tot - 1) < x \<and> x \<le> B * tot \<and> x = B * (tot - 1) + (if x mod B = 0 then B else x mod B)"
  proof (cases "x mod B = 0")
    case True
    then have t: "tot = x div B" "0 < tot" using assms d by (auto intro: Nat.gr0I)
    then have "B * tot = x" "B * tot = B * (tot - 1) + B" using d True by (simp, metis Suc_diff_1 add.commute mult_Suc_right)
    then show ?thesis unfolding if_P [OF True] using t assms(2) by (intro conjI) linarith+
  next
    case False
    then have "0 < tot" "B * tot = B * (x div B) + B" "B * (tot - 1) = B * (x div B)" using assms(3) by simp_all
    then show ?thesis unfolding if_not_P [OF False] using False d r by (intro conjI) linarith+
  qed
  then show "0 < tot" "B * (tot - 1) < x" "x \<le> B * tot" "x = B * (tot - 1) + (if x mod B = 0 then B else x mod B)" by blast+
qed

lemma length_splice: "length xs = k \<Longrightarrow> off + k \<le> length buf \<Longrightarrow> length (take off buf @ xs @ drop (off + k) buf) = length buf"
  by simp

lemma drop_splice:
  "length xs = k \<Longrightarrow> off + k \<le> length buf \<Longrightarrow> drop (off + k + j) (take off buf @ xs @ drop (off + k) buf) = drop (off + k + j) buf"
  by (simp add: add.commute)

lemma take_append_blocks:
  assumes "length blk = B" and "st \<le> B"
  shows "take (B - st + m) (drop st (blk @ rest)) = drop st blk @ take m rest"
  using assms by simp

context block_disk
begin

text \<open>The whole loop: from the byte \<open>st\<close> of the first cluster to the byte \<open>en\<close> of the last one.\<close>

lemma fat12_read_loop_copies:
  assumes "fh_block_dev fs = dev" and "I (ks_blk s) (ks_world s)" and "fat12_chain fat cs" and "length cs = n" and "0 < n"
    and "\<forall>c\<in>set cs. unat (fat12_cluster_to_lba fs bpb c) < nblk" and "length rb = B" and "drop 512 rb = pad"
    and B: "unat bpc = B" "512 \<le> B"
    and "st = (if n = tot then unat (offs mod bpc) else 0)"
    and "en = (if unat (offs + sz) mod B = 0 then B else unat (offs + sz) mod B)"
    and "need = B * (n - 1) + en - st" and "n = 1 \<longrightarrow> st \<le> en" and "n \<le> tot"
    and "unat br + need \<le> length buf" and "unat br + need < 4294967296"
  shows "\<exists>w. fat12_read_loop fs bpb fat bpc offs sz tot n (hd cs) br rb buf s =
      Some (take (unat br) buf @ take need (drop st (cluster_bytes disk fs bpb pad cs)) @ drop (unat br + need) buf,
        s\<lparr>ks_world := w\<rparr>) \<and> I (ks_blk s) w"
  using assms(1-8,11-)
proof (induction n arbitrary: s cs br rb buf st need)
  case 0
  from 0(5) show ?case by simp
next
  case (Suc n)
  obtain c ds where cs: "cs = c # ds" using Suc.prems(4) by (cases cs) simp_all
  let ?blk = "disk (unat (fat12_cluster_to_lba fs bpb c)) @ pad"
  let ?en = "if n = 0 then en else B"
  have lba: "unat (fat12_cluster_to_lba fs bpb c) < nblk" using Suc.prems(6) cs by simp
  have blen: "length ?blk = B" using disk_length [OF lba] Suc.prems(7,8) B(2) by auto
  have pad: "drop 512 ?blk = pad" using disk_length [OF lba] by simp
  have small: "B < 4294967296" using unat_u32_bound [of bpc] B(1) by simp
  have off: "unat (offs mod bpc) < B" using B by (simp add: unat_mod)
  have stB: "st < B" using Suc.prems(9) off B(2) by (simp split: if_splits)
  have en: "0 < en" "en \<le> B" using Suc.prems(10) B(2) by (auto simp: less_imp_le)
  have le: "st \<le> ?en" using Suc.prems(12) stB by (simp split: if_splits)
  have need: "?en - st \<le> need" using Suc.prems(11) by (cases n) auto
  have u: "unat (of_nat st :: u32) = st" "unat (of_nat ?en :: u32) = ?en" using stB en small by (simp_all add: unat_of_nat_u32)
  have chain: "fat12_chain fat (c # ds)" using Suc.prems(3) cs by simp
  have ust: "unat (of_nat st :: u32) = (if Suc n = tot then unat (offs mod bpc) else 0)"
    using Suc.prems(9) u(1) by simp
  have uen: "unat (of_nat ?en :: u32) = (if n = 0 \<and> unat (offs + sz) mod B \<noteq> 0 then unat (offs + sz) mod B else B)"
    unfolding u(2) using Suc.prems(10) by simp
  have ule: "unat (of_nat st :: u32) \<le> unat (of_nat ?en :: u32)" unfolding u by (rule le)
  have fit: "unat br + (unat (of_nat ?en :: u32) - unat (of_nat st :: u32)) \<le> length buf"
    unfolding u using Suc.prems(14) need by linarith
  obtain v w where step: "I (ks_blk s) w" "ds \<noteq> [] \<longrightarrow> v = hd ds"
    "fat12_read_loop fs bpb fat bpc offs sz tot (Suc n) c br rb buf s =
      fat12_read_loop fs bpb fat bpc offs sz tot n v (br + (of_nat ?en - of_nat st)) ?blk
        (take (unat br) buf @ take (?en - st) (drop st ?blk) @ drop (unat br + (?en - st)) buf) (s\<lparr>ks_world := w\<rparr>)"
    by (rule fat12_read_loop_step [OF Suc.prems(1,2) chain lba Suc.prems(7,8) B ust uen ule fit refl, unfolded u])
  show ?case
  proof (cases "n = 0")
    case True
    then have "need = en - st" "ds = []" using Suc.prems(4,11) cs by simp_all
    moreover have "take (en - st) (drop st (?blk @ rest)) = take (en - st) (drop st ?blk)" for rest
      using take_drop_block [OF blen] le en True by simp
    ultimately show ?thesis using step True cs by (auto simp: cluster_bytes_def)
  next
    case False
    let ?br = "br + (of_nat B - of_nat st) :: u32"
    let ?buf = "take (unat br) buf @ drop st ?blk @ drop (unat br + (B - st)) buf"
    have needs: "need = (B - st) + (B * (n - 1) + en - 0)" using Suc.prems(11) False stB by (cases n) simp_all
    have "unat (of_nat B - of_nat st :: u32) = B - st" using stB u(1) small by (simp add: unat_sub word_le_nat_alt unat_of_nat_u32)
    then have br: "unat ?br = unat br + (B - st)"
      using Suc.prems(15) needs by (simp add: unat_word_ariths)
    have buf: "take (B - st) (drop st ?blk) = drop st ?blk" using blen by simp
    have dl: "length (drop st ?blk) = B - st" using blen by (metis length_drop)
    have "\<exists>w'. fat12_read_loop fs bpb fat bpc offs sz tot n (hd ds) ?br ?blk ?buf (s\<lparr>ks_world := w\<rparr>) =
      Some (take (unat ?br) ?buf @ take (B * (n - 1) + en - 0) (drop 0 (cluster_bytes disk fs bpb pad ds))
        @ drop (unat ?br + (B * (n - 1) + en - 0)) ?buf, (s\<lparr>ks_world := w\<rparr>)\<lparr>ks_world := w'\<rparr>) \<and> I (ks_blk (s\<lparr>ks_world := w\<rparr>)) w'"
    proof (rule Suc.IH [OF Suc.prems(1) _ fat12_chain_Cons(3) [OF chain] _ _ _ blen pad _ Suc.prems(10) refl])
      show "unat ?br + (B * (n - 1) + en - 0) \<le> length ?buf"
        using Suc.prems(14) br needs length_splice [OF dl, of "unat br" buf] by linarith
      show "unat ?br + (B * (n - 1) + en - 0) < 4294967296" using Suc.prems(15) br needs by simp
      show "I (ks_blk (s\<lparr>ks_world := w\<rparr>)) (ks_world (s\<lparr>ks_world := w\<rparr>))" using step(1) by simp
      show "length ds = n" "0 < n" "n \<le> tot" using Suc.prems(4,13) cs False by simp_all
      show "\<forall>c\<in>set ds. unat (fat12_cluster_to_lba fs bpb c) < nblk" using Suc.prems(6) cs by simp
      show "0 = (if n = tot then unat (offs mod bpc) else 0)" using Suc.prems(13) by simp
    qed simp
    then obtain w' where w': "fat12_read_loop fs bpb fat bpc offs sz tot n (hd ds) ?br ?blk ?buf (s\<lparr>ks_world := w\<rparr>) =
      Some (take (unat ?br) ?buf @ take (B * (n - 1) + en) (cluster_bytes disk fs bpb pad ds)
        @ drop (unat ?br + (B * (n - 1) + en)) ?buf, s\<lparr>ks_world := w'\<rparr>)" "I (ks_blk s) w'" by auto
    have "take (unat ?br) ?buf = take (unat br) buf @ drop st ?blk"
      using br blen stB Suc.prems(14) needs by simp
    moreover have "drop (unat ?br + (B * (n - 1) + en)) ?buf = drop (unat br + need) buf"
      using drop_splice [OF dl, of "unat br" buf "B * (n - 1) + en"] br Suc.prems(14) needs by (simp add: add.assoc)
    moreover have "take need (drop st (cluster_bytes disk fs bpb pad cs)) = drop st ?blk @ take (B * (n - 1) + en) (cluster_bytes disk fs bpb pad ds)"
      using take_append_blocks [OF blen, of st "B * (n - 1) + en" "cluster_bytes disk fs bpb pad ds"] stB needs cs
      by (simp add: cluster_bytes_def)
    moreover have "fat12_read_loop fs bpb fat bpc offs sz tot (Suc n) (hd cs) br rb buf s =
      fat12_read_loop fs bpb fat bpc offs sz tot n (hd ds) ?br ?blk ?buf (s\<lparr>ks_world := w\<rparr>)"
    proof -
      have "v = hd ds" using step(2) Suc.prems(4) cs False by auto
      then show ?thesis using step(3) buf False cs by (simp only: if_False list.sel(1))
    qed
    ultimately show ?thesis using w' by (auto simp only: append_assoc)
  qed
qed

end

lemma concat_blocks_drop: "(\<And>x. x \<in> set xs \<Longrightarrow> length x = n) \<Longrightarrow> drop (n * k) (concat xs) = concat (drop k xs)"
proof (induction k arbitrary: xs)
  case (Suc k)
  then show ?case by (cases xs) (simp_all add: Suc.prems)
qed simp

lemma concat_blocks_take: "(\<And>x. x \<in> set xs \<Longrightarrow> length x = n) \<Longrightarrow> take (n * k) (concat xs) = concat (take k xs)"
proof (induction k arbitrary: xs)
  case (Suc k)
  then show ?case by (cases xs) (simp_all add: Suc.prems)
qed simp

text \<open>A window into a list of equally long blocks, from the blocks it lies in.\<close>

lemma concat_blocks_window:
  assumes len: "\<forall>x\<in>set xs. length x = n" and "ofs + m \<le> n * tot"
  shows "take m (drop ofs (concat (take tot (drop k xs)))) = take m (drop (n * k + ofs) (concat xs))"
proof -
  have "concat (take tot (drop k xs)) = take (n * tot) (drop (n * k) (concat xs))"
    using concat_blocks_drop [of xs n k] concat_blocks_take [of "drop k xs" n tot] len by (simp add: in_set_dropD)
  then show ?thesis using assms(2) by (simp add: drop_take take_take min_def ac_simps)
qed

lemma kalloc_temp:
  assumes "heap_ok kh" and "kh_malloc kh s n \<noteq> NULL"
  obtains p bs where "kalloc kh n s = (p, kput p (KBytes bs) s)" "p \<noteq> NULL" "ks_store s p = None" "length bs = unat n"
    "bs = kh_junk kh s n"
    "\<And>w. kfree p ((kput p (KBytes bs) s)\<lparr>ks_world := w\<rparr>) = Some (s\<lparr>ks_world := w\<rparr>)"
proof -
  have n: "ks_store s (kh_malloc kh s n) = None" "length (kh_junk kh s n) = unat n" using assms by (auto simp: heap_ok_def)
  have "kfree (kh_malloc kh s n) ((kput (kh_malloc kh s n) ob s)\<lparr>ks_world := w\<rparr>) = Some (s\<lparr>ks_world := w\<rparr>)" for ob w
    using assms(2) n(1) by (simp add: kfree_def kput_def fun_upd_idem)
  then show ?thesis using that [of "kh_malloc kh s n" "kh_junk kh s n"] assms(2) n by (simp add: kalloc_def Let_def)
qed

lemma get_bytes_store: "ks_store s p = None \<Longrightarrow> get_bytes s q = Some b \<Longrightarrow> q \<noteq> p"
  by (auto simp: get_bytes_def)

text \<open>The length of a read, cut at the end of the file.\<close>

lemma read_length:
  assumes "unat offs < unat fsz" and "unat offs + unat sz0 < 4294967296" and "0 < (sz0 :: u32)"
    and "sz = (if offs + sz0 > fsz then fsz - offs else sz0)"
  shows "unat sz = min (unat sz0) (unat fsz - unat offs)" "0 < unat sz" "unat offs + unat sz \<le> unat fsz"
    "unat (offs + sz) = unat offs + unat sz"
proof -
  have add: "unat (offs + sz0) = unat offs + unat sz0" using assms(2) by (simp add: unat_word_ariths)
  have sub: "unat (fsz - offs) = unat fsz - unat offs" using assms(1) by (simp add: unat_sub word_le_nat_alt)
  show sz: "unat sz = min (unat sz0) (unat fsz - unat offs)"
    using assms(1,4) add sub by (simp add: word_less_nat_alt)
  then show p: "0 < unat sz" "unat offs + unat sz \<le> unat fsz" using assms(1,3) by (simp_all add: word_less_nat_alt)
  then have "unat offs + unat sz < 4294967296" using unat_u32_bound [of fsz] by linarith
  then show "unat (offs + sz) = unat offs + unat sz" by (simp add: unat_word_ariths)
qed

text \<open>The boot sector and the table of a mounted volume with sectors of 512 bytes, in memory.\<close>

definition fat12_tables :: "'w kstate \<Rightarrow> fat12_handle_t \<Rightarrow> fat12_bpb_t \<Rightarrow> u8 list \<Rightarrow> bool" where
  "fat12_tables s fs bpb fat \<longleftrightarrow> (\<exists>bs. get_bytes s (fh_bpb fs) = Some bs \<and> bpb = bpb_of bs)
     \<and> bpb_bytes_per_sector bpb = 512 \<and> 0 < bpb_sectors_per_cluster bpb \<and> get_bytes s (fh_fat_table fs) = Some fat"

text \<open>A file of such a volume with one sector per cluster: its entry, the clusters of its chain, wherever they
  are, and the blocks they are in.\<close>

definition fat12_file :: "'w kstate \<Rightarrow> fat12_handle_t \<Rightarrow> fat12_dir_entry_t \<Rightarrow> u16 list \<Rightarrow> nat \<Rightarrow> bool" where
  "fat12_file s fs entry cs n \<longleftrightarrow>
     (\<exists>bpb fat. fat12_tables s fs bpb fat \<and> bpb_sectors_per_cluster bpb = 1 \<and> fat12_chain fat cs
        \<and> (\<forall>c\<in>set cs. unat (fat12_cluster_to_lba fs bpb c) < n))
     \<and> cs \<noteq> [] \<and> hd cs = de_first_cluster_low entry \<and> length cs \<le> 4096 \<and> unat (de_file_size entry) \<le> 512 * length cs"

definition file_blocks :: "(nat \<Rightarrow> u8 list) \<Rightarrow> fat12_handle_t \<Rightarrow> u16 list \<Rightarrow> u8 list" where
  "file_blocks disk fs cs = concat (map (\<lambda>c. disk (unat (fh_data_area_start fs + (ucast c - 2)))) cs)"

text \<open>The cluster that the offset falls in has the number the driver computes for it, the first cluster's plus
  the distance. That is so for the first cluster of every file, and for all clusters of a file in one piece.\<close>

definition in_place :: "u16 list \<Rightarrow> nat \<Rightarrow> bool" where
  "in_place cs off \<longleftrightarrow> cs ! (off div 512) = hd cs + of_nat (off div 512)"

lemma in_place_first [simp]: "off < 512 \<Longrightarrow> cs \<noteq> [] \<Longrightarrow> in_place cs off"
  by (simp add: in_place_def hd_conv_nth)

lemma cluster_bytes_file_blocks:
  assumes "fat12_chain fat cs" and "bpb_sectors_per_cluster bpb = 1"
  shows "cluster_bytes disk fs bpb [] cs = file_blocks disk fs cs"
proof -
  have "\<not> c < 2" if "c \<in> set cs" for c using assms(1) that by (auto simp: fat12_chain_def not_less)
  then show ?thesis
    unfolding cluster_bytes_def file_blocks_def fat12_cluster_to_lba_def
    using assms(2) by (intro arg_cong [where f = concat] map_cong) simp_all
qed

lemma ucast_plus_u32: "(ucast (ucast (a :: u16) + (w :: u32)) :: u16) = a + of_nat (unat w)"
proof -
  have "unat a < 65536" using unsigned_less [where ?'a = nat, of a] by simp
  then have "unat (ucast (ucast a + w) :: u16) = (unat a + unat w) mod 4294967296 mod 65536"
    by (simp add: unsigned_ucast_eq take_bit_nat_def unat_word_ariths)
  also have "\<dots> = (unat a + unat w) mod 65536" by (rule mod_mod_cancel) simp
  also have "\<dots> = unat (a + of_nat (unat w))" by (simp add: unat_word_ariths unsigned_ucast_eq take_bit_nat_def mod_add_right_eq)
  finally show ?thesis by (simp add: word_unat_eq_iff)
qed

lemma sint_small: "unat (w :: u32) < 2147483648 \<Longrightarrow> sint w = int (unat w)"
proof -
  have "sint (of_nat n :: u32) = int n" if "n < 2147483648" for n
    using that by (simp add: signed_of_nat signed_take_bit_int_eq_self)
  from this [of "unat w"] show "unat w < 2147483648 \<Longrightarrow> ?thesis" by simp
qed

lemma clusters_count:
  assumes "unat (a :: u32) = x" and "unat (bpc :: u32) = B" and "0 < B" and "x div B \<le> 4096"
  shows "unat (ucast (a div bpc + (if a mod bpc \<noteq> 0 then 1 else 0)) :: u16) = x div B + (if x mod B \<noteq> 0 then 1 else 0)"
proof -
  let ?k = "x div B + (if x mod B \<noteq> 0 then 1 else 0)"
  have k: "?k \<le> 4097" using assms(4) by simp
  have m: "a mod bpc \<noteq> 0 \<longleftrightarrow> x mod B \<noteq> 0" using assms(1,2) by (simp add: word_unat_eq_iff unat_mod)
  have "unat (a div bpc + (if a mod bpc \<noteq> 0 then 1 else 0)) = ?k"
    using k assms(1,2) unfolding m by (simp add: unat_word_ariths unat_div)
  then show ?thesis using k by (simp add: unsigned_ucast_eq take_bit_nat_def)
qed

lemma cluster_size:
  assumes "bpb_bytes_per_sector bpb = 512" and "0 < bpb_sectors_per_cluster bpb" and "B = 512 * unat (bpb_sectors_per_cluster bpb)"
  shows "unat (ucast (bpb_sectors_per_cluster bpb) * ucast (bpb_bytes_per_sector bpb) :: u32) = B" "512 \<le> B" "B \<le> 130560"
proof -
  have l: "unat (bpb_sectors_per_cluster bpb) < 256" using unsigned_less [where ?'a = nat, of "bpb_sectors_per_cluster bpb"] by simp
  show "512 \<le> B" "B \<le> 130560" using l assms(2,3) by (simp_all add: word_less_nat_alt)
  show "unat (ucast (bpb_sectors_per_cluster bpb) * ucast (bpb_bytes_per_sector bpb) :: u32) = B"
    using l assms(1,3) by (simp add: unat_word_ariths unsigned_ucast_eq take_bit_nat_def)
qed

context block_disk
begin

text \<open>A read of a file, whatever its chain and the size of its clusters: the driver goes along the chain that
  starts at the first cluster's number plus the number of whole clusters in the offset.\<close>

lemma fat12_read_file_copies:
  assumes heap: "heap_ok kh" and tab: "fat12_tables s fs bpb fat" and B: "B = 512 * unat (bpb_sectors_per_cluster bpb)"
    and mal: "kh_malloc kh s (of_nat B) \<noteq> NULL" and pad: "pad = drop 512 (kh_junk kh s (of_nat B))"
    and dev: "fh_block_dev fs = dev" and inv: "I (ks_blk s) (ks_world s)"
    and offs: "unat offs < unat (de_file_size entry)" and lim: "unat offs + unat sz0 < 4294967296" and "0 < sz0"
    and m: "m = min (unat sz0) (unat (de_file_size entry) - unat offs)" and "m \<le> length buf"
    and ds: "fat12_chain fat ds" "hd ds = de_first_cluster_low entry + of_nat (unat offs div B)" "length ds \<le> 4096"
      "\<forall>c\<in>set ds. unat (fat12_cluster_to_lba fs bpb c) < nblk" "unat offs mod B + m \<le> B * length ds"
  shows "\<exists>w. fat12_read_file kh fs entry offs sz0 buf s =
      Some (int m, Some (take m (drop (unat offs mod B) (cluster_bytes disk fs bpb pad ds)) @ drop m buf), s\<lparr>ks_world := w\<rparr>) \<and> I (ks_blk s) w"
proof -
  obtain bs where bs: "get_bytes s (fh_bpb fs) = Some bs" "bpb = bpb_of bs" and fat: "get_bytes s (fh_fat_table fs) = Some fat"
    and g: "bpb_bytes_per_sector bpb = 512" "0 < bpb_sectors_per_cluster bpb" using tab by (auto simp: fat12_tables_def)
  define bpc :: u32 where "bpc = ucast (bpb_sectors_per_cluster bpb) * ucast (bpb_bytes_per_sector bpb)"
  have bpc: "unat bpc = B" "512 \<le> B" "B \<le> 130560" unfolding bpc_def by (rule cluster_size [OF g B])+
  have bw: "bpc = of_nat B" "bpc \<noteq> 0" using bpc by auto
  define sz where "sz = (if offs + sz0 > de_file_size entry then de_file_size entry - offs else sz0)"
  have szm: "unat sz = m" "0 < m" "unat offs + m \<le> unat (de_file_size entry)" "unat (offs + sz) = unat offs + m"
    using read_length [OF offs lim assms(10) sz_def] m by argo+
  define r where "r = unat offs mod B"
  have r: "r < B" "unat (offs mod bpc) = r" "unat (offs + sz) mod B = (r + m) mod B"
    unfolding r_def szm(4) using bpc by (simp_all add: unat_mod mod_add_left_eq)
  define tot where "tot = (r + m) div B + (if (r + m) mod B \<noteq> 0 then 1 else 0)"
  have tot: "0 < tot" "B * (tot - 1) < r + m" "r + m \<le> B * tot" "r + m = B * (tot - 1) + (if (r + m) mod B = 0 then B else (r + m) mod B)"
    by (rule blocks_needed [OF _ _ tot_def], use szm(2) bpc(2) in linarith, use bpc(2) in linarith)+
  have "B * (tot - 1) < B * length ds" using tot(2) ds(5) r_def by linarith
  then have n: "tot \<le> length ds" using tot(1) by auto
  obtain rb junk where alloc: "kalloc kh bpc s = (rb, kput rb (KBytes junk) s)" "rb \<noteq> NULL" "ks_store s rb = None"
    "length junk = B" "junk = kh_junk kh s bpc" "\<And>w. kfree rb ((kput rb (KBytes junk) s)\<lparr>ks_world := w\<rparr>) = Some (s\<lparr>ks_world := w\<rparr>)"
    using kalloc_temp [OF heap mal [folded bw(1)]] bpc(1) by auto
  let ?s1 = "kput rb (KBytes junk) s" and ?ds = "take tot ds"
  let ?en = "if unat (offs + sz) mod B = 0 then B else unat (offs + sz) mod B"
  have small: "r + m < 2147483648"
  proof -
    have "B * length ds \<le> 130560 * 4096" using bpc(3) ds(3) by (intro mult_le_mono)
    then show ?thesis using ds(5) r_def by linarith
  qed
  have "\<exists>w. fat12_read_loop fs bpb fat bpc offs sz tot tot (hd ?ds) 0 junk buf ?s1 =
      Some (take (unat (0 :: u32)) buf @ take m (drop r (cluster_bytes disk fs bpb pad ?ds)) @ drop (unat (0 :: u32) + m) buf,
        ?s1\<lparr>ks_world := w\<rparr>) \<and> I (ks_blk ?s1) w"
  proof (rule fat12_read_loop_copies [OF dev _ fat12_chain_take [OF ds(1)] _ tot(1) _ alloc(4) _ bpc(1,2) _ refl])
    show "I (ks_blk ?s1) (ks_world ?s1)" using inv by simp
    show "length ?ds = tot" using n by simp
    show "\<forall>c\<in>set ?ds. unat (fat12_cluster_to_lba fs bpb c) < nblk" using ds(4) by (meson in_set_takeD)
    show "drop 512 junk = pad" using pad alloc(5) bw(1) by simp
    show "r = (if tot = tot then unat (offs mod bpc) else 0)" using r by simp
    show "m = B * (tot - 1) + ?en - r" unfolding r(3) using tot(4) by linarith
    show "tot = 1 \<longrightarrow> r \<le> ?en" using tot(4) r(3) by auto
    show "unat (0 :: u32) + m \<le> length buf" using assms(12) by simp
    show "unat (0 :: u32) + m < 4294967296" using unat_u32_bound [of sz] szm(1) by simp
  qed simp
  moreover have "take m (drop r (cluster_bytes disk fs bpb pad ?ds)) = take m (drop r (cluster_bytes disk fs bpb pad ds))"
  proof -
    have "length (disk (unat (fat12_cluster_to_lba fs bpb c))) = 512" if "c \<in> set ds" for c using that ds(4) disk_length by blast
    moreover have "length pad = B - 512" using alloc(4,5) bw(1) pad by simp
    ultimately have "\<forall>x\<in>set (map (\<lambda>c. disk (unat (fat12_cluster_to_lba fs bpb c)) @ pad) ds). length x = B"
      using bpc(2) by simp
    from concat_blocks_window [OF this tot(3), of 0] show ?thesis by (simp add: cluster_bytes_def take_map)
  qed
  ultimately obtain w where w: "fat12_read_loop fs bpb fat bpc offs sz tot tot (hd ?ds) 0 junk buf ?s1 =
      Some (take m (drop r (cluster_bytes disk fs bpb pad ds)) @ drop m buf, ?s1\<lparr>ks_world := w\<rparr>)" "I (ks_blk s) w" by auto
  have ra: "unat (offs mod bpc + sz) = r + m" using r(2) szm(1) small by (simp add: unat_word_ariths)
  have "(r + m) div B \<le> (B * length ds) div B" using ds(5) r_def by (intro div_le_mono) simp
  then have "(r + m) div B \<le> 4096" using ds(3) bpc(2) by simp
  then have cnt: "unat (ucast ((offs mod bpc + sz) div bpc + (if (offs mod bpc + sz) mod bpc \<noteq> 0 then 1 else 0)) :: u16) = tot"
    unfolding tot_def by (intro clusters_count [OF ra bpc(1)]) (use bpc(2) in linarith)
  have "ds \<noteq> []" using n tot(1) by auto
  then have start: "(ucast (ucast (de_first_cluster_low entry) + offs div bpc) :: u16) = hd ?ds"
    using ds(2) tot(1) bpc(1) by (simp add: ucast_plus_u32 unat_div hd_take)
  have fat1: "get_bytes ?s1 (fh_fat_table fs) = Some fat" using fat get_bytes_store [OF alloc(3) fat] by simp
  have over: "\<not> offs \<ge> de_file_size entry" using offs by (simp add: word_le_nat_alt)
  have "sint sz = int m" using sint_small [of sz] szm(1) small by simp
  then show ?thesis
    unfolding fat12_read_file_def Let_def sz_def [symmetric]
    using bs fat1 alloc w start cnt over bw(2) bpc_def r_def by auto
qed

lemma fat12_read_file_correct:
  assumes heap: "heap_ok kh" "kh_malloc kh s 512 \<noteq> NULL" and dev: "fh_block_dev fs = dev"
    and inv: "I (ks_blk s) (ks_world s)" and fl: "fat12_file s fs entry cs nblk"
    and offs: "unat offs < unat (de_file_size entry)" "unat offs + unat sz0 < 4294967296" "0 < sz0"
    and pl: "in_place cs (unat offs)"
    and m: "m = min (unat sz0) (unat (de_file_size entry) - unat offs)" "m \<le> length buf"
  shows "\<exists>w. fat12_read_file kh fs entry offs sz0 buf s =
      Some (int m, Some (take m (drop (unat offs) (file_blocks disk fs cs)) @ drop m buf), s\<lparr>ks_world := w\<rparr>) \<and> I (ks_blk s) w"
proof -
  obtain bpb fat where t: "fat12_tables s fs bpb fat" "bpb_sectors_per_cluster bpb = 1" "fat12_chain fat cs"
    "\<forall>c\<in>set cs. unat (fat12_cluster_to_lba fs bpb c) < nblk" and f: "cs \<noteq> []" "hd cs = de_first_cluster_low entry" "length cs \<le> 4096"
    "unat (de_file_size entry) \<le> 512 * length cs" using fl by (auto simp: fat12_file_def)
  let ?k = "unat offs div 512" and ?r = "unat offs mod 512"
  have o: "unat offs = 512 * ?k + ?r" by simp
  have end': "512 * ?k + (?r + m) \<le> 512 * length cs" using f(4) m(1) offs(1) o by linarith
  have k: "?k < length cs" using offs(1) f(4) by (simp add: less_mult_imp_div_less mult.commute)
  have len: "length (kh_junk kh s 512) = 512" using heap(1) by (simp add: heap_ok_def)
  have one: "512 = 512 * unat (bpb_sectors_per_cluster bpb)" using t(2) by simp
  have hd: "hd (drop ?k cs) = de_first_cluster_low entry + of_nat ?k" using pl k f(2) by (simp add: hd_drop_conv_nth in_place_def)
  have ds: "\<forall>c\<in>set (drop ?k cs). unat (fat12_cluster_to_lba fs bpb c) < nblk" using t(4) by (meson in_set_dropD)
  have "512 * length (drop ?k cs) + 512 * ?k = 512 * length cs" using k by (simp add: diff_mult_distrib2)
  then have fit: "?r + m \<le> 512 * length (drop ?k cs)" using end' by linarith
  have "\<exists>w. fat12_read_file kh fs entry offs sz0 buf s =
      Some (int m, Some (take m (drop ?r (cluster_bytes disk fs bpb [] (drop ?k cs))) @ drop m buf), s\<lparr>ks_world := w\<rparr>) \<and> I (ks_blk s) w"
    by (rule fat12_read_file_copies [OF heap(1) t(1) one _ _ dev inv offs m fat12_chain_drop [OF t(3)] hd _ ds fit])
      (use heap(2) len f(3) in simp_all)
  moreover have "take m (drop ?r (cluster_bytes disk fs bpb [] (drop ?k cs))) = take m (drop (unat offs) (file_blocks disk fs cs))"
  proof -
    have "\<forall>x\<in>set (map (\<lambda>c. disk (unat (fat12_cluster_to_lba fs bpb c)) @ []) cs). length x = 512"
      using t(4) disk_length by auto
    from concat_blocks_window [OF this, of ?r m "length cs" ?k] fit
    have "take m (drop ?r (cluster_bytes disk fs bpb [] (drop ?k cs))) = take m (drop (512 * ?k + ?r) (cluster_bytes disk fs bpb [] cs))"
      by (simp add: cluster_bytes_def drop_map)
    then show ?thesis using o cluster_bytes_file_blocks [OF t(3,2)] by simp
  qed
  ultimately show ?thesis by simp
qed

end

section \<open>Reading a file\<close>

text \<open>A vnode of an opened file: its inode holds the directory entry and its file system the handle.\<close>

definition fat12_node :: "'w kstate \<Rightarrow> ptr \<Rightarrow> fat12_handle_t \<Rightarrow> fat12_dir_entry_t \<Rightarrow> bool" where
  "fat12_node s node fs entry \<longleftrightarrow> node \<noteq> NULL \<and>
     (\<exists>v f ino. get_vnode s node = Some v \<and> vn_data v \<noteq> NULL \<and> get_inode s (vn_data v) = Some ino \<and> in_dir_entry ino = entry
        \<and> get_vfs s (vn_vfs_ptr v) = Some f \<and> vfs_fs_data f \<noteq> NULL \<and> get_handle s (vfs_fs_data f) = Some fs)"

lemma fat12_read_node:
  assumes "fat12_node s node fs entry" and "de_attributes entry AND FAT12_DIR = 0" and "0 < sz"
  shows "fat12_read kh node offs sz (Some buf) s = fat12_read_file kh fs entry offs sz buf s"
  using assms by (auto simp: fat12_read_def fat12_node_def)

lemma fat12_read_chain:
  assumes "heap_ok kh" and "kh_malloc kh s 512 \<noteq> NULL" and "reads_disk (fh_block_dev fs) I disk n"
    and "I (ks_blk s) (ks_world s)" and "fat12_node s node fs entry" and "de_attributes entry AND FAT12_DIR = 0"
    and "fat12_file s fs entry cs n" and "unat offs + unat sz < 4294967296" and "0 < sz"
    and "unat offs < unat (de_file_size entry) \<longrightarrow> in_place cs (unat offs)"
    and "m = min (unat sz) (unat (de_file_size entry) - unat offs)" and "m \<le> length buf"
  shows "\<exists>w. fat12_read kh node offs sz (Some buf) s =
      Some (int m, Some (take m (drop (unat offs) (file_blocks disk fs cs)) @ drop m buf), s\<lparr>ks_world := w\<rparr>) \<and> I (ks_blk s) w"
proof (cases "unat offs < unat (de_file_size entry)")
  case True
  show ?thesis
    using block_disk.fat12_read_file_correct [OF block_disk.intro [OF assms(3)] assms(1,2) refl assms(4,7) True assms(8,9) _ assms(11,12)] assms(10) True
    by (simp add: fat12_read_node [OF assms(5,6,9)])
next
  case False
  then have "m = 0" "offs \<ge> de_file_size entry" using assms(11) by (simp_all add: word_le_nat_alt)
  moreover have "s\<lparr>ks_world := ks_world s\<rparr> = s" by simp
  ultimately show ?thesis
    using assms(4) by (intro exI [of _ "ks_world s"]) (simp add: fat12_read_node [OF assms(5,6,9)] fat12_read_file_def)
qed


end
