(* ===== verification/Fs_Fat12_Volume.thy ===== *)
theory Fs_Fat12_Volume
  imports Fs_Fat12_Read
begin

text \<open>
  The volume as a whole: the search of the root directory against a plain search over its entries, the
  blocks a mount takes from the heap and an unmount gives back, and the layout a mount computes.
\<close>

section \<open>Searching the root directory\<close>

text \<open>The search as it is meant: over all entries of the directory in order, each with the sector
  and the slot it is in, up to the end marker, passing over deleted entries and volume labels.\<close>

fun dir_find :: "u8 list \<Rightarrow> (nat \<times> nat \<times> u8 list) list \<Rightarrow> (nat \<times> nat \<times> u8 list) option" where
  "dir_find fat_name [] = None"
| "dir_find fat_name ((k, i, e) # es) =
     (if e ! 0 = FAT12_ENDDIR then None
      else if e ! 0 \<noteq> FAT12_DELETED \<and> e ! 11 AND FAT12_VID = 0 \<and> take 11 e = fat_name then Some (k, i, e)
      else dir_find fat_name es)"

definition dir_entries_at :: "(nat \<Rightarrow> u8 list) \<Rightarrow> u32 \<Rightarrow> nat list \<Rightarrow> (nat \<times> nat \<times> u8 list) list" where
  "dir_entries_at disk start ks =
     concat (map (\<lambda>k. map (\<lambda>i. (k, i, dir_slot (disk (unat (start + of_nat k))) i)) [0..<16]) ks)"

lemma fat12_scan_find:
  "dir_find fat_name (map (\<lambda>i. (k, i, dir_slot d i)) is @ rest) =
     (case fat12_scan fat_name d is of
        Scan_End \<Rightarrow> None | Scan_Found i \<Rightarrow> Some (k, i, dir_slot d i) | Scan_More \<Rightarrow> dir_find fat_name rest)"
  by (induction "is") (auto simp: Let_def)

context block_disk
begin

lemma fat12_lookup_loop_finds:
  assumes "fh_block_dev fs = dev" and "I (ks_blk s) (ks_world s)" and "length buf = 512"
    and "\<forall>k\<in>set ks. unat (fh_root_dir_start fs + of_nat k) < nblk"
  shows "\<exists>w. fat12_lookup_loop kh fs dn name fat_name ks buf s =
      (case dir_find fat_name (dir_entries_at disk (fh_root_dir_start fs) ks) of
         None \<Rightarrow> Some (NULL, s\<lparr>ks_world := w\<rparr>)
       | Some (k, i, e) \<Rightarrow> fat12_new_node kh dn name e (fh_root_dir_start fs + of_nat k) i (s\<lparr>ks_world := w\<rparr>))
     \<and> I (ks_blk s) w"
  using assms
proof (induction ks arbitrary: buf s)
  case Nil
  then show ?case by (intro exI [of _ "ks_world s"]) (simp add: dir_entries_at_def)
next
  case (Cons k ks)
  let ?lba = "fh_root_dir_start fs + of_nat k"
  let ?d = "disk (unat ?lba)"
  have lba: "unat ?lba < nblk" using Cons.prems(4) by simp
  obtain w where w: "kblkread dev ?lba buf s = Some (?d, s\<lparr>ks_world := w\<rparr>)" "I (ks_blk s) w"
    using disk_read [OF Cons.prems(2) lba, of buf] Cons.prems(3) by auto
  have find: "dir_find fat_name (dir_entries_at disk (fh_root_dir_start fs) (k # ks)) =
     (case fat12_scan fat_name ?d [0..<16] of Scan_End \<Rightarrow> None | Scan_Found i \<Rightarrow> Some (k, i, dir_slot ?d i)
      | Scan_More \<Rightarrow> dir_find fat_name (dir_entries_at disk (fh_root_dir_start fs) ks))"
    unfolding dir_entries_at_def list.map concat.simps by (rule fat12_scan_find)
  have step: "fat12_lookup_loop kh fs dn name fat_name (k # ks) buf s =
     (case fat12_scan fat_name ?d [0..<16] of Scan_End \<Rightarrow> Some (NULL, s\<lparr>ks_world := w\<rparr>)
      | Scan_Found i \<Rightarrow> fat12_new_node kh dn name (dir_slot ?d i) ?lba i (s\<lparr>ks_world := w\<rparr>)
      | Scan_More \<Rightarrow> fat12_lookup_loop kh fs dn name fat_name ks ?d (s\<lparr>ks_world := w\<rparr>))"
    using w(1) Cons.prems(1) by (simp add: Let_def)
  show ?case
  proof (cases "fat12_scan fat_name ?d [0..<16]")
    case Scan_End
    then show ?thesis unfolding find step using w(2) by auto
  next
    case (Scan_Found i)
    then show ?thesis unfolding find step using w(2) by auto
  next
    case Scan_More
    have "length ?d = 512" using disk_length [OF lba] .
    then obtain w' where w': "fat12_lookup_loop kh fs dn name fat_name ks ?d (s\<lparr>ks_world := w\<rparr>) =
        (case dir_find fat_name (dir_entries_at disk (fh_root_dir_start fs) ks) of
           None \<Rightarrow> Some (NULL, s\<lparr>ks_world := w, ks_world := w'\<rparr>)
         | Some (k, i, e) \<Rightarrow> fat12_new_node kh dn name e (fh_root_dir_start fs + of_nat k) i (s\<lparr>ks_world := w, ks_world := w'\<rparr>))"
      "I (ks_blk s) w'"
      using Cons.IH [of "s\<lparr>ks_world := w\<rparr>" ?d] Cons.prems w(2) by auto
    have "s\<lparr>ks_world := w, ks_world := w'\<rparr> = s\<lparr>ks_world := w'\<rparr>" by simp
    note w' = w' [unfolded this]
    show ?thesis unfolding find step Scan_More using w' by auto
  qed
qed

end

text \<open>A mounted volume: the file system object, its handle and its root vnode, and a directory that lies
  within the first \<open>n\<close> blocks of the device.\<close>

definition fat12_mounted :: "'w kstate \<Rightarrow> ptr \<Rightarrow> vfs \<Rightarrow> fat12_handle_t \<Rightarrow> vnode \<Rightarrow> nat \<Rightarrow> bool" where
  "fat12_mounted s fsys f fs root n \<longleftrightarrow>
     get_vfs s fsys = Some f \<and> vfs_fs_data f \<noteq> NULL \<and> get_handle s (vfs_fs_data f) = Some fs
     \<and> get_vnode s (vfs_vroot f) = Some root \<and> vfs_vroot f \<noteq> NULL \<and> vn_name root = strncpy_array 28 [47] \<and> vn_vfs_ptr root = fsys
     \<and> unat (fh_root_dir_start fs) + unat (fh_root_dir_sectors fs) \<le> n \<and> n \<le> 4294967296"

text \<open>Property C5: opening a path on a mounted volume is the search of its root directory: the driver
  creates a vnode for exactly the entry that \<^const>\<open>dir_find\<close> finds for the path's name in 8.3 form (leading
  slashes skipped), and returns NULL when there is none, for any state the device is in.\<close>

theorem fat12_open_searches:
  assumes "reads_disk (fh_block_dev fs) I disk n" and "I (ks_blk s) (ks_world s)" and "fat12_mounted s fsys f fs root n"
    and "node \<noteq> NULL" and "get_vnode s node = Some v" and "vn_vfs_ptr v = fsys" and "path \<noteq> []" and "512 \<le> length stack"
  shows "\<exists>w. fat12_open kh stack node (Some path) flags s =
      (case dir_find (fat12_normal_to_8_3 (dropWhile (\<lambda>c. c = 47) path))
              (dir_entries_at disk (fh_root_dir_start fs) [0..<unat (fh_root_dir_sectors fs)]) of
         None \<Rightarrow> Some (NULL, s\<lparr>ks_world := w\<rparr>)
       | Some (k, i, e) \<Rightarrow> fat12_new_node kh root path e (fh_root_dir_start fs + of_nat k) i (s\<lparr>ks_world := w\<rparr>))
     \<and> I (ks_blk s) w"
proof -
  have m: "get_vfs s fsys = Some f" "vfs_fs_data f \<noteq> NULL" "get_handle s (vfs_fs_data f) = Some fs"
    "get_vnode s (vfs_vroot f) = Some root" "vn_name root = strncpy_array 28 [47]" "vn_vfs_ptr root = fsys"
    and n: "unat (fh_root_dir_start fs) + unat (fh_root_dir_sectors fs) \<le> n" "n \<le> 4294967296"
    using assms(3) by (simp_all add: fat12_mounted_def)
  have root: "cstr_of (vn_name root) = Some [47]" unfolding m(5) by (rule cstr_of_strncpy) simp_all
  have lbas: "\<forall>k\<in>set [0..<unat (fh_root_dir_sectors fs)]. unat (fh_root_dir_start fs + of_nat k) < n"
    using n by (auto simp: unat_word_ariths)
  have "fat12_open kh stack node (Some path) flags s = fat12_lookup_loop kh fs root path
      (fat12_normal_to_8_3 (dropWhile (\<lambda>c. c = 47) path)) [0..<unat (fh_root_dir_sectors fs)] (take 512 stack) s"
    using assms(4-7) m root by (simp add: fat12_open_def fat12_lookup_def)
  then show ?thesis
    using block_disk.fat12_lookup_loop_finds [OF block_disk.intro [OF assms(1)] refl assms(2) _ lbas] assms(8) by simp
qed

text \<open>Further property: the vnode made for a directory entry is new, refers to the volume it was found on and to
  an inode with that entry, and is a directory exactly when the entry says so; nothing else on the heap
  changes. When the heap cannot provide both structures the result is NULL and the heap is unchanged.\<close>

theorem fat12_new_node_heap:
  assumes "heap_ok kh" and "get_vfs s (vn_vfs_ptr dn) = Some f" and "vfs_fs_data f \<noteq> NULL" and "get_handle s (vfs_fs_data f) = Some fs"
  shows "\<exists>p s'. fat12_new_node kh dn name e sector i s = Some (p, s')
     \<and> (p = NULL \<longrightarrow> s' = s)
     \<and> (p \<noteq> NULL \<longrightarrow> ks_store s p = None \<and> fat12_node s' p fs (dir_entry_of e)
          \<and> (\<forall>q. ks_store s q \<noteq> None \<longrightarrow> ks_store s' q = ks_store s q)
          \<and> (\<exists>v. get_vnode s' p = Some v \<and> (vn_type v = V_DIRECTORY \<longleftrightarrow> e ! 11 AND FAT12_DIR \<noteq> 0)))"
proof -
  obtain p s1 where a1: "kalloc kh sizeof_vnode s = (p, s1)" by fastforce
  obtain q s2 where a2: "kalloc kh sizeof_inode s1 = (q, s2)" by fastforce
  have "de_attributes (dir_entry_of e) = e ! 11" by (simp add: dir_entry_of_def)
  note d = this
  from kalloc_fresh [OF assms(1) a1] show ?thesis
  proof (elim disjE conjE exE)
    assume "p = NULL" "s1 = s"
    then show ?thesis using a1 by (simp add: fat12_new_node_def)
  next
    fix bs assume p: "p \<noteq> NULL" "ks_store s p = None" "s1 = kput p (KBytes bs) s"
    from kalloc_fresh [OF assms(1) a2] show ?thesis
    proof (elim disjE conjE exE)
      assume "q = NULL" "s2 = s1"
      then have "fat12_new_node kh dn name e sector i s = Some (NULL, s)"
        using a1 a2 p by (simp add: fat12_new_node_def kfree_def kput_def fun_upd_idem)
      then show ?thesis by simp
    next
      fix cs assume q: "q \<noteq> NULL" "ks_store s1 q = None" "s2 = kput q (KBytes cs) s1"
      then have pq: "p \<noteq> q" "ks_store s q = None" using p by (auto split: if_splits)
      have "vn_vfs_ptr dn \<noteq> p" "vn_vfs_ptr dn \<noteq> q" "vfs_fs_data f \<noteq> p" "vfs_fs_data f \<noteq> q"
        using assms(2,4) p(2) pq(2) by (auto simp: get_vfs_def get_handle_def)
      then show ?thesis
        using a1 a2 p q pq assms d by (auto simp: fat12_new_node_def Let_def fat12_node_def)
    qed
  qed
qed

section \<open>Mounting and unmounting\<close>

lemma kblkread_state:
  "kblkread dev lba b s = Some (b', s') \<Longrightarrow> \<exists>w. s' = s\<lparr>ks_world := w\<rparr>"
  by (auto simp: kblkread_def Option.bind_eq_Some_conv split: if_splits option.splits)

lemma fat12_load_fat_state:
  "fat12_load_fat dev st bps is t s = Some (t', s') \<Longrightarrow> \<exists>w. s' = s\<lparr>ks_world := w\<rparr>"
proof (induction "is" arbitrary: t s)
  case Nil
  then show ?case by (intro exI [of _ "ks_world s"]) simp
next
  case (Cons i "is")
  then obtain b s1 where "kblkread dev (st + of_nat i) (drop (i * bps) t) s = Some (b, s1)"
    "fat12_load_fat dev st bps is (take (i * bps) t @ b) s1 = Some (t', s')"
    by (auto simp: Option.bind_eq_Some_conv)
  then show ?case using Cons.IH kblkread_state by fastforce
qed

lemma store_world [simp]: "ks_store (s\<lparr>ks_world := w\<rparr>) = ks_store s" "ks_blk (s\<lparr>ks_world := w\<rparr>) = ks_blk s"
  by simp_all

text \<open>The blocks a mounted volume owns: the handle, the boot sector, the table, the file system object, the
  root vnode and its inode.\<close>

definition fat12_owns :: "(ptr \<Rightarrow> kobj option) \<Rightarrow> ptr \<Rightarrow> ptr \<Rightarrow> ptr \<Rightarrow> ptr \<Rightarrow> ptr \<Rightarrow> ptr \<Rightarrow> fat12_handle_t
    \<Rightarrow> u8 list \<Rightarrow> u8 list \<Rightarrow> (ptr \<Rightarrow> kobj option) \<Rightarrow> bool" where
  "fat12_owns st fs boot fat fsys vroot ino h b t st' \<longleftrightarrow>
     distinct [fs, boot, fat, fsys, vroot, ino] \<and> NULL \<notin> {fs, boot, fat, fsys, vroot, ino}
     \<and> (\<forall>p\<in>{fs, boot, fat, fsys, vroot, ino}. st p = None)
     \<and> fh_bpb h = boot \<and> fh_fat_table h = fat
     \<and> st' = st(fs \<mapsto> KHandle h, boot \<mapsto> KBytes b, fat \<mapsto> KBytes t,
         fsys \<mapsto> KVfs \<lparr>vfs_type = FAT12_FS, vfs_vcovered = NULL, vfs_vroot = vroot, vfs_fs_data = fs\<rparr>,
         vroot \<mapsto> KVnode \<lparr>vn_name = strncpy_array 28 [47], vn_mountedhere = NULL, vn_vfs_ptr = fsys,
                      vn_type = V_DIRECTORY, vn_ops = Some FAT12_FS, vn_flags = 0, vn_data = ino\<rparr>,
         ino \<mapsto> KInode \<lparr>in_dir_entry = zero_dir_entry, in_dir_sector = fh_root_dir_start h, in_dir_offset = 0\<rparr>)"

lemma kfree_Some: "ks_store s p \<noteq> None \<Longrightarrow> p \<noteq> NULL \<Longrightarrow> kfree p s = Some (s\<lparr>ks_store := (ks_store s)(p := None)\<rparr>)"
  by (auto simp: kfree_def)

lemma kfree_rest: "kfree p s = Some s' \<Longrightarrow> ks_blk s' = ks_blk s \<and> ks_world s' = ks_world s"
  by (auto simp: kfree_def split: if_splits option.splits)

lemma kalloc_rest: "kalloc kh n s = (p, s') \<Longrightarrow> ks_blk s' = ks_blk s \<and> ks_world s' = ks_world s"
  by (auto simp: kalloc_def Let_def)

lemma fat12_mount_root_rest:
  "fat12_mount_root kh fs h s = Some (p, s') \<Longrightarrow> ks_blk s' = ks_blk s \<and> ks_world s' = ks_world s"
  by (auto simp: fat12_mount_root_def Let_def Option.bind_eq_Some_conv split: if_splits prod.splits dest!: kfree_rest kalloc_rest)

lemma fat12_mount_root_owns:
  assumes "heap_ok kh" and "fat12_mount_root kh fs h s = Some (p, s')" and st: "ks_store s = st(fs \<mapsto> KHandle h, fh_bpb h \<mapsto> KBytes b, fh_fat_table h \<mapsto> KBytes t)"
    and "distinct [fs, fh_bpb h, fh_fat_table h]" and "NULL \<notin> {fs, fh_bpb h, fh_fat_table h}"
    and "\<forall>p\<in>{fs, fh_bpb h, fh_fat_table h}. st p = None"
  shows "(p = NULL \<and> ks_store s' = st) \<or> (\<exists>vroot ino. fat12_owns st fs (fh_bpb h) (fh_fat_table h) p vroot ino h b t (ks_store s'))"
proof -
  obtain fsys s1 where a1: "kalloc kh sizeof_vfs s = (fsys, s1)" by fastforce
  obtain vroot s2 where a2: "kalloc kh sizeof_vnode s1 = (vroot, s2)" by fastforce
  let ?s3 = "kput fsys (KVfs \<lparr>vfs_type = FAT12_FS, vfs_vcovered = NULL, vfs_vroot = vroot, vfs_fs_data = fs\<rparr>) s2"
  obtain ino s4 where a4: "kalloc kh sizeof_inode ?s3 = (ino, s4)" by fastforce
  show ?thesis
  proof (cases "fsys = NULL")
    case True
    then have s1: "s1 = s" using kalloc_fresh [OF assms(1) a1] by simp
    have "ks_store s' = st" "p = NULL"
      using assms(2-6) a1 True s1
      by (auto simp: fat12_mount_root_def kfree_Some Option.bind_eq_Some_conv fun_upd_idem_iff fun_eq_iff)
    then show ?thesis by simp
  next
    case False
    then obtain b1 where f1: "ks_store s fsys = None" "s1 = kput fsys (KBytes b1) s" using kalloc_fresh [OF assms(1) a1] by auto
    have vn: "vroot \<noteq> NULL" using assms(2) a1 a2 False by (auto simp: fat12_mount_root_def)
    then obtain b2 where f2: "ks_store s1 vroot = None" "s2 = kput vroot (KBytes b2) s1" using kalloc_fresh [OF assms(1) a2] by auto
    have inn: "ino \<noteq> NULL" using assms(2) a1 a2 a4 False vn by (auto simp: fat12_mount_root_def)
    then obtain b3 where f3: "ks_store ?s3 ino = None" "s4 = kput ino (KBytes b3) ?s3" using kalloc_fresh [OF assms(1) a4] by auto
    have ne: "fsys \<noteq> fs" "fsys \<noteq> fh_bpb h" "fsys \<noteq> fh_fat_table h" "vroot \<noteq> fsys" "vroot \<noteq> fs" "vroot \<noteq> fh_bpb h" "vroot \<noteq> fh_fat_table h"
      "ino \<noteq> fsys" "ino \<noteq> vroot" "ino \<noteq> fs" "ino \<noteq> fh_bpb h" "ino \<noteq> fh_fat_table h" "st fsys = None" "st vroot = None" "st ino = None"
      using f1 f2 f3 st by (auto split: if_splits)
    have res: "p = fsys" "ks_store s' = (ks_store s)(fsys \<mapsto> KVfs \<lparr>vfs_type = FAT12_FS, vfs_vcovered = NULL, vfs_vroot = vroot, vfs_fs_data = fs\<rparr>,
         vroot \<mapsto> KVnode \<lparr>vn_name = strncpy_array 28 [47], vn_mountedhere = NULL, vn_vfs_ptr = fsys,
                      vn_type = V_DIRECTORY, vn_ops = Some FAT12_FS, vn_flags = 0, vn_data = ino\<rparr>,
         ino \<mapsto> KInode \<lparr>in_dir_entry = zero_dir_entry, in_dir_sector = fh_root_dir_start h, in_dir_offset = 0\<rparr>)"
      using assms(2) a1 a2 a4 False vn inn f1 f2 f3 ne by (auto simp: fat12_mount_root_def fun_eq_iff)
    have "fat12_owns st fs (fh_bpb h) (fh_fat_table h) fsys vroot ino h b t (ks_store s')"
      unfolding fat12_owns_def res(2) st using assms(4-6) ne False vn inn by auto
    then show ?thesis using res(1) by blast
  qed
qed

text \<open>What a successful mount has read: the boot sector into one block, the table into another.\<close>

definition fat12_mount_reads :: "ptr \<Rightarrow> ptr \<Rightarrow> ptr \<Rightarrow> fat12_handle_t \<Rightarrow> u8 list \<Rightarrow> u8 list \<Rightarrow> 'w kstate \<Rightarrow> 'w kstate \<Rightarrow> bool" where
  "fat12_mount_reads dev boot fat h b t s s' \<longleftrightarrow>
     h = (fat12_layout (bpb_of b) boot dev)\<lparr>fh_fat_table := fat\<rparr> \<and> ks_blk s' = ks_blk s
     \<and> (\<exists>junk s2 w tj s5. kblkread dev 0 junk s2 = Some (b, s2\<lparr>ks_world := w\<rparr>) \<and> length junk = 512
          \<and> ks_blk s2 = ks_blk s \<and> ks_world s2 = ks_world s
          \<and> fat12_load_fat dev (fh_fat_start h) (unat (bpb_bytes_per_sector (bpb_of b))) [0..<unat (bpb_sectors_per_fat (bpb_of b))] tj s5
             = Some (t, s5\<lparr>ks_world := ks_world s'\<rparr>)
          \<and> length tj = unat (ucast (bpb_sectors_per_fat (bpb_of b)) * ucast (bpb_bytes_per_sector (bpb_of b)) :: u32)
          \<and> ks_blk s5 = ks_blk s \<and> ks_world s5 = w)"

lemma fat12_mount_owns:
  assumes "heap_ok kh" and mnt: "fat12_mount kh device s = Some (p, s')"
  shows "(p = NULL \<and> ks_store s' = ks_store s)
     \<or> (\<exists>fs boot fat vroot ino h b t. fat12_owns (ks_store s) fs boot fat p vroot ino h b t (ks_store s')
          \<and> fat12_mount_reads (blkdev_get_by_name (ks_blk s) device) boot fat h b t s s')"
proof -
  obtain fs s1 where a1: "kalloc kh sizeof_fat12_handle_t s = (fs, s1)" by fastforce
  obtain boot s2 where a2: "kalloc kh 512 s1 = (boot, s2)" by fastforce
  let ?dev = "blkdev_get_by_name (ks_blk s2) device"
  show ?thesis
  proof (cases "fs = NULL")
    case True
    then show ?thesis using mnt a1 kalloc_fresh [OF assms(1) a1] by (auto simp: fat12_mount_def)
  next
    case fs: False
    then obtain b1 where f1: "ks_store s fs = None" "s1 = kput fs (KBytes b1) s" using kalloc_fresh [OF assms(1) a1] by auto
    show ?thesis
    proof (cases "boot = NULL")
      case True
      then show ?thesis
        using mnt a1 a2 fs f1 kalloc_fresh [OF assms(1) a2] by (auto simp: fat12_mount_def kfree_Some fun_upd_idem)
    next
      case boot: False
      then obtain b2 where f2: "ks_store s1 boot = None" "s2 = kput boot (KBytes b2) s1" "length b2 = 512" using kalloc_fresh [OF assms(1) a2] by auto
      have ne: "boot \<noteq> fs" "ks_store s boot = None" using f1 f2 by (auto split: if_splits)
      show ?thesis
      proof (cases "?dev = NULL")
        case True
        then show ?thesis
          using mnt a1 a2 fs boot f1 f2 ne by (auto simp: fat12_mount_def kfree_Some fun_upd_idem fun_eq_iff Let_def)
      next
        case dev: False
        obtain b s3 where rd: "kblkread ?dev 0 b2 s2 = Some (b, s3)"
          using mnt a1 a2 fs boot dev f2 by (auto simp: fat12_mount_def Option.bind_eq_Some_conv Let_def split: if_splits)
        obtain w where s3: "s3 = s2\<lparr>ks_world := w\<rparr>" using kblkread_state [OF rd] by blast
        let ?bpb = "bpb_of b"
        let ?h = "fat12_layout ?bpb boot ?dev"
        let ?s4 = "kput fs (KHandle ?h) (kput boot (KBytes b) s3)"
        let ?fs = "ucast (bpb_sectors_per_fat ?bpb) * ucast (bpb_bytes_per_sector ?bpb) :: u32"
        obtain fat s5 where a5: "kalloc kh ?fs ?s4 = (fat, s5)" by fastforce
        have bps: "bpb_bytes_per_sector ?bpb \<noteq> 0"
          using mnt a1 a2 fs boot dev f2 rd by (auto simp: fat12_mount_def Option.bind_eq_Some_conv Let_def split: if_splits)
        have s4: "ks_store ?s4 = (ks_store s)(fs \<mapsto> KHandle ?h, boot \<mapsto> KBytes b)"
          using f1 f2 s3 ne by (auto simp: fun_eq_iff)
        show ?thesis
        proof (cases "fat = NULL")
          case True
          then have "s5 = ?s4" using kalloc_fresh [OF assms(1) a5] by simp
          then show ?thesis
            using mnt a1 a2 fs boot dev f1 f2 rd bps a5 True s4 ne
            by (auto simp: fat12_mount_def kfree_Some fun_eq_iff Let_def split: if_splits)
        next
          case fat: False
          then obtain b5 where f5: "ks_store ?s4 fat = None" "s5 = kput fat (KBytes b5) ?s4" "length b5 = unat ?fs" using kalloc_fresh [OF assms(1) a5] by auto
          let ?h1 = "?h\<lparr>fh_fat_table := fat\<rparr>"
          obtain t s6 where ld: "fat12_load_fat ?dev (fh_fat_start ?h) (unat (bpb_bytes_per_sector ?bpb))
              [0..<unat (bpb_sectors_per_fat ?bpb)] b5 s5 = Some (t, s6)"
            and root: "fat12_mount_root kh fs ?h1 (kput fs (KHandle ?h1) (kput fat (KBytes t) s6)) = Some (p, s')"
            using mnt a1 a2 fs boot dev f2 rd bps a5 fat f5(2)
            by (auto simp: fat12_mount_def Option.bind_eq_Some_conv Let_def)
          obtain w2 where s6: "s6 = s5\<lparr>ks_world := w2\<rparr>" using fat12_load_fat_state [OF ld] by blast
          have nf: "fat \<noteq> fs" "fat \<noteq> boot" "ks_store s fat = None"
            using f5(1) unfolding s4 by (auto simp: fun_upd_apply split: if_splits)
          have "ks_store s6 = (ks_store ?s4)(fat \<mapsto> KBytes b5)" unfolding s6 f5(2) by simp
          note s6s = this [unfolded s4]
          have hb: "fh_bpb ?h1 = boot" "fh_fat_table ?h1 = fat" by (simp_all add: fat12_layout_def Let_def)
          have "(p = NULL \<and> ks_store s' = ks_store s)
              \<or> (\<exists>vroot ino. fat12_owns (ks_store s) fs (fh_bpb ?h1) (fh_fat_table ?h1) p vroot ino ?h1 b t (ks_store s'))"
          proof (rule fat12_mount_root_owns [OF assms(1) root, where b = b and t = t])
            show "ks_store (kput fs (KHandle ?h1) (kput fat (KBytes t) s6))
               = (ks_store s)(fs \<mapsto> KHandle ?h1, fh_bpb ?h1 \<mapsto> KBytes b, fh_fat_table ?h1 \<mapsto> KBytes t)"
              unfolding hb kput_simps(1) [of fs] kput_simps(1) [of fat] s6s using nf ne by (auto simp: fun_eq_iff)
          qed (unfold hb, use nf ne fs boot fat f1 in auto)
          moreover have "fat12_mount_reads (blkdev_get_by_name (ks_blk s) device) (fh_bpb ?h1) (fh_fat_table ?h1) ?h1 b t s s'"
          proof -
            have blk: "ks_blk s2 = ks_blk s" "ks_world s2 = ks_world s" "ks_blk s5 = ks_blk s" "ks_world s5 = w"
              using f1(2) f2(2) f5(2) s3 by simp_all
            have rest: "ks_blk s' = ks_blk s" "ks_world s' = w2"
              using fat12_mount_root_rest [OF root] s6 blk by simp_all
            show ?thesis
              unfolding fat12_mount_reads_def hb blk(1) [symmetric]
              using rd s3 ld s6 blk rest f2(3) f5(3) by (intro conjI exI [of _ b2] exI [of _ s2] exI [of _ w] exI [of _ b5] exI [of _ s5]) simp_all
          qed
          ultimately show ?thesis by blast
        qed
      qed
    qed
  qed
qed

lemma fat12_unmount_owns:
  assumes "fat12_owns st fs boot fat fsys vroot ino h b t (ks_store s)"
  shows "\<exists>s2. fat12_unmount fsys s = Some (0, s2) \<and> ks_store s2 = st"
proof -
  have st: "ks_store s = st(fs \<mapsto> KHandle h, boot \<mapsto> KBytes b, fat \<mapsto> KBytes t,
         fsys \<mapsto> KVfs \<lparr>vfs_type = FAT12_FS, vfs_vcovered = NULL, vfs_vroot = vroot, vfs_fs_data = fs\<rparr>,
         vroot \<mapsto> KVnode \<lparr>vn_name = strncpy_array 28 [47], vn_mountedhere = NULL, vn_vfs_ptr = fsys,
                      vn_type = V_DIRECTORY, vn_ops = Some FAT12_FS, vn_flags = 0, vn_data = ino\<rparr>,
         ino \<mapsto> KInode \<lparr>in_dir_entry = zero_dir_entry, in_dir_sector = fh_root_dir_start h, in_dir_offset = 0\<rparr>)"
    and d: "distinct [fs, boot, fat, fsys, vroot, ino]" and n: "NULL \<notin> {fs, boot, fat, fsys, vroot, ino}"
    and e: "\<forall>p\<in>{fs, boot, fat, fsys, vroot, ino}. st p = None" and h: "fh_bpb h = boot" "fh_fat_table h = fat"
    using assms unfolding fat12_owns_def by (simp_all del: fun_upd_apply)
  have "get_vfs s fsys = Some \<lparr>vfs_type = FAT12_FS, vfs_vcovered = NULL, vfs_vroot = vroot, vfs_fs_data = fs\<rparr>"
    "get_handle s fs = Some h"
    using st d by (auto simp: get_vfs_def get_handle_def)
  then show ?thesis
    using d n e h st by (auto simp: fat12_unmount_def kfree_Some get_vnode_def fun_eq_iff)
qed

text \<open>Property C6: mounting and unmounting are balanced. A mount that fails, for want of memory or of the
  device, leaves the heap as it was; after one that succeeds, unmounting returns 0 and frees every block
  the mount allocated, leaving the heap as it was before.\<close>

theorem fat12_mount_unmount:
  assumes "heap_ok kh" and "fat12_mount kh device s = Some (p, s1)"
  shows "if p = NULL then ks_store s1 = ks_store s
     else \<exists>s2. fat12_unmount p s1 = Some (0, s2) \<and> ks_store s2 = ks_store s"
proof (cases "p = NULL")
  case True
  then show ?thesis using fat12_mount_owns [OF assms] by (auto simp: fat12_owns_def)
next
  case False
  then obtain fs boot fat vroot ino h b t where "fat12_owns (ks_store s) fs boot fat p vroot ino h b t (ks_store s1)"
    using fat12_mount_owns [OF assms] by blast
  from fat12_unmount_owns [OF this] show ?thesis using False by simp
qed

context block_disk
begin

lemma fat12_load_fat_blocks:
  assumes "I (ks_blk s) (ks_world s)" and "unat start + k + m \<le> nblk" and "length t = 512 * (k + m)"
  shows "\<exists>w. fat12_load_fat dev start 512 [k..<k + m] t s =
      Some (take (512 * k) t @ concat (map (\<lambda>i. disk (unat start + i)) [k..<k + m]), s\<lparr>ks_world := w\<rparr>) \<and> I (ks_blk s) w"
  using assms
proof (induction m arbitrary: k t s)
  case 0
  then show ?case by (intro exI [of _ "ks_world s"]) simp
next
  case (Suc m)
  let ?lba = "start + of_nat k"
  have "nblk \<le> 4294967296" using readable by (simp add: reads_disk_def)
  then have lba: "unat ?lba = unat start + k" using Suc.prems(2) by (simp add: unat_word_ariths)
  then have lt: "unat ?lba < nblk" using Suc.prems(2) by simp
  have blen: "length (disk (unat start + k)) = 512" using disk_length [OF lt] lba by simp
  have "512 \<le> length (drop (k * 512) t)" using Suc.prems(3) by simp
  then obtain w where w: "kblkread dev ?lba (drop (k * 512) t) s = Some (disk (unat start + k) @ drop 512 (drop (k * 512) t), s\<lparr>ks_world := w\<rparr>)"
    "I (ks_blk s) w"
    using disk_read [OF Suc.prems(1) lt, of "drop (k * 512) t"] lba by auto
  let ?t = "take (k * 512) t @ disk (unat start + k) @ drop 512 (drop (k * 512) t)"
  have tl: "length ?t = 512 * (Suc k + m)" using Suc.prems(3) blen by simp
  have "\<exists>w'. fat12_load_fat dev start 512 [Suc k..<Suc k + m] ?t (s\<lparr>ks_world := w\<rparr>) =
      Some (take (512 * Suc k) ?t @ concat (map (\<lambda>i. disk (unat start + i)) [Suc k..<Suc k + m]), s\<lparr>ks_world := w, ks_world := w'\<rparr>)
      \<and> I (ks_blk (s\<lparr>ks_world := w\<rparr>)) w'"
    by (rule Suc.IH) (use Suc.prems(2) w(2) tl in simp_all)
  then obtain w' where w': "fat12_load_fat dev start 512 [Suc k..<k + Suc m] ?t (s\<lparr>ks_world := w\<rparr>) =
      Some (take (512 * Suc k) ?t @ concat (map (\<lambda>i. disk (unat start + i)) [Suc k..<k + Suc m]), s\<lparr>ks_world := w'\<rparr>)"
    "I (ks_blk s) w'" by auto
  have upt: "[k..<k + Suc m] = k # [Suc k..<k + Suc m]" by (rule upt_conv_Cons) simp
  have "take (512 * Suc k) ?t = take (512 * k) t @ disk (unat start + k)"
    using Suc.prems(3) blen by (simp add: mult.commute)
  then have "fat12_load_fat dev start 512 [k..<k + Suc m] t s =
      Some (take (512 * k) t @ concat (map (\<lambda>i. disk (unat start + i)) [k..<k + Suc m]), s\<lparr>ks_world := w'\<rparr>)"
    unfolding upt using w(1) w'(1) by (simp del: upt_Suc)
  then show ?case using w'(2) by blast
qed

end

lemma fat12_layout_numbers:
  assumes "bpb_bytes_per_sector bpb = 512"
  shows "unat (fh_fat_start (fat12_layout bpb boot dev)) = unat (bpb_hidden_sectors bpb) mod 256 + unat (bpb_rsrvd_cnt bpb)"
    "unat (fh_root_dir_start (fat12_layout bpb boot dev)) =
       unat (bpb_hidden_sectors bpb) mod 256 + unat (bpb_rsrvd_cnt bpb) + unat (bpb_num_fats bpb) * unat (bpb_sectors_per_fat bpb)"
    "unat (fh_root_dir_sectors (fat12_layout bpb boot dev)) = unat (bpb_max_root_dir_entries bpb) div 16"
    "unat (fh_data_area_start (fat12_layout bpb boot dev)) =
       unat (bpb_hidden_sectors bpb) mod 256 + unat (bpb_rsrvd_cnt bpb) + unat (bpb_num_fats bpb) * unat (bpb_sectors_per_fat bpb)
       + unat (bpb_max_root_dir_entries bpb) div 16"
proof -
  let ?h = "unat (bpb_hidden_sectors bpb) mod 256" and ?r = "unat (bpb_rsrvd_cnt bpb)" and ?f = "unat (bpb_num_fats bpb)"
    and ?s = "unat (bpb_sectors_per_fat bpb)" and ?e = "unat (bpb_max_root_dir_entries bpb)"
  have u16: "unat (w :: u16) < 65536" for w using unsigned_less [where ?'a = nat, of w] by simp
  have u8: "unat (w :: u8) < 256" for w using unsigned_less [where ?'a = nat, of w] by simp
  have fs: "?f * ?s \<le> 255 * 65535" by (rule mult_le_mono) (use u8 [of "bpb_num_fats bpb"] u16 [of "bpb_sectors_per_fat bpb"] in linarith)+
  have hid: "unat (ucast (ucast (bpb_hidden_sectors bpb) :: u8) :: u32) = ?h"
    by (simp add: unsigned_ucast_eq unsigned_take_bit_eq take_bit_nat_def mod_mod_cancel)
  have hid8: "unat (ucast (bpb_hidden_sectors bpb) :: u8) = ?h" "?h < 256"
    by (simp_all add: unsigned_ucast_eq take_bit_nat_def)
  have up: "unat (ucast (w :: u16) :: u32) = unat w" "unat (ucast (v :: u8) :: u32) = unat v" for v w
    using u16 [of w] u8 [of v] by (simp_all add: unsigned_ucast_eq take_bit_nat_def)
  have sec: "unat (fh_root_dir_sectors (fat12_layout bpb boot dev)) = ?e div 16"
  proof -
    have "unat ((ucast (bpb_max_root_dir_entries bpb) * 32) div 512 :: u32) = ?e * 32 div 512"
      using u16 [of "bpb_max_root_dir_entries bpb"] by (simp add: unat_word_ariths unat_div up)
    then show ?thesis using assms by (simp add: fat12_layout_def Let_def sizeof_fat12_dir_entry_t_def)
  qed
  have st: "unat (fh_fat_start (fat12_layout bpb boot dev)) = ?h + ?r"
    using u16 [of "bpb_rsrvd_cnt bpb"] hid8(2) by (simp add: fat12_layout_def Let_def unat_word_ariths hid hid8(1) up)
  have root: "fh_root_dir_start (fat12_layout bpb boot dev) = fh_fat_start (fat12_layout bpb boot dev)
      + ucast (bpb_num_fats bpb) * ucast (bpb_sectors_per_fat bpb)"
    "fh_data_area_start (fat12_layout bpb boot dev) = fh_root_dir_start (fat12_layout bpb boot dev)
      + fh_root_dir_sectors (fat12_layout bpb boot dev)" by (simp_all add: fat12_layout_def Let_def)
  have hr: "?h + ?r < 65791" using u16 [of "bpb_rsrvd_cnt bpb"] by simp
  have rs: "unat (fh_root_dir_start (fat12_layout bpb boot dev)) = ?h + ?r + ?f * ?s"
    using fs hr by (simp add: root(1) unat_word_ariths st up)
  moreover have "?e div 16 < 4096" using u16 [of "bpb_max_root_dir_entries bpb"] by simp
  ultimately show "unat (fh_data_area_start (fat12_layout bpb boot dev)) = ?h + ?r + ?f * ?s + ?e div 16"
    using fs hr by (simp add: root(2) unat_word_ariths sec)
  show "unat (fh_fat_start (fat12_layout bpb boot dev)) = ?h + ?r" "unat (fh_root_dir_start (fat12_layout bpb boot dev)) = ?h + ?r + ?f * ?s"
    "unat (fh_root_dir_sectors (fat12_layout bpb boot dev)) = ?e div 16" by (rule st rs sec)+
qed

lemma fat12_mount_volume:
  assumes "heap_ok kh" and "fat12_mount kh device s = Some (p, s1)" and "p \<noteq> NULL"
    and "dev = blkdev_get_by_name (ks_blk s) device" and rd: "reads_disk dev I disk n" and "I (ks_blk s) (ks_world s)" and "0 < n"
    and "bpb = bpb_of (disk 0)" and bps: "bpb_bytes_per_sector bpb = 512"
    and F: "F = unat (bpb_hidden_sectors bpb) mod 256 + unat (bpb_rsrvd_cnt bpb)" and "F + unat (bpb_sectors_per_fat bpb) \<le> n"
    and R: "R = F + unat (bpb_num_fats bpb) * unat (bpb_sectors_per_fat bpb)" and "R + unat (bpb_max_root_dir_entries bpb) div 16 \<le> n"
  shows "\<exists>f fs root. fat12_mounted s1 p f fs root n \<and> vfs_type f = FAT12_FS \<and> vfs_vcovered f = NULL
     \<and> fh_block_dev fs = dev \<and> unat (fh_root_dir_start fs) = R
     \<and> unat (fh_root_dir_sectors fs) = unat (bpb_max_root_dir_entries bpb) div 16
     \<and> unat (fh_data_area_start fs) = R + unat (bpb_max_root_dir_entries bpb) div 16
     \<and> get_bytes s1 (fh_bpb fs) = Some (disk 0)
     \<and> get_bytes s1 (fh_fat_table fs) = Some (concat (map (\<lambda>i. disk (F + i)) [0..<unat (bpb_sectors_per_fat bpb)]))
     \<and> ks_blk s1 = ks_blk s \<and> I (ks_blk s1) (ks_world s1)"
proof -
  let ?spf = "unat (bpb_sectors_per_fat bpb)"
  note d = block_disk.intro [OF rd]
  obtain fs boot fat vroot ino h b t where own: "fat12_owns (ks_store s) fs boot fat p vroot ino h b t (ks_store s1)"
    and reads: "fat12_mount_reads dev boot fat h b t s s1"
    using fat12_mount_owns [OF assms(1,2)] assms(3,4) by blast
  obtain junk s2 w tj s5 where r: "kblkread dev 0 junk s2 = Some (b, s2\<lparr>ks_world := w\<rparr>)" "length junk = 512" "ks_blk s2 = ks_blk s"
    "ks_world s2 = ks_world s" and h: "h = (fat12_layout (bpb_of b) boot dev)\<lparr>fh_fat_table := fat\<rparr>" "ks_blk s1 = ks_blk s"
    and l: "fat12_load_fat dev (fh_fat_start h) (unat (bpb_bytes_per_sector (bpb_of b))) [0..<unat (bpb_sectors_per_fat (bpb_of b))] tj s5
             = Some (t, s5\<lparr>ks_world := ks_world s1\<rparr>)"
    "length tj = unat (ucast (bpb_sectors_per_fat (bpb_of b)) * ucast (bpb_bytes_per_sector (bpb_of b)) :: u32)"
    "ks_blk s5 = ks_blk s" "ks_world s5 = w"
    using reads unfolding fat12_mount_reads_def by blast
  obtain w0 where w0: "kblkread dev 0 junk s2 = Some (disk (unat (0 :: u32)) @ drop 512 junk, s2\<lparr>ks_world := w0\<rparr>)" "I (ks_blk s2) w0"
    by (rule block_disk.disk_read [OF d, of s2 0 junk]) (use r assms(6,7) in simp_all)
  have "s2\<lparr>ks_world := w\<rparr> = s2\<lparr>ks_world := w0\<rparr>" using w0(1) r(1) by simp
  then have "w = w0" by (drule_tac f = ks_world in arg_cong) simp
  then have b: "b = disk 0" and w: "I (ks_blk s) w" using w0 r by simp_all
  have bpb: "bpb_of b = bpb" using b assms(8) by simp
  note num = fat12_layout_numbers [OF bps, of boot dev]
  have spf: "?spf < 65536" using unsigned_less [where ?'a = nat, of "bpb_sectors_per_fat bpb"] by simp
  have tj: "length tj = 512 * ?spf"
    using l(2) bps spf by (simp add: bpb unat_word_ariths unsigned_ucast_eq take_bit_nat_def)
  have st: "fh_fat_start h = fh_fat_start (fat12_layout bpb boot dev)" using h(1) bpb by simp
  have tF: "t = concat (map (\<lambda>i. disk (F + i)) [0..<?spf])" "I (ks_blk s) (ks_world s1)"
  proof -
    have "\<exists>w1. fat12_load_fat dev (fh_fat_start h) 512 [0..<0 + ?spf] tj s5 =
        Some (take (512 * 0) tj @ concat (map (\<lambda>i. disk (unat (fh_fat_start h) + i)) [0..<0 + ?spf]), s5\<lparr>ks_world := w1\<rparr>) \<and> I (ks_blk s5) w1"
      by (rule block_disk.fat12_load_fat_blocks [OF d]) (use l w tj assms(11) num(1) st F in simp_all)
    then obtain w1 where w1: "fat12_load_fat dev (fh_fat_start h) 512 [0..<?spf] tj s5 =
        Some (concat (map (\<lambda>i. disk (F + i)) [0..<?spf]), s5\<lparr>ks_world := w1\<rparr>)" "I (ks_blk s) w1"
      using num(1) st F l(3) by auto
    then have "s5\<lparr>ks_world := ks_world s1\<rparr> = s5\<lparr>ks_world := w1\<rparr>" using l(1) bpb bps by simp
    then have "ks_world s1 = w1" by (drule_tac f = ks_world in arg_cong) simp
    then show "t = concat (map (\<lambda>i. disk (F + i)) [0..<?spf])" "I (ks_blk s) (ks_world s1)" using w1 l(1) bpb bps by simp_all
  qed
  have hs: "fh_block_dev h = dev" "fh_root_dir_start h = fh_root_dir_start (fat12_layout bpb boot dev)"
    "fh_root_dir_sectors h = fh_root_dir_sectors (fat12_layout bpb boot dev)"
    "fh_data_area_start h = fh_data_area_start (fat12_layout bpb boot dev)" "fh_bpb h = boot" "fh_fat_table h = fat"
    using h(1) bpb by (simp_all add: fat12_layout_def Let_def)
  have "n \<le> 4294967296" using rd by (simp add: reads_disk_def)
  then show ?thesis
    using own assms(13) num hs tF b h(2) R F
    by (auto simp: fat12_owns_def fat12_mounted_def get_vfs_def get_handle_def get_vnode_def get_bytes_def)
qed

text \<open>Property C7: where a successful mount of a volume with 512-byte sectors looks for its parts. The reserved sectors, the
  copies of the table and the root directory follow each other from a start that is the low byte of the number of
  hidden sectors: the driver keeps that number in eight bits, while the header documents all 32 bits as the start of
  the partition. So the parts are taken from where the boot sector puts them if and only if the partition starts
  below block 256. The first copy of the table at that place is in memory byte for byte, and the root vnode is in
  place.\<close>

theorem fat12_mount_layout:
  assumes "heap_ok kh" and "fat12_mount kh device s = Some (p, s1)" and "p \<noteq> NULL"
    and "dev = blkdev_get_by_name (ks_blk s) device" and "reads_disk dev I disk n" and "I (ks_blk s) (ks_world s)" and "0 < n"
    and "bpb = bpb_of (disk 0)" and "bpb_bytes_per_sector bpb = 512"
    and "F = unat (bpb_hidden_sectors bpb) mod 256 + unat (bpb_rsrvd_cnt bpb)" and "F + unat (bpb_sectors_per_fat bpb) \<le> n"
    and "R = F + unat (bpb_num_fats bpb) * unat (bpb_sectors_per_fat bpb)" and "R + unat (bpb_max_root_dir_entries bpb) div 16 \<le> n"
  shows "\<exists>f fs root. fat12_mounted s1 p f fs root n \<and> vfs_type f = FAT12_FS \<and> vfs_vcovered f = NULL
     \<and> fh_block_dev fs = dev \<and> unat (fh_root_dir_start fs) = R
     \<and> unat (fh_root_dir_sectors fs) = unat (bpb_max_root_dir_entries bpb) div 16
     \<and> unat (fh_data_area_start fs) = R + unat (bpb_max_root_dir_entries bpb) div 16
     \<and> get_bytes s1 (fh_bpb fs) = Some (disk 0)
     \<and> get_bytes s1 (fh_fat_table fs) = Some (concat (map (\<lambda>i. disk (F + i)) [0..<unat (bpb_sectors_per_fat bpb)]))
     \<and> ks_blk s1 = ks_blk s \<and> I (ks_blk s1) (ks_world s1)
     \<and> (F = unat (bpb_hidden_sectors bpb) + unat (bpb_rsrvd_cnt bpb) \<longleftrightarrow> unat (bpb_hidden_sectors bpb) < 256)"
proof -
  have "F = unat (bpb_hidden_sectors bpb) + unat (bpb_rsrvd_cnt bpb) \<longleftrightarrow> unat (bpb_hidden_sectors bpb) < 256"
    unfolding assms(10) by (metis add_right_cancel mod_less mod_less_divisor zero_less_numeral)
  with fat12_mount_volume [OF assms] show ?thesis by blast
qed

end
