(* ===== verification/Fs_Fat12_Demo.thy ===== *)
theory Fs_Fat12_Demo
  imports Fs_Fat12_Volume
begin

text \<open>
  A heap, a disk of five blocks with a FAT12 volume on it, and the properties of the FAT12 driver at work on
  them.
\<close>

section \<open>A small volume\<close>

text \<open>A heap that hands out sixteen addresses, a disk of five blocks with a volume that holds one file of 600
  bytes, \<^verbatim>\<open>A.TXT\<close>, and the state in which the disk is registered as \<^verbatim>\<open>fd0\<close>.\<close>

definition demo_heap :: "'w kheap" where
  "demo_heap = \<lparr>kh_malloc = \<lambda>s n. (case find (\<lambda>p. ks_store s p = None) (map (\<lambda>i. of_nat i * 0x1000) [1..<17]) of
        None \<Rightarrow> NULL | Some p \<Rightarrow> p),
     kh_junk = \<lambda>s n. replicate (unat n) 0xAA, kh_realloc = \<lambda>s n. True\<rparr>"

definition demo_entry :: "u8 list" where
  "demo_entry = [65] @ replicate 7 32 @ [84, 88, 84, 0x20] @ replicate 14 0 @ [2, 0, 0x58, 0x02, 0, 0]"

definition demo_disk :: "nat \<Rightarrow> u8 list" where
  "demo_disk k =
     (if k = 0 then replicate 11 0 @ [0, 2, 1, 1, 0, 1, 16, 0, 0, 0, 0, 1, 0] @ replicate 488 0
      else if k = 1 then fat_pack [0xFF0, 0xFFF, 3, 0xFFF] @ replicate 506 0
      else if k = 2 then demo_entry @ replicate 480 0
      else replicate 512 (of_nat k))"

definition demo_dev :: "unit block_device_t" where
  "demo_dev = \<lparr>bd_name = [102, 100, 48], bd_block_size = 512, bd_num_blocks = 5, bd_private = NULL,
     bd_ops = Some \<lparr>op_read = Some (\<lambda>priv lba buf w. Some (0, map_option (\<lambda>b. demo_disk (unat lba) @ drop 512 b) buf, w)),
       op_write = None\<rparr>\<rparr>"

definition demo_blk :: "unit blk_state" where
  "demo_blk = \<lparr>block_devices = Some [0x500], num_block_devices = 1, max_block_devices = 1,
     blk_store = [0x500 \<mapsto> demo_dev], blk_live = [0x500]\<rparr>"

definition demo_ks :: "unit kstate" where
  "demo_ks = \<lparr>ks_store = Map.empty, ks_blk = demo_blk, ks_world = (), mountpoints = None, curr_size = 0, vfs_root_vnode = NULL\<rparr>"

lemma demo_heap_ok: "heap_ok demo_heap"
  by (auto simp: heap_ok_def demo_heap_def find_Some_iff split: option.splits)

lemma demo_disk_length: "k < 5 \<Longrightarrow> length (demo_disk k) = 512"
  by (simp add: demo_disk_def demo_entry_def)

lemma demo_read: "ks_blk s = demo_blk \<Longrightarrow> kblkread 0x500 lba b s = Some (if lba < 5 then demo_disk (unat lba) @ drop 512 b else b, s)"
  by (auto simp: kblkread_def blkread_def demo_blk_def demo_dev_def)

lemma demo_reads_disk: "reads_disk 0x500 (\<lambda>bs w. bs = demo_blk) demo_disk 5"
proof -
  have u: "unat (of_nat lba :: u32) = lba" "of_nat lba < (5 :: u32)" if "lba < 5" for lba
    using that by (simp_all add: word_less_nat_alt)
  show ?thesis
    unfolding reads_disk_def by (auto simp: demo_read demo_disk_length u intro!: exI [of _ "()"])
qed

lemma demo_bpb: "bpb_of (demo_disk 0) = \<lparr>bpb_bytes_per_sector = 512, bpb_sectors_per_cluster = 1, bpb_rsrvd_cnt = 1,
     bpb_num_fats = 1, bpb_max_root_dir_entries = 16, bpb_total_sectors = 0, bpb_media_descriptor = 0, bpb_sectors_per_fat = 1,
     bpb_sectors_per_track = 0, bpb_num_heads = 0, bpb_hidden_sectors = 0, bpb_total_sectors_large = 0\<rparr>"
  by code_simp

lemma demo_lookup_dev: "blkdev_get_by_name demo_blk (Some [102, 100, 48]) = 0x500"
  by (simp add: blkdev_get_by_name_def registered_def demo_blk_def demo_dev_def)

lemma demo_malloc: "kh_malloc demo_heap s n = (case find (\<lambda>p. ks_store s p = None)
     [0x1000, 0x2000, 0x3000, 0x4000, 0x5000, 0x6000, 0x7000, 0x8000, 0x9000, 0xA000, 0xB000, 0xC000,
      0xD000, 0xE000, 0xF000, 0x10000] of None \<Rightarrow> NULL | Some p \<Rightarrow> p)"
  by (simp add: demo_heap_def upt_rec)

lemma demo_kalloc:
  "kalloc demo_heap n s = (let p = kh_malloc demo_heap s n in (p, if p = NULL then s else kput p (KBytes (replicate (unat n) 0xAA)) s))"
  by (simp add: kalloc_def demo_heap_def Let_def)

lemma demo_mount: "\<exists>s1. fat12_mount demo_heap (Some [102, 100, 48]) demo_ks = Some (0x4000, s1)"
proof -
  have blk: "ks_blk demo_ks = demo_blk" "ks_store demo_ks = Map.empty" by (simp_all add: demo_ks_def)
  show ?thesis
    unfolding fat12_mount_def
    by (simp add: demo_kalloc demo_malloc blk demo_lookup_dev demo_read demo_bpb fat12_layout_def Let_def
        fat12_mount_root_def)
qed

lemma demo_volume:
  "\<exists>s1 f fs root. fat12_mount demo_heap (Some [102, 100, 48]) demo_ks = Some (0x4000, s1)
     \<and> fat12_mounted s1 0x4000 f fs root 5 \<and> fh_block_dev fs = 0x500 \<and> fh_root_dir_start fs = 2 \<and> fh_root_dir_sectors fs = 1
     \<and> fh_data_area_start fs = 3 \<and> ks_blk s1 = demo_blk"
proof -
  obtain s1 where s1: "fat12_mount demo_heap (Some [102, 100, 48]) demo_ks = Some (0x4000, s1)" using demo_mount by blast
  have "ks_blk demo_ks = demo_blk" by (simp add: demo_ks_def)
  then show ?thesis
    using fat12_mount_volume [OF demo_heap_ok s1 _ _ demo_reads_disk _ _ refl _ refl _ refl] s1
    by (fastforce simp: demo_bpb demo_lookup_dev word_unat_eq_iff)
qed

theorem fat12_mount_layout_witness:
  "\<exists>s1 f fs root. fat12_mount demo_heap (Some [102, 100, 48]) demo_ks = Some (0x4000, s1)
     \<and> fat12_mounted s1 0x4000 f fs root 5 \<and> unat (fh_data_area_start fs) = 3"
proof -
  obtain s1 where s1: "fat12_mount demo_heap (Some [102, 100, 48]) demo_ks = Some (0x4000, s1)" using demo_mount by blast
  have "ks_blk demo_ks = demo_blk" by (simp add: demo_ks_def)
  then show ?thesis
    using fat12_mount_layout [OF demo_heap_ok s1 _ _ demo_reads_disk _ _ refl _ refl _ refl] s1
    by (fastforce simp: demo_bpb demo_lookup_dev)
qed

theorem fat12_mount_unmount_witness:
  "\<exists>s1 s2. fat12_mount demo_heap (Some [102, 100, 48]) demo_ks = Some (0x4000, s1)
     \<and> fat12_unmount 0x4000 s1 = Some (0, s2) \<and> ks_store s2 = Map.empty"
proof -
  obtain s1 where s1: "fat12_mount demo_heap (Some [102, 100, 48]) demo_ks = Some (0x4000, s1)" using demo_mount by blast
  from fat12_mount_unmount [OF demo_heap_ok s1] s1 show ?thesis by (auto simp: demo_ks_def)
qed

lemma demo_find:
  "dir_find (fat12_normal_to_8_3 (dropWhile (\<lambda>c. c = 47) [47, 65, 46, 84, 88, 84])) (dir_entries_at demo_disk 2 [0..<1])
     = Some (0, 0, demo_entry)"
  by code_simp

theorem fat12_open_searches_witness:
  "\<exists>(s1 :: unit kstate) node root w. fat12_open demo_heap (replicate 512 0) node (Some [47, 65, 46, 84, 88, 84]) 0 s1
     = fat12_new_node demo_heap root [47, 65, 46, 84, 88, 84] demo_entry 2 0 (s1\<lparr>ks_world := w\<rparr>)"
proof -
  obtain s1 f fs root where v: "fat12_mounted s1 0x4000 f fs root 5" "fh_block_dev fs = 0x500" "fh_root_dir_start fs = 2"
    "fh_root_dir_sectors fs = 1" "ks_blk s1 = demo_blk" using demo_volume by blast
  have m: "get_vnode s1 (vfs_vroot f) = Some root" "vfs_vroot f \<noteq> NULL" "vn_vfs_ptr root = 0x4000"
    using v(1) by (simp_all add: fat12_mounted_def)
  have "reads_disk (fh_block_dev fs) (\<lambda>bs w. bs = demo_blk) demo_disk 5" using demo_reads_disk v(2) by simp
  from fat12_open_searches [OF this v(5) v(1) m(2,1,3), where path = "[47, 65, 46, 84, 88, 84]" and stack = "replicate 512 0"
      and kh = demo_heap and flags = 0]
  show ?thesis
    using v demo_find by (intro exI [of _ s1] exI [of _ "vfs_vroot f"] exI [of _ root] exI [of _ "()"]) auto
qed

theorem fat12_new_node_heap_witness:
  "\<exists>(s1 :: unit kstate) root p s'. fat12_new_node demo_heap root [65] demo_entry 2 0 s1 = Some (p, s')
     \<and> (p \<noteq> NULL \<longrightarrow> (\<exists>v. get_vnode s' p = Some v \<and> vn_type v \<noteq> V_DIRECTORY))"
proof -
  obtain s1 :: "unit kstate" and f fs root where v: "fat12_mounted s1 0x4000 f fs root 5" using demo_volume by blast
  have m: "get_vfs s1 (vn_vfs_ptr root) = Some f" "vfs_fs_data f \<noteq> NULL" "get_handle s1 (vfs_fs_data f) = Some fs"
    using v by (simp_all add: fat12_mounted_def)
  have "demo_entry ! 11 AND FAT12_DIR = 0" by code_simp
  then show ?thesis using fat12_new_node_heap [OF demo_heap_ok m, of "[65]" demo_entry 2 0] by fastforce
qed

definition demo_open_ks :: "unit kstate" where
  "demo_open_ks = demo_ks\<lparr>ks_store :=
     [0x1000 \<mapsto> KHandle \<lparr>fh_bpb = 0x2000, fh_ebr = 0x2024, fh_fat_start = 1, fh_root_dir_start = 2, fh_root_dir_sectors = 1,
        fh_data_area_start = 3, fh_fat_table = 0x3000, fh_block_dev = 0x500\<rparr>,
      0x2000 \<mapsto> KBytes (demo_disk 0), 0x3000 \<mapsto> KBytes (demo_disk 1),
      0x4000 \<mapsto> KVfs \<lparr>vfs_type = FAT12_FS, vfs_vcovered = NULL, vfs_vroot = NULL, vfs_fs_data = 0x1000\<rparr>,
      0x5000 \<mapsto> KVnode \<lparr>vn_name = [], vn_mountedhere = NULL, vn_vfs_ptr = 0x4000, vn_type = V_FILE, vn_ops = Some FAT12_FS,
        vn_flags = 0, vn_data = 0x6000\<rparr>,
      0x6000 \<mapsto> KInode \<lparr>in_dir_entry = dir_entry_of demo_entry, in_dir_sector = 2, in_dir_offset = 0\<rparr>]\<rparr>"

definition demo_handle :: fat12_handle_t where
  "demo_handle = \<lparr>fh_bpb = 0x2000, fh_ebr = 0x2024, fh_fat_start = 1, fh_root_dir_start = 2, fh_root_dir_sectors = 1,
     fh_data_area_start = 3, fh_fat_table = 0x3000, fh_block_dev = 0x500\<rparr>"

lemma demo_entry_fields: "de_attributes (dir_entry_of demo_entry) = 0x20" "de_first_cluster_low (dir_entry_of demo_entry) = 2"
  "de_file_size (dir_entry_of demo_entry) = 600"
  by code_simp+

lemma demo_fat: "fat12_get_fentry (demo_disk 1) 2 = Some 3" "fat12_get_fentry (demo_disk 1) 3 = Some 0xFFF"
  by code_simp+

lemma demo_chain: "fat12_chain (demo_disk 1) [2, 3]"
  by (auto simp: fat12_chain_def demo_fat [unfolded One_nat_def] const_defs less_Suc_eq)

lemma demo_node: "fat12_node demo_open_ks 0x5000 demo_handle (dir_entry_of demo_entry)"
  by (simp add: fat12_node_def demo_open_ks_def demo_handle_def get_vnode_def get_inode_def get_vfs_def get_handle_def)

lemma demo_tables: "fat12_tables demo_open_ks demo_handle (bpb_of (demo_disk 0)) (demo_disk 1)"
  by (auto simp: fat12_tables_def demo_open_ks_def demo_handle_def get_bytes_def demo_bpb)

lemma demo_clusters: "\<forall>c\<in>set [2, 3]. unat (fat12_cluster_to_lba demo_handle (bpb_of (demo_disk 0)) c) < 5"
  by (simp add: demo_handle_def demo_bpb fat12_cluster_to_lba_def)

lemma demo_file: "fat12_file demo_open_ks demo_handle (dir_entry_of demo_entry) [2, 3] 5"
proof -
  have "bpb_sectors_per_cluster (bpb_of (demo_disk 0)) = 1" by (simp add: demo_bpb)
  then have "\<exists>bpb fat. fat12_tables demo_open_ks demo_handle bpb fat \<and> bpb_sectors_per_cluster bpb = 1 \<and> fat12_chain fat [2, 3]
      \<and> (\<forall>c\<in>set [2, 3]. unat (fat12_cluster_to_lba demo_handle bpb c) < 5)"
    using demo_tables demo_chain demo_clusters by blast
  then show ?thesis by (simp add: fat12_file_def demo_entry_fields)
qed

lemma demo_in_place: "p < 1024 \<Longrightarrow> in_place [2, 3] p"
  by (cases "p < 512") (auto simp: in_place_def div_if)


end
