(* ===== verification/Fs_Vfs.thy ===== *)
theory Fs_Vfs
  imports Fs_Fat12_Volume
begin

text \<open>
  The virtual file system of \<^verbatim>\<open>fs/vfs.c\<close>: the table of file system types, the table of mount points,
  the resolution of a path to a mounted file system, and the file operations dispatched to its driver. The
  tables of operations are records of functions, \<open>None\<close> for a NULL pointer; calling a NULL pointer
  has no defined result. The FAT12 tables are those of \<^verbatim>\<open>fs/fat12.c\<close>; the HFS driver is an object file, so its
  tables are an argument. A path argument is a string without its terminator, or \<open>None\<close> for NULL; an
  operation that would read past the end of one has no defined result.
\<close>

section \<open>Tables of operations\<close>

record 'w vfs_ops_t =
  vfs_op_mount :: "u8 list option \<Rightarrow> 'w kstate \<Rightarrow> (ptr \<times> 'w kstate) option"
  vfs_op_unmount :: "ptr \<Rightarrow> 'w kstate \<Rightarrow> (int \<times> 'w kstate) option"

record 'w fs_type_t =
  fs_name :: "u8 list"
  vfs_ops :: "'w vfs_ops_t"

record 'w vnode_ops_t =
  vop_open :: "(ptr \<Rightarrow> u8 list option \<Rightarrow> u32 \<Rightarrow> 'w kstate \<Rightarrow> (ptr \<times> 'w kstate) option) option"
  vop_close :: "(ptr \<Rightarrow> 'w kstate \<Rightarrow> (int \<times> 'w kstate) option) option"
  vop_read :: "(ptr \<Rightarrow> u32 \<Rightarrow> u32 \<Rightarrow> buffer \<Rightarrow> 'w kstate \<Rightarrow> (int \<times> buffer \<times> 'w kstate) option) option"
  vop_write :: "(ptr \<Rightarrow> u32 \<Rightarrow> u32 \<Rightarrow> buffer \<Rightarrow> 'w kstate \<Rightarrow> (int \<times> 'w kstate) option) option"
  vop_readdir :: "(ptr \<Rightarrow> ptr \<Rightarrow> ptr \<Rightarrow> 'w kstate \<Rightarrow> (int \<times> 'w kstate) option) option"
  vop_mkdir :: "(ptr \<Rightarrow> u8 list \<Rightarrow> 'w kstate \<Rightarrow> (int \<times> 'w kstate) option) option"
  vop_remove :: "(ptr \<Rightarrow> u8 list \<Rightarrow> 'w kstate \<Rightarrow> (int \<times> 'w kstate) option) option"
  vop_create :: "(ptr \<Rightarrow> u8 list \<Rightarrow> 'w kstate \<Rightarrow> (int \<times> 'w kstate) option) option"

definition fat12_fs_type :: "'w kheap \<Rightarrow> 'w fs_type_t" where
  "fat12_fs_type kh = \<lparr>fs_name = [102, 97, 116, 49, 50],
     vfs_ops = \<lparr>vfs_op_mount = fat12_mount kh, vfs_op_unmount = fat12_unmount\<rparr>\<rparr>"

definition fat12_vnode_ops :: "'w kheap \<Rightarrow> u8 list \<Rightarrow> 'w vnode_ops_t" where
  "fat12_vnode_ops kh stack = \<lparr>vop_open = Some (fat12_open kh stack), vop_close = Some fat12_close,
     vop_read = Some (fat12_read kh), vop_write = Some fat12_write, vop_readdir = None, vop_mkdir = None,
     vop_remove = None, vop_create = None\<rparr>"

text \<open>The file systems of the kernel: their types and their vnode operations.\<close>

record 'w fs_table =
  ft_type :: "fs_id \<Rightarrow> 'w fs_type_t"
  ft_ops :: "fs_id \<Rightarrow> 'w vnode_ops_t"

definition fs_types :: "fs_id list" where
  "fs_types = [FAT12_FS, HFS_FS]"

definition kernel_fs :: "'w kheap \<Rightarrow> u8 list \<Rightarrow> 'w fs_type_t \<Rightarrow> 'w vnode_ops_t \<Rightarrow> 'w fs_table" where
  "kernel_fs kh stack hfs_fs_type hfs_ops =
     \<lparr>ft_type = \<lambda>i. (case i of FAT12_FS \<Rightarrow> fat12_fs_type kh | HFS_FS \<Rightarrow> hfs_fs_type),
      ft_ops = \<lambda>i. (case i of FAT12_FS \<Rightarrow> fat12_vnode_ops kh stack | HFS_FS \<Rightarrow> hfs_ops)\<rparr>"

definition INIT_MPOINTS :: nat where [const_defs]: "INIT_MPOINTS = 16"
definition sizeof_file_t :: u32 where [const_defs]: "sizeof_file_t = 12"

section \<open>Mount points\<close>

definition vfs_init :: "'w kheap \<Rightarrow> 'w kstate \<Rightarrow> 'w kstate option" where
  "vfs_init kh s =
     (if kh_malloc kh s (of_nat INIT_MPOINTS * sizeof_ptr) = NULL then None
      else Some (s\<lparr>vfs_root_vnode := NULL, mountpoints := Some (replicate INIT_MPOINTS (Some NULL)), curr_size := 0\<rparr>))"

text \<open>The slots the loops visit, and the loop that looks for a mount point by name.\<close>

definition mp_slots :: "'w kstate \<Rightarrow> ptr option list" where
  "mp_slots s = (case mountpoints s of None \<Rightarrow> [] | Some l \<Rightarrow> take (curr_size s) l)"

primrec mp_find :: "'w kstate \<Rightarrow> u8 list \<Rightarrow> ptr option list \<Rightarrow> ptr option" where
  "mp_find s name [] = Some NULL"
| "mp_find s name (slot # slots) =
     (case slot of None \<Rightarrow> None
      | Some mp \<Rightarrow>
        if mp = NULL then mp_find s name slots
        else do {
          f \<leftarrow> get_vfs s mp;
          c \<leftarrow> get_vnode s (vfs_vcovered f);
          n \<leftarrow> cstr_of (vn_name c);
          if n = name then Some mp else mp_find s name slots
        })"

text \<open>The search for a free slot: the index of the first slot that holds NULL, or the number of slots.\<close>

primrec mp_free :: "ptr option list \<Rightarrow> nat option" where
  "mp_free [] = Some 0"
| "mp_free (slot # slots) =
     (case slot of None \<Rightarrow> None | Some mp \<Rightarrow> if mp = NULL then Some 0 else map_option Suc (mp_free slots))"

definition add_to_mpoints :: "'w kheap \<Rightarrow> ptr \<Rightarrow> 'w kstate \<Rightarrow> 'w kstate option" where
  "add_to_mpoints kh v s =
     do {
       i \<leftarrow> mp_free (mp_slots s);
       if i < length (mp_slots s) then Some (s\<lparr>mountpoints := map_option (\<lambda>l. l[i := Some v]) (mountpoints s)\<rparr>)
       else if \<not> kh_realloc kh s (of_nat (curr_size s + 5) * sizeof_ptr) then Some s
       else
         let old = (case mountpoints s of None \<Rightarrow> [] | Some l \<Rightarrow> l);
             new = take (curr_size s + 5) (old @ replicate (curr_size s + 5) None)
         in Some (s\<lparr>mountpoints := Some (new[curr_size s := Some v]), curr_size := curr_size s + 5\<rparr>)
     }"

primrec find_fs_type :: "'w fs_table \<Rightarrow> u8 list \<Rightarrow> fs_id list \<Rightarrow> fs_id option" where
  "find_fs_type ft fs_type [] = None"
| "find_fs_type ft fs_type (i # is) = (if fs_name (ft_type ft i) = fs_type then Some i else find_fs_type ft fs_type is)"

definition vfs_mount :: "'w kheap \<Rightarrow> 'w fs_table \<Rightarrow> u8 list option \<Rightarrow> u8 list option \<Rightarrow> u8 list \<Rightarrow> 'w kstate
    \<Rightarrow> (int \<times> 'w kstate) option" where
  "vfs_mount kh ft src_dev mount_path fs_type s =
     (case find_fs_type ft fs_type fs_types of
        None \<Rightarrow> Some (- 1, s)
      | Some fid \<Rightarrow>
        do {
          (filesystem, s1) \<leftarrow> vfs_op_mount (vfs_ops (ft_type ft fid)) src_dev s;
          if filesystem = NULL then Some (- 1, s1)
          else
            let (mount_at, s2) = kalloc kh sizeof_vnode s1 in
            if mount_at = NULL then None
            else do {
              path \<leftarrow> mount_path;
              if path = [] then None
              else do {
                let s3 = kput mount_at (KVnode \<lparr>vn_name = strncpy_array 28 (tl path), vn_mountedhere = filesystem,
                           vn_vfs_ptr = NULL, vn_type = V_DIRECTORY, vn_ops = None, vn_flags = 0, vn_data = NULL\<rparr>) s2;
                f \<leftarrow> get_vfs s3 filesystem;
                s4 \<leftarrow> add_to_mpoints kh filesystem (kput filesystem (KVfs (f\<lparr>vfs_vcovered := mount_at\<rparr>)) s3);
                Some (0, s4)
              }
            }
        })"

definition vfs_unmount :: "'w fs_table \<Rightarrow> u8 list option \<Rightarrow> 'w kstate \<Rightarrow> (int \<times> 'w kstate) option" where
  "vfs_unmount ft mount_path s =
     (if mount_path = None \<or> mount_path = Some []
      then (if list_all (\<lambda>slot. slot = Some NULL) (mp_slots s) then Some (- 1, s) else None)
      else do {
        mp \<leftarrow> mp_find s (tl (the mount_path)) (mp_slots s);
        if mp = NULL then Some (- 1, s)
        else do {
          f \<leftarrow> get_vfs s mp;
          vfs_op_unmount (vfs_ops (ft_type ft (vfs_type f))) mp s
        }
      })"

definition vfs_get_mounted :: "u8 list option \<Rightarrow> 'w kstate \<Rightarrow> ptr option" where
  "vfs_get_mounted mount_path s =
     (case mount_path of None \<Rightarrow> Some NULL
      | Some p \<Rightarrow> mp_find s (if p \<noteq> [] \<and> hd p = 47 then tl p else p) (mp_slots s))"

text \<open>The root vnode of the file system a path lies on and the path relative to it; the local buffers of 256
  characters cut both names at 255.\<close>

definition vfs_resolve_mountpoint :: "u8 list option \<Rightarrow> 'w kstate \<Rightarrow> (ptr \<times> u8 list) option" where
  "vfs_resolve_mountpoint path s =
     (case path of None \<Rightarrow> Some (NULL, [])
      | Some p \<Rightarrow>
        if p = [] \<or> hd p \<noteq> 47 then Some (NULL, [])
        else
          (case tokens [47] (take 255 p) of
             [] \<Rightarrow> Some (NULL, [])
           | token # _ \<Rightarrow>
             do {
               mp \<leftarrow> mp_find s token (mp_slots s);
               if mp = NULL then Some (NULL, [])
               else do {
                 f \<leftarrow> get_vfs s mp;
                 if vfs_vroot f = NULL then Some (NULL, [])
                 else
                   let rel_start = drop (1 + length token) p
                   in Some (vfs_vroot f, take 255 (if rel_start = [] then [47] else rel_start))
               }
             }))"

section \<open>File operations\<close>

definition node_ops :: "'w fs_table \<Rightarrow> 'w kstate \<Rightarrow> ptr \<Rightarrow> 'w vnode_ops_t option" where
  "node_ops ft s node = do { v \<leftarrow> get_vnode s node; i \<leftarrow> vn_ops v; Some (ft_ops ft i) }"

definition vfs_create :: "'w fs_table \<Rightarrow> u8 list option \<Rightarrow> u32 \<Rightarrow> 'w kstate \<Rightarrow> (int \<times> 'w kstate) option" where
  "vfs_create ft path flags s =
     do {
       (root_node, rel_path) \<leftarrow> vfs_resolve_mountpoint path s;
       if root_node = NULL then Some (- 1, s)
       else do {
         ops \<leftarrow> node_ops ft s root_node;
         create \<leftarrow> vop_create ops;
         (ret, s1) \<leftarrow> create root_node rel_path s;
         Some (if ret < 0 then - 1 else 0, s1)
       }
     }"

definition vfs_mkdir :: "'w fs_table \<Rightarrow> u8 list option \<Rightarrow> 'w kstate \<Rightarrow> (int \<times> 'w kstate) option" where
  "vfs_mkdir ft path s =
     do {
       (root_node, rel_path) \<leftarrow> vfs_resolve_mountpoint path s;
       if root_node = NULL then Some (- 1, s)
       else do {
         ops \<leftarrow> node_ops ft s root_node;
         mkdir \<leftarrow> vop_mkdir ops;
         (ret, s1) \<leftarrow> mkdir root_node rel_path s;
         Some (if ret < 0 then - 1 else 0, s1)
       }
     }"

definition vfs_remove :: "'w fs_table \<Rightarrow> u8 list option \<Rightarrow> 'w kstate \<Rightarrow> (int \<times> 'w kstate) option" where
  "vfs_remove ft path s =
     do {
       (root_node, rel_path) \<leftarrow> vfs_resolve_mountpoint path s;
       if root_node = NULL then Some (- 1, s)
       else do {
         ops \<leftarrow> node_ops ft s root_node;
         rem \<leftarrow> vop_remove ops;
         (ret, s1) \<leftarrow> rem root_node rel_path s;
         Some (if ret < 0 then - 1 else 0, s1)
       }
     }"

definition vfs_open :: "'w kheap \<Rightarrow> 'w fs_table \<Rightarrow> u8 list option \<Rightarrow> u32 \<Rightarrow> 'w kstate \<Rightarrow> (ptr \<times> 'w kstate) option" where
  "vfs_open kh ft path flags s =
     do {
       (root_node, rel_path) \<leftarrow> vfs_resolve_mountpoint path s;
       if root_node = NULL then Some (NULL, s)
       else do {
         ops \<leftarrow> node_ops ft s root_node;
         opn \<leftarrow> vop_open ops;
         (result, s1) \<leftarrow> opn root_node (Some rel_path) flags s;
         if result = NULL then Some (NULL, s1)
         else
           let (fp, s2) = kalloc kh sizeof_file_t s1 in
           if fp = NULL then None
           else Some (fp, kput fp (KFile \<lparr>f_vnode_ptr = result, f_offset = 0, f_flags = flags\<rparr>) s2)
       }
     }"

definition vfs_close :: "'w fs_table \<Rightarrow> ptr \<Rightarrow> 'w kstate \<Rightarrow> (int \<times> 'w kstate) option" where
  "vfs_close ft fp s =
     (if fp = NULL then Some (- 1, s)
      else do {
        f \<leftarrow> get_file s fp;
        if f_vnode_ptr f = NULL then Some (- 1, s)
        else do {
          ops \<leftarrow> node_ops ft s (f_vnode_ptr f);
          cls \<leftarrow> vop_close ops;
          (ret, s1) \<leftarrow> cls (f_vnode_ptr f) s;
          s2 \<leftarrow> kfree fp s1;
          Some (ret, s2)
        }
      })"

text \<open>Advancing the offset by the number of bytes moved, if it is positive.\<close>

definition advance_file :: "ptr \<Rightarrow> int \<Rightarrow> 'w kstate \<Rightarrow> 'w kstate option" where
  "advance_file fp n s =
     (if n > 0 then do { f \<leftarrow> get_file s fp; Some (kput fp (KFile (f\<lparr>f_offset := f_offset f + of_int n\<rparr>)) s) } else Some s)"

definition vfs_read :: "'w fs_table \<Rightarrow> ptr \<Rightarrow> buffer \<Rightarrow> u32 \<Rightarrow> 'w kstate \<Rightarrow> (int \<times> buffer \<times> 'w kstate) option" where
  "vfs_read ft fp buf sz s =
     (if fp = NULL then Some (- 1, buf, s)
      else do {
        f \<leftarrow> get_file s fp;
        if f_vnode_ptr f = NULL \<or> buf = None \<or> sz = 0 then Some (- 1, buf, s)
        else do {
          ops \<leftarrow> node_ops ft s (f_vnode_ptr f);
          rd \<leftarrow> vop_read ops;
          (bytes_read, buf1, s1) \<leftarrow> rd (f_vnode_ptr f) (f_offset f) sz buf s;
          s2 \<leftarrow> advance_file fp bytes_read s1;
          Some (bytes_read, buf1, s2)
        }
      })"

definition vfs_write :: "'w fs_table \<Rightarrow> ptr \<Rightarrow> buffer \<Rightarrow> u32 \<Rightarrow> 'w kstate \<Rightarrow> (int \<times> 'w kstate) option" where
  "vfs_write ft fp buf sz s =
     (if fp = NULL then Some (- 1, s)
      else do {
        f \<leftarrow> get_file s fp;
        if f_vnode_ptr f = NULL \<or> buf = None \<or> sz = 0 then Some (- 1, s)
        else do {
          ops \<leftarrow> node_ops ft s (f_vnode_ptr f);
          wr \<leftarrow> vop_write ops;
          (bytes_written, s1) \<leftarrow> wr (f_vnode_ptr f) (f_offset f) sz buf s;
          s2 \<leftarrow> advance_file fp bytes_written s1;
          Some (bytes_written, s2)
        }
      })"

end
