(* ===== verification/Fs_Vfs_Read.thy ===== *)
theory Fs_Vfs_Read
  imports Fs_Vfs
begin

text \<open>
  Reading through the virtual file system: what the layer asks of a driver as a locale, reading in pieces proved
  against it, and the FAT12 driver as an instance.
\<close>

section \<open>What is taken of the heap\<close>

text \<open>How many bytes a block of the heap was allocated with, and the blocks in use with their sizes.\<close>

definition kobj_size :: "kobj \<Rightarrow> nat" where
  "kobj_size ob = (case ob of KBytes b \<Rightarrow> length b | KVnode v \<Rightarrow> unat sizeof_vnode | KVfs f \<Rightarrow> unat sizeof_vfs
     | KFile f \<Rightarrow> unat sizeof_file_t | KHandle h \<Rightarrow> unat sizeof_fat12_handle_t | KInode i \<Rightarrow> unat sizeof_inode)"

definition heap_use :: "'w kstate \<Rightarrow> ptr \<Rightarrow> nat option" where
  "heap_use s p = map_option kobj_size (ks_store s p)"

lemma kobj_size_simps [simp]:
  "kobj_size (KBytes b) = length b" "kobj_size (KVnode v) = 52" "kobj_size (KVfs f) = 16" "kobj_size (KFile g) = 12"
  "kobj_size (KHandle h) = 32" "kobj_size (KInode i) = 40"
  by (simp_all add: kobj_size_def const_defs)

lemma heap_use_simps [simp]:
  "heap_use (kput p ob s) = (heap_use s)(p \<mapsto> kobj_size ob)" "heap_use (s\<lparr>ks_world := w\<rparr>) = heap_use s"
  "heap_use (s\<lparr>ks_blk := b\<rparr>) = heap_use s" "heap_use (s\<lparr>mountpoints := m\<rparr>) = heap_use s" "heap_use (s\<lparr>curr_size := c\<rparr>) = heap_use s"
  "heap_use s p = None \<longleftrightarrow> ks_store s p = None"
  by (auto simp: heap_use_def fun_eq_iff kput_def)

lemma heap_use_dom: "dom (heap_use s) = dom (ks_store s)"
  by (auto simp: heap_use_def)

lemma heap_use_store: "ks_store s' = ks_store s \<Longrightarrow> heap_use s' = heap_use s"
  by (simp add: heap_use_def fun_eq_iff)

section \<open>What the layer asks of a driver's read operation\<close>

text \<open>\<open>reads_as s node l d\<close> says that in state \<open>s\<close> the node is a file with the bytes \<open>d\<close>, laid out as
  \<open>l\<close> on its medium, and \<open>ok l off\<close> that the driver finds the offset \<open>off\<close> of a file with that layout. A
  read at an offset it finds, or behind the end, returns those bytes up to the end of the file, and the
  file stays what it is through reads and through changes of open file entries.\<close>

locale fs_reader =
  fixes rd :: "ptr \<Rightarrow> u32 \<Rightarrow> u32 \<Rightarrow> buffer \<Rightarrow> 'w kstate \<Rightarrow> (int \<times> buffer \<times> 'w kstate) option"
    and reads_as :: "'w kstate \<Rightarrow> ptr \<Rightarrow> 'l \<Rightarrow> u8 list \<Rightarrow> bool" and ok :: "'l \<Rightarrow> nat \<Rightarrow> bool"
  assumes rd_law: "reads_as s node l d \<Longrightarrow> (unat offs < length d \<longrightarrow> ok l (unat offs)) \<Longrightarrow> 0 < sz \<Longrightarrow> unat offs + unat sz < 4294967296 \<Longrightarrow> unat sz \<le> length buf
      \<Longrightarrow> m = min (unat sz) (length d - unat offs)
      \<Longrightarrow> \<exists>w. rd node offs sz (Some buf) s = Some (int m, Some (take m (drop (unat offs) d) @ drop m buf), s\<lparr>ks_world := w\<rparr>)
             \<and> reads_as (s\<lparr>ks_world := w\<rparr>) node l d"
    and rd_frame: "reads_as s node l d \<Longrightarrow> get_file s p \<noteq> None \<Longrightarrow> reads_as (kput p (KFile f) s) node l d"
    and rd_live: "reads_as s node l d \<Longrightarrow> node \<noteq> NULL \<and> get_vnode s node \<noteq> None"

lemma get_frame:
  assumes "get_file s p \<noteq> None"
  shows "get_vnode (kput p (KFile f) s) q = get_vnode s q" "get_vfs (kput p (KFile f) s) q = get_vfs s q"
    "get_handle (kput p (KFile f) s) q = get_handle s q" "get_inode (kput p (KFile f) s) q = get_inode s q"
    "get_bytes (kput p (KFile f) s) q = get_bytes s q"
  using assms by (auto simp: get_file_def get_vnode_def get_vfs_def get_handle_def get_inode_def get_bytes_def
      split: option.splits kobj.splits)

lemma get_world [simp]:
  "get_vnode (s\<lparr>ks_world := w\<rparr>) = get_vnode s" "get_vfs (s\<lparr>ks_world := w\<rparr>) = get_vfs s"
  "get_handle (s\<lparr>ks_world := w\<rparr>) = get_handle s" "get_inode (s\<lparr>ks_world := w\<rparr>) = get_inode s"
  "get_bytes (s\<lparr>ks_world := w\<rparr>) = get_bytes s" "get_file (s\<lparr>ks_world := w\<rparr>) = get_file s"
  by (simp_all add: fun_eq_iff get_vnode_def get_vfs_def get_handle_def get_inode_def get_bytes_def get_file_def)

text \<open>A program that reads a file in pieces of the given sizes and collects what it gets.\<close>

primrec vfs_read_seq :: "'w fs_table \<Rightarrow> ptr \<Rightarrow> u32 list \<Rightarrow> 'w kstate \<Rightarrow> (u8 list \<times> 'w kstate) option" where
  "vfs_read_seq ft fp [] s = Some ([], s)"
| "vfs_read_seq ft fp (sz # szs) s =
     do {
       (r, b, s1) \<leftarrow> vfs_read ft fp (Some (replicate (unat sz) 0)) sz s;
       (rest, s2) \<leftarrow> vfs_read_seq ft fp szs s1;
       Some (take (nat r) (the b) @ rest, s2)
     }"

definition reads_total :: "u32 list \<Rightarrow> nat" where
  "reads_total szs = sum_list (map unat szs)"

text \<open>Where the reads of a sequence start, when each continues where the last one stopped.\<close>

primrec read_starts :: "nat \<Rightarrow> u32 list \<Rightarrow> nat list" where
  "read_starts off [] = []"
| "read_starts off (sz # szs) = off # read_starts (off + unat sz) szs"

lemma read_starts_ge: "p \<in> set (read_starts off szs) \<Longrightarrow> off \<le> p"
  by (induction szs arbitrary: off) (auto, fastforce)

lemma read_starts_clip:
  assumes "\<forall>p\<in>set (read_starts off (sz # szs)). p < n \<longrightarrow> P p"
  shows "\<forall>p\<in>set (read_starts (off + min (unat sz) (n - off)) szs). p < n \<longrightarrow> P p"
proof (cases "unat sz \<le> n - off")
  case True
  then show ?thesis using assms by (simp add: min_def)
next
  case False
  then show ?thesis using read_starts_ge [of _ "off + (n - off)" szs] by (fastforce simp: min_def)
qed

text \<open>An open file whose node is read by the operation \<open>rd\<close>.\<close>

definition open_file :: "'w fs_table \<Rightarrow> 'w kstate \<Rightarrow> ptr \<Rightarrow> ptr \<Rightarrow> nat
    \<Rightarrow> (ptr \<Rightarrow> u32 \<Rightarrow> u32 \<Rightarrow> buffer \<Rightarrow> 'w kstate \<Rightarrow> (int \<times> buffer \<times> 'w kstate) option) \<Rightarrow> bool" where
  "open_file ft s fp node off rd \<longleftrightarrow> fp \<noteq> NULL
     \<and> (\<exists>f. get_file s fp = Some f \<and> f_vnode_ptr f = node \<and> unat (f_offset f) = off)
     \<and> (\<exists>ops. node_ops ft s node = Some ops \<and> vop_read ops = Some rd)"

context fs_reader
begin

lemma vfs_read_piece:
  assumes fl: "open_file ft s fp node off rd" and ra: "reads_as s node l d" and ok: "off < length d \<longrightarrow> ok l off" and "0 < sz" and "off + unat sz < 4294967296"
    and "unat sz \<le> length buf" and m: "m = min (unat sz) (length d - off)"
  shows "\<exists>s'. vfs_read ft fp (Some buf) sz s = Some (int m, Some (take m (drop off d) @ drop m buf), s')
     \<and> open_file ft s' fp node (off + m) rd \<and> reads_as s' node l d"
proof -
  obtain f ops where f: "fp \<noteq> NULL" "get_file s fp = Some f" "f_vnode_ptr f = node" "unat (f_offset f) = off"
    "node_ops ft s node = Some ops" "vop_read ops = Some rd"
    using fl by (auto simp: open_file_def)
  have node: "node \<noteq> NULL" using rd_live [OF ra] by simp
  obtain w where w: "rd node (f_offset f) sz (Some buf) s = Some (int m, Some (take m (drop off d) @ drop m buf), s\<lparr>ks_world := w\<rparr>)"
    "reads_as (s\<lparr>ks_world := w\<rparr>) node l d"
    using rd_law [OF ra _ assms(4) _ assms(6), of "f_offset f" m] f(4) assms(5) ok m by auto
  let ?s1 = "s\<lparr>ks_world := w\<rparr>"
  let ?f = "f\<lparr>f_offset := f_offset f + of_nat m\<rparr>"
  have ops1: "node_ops ft ?s1 node = Some ops" using f(5) by (simp add: node_ops_def)
  have adv: "unat (f_offset ?f) = off + m" using f(4) assms(5) m by (simp add: unat_word_ariths)
  have rdeq: "vfs_read ft fp (Some buf) sz s = Option.bind (advance_file fp (int m) ?s1)
      (\<lambda>s2. Some (int m, Some (take m (drop off d) @ drop m buf), s2))"
    using f node w(1) word_gt_0 [THEN iffD1, OF assms(4)] by (simp add: vfs_read_def)
  show ?thesis
  proof (cases "m = 0")
    case True
    then show ?thesis using rdeq w f ops1 by (auto simp: advance_file_def open_file_def)
  next
    case False
    have live: "get_file ?s1 fp \<noteq> None" using f(2) by simp
    let ?s2 = "kput fp (KFile ?f) ?s1"
    have "advance_file fp (int m) ?s1 = Some ?s2" using False f(2) by (simp add: advance_file_def)
    moreover have "node_ops ft ?s2 node = Some ops" using ops1 get_frame(1) [OF live] by (simp add: node_ops_def)
    moreover have "reads_as ?s2 node l d" by (rule rd_frame [OF w(2) live])
    ultimately show ?thesis using rdeq f adv by (auto simp: open_file_def)
  qed
qed

lemma vfs_read_in_pieces:
  assumes "open_file ft s fp node off rd" and "reads_as s node l d" and "\<forall>sz\<in>set szs. 0 < sz" and "off + reads_total szs < 4294967296"
    and "\<forall>p\<in>set (read_starts off szs). p < length d \<longrightarrow> ok l p"
  shows "\<exists>s'. vfs_read_seq ft fp szs s = Some (take (reads_total szs) (drop off d), s') \<and> reads_as s' node l d
     \<and> open_file ft s' fp node (off + min (reads_total szs) (length d - off)) rd"
  using assms
proof (induction szs arbitrary: s off)
  case Nil
  then show ?case by (simp add: reads_total_def)
next
  case (Cons sz szs)
  let ?m = "min (unat sz) (length d - off)"
  have tot: "reads_total (sz # szs) = unat sz + reads_total szs" by (simp add: reads_total_def)
  obtain s1 where s1: "vfs_read ft fp (Some (replicate (unat sz) 0)) sz s
      = Some (int ?m, Some (take ?m (drop off d) @ drop ?m (replicate (unat sz) 0)), s1)"
    "open_file ft s1 fp node (off + ?m) rd" "reads_as s1 node l d"
    using vfs_read_piece [OF Cons.prems(1,2), of sz "replicate (unat sz) 0"] Cons.prems(3-5) tot by auto
  obtain s2 where s2: "vfs_read_seq ft fp szs s1 = Some (take (reads_total szs) (drop (off + ?m) d), s2)" "reads_as s2 node l d"
    "open_file ft s2 fp node (off + ?m + min (reads_total szs) (length d - (off + ?m))) rd"
  proof -
    have "off + ?m + reads_total szs < 4294967296" using Cons.prems(4) tot by linarith
    then show ?thesis using that Cons.IH [OF s1(2,3) _ _ read_starts_clip [OF Cons.prems(5)]] Cons.prems(3) by auto
  qed
  have app: "take ?m (drop off d) @ take (reads_total szs) (drop (off + ?m) d) = take (unat sz + reads_total szs) (drop off d)"
  proof (cases "unat sz \<le> length d - off")
    case True
    then show ?thesis
      using take_add [of "unat sz" "reads_total szs" "drop off d"] by (simp add: min_def add.commute [of off])
  next
    case False
    then show ?thesis by (simp add: min_def)
  qed
  have off': "off + ?m + min (reads_total szs) (length d - (off + ?m)) = off + min (reads_total (sz # szs)) (length d - off)"
    unfolding tot by linarith
  have "take ?m (take ?m (drop off d) @ zs) = take ?m (drop off d)" for zs by simp
  then have "vfs_read_seq ft fp (sz # szs) s = Some (take (reads_total (sz # szs)) (drop off d), s2)"
    using s1(1) s2(1) unfolding tot app [symmetric] by simp
  then show ?case using s2(2) s2(3) [unfolded off'] by blast
qed

end

section \<open>The FAT12 driver as such a driver\<close>

text \<open>A file of a volume whose bytes \<open>d\<close> are in the clusters \<open>cs\<close>; the heap can provide the buffer for one of
  them with the blocks live that are.\<close>

definition fat12_reads_as :: "'w kheap \<Rightarrow> 'w kstate \<Rightarrow> ptr \<Rightarrow> u16 list \<Rightarrow> u8 list \<Rightarrow> bool" where
  "fat12_reads_as kh s node cs d \<longleftrightarrow> heap_ok kh \<and> (\<forall>s'. heap_use s' = heap_use s \<longrightarrow> kh_malloc kh s' 512 \<noteq> NULL)
     \<and> (\<exists>fs entry I disk n. reads_disk (fh_block_dev fs) I disk n \<and> I (ks_blk s) (ks_world s)
          \<and> fat12_node s node fs entry \<and> de_attributes entry AND FAT12_DIR = 0 \<and> fat12_file s fs entry cs n
          \<and> d = take (unat (de_file_size entry)) (file_blocks disk fs cs))"

lemma file_blocks_length:
  assumes "reads_disk (fh_block_dev fs) I disk n" and "fat12_file s fs entry cs n"
  shows "length (file_blocks disk fs cs) = 512 * length cs"
proof -
  obtain bpb fat where f: "bpb_sectors_per_cluster bpb = 1" "fat12_chain fat cs" "\<forall>c\<in>set cs. unat (fat12_cluster_to_lba fs bpb c) < n"
    using assms(2) by (auto simp: fat12_file_def)
  have "\<forall>c\<in>set cs. length (disk (unat (fat12_cluster_to_lba fs bpb c))) = 512"
    using f(3) block_disk.disk_length [OF block_disk.intro [OF assms(1)]] by blast
  then have "length (cluster_bytes disk fs bpb [] cs) = 512 * length cs"
    unfolding cluster_bytes_def by (induction cs) simp_all
  then show ?thesis using cluster_bytes_file_blocks [OF f(2,1)] by simp
qed

lemma fat12_reads_as_same:
  assumes "fat12_reads_as kh s node cs d" and "heap_use s' = heap_use s" and "ks_blk s' = ks_blk s" and "ks_world s' = ks_world s"
    and "get_vnode s' = get_vnode s" "get_vfs s' = get_vfs s" "get_handle s' = get_handle s" "get_inode s' = get_inode s" "get_bytes s' = get_bytes s"
  shows "fat12_reads_as kh s' node cs d"
  using assms(1) unfolding fat12_reads_as_def fat12_node_def fat12_file_def fat12_tables_def assms(2-9) .

interpretation f12: fs_reader "fat12_read kh" "fat12_reads_as kh" in_place for kh :: "'w kheap"
proof unfold_locales
  fix s :: "'w kstate" and node cs d and sz offs :: u32 and buf m
  assume ra: "fat12_reads_as kh s node cs d" and ok: "unat offs < length d \<longrightarrow> in_place cs (unat offs)"
    and sz: "0 < sz" "unat offs + unat sz < 4294967296" "unat sz \<le> length (buf :: u8 list)" and m: "m = min (unat sz) (length d - unat offs)"
  obtain fs entry I disk n where f: "reads_disk (fh_block_dev fs) I disk n" "I (ks_blk s) (ks_world s)" "fat12_node s node fs entry"
    "de_attributes entry AND FAT12_DIR = 0" "fat12_file s fs entry cs n"
    "d = take (unat (de_file_size entry)) (file_blocks disk fs cs)" and h: "heap_ok kh" "\<forall>s'. heap_use s' = heap_use s \<longrightarrow> kh_malloc kh s' 512 \<noteq> NULL"
    using ra unfolding fat12_reads_as_def by blast
  let ?fsz = "unat (de_file_size entry)"
  have "?fsz \<le> 512 * length cs" using f(5) by (simp add: fat12_file_def)
  then have len: "length d = ?fsz" using f(6) file_blocks_length [OF f(1,5)] by simp
  have mal: "kh_malloc kh s 512 \<noteq> NULL" using h(2) by blast
  have "m \<le> length buf" using m sz(3) by simp
  then obtain w where w: "fat12_read kh node offs sz (Some buf) s =
      Some (int m, Some (take m (drop (unat offs) (file_blocks disk fs cs)) @ drop m buf), s\<lparr>ks_world := w\<rparr>)" "I (ks_blk s) w"
    using fat12_read_chain [OF h(1) mal f(1-5) sz(2,1) ok [unfolded len]] m len by auto
  have "take m (drop (unat offs) (file_blocks disk fs cs)) = take m (drop (unat offs) d)"
    using m len by (simp add: f(6) drop_take min_def)
  moreover have "fat12_reads_as kh (s\<lparr>ks_world := w\<rparr>) node cs d"
  proof -
    have "fat12_node (s\<lparr>ks_world := w\<rparr>) node fs entry" using f(3) by (simp add: fat12_node_def)
    moreover have "fat12_file (s\<lparr>ks_world := w\<rparr>) fs entry cs n" using f(5) by (simp add: fat12_file_def fat12_tables_def)
    ultimately show ?thesis using f(1,4,6) h w(2) unfolding fat12_reads_as_def
      by (intro conjI exI [of _ fs] exI [of _ entry] exI [of _ I] exI [of _ disk] exI [of _ n]) simp_all
  qed
  ultimately show "\<exists>w. fat12_read kh node offs sz (Some buf) s = Some (int m, Some (take m (drop (unat offs) d) @ drop m buf), s\<lparr>ks_world := w\<rparr>)
      \<and> fat12_reads_as kh (s\<lparr>ks_world := w\<rparr>) node cs d" using w(1) by auto
next
  fix s :: "'w kstate" and node cs d p f
  assume ra: "fat12_reads_as kh s node cs d" and live: "get_file s p \<noteq> None"
  then have "heap_use (kput p (KFile f) s) = heap_use s" by (auto simp: get_file_def fun_eq_iff heap_use_def split: option.splits kobj.splits)
  then show "fat12_reads_as kh (kput p (KFile f) s) node cs d"
    by (intro fat12_reads_as_same [OF ra]) (simp_all add: get_frame [OF live] fun_eq_iff del: get_simps)
next
  fix s :: "'w kstate" and node cs d
  assume "fat12_reads_as kh s node cs d"
  then show "node \<noteq> NULL \<and> get_vnode s node \<noteq> None" by (auto simp: fat12_reads_as_def fat12_node_def)
qed

text \<open>Property C8: reading an open file of a FAT12 volume in pieces: the pieces put together are the bytes of the
  file from the current offset on, as many as were asked for or as there are, each read continues where
  the last one stopped, and the offset never passes the end of the file. The volume has one sector of 512
  bytes per cluster, and every read that starts inside the file starts in a cluster that lies where the
  driver looks for it (\<open>in_place\<close>): so it is for any file read in one piece from its start, and for any
  pieces of a file whose clusters follow each other. The heap can provide one buffer of 512 bytes.\<close>

theorem vfs_read_sequence:
  assumes "open_file ft s fp node off (fat12_read kh)" and "fat12_reads_as kh s node cs d" and "\<forall>sz\<in>set szs. 0 < sz"
    and "off + reads_total szs < 4294967296" and "\<forall>p\<in>set (read_starts off szs). p < length d \<longrightarrow> in_place cs p"
  shows "\<exists>s'. vfs_read_seq ft fp szs s = Some (take (reads_total szs) (drop off d), s') \<and> fat12_reads_as kh s' node cs d
     \<and> open_file ft s' fp node (off + min (reads_total szs) (length d - off)) (fat12_read kh)"
  by (rule f12.vfs_read_in_pieces [OF assms])

end
