(* ===== verification/Fs_Vfs_Mount.thy ===== *)
theory Fs_Vfs_Mount
  imports Fs_Vfs_Read
begin

text \<open>
  The table of mount points: its invariant, the map it stands for, and how mounting, resolving a path,
  unmounting and growing the table act on it.
\<close>

section \<open>The mount table as a map\<close>

text \<open>A mounted file system with what the layer relies on: the vnode it covers, whose name ends in the array,
  and a root vnode.\<close>

definition mount_name :: "'w kstate \<Rightarrow> ptr \<Rightarrow> u8 list option" where
  "mount_name s mp = do { f \<leftarrow> get_vfs s mp; c \<leftarrow> get_vnode s (vfs_vcovered f); cstr_of (vn_name c) }"

definition mount_ok :: "'w kstate \<Rightarrow> ptr \<Rightarrow> bool" where
  "mount_ok s mp \<longleftrightarrow> mount_name s mp \<noteq> None
     \<and> (\<exists>f. get_vfs s mp = Some f \<and> vfs_vroot f \<noteq> NULL \<and> get_vnode s (vfs_vroot f) \<noteq> None)"

text \<open>The invariant: every slot up to the current size has been written, and what it holds is a mounted file
  system; before the first mount the table is the zeroed array of the initialisation.\<close>

definition vfs_inv :: "'w kstate \<Rightarrow> bool" where
  "vfs_inv s \<longleftrightarrow> (\<exists>l. mountpoints s = Some l \<and> curr_size s \<le> length l
     \<and> (curr_size s = 0 \<longrightarrow> 5 \<le> length l \<and> list_all (\<lambda>x. x = Some NULL) l)
     \<and> (\<forall>slot\<in>set (take (curr_size s) l). \<exists>mp. slot = Some mp \<and> (mp \<noteq> NULL \<longrightarrow> mount_ok s mp)))"

text \<open>The abstract view: the mounted file systems by name, in the order of their slots.\<close>

definition mount_list :: "'w kstate \<Rightarrow> (u8 list \<times> ptr) list" where
  "mount_list s = map (\<lambda>mp. (the (mount_name s mp), mp)) (filter (\<lambda>mp. mp \<noteq> NULL) (map the (mp_slots s)))"

definition mount_map :: "'w kstate \<Rightarrow> u8 list \<Rightarrow> ptr option" where
  "mount_map s = map_of (mount_list s)"

lemma vfs_inv_slots:
  assumes "vfs_inv s"
  shows "\<forall>slot\<in>set (mp_slots s). \<exists>mp. slot = Some mp \<and> (mp \<noteq> NULL \<longrightarrow> mount_ok s mp)"
  using assms by (auto simp: vfs_inv_def mp_slots_def)

lemma mp_find_map:
  assumes "\<forall>slot\<in>set slots. \<exists>mp. slot = Some mp \<and> (mp \<noteq> NULL \<longrightarrow> mount_ok s mp)"
  shows "mp_find s name slots =
    Some (case map_of (map (\<lambda>mp. (the (mount_name s mp), mp)) (filter (\<lambda>mp. mp \<noteq> NULL) (map the slots))) name of
            None \<Rightarrow> NULL | Some mp \<Rightarrow> mp)"
  using assms
proof (induction slots)
  case (Cons slot slots)
  then obtain mp where mp: "slot = Some mp" "mp \<noteq> NULL \<longrightarrow> mount_ok s mp" by auto
  show ?case
  proof (cases "mp = NULL")
    case True
    then show ?thesis using Cons mp by simp
  next
    case False
    then obtain f c n where "get_vfs s mp = Some f" "get_vnode s (vfs_vcovered f) = Some c" "cstr_of (vn_name c) = Some n"
      using mp(2) by (auto simp: mount_ok_def mount_name_def Option.bind_eq_Some_conv)
    then show ?thesis using Cons mp(1) False by (simp add: mount_name_def)
  qed
qed simp

lemma mp_find_mount_map:
  "vfs_inv s \<Longrightarrow> mp_find s name (mp_slots s) = Some (case mount_map s name of None \<Rightarrow> NULL | Some mp \<Rightarrow> mp)"
  using mp_find_map [OF vfs_inv_slots] by (simp add: mount_map_def mount_list_def)

lemma mount_map_ok:
  assumes "vfs_inv s" and "mount_map s name = Some mp"
  shows "mp \<noteq> NULL" "mount_ok s mp" "mount_name s mp = Some name"
proof -
  have "(name, mp) \<in> set (mount_list s)" using assms(2) map_of_SomeD unfolding mount_map_def by fastforce
  then have mp: "mp \<noteq> NULL" "Some mp \<in> set (mp_slots s)" "name = the (mount_name s mp)"
    using vfs_inv_slots [OF assms(1)] by (force simp: mount_list_def)+
  then show ok: "mp \<noteq> NULL" "mount_ok s mp" using vfs_inv_slots [OF assms(1)] by fastforce+
  then show "mount_name s mp = Some name" using mp(3) by (auto simp: mount_ok_def)
qed

section \<open>Resolving a path\<close>

lemma tokens_first:
  assumes "47 \<notin> set name" and "name \<noteq> []" and "rest = [] \<or> hd rest = 47"
  shows "\<exists>ts. tokens [47] (47 # name @ rest) = name # ts"
proof -
  have drop: "dropWhile (\<lambda>c. c \<in> set [47]) (47 # name @ rest) = name @ rest"
    using assms(1,2) by (cases name) (auto simp: dropWhile_append)
  have take: "takeWhile (\<lambda>c. c \<notin> set [47]) (name @ rest) = name"
    using assms(1,3) by (cases rest) (auto simp: takeWhile_append)
  show ?thesis
    by (subst tokens.simps) (use drop take assms(2) in \<open>simp add: Let_def\<close>)
qed

lemma tokens_path:
  assumes "47 \<notin> set name" and "name \<noteq> []" and "length name < 255" and "rest = [] \<or> hd rest = 47"
  shows "\<exists>ts. tokens [47] (take 255 (47 # name @ rest)) = name # ts"
proof -
  have "take 255 (47 # name @ rest) = 47 # name @ take (254 - length name) rest" using assms(3) by simp
  moreover have "take k rest = [] \<or> hd (take k rest) = 47" for k using assms(4) by (cases rest; cases k) auto
  ultimately show ?thesis using tokens_first [OF assms(1,2)] by metis
qed

lemma resolve_mounted:
  assumes "vfs_inv s" and "47 \<notin> set name" and "name \<noteq> []" and "length name < 255" and "rest = [] \<or> hd rest = 47"
  shows "vfs_resolve_mountpoint (Some (47 # name @ rest)) s =
     Some (case mount_map s name of None \<Rightarrow> (NULL, [])
           | Some mp \<Rightarrow> (vfs_vroot (the (get_vfs s mp)), take 255 (if rest = [] then [47] else rest)))"
proof -
  obtain ts where tok: "tokens [47] (take 255 (47 # name @ rest)) = name # ts" using tokens_path [OF assms(2-5)] by blast
  show ?thesis
  proof (cases "mount_map s name")
    case None
    then show ?thesis using tok mp_find_mount_map [OF assms(1)] by (simp add: vfs_resolve_mountpoint_def)
  next
    case (Some mp)
    then obtain f where "get_vfs s mp = Some f" "vfs_vroot f \<noteq> NULL" using mount_map_ok(2) [OF assms(1) Some] by (auto simp: mount_ok_def)
    then show ?thesis
      using tok mp_find_mount_map [OF assms(1)] Some mount_map_ok(1) [OF assms(1) Some] by (simp add: vfs_resolve_mountpoint_def)
  qed
qed

section \<open>Mounting\<close>

text \<open>What the layer relies on when it calls a driver's mount operation: the file system object is new, what
  was live is unchanged, the mount table is not touched, and the object has a root vnode.\<close>

definition mount_extends :: "(u8 list option \<Rightarrow> 'w kstate \<Rightarrow> (ptr \<times> 'w kstate) option) \<Rightarrow> bool" where
  "mount_extends mnt \<longleftrightarrow> (\<forall>dev s p s1. mnt dev s = Some (p, s1) \<and> p \<noteq> NULL \<longrightarrow>
     ks_store s p = None \<and> ks_store s \<subseteq>\<^sub>m ks_store s1 \<and> mountpoints s1 = mountpoints s \<and> curr_size s1 = curr_size s
     \<and> (\<exists>f. get_vfs s1 p = Some f \<and> vfs_vroot f \<noteq> NULL \<and> vfs_vroot f \<noteq> p \<and> get_vnode s1 (vfs_vroot f) \<noteq> None))"

lemma store_le_get:
  assumes "ks_store s \<subseteq>\<^sub>m ks_store s'"
  shows "get_vfs s q = Some f \<Longrightarrow> get_vfs s' q = Some f" "get_vnode s q = Some v \<Longrightarrow> get_vnode s' q = Some v"
proof -
  have le: "ks_store s q = Some ob \<Longrightarrow> ks_store s' q = Some ob" for ob using assms unfolding map_le_def by (metis domI)
  show "get_vfs s q = Some f \<Longrightarrow> get_vfs s' q = Some f"
    unfolding get_vfs_def using le by (auto split: option.splits kobj.splits)
  show "get_vnode s q = Some v \<Longrightarrow> get_vnode s' q = Some v"
    unfolding get_vnode_def using le by (auto split: option.splits kobj.splits)
qed

text \<open>The file systems and vnodes of a state are those of another one, where more may have been added.\<close>

definition objs_le :: "'w kstate \<Rightarrow> 'w kstate \<Rightarrow> bool" where
  "objs_le s s' \<longleftrightarrow> (\<forall>q f. get_vfs s q = Some f \<longrightarrow> get_vfs s' q = Some f) \<and> (\<forall>q v. get_vnode s q = Some v \<longrightarrow> get_vnode s' q = Some v)"

lemma store_le_objs: "ks_store s \<subseteq>\<^sub>m ks_store s' \<Longrightarrow> objs_le s s'"
  using store_le_get unfolding objs_le_def by blast

lemma mount_ok_mono:
  assumes "objs_le s s'" and "mount_ok s mp"
  shows "mount_ok s' mp" "mount_name s' mp = mount_name s mp"
proof -
  obtain f c n where f: "get_vfs s mp = Some f" "get_vnode s (vfs_vcovered f) = Some c" "cstr_of (vn_name c) = Some n"
    "vfs_vroot f \<noteq> NULL" "get_vnode s (vfs_vroot f) \<noteq> None"
    using assms(2) by (auto simp: mount_ok_def mount_name_def Option.bind_eq_Some_conv)
  have g: "get_vfs s q = Some f \<Longrightarrow> get_vfs s' q = Some f" "get_vnode s q = Some v \<Longrightarrow> get_vnode s' q = Some v" for q f v
    using assms(1) unfolding objs_le_def by blast+
  show "mount_name s' mp = mount_name s mp" using f(1-3) g by (simp add: mount_name_def)
  then show "mount_ok s' mp" using f assms(2) g unfolding mount_ok_def by fastforce
qed

lemma mp_free_spec:
  "mp_free slots = Some i \<Longrightarrow> i \<le> length slots \<and> (i < length slots \<longrightarrow> slots ! i = Some NULL)"
proof (induction slots arbitrary: i)
  case (Cons slot slots)
  then show ?case by (cases i) (auto split: option.splits if_splits)
qed simp

lemma mp_free_full: "mp_free slots = Some i \<Longrightarrow> i = length slots \<Longrightarrow> Some NULL \<notin> set slots"
proof (induction slots arbitrary: i)
  case (Cons slot slots)
  then show ?case by (auto split: option.splits if_splits)
qed simp

lemma mp_free_defined: "(\<forall>slot\<in>set slots. slot \<noteq> None) \<Longrightarrow> \<exists>i. mp_free slots = Some i"
  by (induction slots) auto

lemma map_of_insert_fresh:
  "k \<notin> dom (map_of (xs @ ys)) \<Longrightarrow> map_of (xs @ (k, v) # ys) = (map_of (xs @ ys))(k \<mapsto> v)"
  by (auto simp: fun_eq_iff map_add_def split: option.splits)

text \<open>Recording a file system in a table that has a free slot, or in the table of the initialisation.\<close>

lemma add_to_mpoints_records:
  assumes inv: "vfs_inv s" and mp: "mp \<noteq> NULL" "mount_ok s mp" and name: "mount_name s mp = Some name" "mount_map s name = None"
    and room: "Some NULL \<in> set (mp_slots s) \<or> curr_size s = 0 \<and> kh_realloc kh s (5 * sizeof_ptr)"
  shows "\<exists>s'. add_to_mpoints kh mp s = Some s' \<and> vfs_inv s' \<and> mount_map s' = (mount_map s)(name \<mapsto> mp)
     \<and> ks_store s' = ks_store s \<and> ks_blk s' = ks_blk s \<and> ks_world s' = ks_world s"
proof -
  obtain l where l: "mountpoints s = Some l" "curr_size s \<le> length l" "curr_size s = 0 \<longrightarrow> 5 \<le> length l \<and> list_all (\<lambda>x. x = Some NULL) l"
    "\<forall>slot\<in>set (take (curr_size s) l). \<exists>mp. slot = Some mp \<and> (mp \<noteq> NULL \<longrightarrow> mount_ok s mp)"
    using inv by (auto simp: vfs_inv_def)
  have slots: "mp_slots s = take (curr_size s) l" using l(1) by (simp add: mp_slots_def)
  obtain i where i: "mp_free (mp_slots s) = Some i" using mp_free_defined vfs_inv_slots [OF inv] by blast
  have same: "mount_ok (s\<lparr>mountpoints := a, curr_size := b\<rparr>) q = mount_ok s q" "mount_name (s\<lparr>mountpoints := a, curr_size := b\<rparr>) q = mount_name s q" for a b q
    by (simp_all add: mount_ok_def mount_name_def get_vfs_def get_vnode_def)
  have same1: "mount_ok (s\<lparr>mountpoints := a\<rparr>) q = mount_ok s q" "mount_name (s\<lparr>mountpoints := a\<rparr>) q = mount_name s q" for a q
    by (simp_all add: mount_ok_def mount_name_def get_vfs_def get_vnode_def)
  let ?pairs = "\<lambda>ls. map (\<lambda>mp. (the (mount_name s mp), mp)) (filter (\<lambda>mp. mp \<noteq> NULL) (map the ls))"
  show ?thesis
  proof (cases "i < length (mp_slots s)")
    case True
    let ?s = "s\<lparr>mountpoints := Some (l[i := Some mp])\<rparr>"
    have add: "add_to_mpoints kh mp s = Some ?s" using i True l(1) by (simp add: add_to_mpoints_def)
    have sl: "mp_slots ?s = (mp_slots s)[i := Some mp]" using slots l(1) by (simp add: mp_slots_def take_update_swap)
    have at: "mp_slots s = take i (mp_slots s) @ Some NULL # drop (Suc i) (mp_slots s)"
      using True mp_free_spec [OF i] by (metis id_take_nth_drop)
    have upd: "(mp_slots s)[i := Some mp] = take i (mp_slots s) @ Some mp # drop (Suc i) (mp_slots s)"
      using True by (rule upd_conv_take_nth_drop)
    have "mount_list s = ?pairs (take i (mp_slots s) @ Some NULL # drop (Suc i) (mp_slots s))"
      unfolding mount_list_def at [symmetric] by (rule refl)
    then have ml: "mount_list s = ?pairs (take i (mp_slots s)) @ ?pairs (drop (Suc i) (mp_slots s))"
      by (simp only: map_append list.map filter_append filter.simps option.sel simp_thms if_False)
    have ml': "mount_list ?s = ?pairs (take i (mp_slots s)) @ (name, mp) # ?pairs (drop (Suc i) (mp_slots s))"
      unfolding mount_list_def sl upd same1 using mp(1) name(1) by simp
    have "name \<notin> dom (map_of (?pairs (take i (mp_slots s)) @ ?pairs (drop (Suc i) (mp_slots s))))"
      using name(2) unfolding mount_map_def ml domIff by simp
    from map_of_insert_fresh [OF this] have "mount_map ?s = (mount_map s)(name \<mapsto> mp)"
      unfolding mount_map_def ml ml' .
    moreover have "vfs_inv ?s"
    proof -
      have "\<forall>slot\<in>set (take (curr_size s) (l[i := Some mp])). \<exists>q. slot = Some q \<and> (q \<noteq> NULL \<longrightarrow> mount_ok s q)"
      proof
        fix slot assume "slot \<in> set (take (curr_size s) (l[i := Some mp]))"
        then have "slot \<in> insert (Some mp) (set (take (curr_size s) l))"
          using set_update_subset_insert [of "take (curr_size s) l" i "Some mp"] unfolding take_update_swap by blast
        then show "\<exists>q. slot = Some q \<and> (q \<noteq> NULL \<longrightarrow> mount_ok s q)" using l(4) mp(2) by blast
      qed
      moreover have "curr_size s \<noteq> 0" using True slots by auto
      ultimately show ?thesis unfolding vfs_inv_def using l(2) same1(1) by simp
    qed
    ultimately show ?thesis using add by auto
  next
    case False
    then have "i = length (mp_slots s)" using mp_free_spec [OF i] by simp
    then have "Some NULL \<notin> set (mp_slots s)" using mp_free_full [OF i] by simp
    then have z: "curr_size s = 0" "kh_realloc kh s (5 * sizeof_ptr)" using room by simp_all
    have l5: "5 \<le> length l" "list_all (\<lambda>x. x = Some NULL) l" using l(3) z(1) by simp_all
    then obtain a1 a2 a3 a4 a5 l' where "l = a1 # a2 # a3 # a4 # a5 # l'"
      by (cases l; cases "tl l"; cases "tl (tl l)"; cases "tl (tl (tl l))"; cases "tl (tl (tl (tl l)))") auto
    then have l': "take 5 (l @ replicate 5 None) = [Some NULL, Some NULL, Some NULL, Some NULL, Some NULL]" using l5(2) by simp
    let ?s = "s\<lparr>mountpoints := Some [Some mp, Some NULL, Some NULL, Some NULL, Some NULL], curr_size := 5\<rparr>"
    have add: "add_to_mpoints kh mp s = Some ?s"
      using i False l(1) z l' by (simp add: add_to_mpoints_def Let_def)
    have "mount_list s = []" using z(1) l(1) by (simp add: mount_list_def mp_slots_def)
    moreover have "mount_list ?s = [(name, mp)]" using mp(1) name(1) same(2) by (simp add: mount_list_def mp_slots_def)
    ultimately have "mount_map ?s = (mount_map s)(name \<mapsto> mp)" by (simp add: mount_map_def)
    moreover have "vfs_inv ?s" using mp(2) same(1) by (simp add: vfs_inv_def)
    ultimately show ?thesis using add by auto
  qed
qed

lemma inv_extends:
  assumes inv: "vfs_inv s" and le: "objs_le s s'" and same: "mountpoints s' = mountpoints s" "curr_size s' = curr_size s"
  shows "vfs_inv s'" "mount_map s' = mount_map s"
proof -
  have slots: "mp_slots s' = mp_slots s" unfolding mp_slots_def same ..
  show "vfs_inv s'"
  proof -
    obtain l where l: "mountpoints s = Some l" "curr_size s \<le> length l" "curr_size s = 0 \<longrightarrow> 5 \<le> length l \<and> list_all (\<lambda>x. x = Some NULL) l"
      "\<forall>slot\<in>set (take (curr_size s) l). \<exists>mp. slot = Some mp \<and> (mp \<noteq> NULL \<longrightarrow> mount_ok s mp)"
      using inv by (auto simp: vfs_inv_def)
    have "\<forall>slot\<in>set (take (curr_size s) l). \<exists>mp. slot = Some mp \<and> (mp \<noteq> NULL \<longrightarrow> mount_ok s' mp)"
    proof
      fix slot assume "slot \<in> set (take (curr_size s) l)"
      then obtain mp where "slot = Some mp" "mp \<noteq> NULL \<longrightarrow> mount_ok s mp" using l(4) by blast
      then show "\<exists>mp. slot = Some mp \<and> (mp \<noteq> NULL \<longrightarrow> mount_ok s' mp)" using mount_ok_mono(1) [OF le] by auto
    qed
    then show ?thesis unfolding vfs_inv_def same using l(1-3) by (intro exI [of _ l]) simp
  qed
  have "mount_name s' mp = mount_name s mp" if "mp \<in> set (map the (mp_slots s))" "mp \<noteq> NULL" for mp
  proof -
    obtain slot where "slot \<in> set (mp_slots s)" "mp = the slot" using \<open>mp \<in> _\<close> by auto
    then have "mount_ok s mp" using vfs_inv_slots [OF inv] \<open>mp \<noteq> NULL\<close> by force
    then show ?thesis by (rule mount_ok_mono(2) [OF le])
  qed
  then have "mount_list s' = mount_list s" unfolding mount_list_def slots by (intro map_cong) auto
  then show "mount_map s' = mount_map s" by (simp add: mount_map_def)
qed

text \<open>Mounting with any driver that keeps to the contract.\<close>

lemma vfs_mount_extends:
  assumes heap: "heap_ok kh" and inv: "vfs_inv s" and fid: "find_fs_type ft fs_type fs_types = Some fid"
    and mnt: "mount_extends (vfs_op_mount (vfs_ops (ft_type ft fid)))" "vfs_op_mount (vfs_ops (ft_type ft fid)) dev s = Some (p, s1)" "p \<noteq> NULL"
    and mem: "kh_malloc kh s1 sizeof_vnode \<noteq> NULL" and name: "0 \<notin> set name" "length name < 28" "mount_map s name = None"
    and room: "Some NULL \<in> set (mp_slots s) \<or> curr_size s = 0
        \<and> (\<forall>s' c. ks_store s1 c = None \<and> heap_use s' = (heap_use s1)(c \<mapsto> 52) \<longrightarrow> kh_realloc kh s' (5 * sizeof_ptr))"
  shows "\<exists>s'. vfs_mount kh ft dev (Some (47 # name)) fs_type s = Some (0, s') \<and> vfs_inv s' \<and> mount_map s' = (mount_map s)(name \<mapsto> p)
     \<and> (\<exists>c. get_vfs s' p = Some ((the (get_vfs s1 p))\<lparr>vfs_vcovered := c\<rparr>) \<and> ks_store s1 c = None \<and> heap_use s' = (heap_use s1)(c \<mapsto> 52))
     \<and> ks_store s \<subseteq>\<^sub>m ks_store s'
     \<and> ks_store s1 \<subseteq>\<^sub>m (ks_store s')(p := ks_store s1 p)
     \<and> ks_blk s' = ks_blk s1 \<and> ks_world s' = ks_world s1"
proof -
  obtain f where ext: "ks_store s p = None" "ks_store s \<subseteq>\<^sub>m ks_store s1" "mountpoints s1 = mountpoints s" "curr_size s1 = curr_size s"
    and f: "get_vfs s1 p = Some f" "vfs_vroot f \<noteq> NULL" "vfs_vroot f \<noteq> p" "get_vnode s1 (vfs_vroot f) \<noteq> None"
    using mnt unfolding mount_extends_def by blast
  obtain at s2 where a2: "kalloc kh sizeof_vnode s1 = (at, s2)" by fastforce
  then have "at \<noteq> NULL" using mem by (auto simp: kalloc_def Let_def)
  then obtain b where s2: "ks_store s1 at = None" "s2 = kput at (KBytes b) s1" using kalloc_fresh [OF heap a2] by auto
  have ne: "at \<noteq> p" "vfs_vroot f \<noteq> at" using s2(1) f by (auto simp: get_vfs_def get_vnode_def)
  have fresh: "ks_store s at = None" using ext(2) s2(1) unfolding map_le_def by (metis domIff)
  let ?c = "\<lparr>vn_name = strncpy_array 28 name, vn_mountedhere = p, vn_vfs_ptr = NULL, vn_type = V_DIRECTORY, vn_ops = None, vn_flags = 0, vn_data = NULL\<rparr>"
  let ?s3 = "kput p (KVfs (f\<lparr>vfs_vcovered := at\<rparr>)) (kput at (KVnode ?c) s2)"
  have g: "get_vfs ?s3 p = Some (f\<lparr>vfs_vcovered := at\<rparr>)" "get_vnode ?s3 at = Some ?c" using ne by simp_all
  have le3: "ks_store s \<subseteq>\<^sub>m ks_store ?s3"
    using ext(1,2) fresh s2 unfolding map_le_def by (auto simp: fun_upd_apply)
  note inv3 = inv_extends [OF inv store_le_objs [OF le3]]
  have keep: "mountpoints ?s3 = mountpoints s" "curr_size ?s3 = curr_size s" using ext s2 by simp_all
  have nm: "mount_name ?s3 p = Some name" using g ne cstr_of_strncpy [OF name(1,2)] by (simp add: mount_name_def)
  have "get_vnode ?s3 (vfs_vroot f) = get_vnode s1 (vfs_vroot f)" using f(3) ne s2(2) by simp
  then have ok: "mount_ok ?s3 p" using nm g(1) f(2,4) by (simp add: mount_ok_def del: get_simps)
  have use3: "heap_use ?s3 = (heap_use s1)(at \<mapsto> 52)"
    using s2(2) f(1) ne(1) by (auto simp: fun_eq_iff heap_use_def get_vfs_def kput_def split: option.splits kobj.splits)
  have room3: "Some NULL \<in> set (mp_slots ?s3) \<or> curr_size ?s3 = 0 \<and> kh_realloc kh ?s3 (5 * sizeof_ptr)"
    using room keep s2(1) use3 unfolding mp_slots_def by metis
  have none: "mount_map ?s3 name = None" using inv3(2) [OF keep] name(3) by simp
  obtain s' where s': "add_to_mpoints kh p ?s3 = Some s'" "vfs_inv s'" "mount_map s' = (mount_map ?s3)(name \<mapsto> p)"
    "ks_store s' = ks_store ?s3" "ks_blk s' = ks_blk ?s3" "ks_world s' = ks_world ?s3"
    using add_to_mpoints_records [OF inv3(1) [OF keep] mnt(3) ok nm none room3] by blast
  have "vfs_mount kh ft dev (Some (47 # name)) fs_type s = Some (0, s')"
    using fid mnt(2,3) a2 \<open>at \<noteq> NULL\<close> s'(1) ne f(1) s2(2) by (simp add: vfs_mount_def)
  moreover have "get_vfs s' p = Some (f\<lparr>vfs_vcovered := at\<rparr>)" using g(1) s'(4) by (simp add: get_vfs_def)
  moreover have "ks_store s \<subseteq>\<^sub>m ks_store s'" using le3 s'(4) by simp
  moreover have "ks_store s1 \<subseteq>\<^sub>m (ks_store s')(p := ks_store s1 p)" using s2 s'(4) by (auto simp: map_le_def)
  moreover have "ks_blk s' = ks_blk s1" "ks_world s' = ks_world s1" using s'(5,6) s2(2) by simp_all
  moreover have "heap_use s' = (heap_use s1)(at \<mapsto> 52)" using use3 heap_use_store [OF s'(4)] by simp
  ultimately show ?thesis using s'(2,3) inv3(2) [OF keep] f(1) s2(1) by auto
qed

lemma mount_table_room:
  assumes "Some NULL \<in> set (mp_slots s) \<or> curr_size s = 0 \<and> (\<forall>s'. kh_realloc kh s' (5 * sizeof_ptr))"
  shows "Some NULL \<in> set (mp_slots s) \<or> curr_size s = 0
    \<and> (\<forall>s' c. ks_store s1 c = None \<and> heap_use s' = (heap_use s1)(c \<mapsto> 52) \<longrightarrow> kh_realloc kh s' (5 * sizeof_ptr))"
  using assms by blast

section \<open>The FAT12 driver keeps to the contract\<close>

definition keeps_table :: "'w kstate \<Rightarrow> 'w kstate \<Rightarrow> bool" where
  "keeps_table s s' \<longleftrightarrow> mountpoints s' = mountpoints s \<and> curr_size s' = curr_size s"

lemma keeps_table_trans: "keeps_table s s1 \<Longrightarrow> keeps_table s1 s2 \<Longrightarrow> keeps_table s s2"
  by (simp add: keeps_table_def)

lemma keeps_table_refl [simp]: "keeps_table s s" "keeps_table s (kput p ob s') = keeps_table s s'" "keeps_table s (s'\<lparr>ks_world := w\<rparr>) = keeps_table s s'"
  "keeps_table (kput p ob s) s' = keeps_table s s'"
  by (simp_all add: keeps_table_def)

lemma kalloc_keeps: "kalloc kh n s = (p, s1) \<Longrightarrow> keeps_table s s1"
  by (auto simp: kalloc_def Let_def)

lemma kfree_keeps: "kfree p s = Some s1 \<Longrightarrow> keeps_table s s1"
  by (auto simp: kfree_def keeps_table_def split: if_splits option.splits)

lemma fat12_mount_root_keeps: "fat12_mount_root kh fs h s = Some (p, s') \<Longrightarrow> keeps_table s s'"
  by (auto simp: fat12_mount_root_def Let_def Option.bind_eq_Some_conv split: if_splits prod.splits
      dest!: kfree_keeps kalloc_keeps intro: keeps_table_trans)

lemma kblkread_keeps: "kblkread dev lba b s = Some (b', s1) \<Longrightarrow> keeps_table s s1"
  using kblkread_state by fastforce

lemma fat12_load_fat_keeps: "fat12_load_fat dev st n is t s = Some (t', s1) \<Longrightarrow> keeps_table s s1"
  using fat12_load_fat_state by fastforce

lemma fat12_mount_keeps: "fat12_mount kh dev s = Some (p, s') \<Longrightarrow> keeps_table s s'"
  by (auto simp: fat12_mount_def Let_def Option.bind_eq_Some_conv split: if_splits prod.splits
      dest!: kfree_keeps kalloc_keeps fat12_mount_root_keeps kblkread_keeps fat12_load_fat_keeps)
    (simp_all add: keeps_table_def)

lemma fat12_mount_extends:
  assumes "heap_ok kh"
  shows "mount_extends (fat12_mount kh)"
  unfolding mount_extends_def
proof (intro allI impI, elim conjE)
  fix dev and s :: "'a kstate" and p s1
  assume m: "fat12_mount kh dev s = Some (p, s1)" "p \<noteq> NULL"
  then obtain fs boot fat vroot ino h b t where o: "fat12_owns (ks_store s) fs boot fat p vroot ino h b t (ks_store s1)"
    using fat12_mount_owns [OF assms m(1)] by auto
  note d = o [unfolded fat12_owns_def]
  have "ks_store s \<subseteq>\<^sub>m ks_store s1" using d by (auto simp: map_le_def)
  moreover have "get_vfs s1 p = Some \<lparr>vfs_type = FAT12_FS, vfs_vcovered = NULL, vfs_vroot = vroot, vfs_fs_data = fs\<rparr>"
    "get_vnode s1 vroot \<noteq> None" using d by (auto simp: get_vfs_def get_vnode_def)
  moreover have "vroot \<noteq> NULL" "vroot \<noteq> p" "ks_store s p = None" using d by auto
  ultimately show "ks_store s p = None \<and> ks_store s \<subseteq>\<^sub>m ks_store s1 \<and> mountpoints s1 = mountpoints s \<and> curr_size s1 = curr_size s
     \<and> (\<exists>f. get_vfs s1 p = Some f \<and> vfs_vroot f \<noteq> NULL \<and> vfs_vroot f \<noteq> p \<and> get_vnode s1 (vfs_vroot f) \<noteq> None)"
    using fat12_mount_keeps [OF m(1)] by (auto simp: keeps_table_def)
qed

lemma vfs_init_inv:
  assumes "vfs_init kh s = Some s'"
  shows "vfs_inv s'" "mount_map s' = Map.empty" "curr_size s' = 0"
  using assms by (auto simp: vfs_init_def vfs_inv_def mount_map_def mount_list_def mp_slots_def INIT_MPOINTS_def list_all_length split: if_splits)

text \<open>Property C9: mounting a FAT12 volume at \<^verbatim>\<open>/name\<close> refines the update of a map. In a table with a free slot, or
  before the first mount, the call returns 0, the table of mount points keeps its invariant, and it is the
  old table with the new file system added under that name; every path below \<^verbatim>\<open>/name\<close> then resolves to its
  root vnode and the rest of the path, and every path below another name resolves as before.\<close>

theorem vfs_mount_fat12:
  fixes s :: "'w kstate"
  assumes "heap_ok kh" and "vfs_inv s" and "fat12_mount kh dev s = Some (p, s1)" and "p \<noteq> NULL"
    and "kh_malloc kh s1 sizeof_vnode \<noteq> NULL" and "0 \<notin> set name" and "length name < 28" and "mount_map s name = None"
    and "Some NULL \<in> set (mp_slots s) \<or> curr_size s = 0 \<and> (\<forall>s'. kh_realloc kh s' (5 * sizeof_ptr))"
    and ft: "ft = kernel_fs kh stack hfs_fs_type hfs_ops"
  shows "\<exists>s'. vfs_mount kh ft dev (Some (47 # name)) [102, 97, 116, 49, 50] s = Some (0, s') \<and> vfs_inv s'
     \<and> mount_map s' = (mount_map s)(name \<mapsto> p)
     \<and> (\<forall>n rest. 47 \<notin> set n \<and> n \<noteq> [] \<and> length n < 255 \<and> (rest = [] \<or> hd rest = 47) \<longrightarrow>
          vfs_resolve_mountpoint (Some (47 # n @ rest)) s' =
            (if n = name then Some (vfs_vroot (the (get_vfs s1 p)), take 255 (if rest = [] then [47] else rest))
             else vfs_resolve_mountpoint (Some (47 # n @ rest)) s))"
proof -
  have "find_fs_type ft [102, 97, 116, 49, 50] fs_types = Some FAT12_FS"
    and op: "vfs_op_mount (vfs_ops (ft_type ft FAT12_FS)) = fat12_mount kh"
    by (simp_all add: ft fs_types_def kernel_fs_def fat12_fs_type_def)
  from vfs_mount_extends [OF assms(1,2) this(1) fat12_mount_extends [OF assms(1), folded op] assms(3) [folded op] assms(4-8) mount_table_room [OF assms(9)]]
  obtain s' where s': "vfs_mount kh ft dev (Some (47 # name)) [102, 97, 116, 49, 50] s = Some (0, s')" "vfs_inv s'"
    "mount_map s' = (mount_map s)(name \<mapsto> p)" "\<exists>c. get_vfs s' p = Some ((the (get_vfs s1 p))\<lparr>vfs_vcovered := c\<rparr>)"
    "ks_store s \<subseteq>\<^sub>m ks_store s'" by blast
  have old: "get_vfs s' mp = get_vfs s mp" if "mount_map s n = Some mp" for n mp
    using mount_map_ok(2) [OF assms(2) that] store_le_get(1) [OF s'(5)] by (fastforce simp: mount_ok_def)
  show ?thesis
  proof (intro exI [of _ s'] conjI allI impI s'(1-3), elim conjE)
    fix n rest :: "u8 list"
    assume n: "47 \<notin> set n" "n \<noteq> []" "length n < 255" "rest = [] \<or> hd rest = 47"
    show "vfs_resolve_mountpoint (Some (47 # n @ rest)) s' =
            (if n = name then Some (vfs_vroot (the (get_vfs s1 p)), take 255 (if rest = [] then [47] else rest))
             else vfs_resolve_mountpoint (Some (47 # n @ rest)) s)"
      unfolding resolve_mounted [OF s'(2) n] resolve_mounted [OF assms(2) n] s'(3) using s'(4) old by (auto split: option.splits)
  qed
qed

section \<open>Unmounting\<close>

text \<open>What is left of the file systems and vnodes after an unmount.\<close>

definition only_frees :: "'w kstate \<Rightarrow> 'w kstate \<Rightarrow> bool" where
  "only_frees s s' \<longleftrightarrow> (\<forall>q. get_vfs s' q \<in> {None, get_vfs s q} \<and> get_vnode s' q \<in> {None, get_vnode s q}) \<and> keeps_table s s'"

lemma only_frees_refl [simp]: "only_frees s s"
  by (simp add: only_frees_def)

lemma only_frees_trans: "only_frees s s1 \<Longrightarrow> only_frees s1 s2 \<Longrightarrow> only_frees s s2"
proof -
  assume a: "only_frees s s1" and b: "only_frees s1 s2"
  have "get_vfs s2 q \<in> {None, get_vfs s q} \<and> get_vnode s2 q \<in> {None, get_vnode s q}" for q
    using a b unfolding only_frees_def by (metis (no_types, lifting) insert_iff singleton_iff)
  then show ?thesis using a b keeps_table_trans unfolding only_frees_def by blast
qed

lemma kfree_frees: "kfree p s = Some s1 \<Longrightarrow> only_frees s s1"
  by (auto simp: kfree_def only_frees_def keeps_table_def get_vfs_def get_vnode_def split: if_splits option.splits)

lemma kput_frees: "only_frees s s1 \<Longrightarrow> only_frees s (kput p (KHandle h) s1)"
  by (auto simp: only_frees_def)

lemma kfree_gone: "kfree p s = Some s1 \<Longrightarrow> p \<noteq> NULL \<Longrightarrow> ks_store s1 p = None"
  by (auto simp: kfree_def split: option.splits)

lemma fat12_unmount_frees:
  assumes "fat12_unmount fsys s = Some (0, s')" and "fsys \<noteq> NULL"
  shows "only_frees s s'" "ks_store s' fsys = None"
proof -
  obtain f h where f: "get_vfs s fsys = Some f" "vfs_fs_data f \<noteq> NULL" "get_handle s (vfs_fs_data f) = Some h"
    using assms(1) by (auto simp: fat12_unmount_def Let_def Option.bind_eq_Some_conv split: if_splits)
  obtain s1 s2 s3 i s4 s5 where
    s1: "(if fh_fat_table h \<noteq> NULL
          then map_option (kput (vfs_fs_data f) (KHandle (h\<lparr>fh_fat_table := NULL\<rparr>))) (kfree (fh_fat_table h) s) else Some s) = Some s1"
    and s2: "(if fh_bpb h \<noteq> NULL
          then map_option (kput (vfs_fs_data f) (KHandle (h\<lparr>fh_fat_table := NULL, fh_bpb := NULL\<rparr>))) (kfree (fh_bpb h) s1) else Some s1) = Some s2"
    and s3: "kfree (vfs_fs_data f) s2 = Some s3" "kfree i s3 = Some s4" "kfree (vfs_vroot f) s4 = Some s5" "kfree fsys s5 = Some s'"
  proof -
    note u = assms(1) [unfolded fat12_unmount_def Let_def f(1) Option.bind.bind_lunit, unfolded f(3) if_not_P [OF f(2)] Option.bind.bind_lunit]
    show ?thesis using u unfolding Option.bind_eq_Some_conv by (elim exE conjE) (rule that, assumption+, simp)
  qed
  have "only_frees s s1" using s1 by (auto intro!: kput_frees dest: kfree_frees split: if_splits)
  moreover have "only_frees s1 s2" using s2 by (auto intro!: kput_frees dest: kfree_frees split: if_splits)
  moreover note s3 [THEN kfree_frees]
  ultimately show "only_frees s s'" by (blast intro: only_frees_trans)
  show "ks_store s' fsys = None" by (rule kfree_gone [OF s3(4) assms(2)])
qed

lemma mp_find_dangles:
  assumes fr: "only_frees s s'" and gone: "ks_store s' mp = None" and slots: "\<forall>slot\<in>set slots. \<exists>q. slot = Some q \<and> (q \<noteq> NULL \<longrightarrow> mount_ok s q)"
    and found: "map_of (map (\<lambda>mp. (the (mount_name s mp), mp)) (filter (\<lambda>mp. mp \<noteq> NULL) (map the slots))) name = Some mp"
  shows "mp_find s' name slots = None"
  using slots found
proof (induction slots)
  case (Cons slot slots)
  then obtain q where q: "slot = Some q" "q \<noteq> NULL \<longrightarrow> mount_ok s q" by auto
  show ?case
  proof (cases "q = NULL")
    case True
    then show ?thesis using Cons q by simp
  next
    case False
    then obtain f c n where f: "get_vfs s q = Some f" "get_vnode s (vfs_vcovered f) = Some c" "cstr_of (vn_name c) = Some n"
      using q(2) by (auto simp: mount_ok_def mount_name_def Option.bind_eq_Some_conv)
    then have nm: "mount_name s q = Some n" by (simp add: mount_name_def)
    show ?thesis
    proof (cases "n = name")
      case True
      then have "q = mp" using Cons.prems(2) q(1) False nm by simp
      then show ?thesis using q(1) False gone by (simp add: get_vfs_def)
    next
      case ne: False
      then have "mp_find s' name slots = None" using Cons q(1) False nm by auto
      moreover have "get_vfs s' q \<in> {None, Some f}" "get_vnode s' (vfs_vcovered f) \<in> {None, Some c}"
        using fr f(1,2) unfolding only_frees_def by metis+
      ultimately show ?thesis using q(1) False f(3) ne by auto
    qed
  qed
qed simp

text \<open>Property C18: unmounting leaves the mount point in the table. A successful unmount of a FAT12 volume frees the
  file system object, but the slot of the table still holds its address, so every later resolution of a
  path below that name reads freed memory and has no defined result; so has a second unmount.\<close>

theorem vfs_unmount_dangles:
  assumes inv: "vfs_inv s" and mp: "mount_map s name = Some mp" and f: "get_vfs s mp = Some f" "vfs_type f = FAT12_FS"
    and un: "vfs_unmount (kernel_fs kh stack hfs_fs_type hfs_ops) (Some (47 # name)) s = Some (0, s')"
    and n: "47 \<notin> set name" "name \<noteq> []" "length name < 255" "rest = [] \<or> hd rest = 47"
  shows "mp_slots s' = mp_slots s \<and> ks_store s' mp = None \<and> vfs_resolve_mountpoint (Some (47 # name @ rest)) s' = None
     \<and> vfs_unmount (kernel_fs kh stack hfs_fs_type hfs_ops) (Some (47 # name)) s' = None"
proof -
  have ne: "mp \<noteq> NULL" using mount_map_ok(1) [OF inv mp] .
  have "fat12_unmount mp s = Some (0, s')"
    using un mp_find_mount_map [OF inv, of name] mp ne f by (simp add: vfs_unmount_def kernel_fs_def fat12_fs_type_def)
  note fr = fat12_unmount_frees [OF this ne]
  have slots: "mp_slots s' = mp_slots s" using fr(1) by (simp add: only_frees_def keeps_table_def mp_slots_def cong: option.case_cong)
  have find: "mp_find s' name (mp_slots s') = None"
    unfolding slots by (rule mp_find_dangles [OF fr vfs_inv_slots [OF inv] mp [unfolded mount_map_def mount_list_def]])
  obtain ts where tok: "tokens [47] (take 255 (47 # name @ rest)) = name # ts"
    using tokens_path [OF n] by blast
  have "vfs_resolve_mountpoint (Some (47 # name @ rest)) s' = None" using tok find by (simp add: vfs_resolve_mountpoint_def)
  then show ?thesis using slots fr(2) find by (simp add: vfs_unmount_def)
qed

text \<open>Further property: the FAT12 driver has no operations to create, make a directory or remove, and the layer does not
  test for a NULL operation: on every path below a mounted FAT12 volume these calls have no defined
  result, while on a path below no mount point they return -1.\<close>

theorem vfs_fat12_no_create:
  fixes s :: "'w kstate"
  assumes inv: "vfs_inv s" and n: "47 \<notin> set name" "name \<noteq> []" "length name < 255" "rest = [] \<or> hd rest = 47"
    and ft: "ft = kernel_fs kh stack hfs_fs_type hfs_ops"
    and ops: "\<forall>mp. mount_map s name = Some mp \<longrightarrow> vn_ops (the (get_vnode s (vfs_vroot (the (get_vfs s mp))))) = Some FAT12_FS"
  defines "r \<equiv> (if mount_map s name = None then Some (- 1, s) else None)"
  shows "vfs_create ft (Some (47 # name @ rest)) flags s = r \<and> vfs_mkdir ft (Some (47 # name @ rest)) s = r
     \<and> vfs_remove ft (Some (47 # name @ rest)) s = r"
proof (cases "mount_map s name")
  case None
  then show ?thesis using resolve_mounted [OF inv n] by (simp add: vfs_create_def vfs_mkdir_def vfs_remove_def r_def)
next
  case (Some mp)
  obtain f v where f: "get_vfs s mp = Some f" "vfs_vroot f \<noteq> NULL" "get_vnode s (vfs_vroot f) = Some v"
    using mount_map_ok(2) [OF inv Some] by (auto simp: mount_ok_def)
  have "node_ops ft s (vfs_vroot f) = Some (fat12_vnode_ops kh stack)"
    using ops Some f by (simp add: node_ops_def ft kernel_fs_def)
  then show ?thesis
    using resolve_mounted [OF inv n] Some f
    by (simp add: vfs_create_def vfs_mkdir_def vfs_remove_def r_def fat12_vnode_ops_def)
qed

section \<open>Growing the table\<close>

text \<open>Further property: a full table grows by slots that are never written. The sixth file system is recorded after the
  others, but the four slots behind it hold whatever the reallocation left there; the next mount tests
  them, so it has no defined result.\<close>

theorem add_to_mpoints_grows:
  assumes "mountpoints s = Some l" and "curr_size s = length l" and "\<forall>slot\<in>set l. \<exists>q. slot = Some q \<and> q \<noteq> NULL"
    and "kh_realloc kh s (of_nat (length l + 5) * sizeof_ptr)" and "v \<noteq> NULL"
  shows "\<exists>s'. add_to_mpoints kh v s = Some s' \<and> mp_slots s' = l @ Some v # replicate 4 None \<and> add_to_mpoints kh u s' = None"
proof -
  have full: "mp_free l = Some (length l)" if "\<forall>slot\<in>set l. \<exists>q. slot = Some q \<and> q \<noteq> NULL" for l
    using that by (induction l) auto
  have stuck: "mp_free (l @ Some v # replicate 4 None) = None" if "\<forall>slot\<in>set l. \<exists>q. slot = Some q \<and> q \<noteq> NULL" for l
    using that assms(5) by (induction l) (auto simp: numeral_eq_Suc)
  have slots: "mp_slots s = l" using assms(1,2) by (simp add: mp_slots_def)
  let ?l = "l @ Some v # replicate 4 None"
  let ?s = "s\<lparr>mountpoints := Some ?l, curr_size := length l + 5\<rparr>"
  have "(l @ replicate 5 None)[length l := Some v] = ?l" by (simp add: numeral_eq_Suc)
  moreover have "take 5 (replicate (length l + 5) (None :: ptr option)) = replicate 5 None" by simp
  ultimately have "add_to_mpoints kh v s = Some ?s"
    using full [OF assms(3)] slots assms(1,2,4) by (simp add: add_to_mpoints_def Let_def del: replicate.simps)
  moreover have sl: "mp_slots ?s = ?l" by (simp add: mp_slots_def)
  moreover have "add_to_mpoints kh u ?s = None" unfolding add_to_mpoints_def sl stuck [OF assms(3)] by simp
  ultimately show ?thesis by blast
qed

end
