(* ===== verification/Fs_Vfs_Demo.thy ===== *)
theory Fs_Vfs_Demo
  imports Fs_Vfs_Mount Fs_Fat12_Demo
begin

text \<open>
  The properties of the virtual file system at work on the small volume.
\<close>

section \<open>A mounted volume\<close>

definition demo_ft :: "unit fs_table" where
  "demo_ft = kernel_fs demo_heap (replicate 512 0) (fat12_fs_type demo_heap) (fat12_vnode_ops demo_heap [])"

definition demo_vfs :: "unit kstate" where
  "demo_vfs = demo_ks\<lparr>mountpoints := Some (replicate 16 (Some NULL))\<rparr>"

lemma demo_vfs_init: "vfs_init demo_heap demo_ks = Some demo_vfs"
  by (simp add: vfs_init_def demo_malloc demo_vfs_def demo_ks_def INIT_MPOINTS_def)

lemma demo_vfs_mount:
  "\<exists>s1. fat12_mount demo_heap (Some [102, 100, 48]) demo_vfs = Some (0x4000, s1) \<and> kh_malloc demo_heap s1 sizeof_vnode \<noteq> NULL"
proof -
  have blk: "ks_blk demo_vfs = demo_blk" "ks_store demo_vfs = Map.empty" by (simp_all add: demo_ks_def demo_vfs_def)
  show ?thesis
    unfolding fat12_mount_def
    by (simp add: demo_kalloc demo_malloc blk demo_lookup_dev demo_read demo_bpb fat12_layout_def Let_def fat12_mount_root_def)
qed

theorem vfs_mount_fat12_witness:
  "\<exists>s'. vfs_mount demo_heap demo_ft (Some [102, 100, 48]) (Some [47, 102, 100]) [102, 97, 116, 49, 50] demo_vfs = Some (0, s')
     \<and> mount_map s' = [[102, 100] \<mapsto> 0x4000]"
proof -
  obtain s1 where s1: "fat12_mount demo_heap (Some [102, 100, 48]) demo_vfs = Some (0x4000, s1)" "kh_malloc demo_heap s1 sizeof_vnode \<noteq> NULL"
    using demo_vfs_mount by blast
  note i = vfs_init_inv [OF demo_vfs_init]
  have r: "\<forall>s' :: unit kstate. kh_realloc demo_heap s' (5 * sizeof_ptr)" by (simp add: demo_heap_def)
  show ?thesis
    using vfs_mount_fat12 [OF demo_heap_ok i(1) s1(1) _ s1(2) _ _ _ _ demo_ft_def, of "[102, 100]"] i r by fastforce
qed

definition demo_mounted :: "unit kstate" where
  "demo_mounted = demo_ks\<lparr>mountpoints := Some [Some 0x4000, Some NULL, Some NULL, Some NULL, Some NULL], curr_size := 5, ks_store :=
     [0x1000 \<mapsto> KHandle demo_handle, 0x2000 \<mapsto> KBytes (demo_disk 0), 0x3000 \<mapsto> KBytes (demo_disk 1),
      0x4000 \<mapsto> KVfs \<lparr>vfs_type = FAT12_FS, vfs_vcovered = 0x7000, vfs_vroot = 0x5000, vfs_fs_data = 0x1000\<rparr>,
      0x5000 \<mapsto> KVnode \<lparr>vn_name = strncpy_array 28 [47], vn_mountedhere = NULL, vn_vfs_ptr = 0x4000, vn_type = V_DIRECTORY,
        vn_ops = Some FAT12_FS, vn_flags = 0, vn_data = 0x6000\<rparr>,
      0x6000 \<mapsto> KInode \<lparr>in_dir_entry = zero_dir_entry, in_dir_sector = 2, in_dir_offset = 0\<rparr>,
      0x7000 \<mapsto> KVnode \<lparr>vn_name = strncpy_array 28 [102, 100], vn_mountedhere = 0x4000, vn_vfs_ptr = NULL, vn_type = V_DIRECTORY,
        vn_ops = None, vn_flags = 0, vn_data = NULL\<rparr>]\<rparr>"

lemma demo_mounted_get:
  "get_vfs demo_mounted 0x4000 = Some \<lparr>vfs_type = FAT12_FS, vfs_vcovered = 0x7000, vfs_vroot = 0x5000, vfs_fs_data = 0x1000\<rparr>"
  "mount_name demo_mounted 0x4000 = Some [102, 100]" "mount_ok demo_mounted 0x4000"
proof -
  show g: "get_vfs demo_mounted 0x4000 = Some \<lparr>vfs_type = FAT12_FS, vfs_vcovered = 0x7000, vfs_vroot = 0x5000, vfs_fs_data = 0x1000\<rparr>"
    by (simp add: demo_mounted_def get_vfs_def)
  have "cstr_of (strncpy_array 28 [102, 100]) = Some [102, 100]" by (rule cstr_of_strncpy) simp_all
  then show n: "mount_name demo_mounted 0x4000 = Some [102, 100]"
    using g by (simp add: mount_name_def) (simp add: demo_mounted_def get_vnode_def)
  show "mount_ok demo_mounted 0x4000"
    using g n by (simp add: mount_ok_def) (simp add: demo_mounted_def get_vnode_def)
qed

lemma demo_mounted_inv: "vfs_inv demo_mounted" "mount_map demo_mounted = [[102, 100] \<mapsto> 0x4000]"
proof -
  have t: "mountpoints demo_mounted = Some [Some 0x4000, Some NULL, Some NULL, Some NULL, Some NULL]" "curr_size demo_mounted = 5"
    by (simp_all add: demo_mounted_def)
  show "vfs_inv demo_mounted" using demo_mounted_get(3) by (simp add: vfs_inv_def t)
  show "mount_map demo_mounted = [[102, 100] \<mapsto> 0x4000]"
    using demo_mounted_get(2) by (simp add: mount_map_def mount_list_def mp_slots_def t)
qed

theorem vfs_unmount_dangles_witness:
  "\<exists>s'. vfs_unmount demo_ft (Some [47, 102, 100]) demo_mounted = Some (0, s') \<and> vfs_resolve_mountpoint (Some [47, 102, 100, 47, 65]) s' = None"
proof -
  have "mp_find demo_mounted [102, 100] (mp_slots demo_mounted) = Some 0x4000"
    using mp_find_mount_map [OF demo_mounted_inv(1)] demo_mounted_inv(2) by simp
  then have u: "vfs_unmount demo_ft (Some [47, 102, 100]) demo_mounted = fat12_unmount 0x4000 demo_mounted"
    using demo_mounted_get(1) by (simp add: vfs_unmount_def demo_ft_def kernel_fs_def fat12_fs_type_def)
  have "\<exists>s'. fat12_unmount 0x4000 demo_mounted = Some (0, s')"
    by (simp add: fat12_unmount_def demo_mounted_def get_vfs_def get_handle_def get_vnode_def kfree_def demo_handle_def)
  then obtain s' where s': "vfs_unmount demo_ft (Some (47 # [102, 100])) demo_mounted = Some (0, s')" using u by auto
  have "mount_map demo_mounted [102, 100] = Some 0x4000" using demo_mounted_inv(2) by simp
  from vfs_unmount_dangles [OF demo_mounted_inv(1) this demo_mounted_get(1) _ s' [unfolded demo_ft_def], of "[47, 65]"] s'
  show ?thesis by auto
qed

theorem vfs_fat12_no_create_witness:
  "vfs_create demo_ft (Some [47, 102, 100, 47, 65]) 0 demo_mounted = None \<and> vfs_mkdir demo_ft (Some [47, 97, 47, 65]) demo_mounted = Some (- 1, demo_mounted)"
proof -
  have ops: "vn_ops (the (get_vnode demo_mounted (vfs_vroot (the (get_vfs demo_mounted 0x4000))))) = Some FAT12_FS"
    unfolding demo_mounted_get(1) by (simp add: demo_mounted_def get_vnode_def)
  show ?thesis
    using vfs_fat12_no_create [OF demo_mounted_inv(1) _ _ _ _ demo_ft_def, of "[102, 100]" "[47, 65]"]
      vfs_fat12_no_create [OF demo_mounted_inv(1) _ _ _ _ demo_ft_def, of "[97]" "[47, 65]"] ops demo_mounted_inv(2) by auto
qed

theorem add_to_mpoints_grows_witness:
  "\<exists>s'. add_to_mpoints demo_heap 0x5000 (demo_ks\<lparr>mountpoints := Some [Some 0x4000], curr_size := 1\<rparr>) = Some s'
     \<and> add_to_mpoints demo_heap 0x6000 s' = None"
  using add_to_mpoints_grows [of "demo_ks\<lparr>mountpoints := Some [Some 0x4000], curr_size := 1\<rparr>" "[Some 0x4000]" demo_heap "0x5000" "0x6000"]
  by (auto simp: demo_heap_def [THEN arg_cong [where f = kh_realloc]])

definition demo_file_ks :: "unit kstate" where
  "demo_file_ks = kput 0x7000 (KFile \<lparr>f_vnode_ptr = 0x5000, f_offset = 0, f_flags = 0\<rparr>) demo_open_ks"

lemma find_dom:
  assumes "dom (ks_store s) = dom (ks_store s')"
  shows "find (\<lambda>p. ks_store s p = None) ps = find (\<lambda>p. ks_store s' p = None) ps"
  using assms by (intro find_cong refl) (metis domIff)

lemma demo_malloc_use: "heap_use s = heap_use s' \<Longrightarrow> kh_malloc demo_heap s n = kh_malloc demo_heap s' n"
  using find_dom [of s s'] heap_use_dom [of s] heap_use_dom [of s'] unfolding demo_malloc by simp

lemma demo_reads_as: "fat12_reads_as demo_heap demo_file_ks 0x5000 [2, 3] (replicate 512 3 @ replicate 88 4)"
proof -
  have free: "get_vnode demo_open_ks 0x7000 = None" "get_vfs demo_open_ks 0x7000 = None" "get_inode demo_open_ks 0x7000 = None"
    "get_handle demo_open_ks 0x7000 = None" "get_bytes demo_open_ks 0x7000 = None"
    by (simp_all add: demo_open_ks_def get_vnode_def get_vfs_def get_inode_def get_handle_def get_bytes_def)
  then have same: "get_vnode demo_file_ks = get_vnode demo_open_ks" "get_vfs demo_file_ks = get_vfs demo_open_ks"
    "get_inode demo_file_ks = get_inode demo_open_ks" "get_handle demo_file_ks = get_handle demo_open_ks" "get_bytes demo_file_ks = get_bytes demo_open_ks"
    by (auto simp: fun_eq_iff demo_file_ks_def)
  have "kh_malloc demo_heap demo_file_ks 512 \<noteq> NULL" by (simp add: demo_malloc demo_file_ks_def demo_open_ks_def)
  then have m: "\<forall>s'. heap_use s' = heap_use demo_file_ks \<longrightarrow> kh_malloc demo_heap s' 512 \<noteq> NULL" using demo_malloc_use by metis
  have b: "reads_disk (fh_block_dev demo_handle) (\<lambda>bs w. bs = demo_blk) demo_disk 5" "ks_blk demo_file_ks = demo_blk"
    using demo_reads_disk by (simp_all add: demo_handle_def demo_file_ks_def demo_open_ks_def demo_ks_def)
  have n: "fat12_node demo_file_ks 0x5000 demo_handle (dir_entry_of demo_entry)" "fat12_file demo_file_ks demo_handle (dir_entry_of demo_entry) [2, 3] 5"
    using demo_node demo_file unfolding fat12_node_def fat12_file_def fat12_tables_def same by blast+
  have c: "de_attributes (dir_entry_of demo_entry) AND FAT12_DIR = 0" by (simp add: demo_entry_fields const_defs)
  have d: "replicate 512 3 @ replicate 88 4 = take (unat (de_file_size (dir_entry_of demo_entry))) (file_blocks demo_disk demo_handle [2, 3])"
    by code_simp
  show ?thesis
    unfolding fat12_reads_as_def using demo_heap_ok m b n c d by blast
qed

theorem vfs_read_sequence_witness:
  "\<exists>s'. vfs_read_seq demo_ft 0x7000 [500, 300] demo_file_ks = Some (replicate 512 3 @ replicate 88 4, s')"
proof -
  have o: "open_file demo_ft demo_file_ks 0x7000 0x5000 0 (fat12_read demo_heap)"
    by (simp add: open_file_def demo_file_ks_def node_ops_def demo_ft_def kernel_fs_def fat12_vnode_ops_def)
      (simp add: demo_open_ks_def get_vnode_def fat12_vnode_ops_def)
  have r: "reads_total [500, 300] = 800" by (simp add: reads_total_def)
  show ?thesis using vfs_read_sequence [OF o demo_reads_as, of "[500, 300]"] r demo_in_place by auto
qed

end
