(* ===== verification/Fs_Vfs_Run.thy ===== *)
theory Fs_Vfs_Run
  imports Fs_Vfs_Demo
begin

text \<open>
  The file system layer in use: its calls as a step relation, and what is true in every state that any sequence of
  them reaches.
\<close>

section \<open>What the operations leave in place\<close>

definition stays :: "'w kstate \<Rightarrow> 'w kstate \<Rightarrow> bool" where
  "stays s s' \<longleftrightarrow> objs_le s s' \<and> keeps_table s s'"

lemma stays_refl [simp]: "stays s s"
  by (simp add: stays_def objs_le_def)

lemma stays_trans: "stays s s1 \<Longrightarrow> stays s1 s2 \<Longrightarrow> stays s s2"
  by (auto simp: stays_def objs_le_def keeps_table_def)

lemma stays_world [simp]: "stays s (s1\<lparr>ks_world := w\<rparr>) = stays s s1"
  by (simp add: stays_def objs_le_def keeps_table_def)

lemma stays_get: "stays s s1 \<Longrightarrow> get_vfs s1 q = None \<Longrightarrow> get_vfs s q = None" "stays s s1 \<Longrightarrow> get_vnode s1 q = None \<Longrightarrow> get_vnode s q = None"
  by (auto simp: stays_def objs_le_def intro: ccontr)

text \<open>An address that holds neither a file system nor a vnode may be overwritten and freed.\<close>

definition spare :: "'w kstate \<Rightarrow> ptr \<Rightarrow> bool" where
  "spare s p \<longleftrightarrow> get_vfs s p = None \<and> get_vnode s p = None"

lemma stays_kput: "stays s s1 \<Longrightarrow> spare s p \<Longrightarrow> stays s (kput p ob s1)"
  by (auto simp: stays_def objs_le_def spare_def)

lemma stays_kfree:
  assumes "kfree p s1 = Some s2" and "stays s s1" and "spare s p"
  shows "stays s s2"
proof (cases "p = NULL")
  case False
  then have s2: "ks_store s2 = (ks_store s1)(p := None)" "keeps_table s1 s2"
    using assms(1) kfree_keeps [OF assms(1)] by (auto simp: kfree_def split: option.splits)
  then have "get_vfs s2 q = (if q = p then None else get_vfs s1 q)" "get_vnode s2 q = (if q = p then None else get_vnode s1 q)" for q
    by (simp_all add: get_vfs_def get_vnode_def)
  then show ?thesis using assms(2,3) s2(2) keeps_table_trans unfolding stays_def objs_le_def spare_def by (metis option.distinct(1))
qed (use assms in \<open>simp add: kfree_def\<close>)

lemma stays_kalloc:
  assumes "heap_ok kh" and "kalloc kh n s1 = (p, s2)" and "stays s s1"
  shows "stays s s2" "p \<noteq> NULL \<Longrightarrow> spare s p"
proof -
  have p: "p \<noteq> NULL \<Longrightarrow> spare s p"
    using kalloc_fresh [OF assms(1,2)] stays_get [OF assms(3), of p] by (auto simp: spare_def get_vfs_def get_vnode_def)
  then show "p \<noteq> NULL \<Longrightarrow> spare s p" .
  show "stays s s2" using kalloc_fresh [OF assms(1,2)] p assms(3) stays_kput by fastforce
qed

section \<open>The FAT12 driver\<close>

lemma fat12_new_node_stays:
  assumes heap: "heap_ok kh" and "fat12_new_node kh dn name e sector i s1 = Some (p, s')" and "stays s s1"
  shows "stays s s'"
proof -
  obtain n s2 where n: "kalloc kh sizeof_vnode s1 = (n, s2)" by fastforce
  note sn = stays_kalloc [OF heap n assms(3)]
  obtain m s3 where m: "kalloc kh sizeof_inode s2 = (m, s3)" by fastforce
  note sm = stays_kalloc [OF heap m sn(1)]
  show ?thesis
  proof (cases "n = NULL \<or> m = NULL")
    case True
    then show ?thesis using assms(2) n m sn sm stays_kfree
      by (auto simp: fat12_new_node_def Let_def Option.bind_eq_Some_conv split: if_splits)
  next
    case False
    then show ?thesis using assms(2) n m sn(2) sm by (auto simp: fat12_new_node_def Let_def intro!: stays_kput)
  qed
qed

lemma fat12_lookup_loop_stays:
  assumes "heap_ok kh" and "fat12_lookup_loop kh fs dn name fn ks entries s1 = Some (p, s')" and "stays s s1"
  shows "stays s s'"
  using assms(2,3)
proof (induction ks arbitrary: entries s1)
  case (Cons k ks)
  obtain b s2 where r2: "kblkread (fh_block_dev fs) (fh_root_dir_start fs + of_nat k) entries s1 = Some (b, s2)"
    using Cons.prems(1) by (auto simp: Option.bind_eq_Some_conv Let_def)
  then obtain w where r: "kblkread (fh_block_dev fs) (fh_root_dir_start fs + of_nat k) entries s1 = Some (b, s1\<lparr>ks_world := w\<rparr>)"
    using kblkread_state by blast
  have st: "stays s (s1\<lparr>ks_world := w\<rparr>)" using Cons.prems(2) by simp
  show ?case using Cons.prems(1) r st Cons.IH fat12_new_node_stays [OF assms(1) _ st] by (auto split: scan.splits)
qed simp

lemma fat12_open_stays:
  assumes "heap_ok kh" and "fat12_open kh stack node path flags s = Some (p, s')"
  shows "stays s s'"
  using assms(2) fat12_lookup_loop_stays [OF assms(1) _ stays_refl]
  by (auto simp: fat12_open_def fat12_lookup_def Let_def Option.bind_eq_Some_conv split: if_splits)

lemma fat12_read_loop_state:
  "fat12_read_loop fs bpb fat bpc offs sz tot n c br rb buf s = Some (b, s') \<Longrightarrow> \<exists>w. s' = s\<lparr>ks_world := w\<rparr>"
proof (induction n arbitrary: c br rb buf s)
  case 0
  then show ?case by (intro exI [of _ "ks_world s"]) simp
next
  case (Suc n)
  then obtain rb1 w where "kblkread (fh_block_dev fs) (fat12_cluster_to_lba fs bpb c) rb s = Some (rb1, s\<lparr>ks_world := w\<rparr>)"
    using kblkread_state by (fastforce simp: Option.bind_eq_Some_conv Let_def)
  then show ?case using Suc.prems Suc.IH [of _ _ _ _ "s\<lparr>ks_world := w\<rparr>"]
    by (auto simp: Option.bind_eq_Some_conv Let_def split: if_splits)
qed

lemma fat12_read_stays:
  assumes heap: "heap_ok kh" and "fat12_read kh node offs sz buf s = Some (r, b, s')"
  shows "stays s s'"
proof -
  have "stays s s'" if "fat12_read_file kh fs e offs sz bf s = Some (r, b, s')" for fs e bf
  proof -
    obtain p s1 where p: "kalloc kh (ucast (bpb_sectors_per_cluster (bpb_of (the (get_bytes s (fh_bpb fs))))) * ucast (bpb_bytes_per_sector (bpb_of (the (get_bytes s (fh_bpb fs)))))) s = (p, s1)"
      by fastforce
    note st = stays_kalloc [OF heap p stays_refl]
    show ?thesis using that p st fat12_read_loop_state stays_kfree [of p]
      by (fastforce simp: fat12_read_file_def Let_def Option.bind_eq_Some_conv split: if_splits)
  qed
  then show ?thesis using assms(2) by (auto simp: fat12_read_def Option.bind_eq_Some_conv split: if_splits)
qed

lemma fat12_mount_root_fails:
  assumes heap: "heap_ok kh" and "fat12_mount_root kh fs h s1 = Some (NULL, s')" and "stays s s1"
    and "spare s fs" "spare s (fh_fat_table h)" "spare s (fh_bpb h)"
  shows "stays s s'"
proof -
  obtain f s2 where f: "kalloc kh sizeof_vfs s1 = (f, s2)" by fastforce
  note sf = stays_kalloc [OF heap f assms(3)]
  have "f = NULL" using assms(2) f by (auto simp: fat12_mount_root_def Let_def split: if_splits prod.splits)
  then obtain s3 s4 where "kfree (fh_fat_table h) s2 = Some s3" "kfree (fh_bpb h) s3 = Some s4" "kfree fs s4 = Some s'"
    using assms(2) f by (auto simp: fat12_mount_root_def Let_def Option.bind_eq_Some_conv)
  then show ?thesis using sf(1) assms(4-6) stays_kfree by metis
qed

lemma fat12_mount_fails:
  assumes heap: "heap_ok kh" and "fat12_mount kh dev s = Some (NULL, s')"
  shows "stays s s'"
proof -
  obtain fs s1 where k1: "kalloc kh sizeof_fat12_handle_t s = (fs, s1)" by fastforce
  note st1 = stays_kalloc [OF heap k1 stays_refl]
  obtain bp s2 where k2: "kalloc kh 512 s1 = (bp, s2)" by fastforce
  note st2 = stays_kalloc [OF heap k2 st1(1)]
  let ?dev = "blkdev_get_by_name (ks_blk s2) dev"
  consider "fs = NULL" | "fs \<noteq> NULL" "bp = NULL" | "fs \<noteq> NULL" "bp \<noteq> NULL" "?dev = NULL" | "fs \<noteq> NULL" "bp \<noteq> NULL" "?dev \<noteq> NULL" by blast
  then show ?thesis
  proof cases
    case 1
    then show ?thesis using assms(2) k1 st1(1) by (simp add: fat12_mount_def)
  next
    case 2
    then show ?thesis using assms(2) k1 k2 st1 st2(1) stays_kfree by (auto simp: fat12_mount_def Let_def Option.bind_eq_Some_conv)
  next
    case 3
    then obtain s3 where "kfree bp s2 = Some s3" "kfree fs s3 = Some s'"
      using assms(2) k1 k2 by (auto simp: fat12_mount_def Let_def Option.bind_eq_Some_conv)
    then show ?thesis using 3 st1 st2 stays_kfree by metis
  next
    case 4
    obtain b0 b s3 where b: "get_bytes s2 bp = Some b0" "kblkread ?dev 0 b0 s2 = Some (b, s3)" "bpb_bytes_per_sector (bpb_of b) \<noteq> 0"
      using assms(2) 4 k1 k2 by (auto simp: fat12_mount_def Let_def Option.bind_eq_Some_conv split: if_splits)
    let ?h = "fat12_layout (bpb_of b) bp ?dev"
    let ?s4 = "kput fs (KHandle ?h) (kput bp (KBytes b) s3)"
    have "stays s s3" using kblkread_state [OF b(2)] st2(1) by auto
    then have st4: "stays s ?s4" using 4 st1(2) st2(2) by (intro stays_kput) auto
    obtain ft s5 where k5: "kalloc kh (ucast (bpb_sectors_per_fat (bpb_of b)) * ucast (bpb_bytes_per_sector (bpb_of b))) ?s4 = (ft, s5)" by fastforce
    note st5 = stays_kalloc [OF heap k5 st4]
    show ?thesis
    proof (cases "ft = NULL")
      case True
      then obtain s6 where "kfree bp s5 = Some s6" "kfree fs s6 = Some s'"
        using assms(2) 4 k1 k2 b k5 by (auto simp: fat12_mount_def Let_def Option.bind_eq_Some_conv)
      then show ?thesis using 4 st1(2) st2(2) st5(1) stays_kfree by metis
    next
      case False
      let ?h1 = "?h\<lparr>fh_fat_table := ft\<rparr>"
      obtain t0 t s6 where t: "fat12_load_fat ?dev (fh_fat_start ?h) (unat (bpb_bytes_per_sector (bpb_of b)))
          [0..<unat (bpb_sectors_per_fat (bpb_of b))] t0 s5 = Some (t, s6)"
        "fat12_mount_root kh fs ?h1 (kput fs (KHandle ?h1) (kput ft (KBytes t) s6)) = Some (NULL, s')"
        using assms(2) 4 k1 k2 b k5 False by (auto simp: fat12_mount_def Let_def Option.bind_eq_Some_conv)
      have "stays s s6" using fat12_load_fat_state [OF t(1)] st5(1) by auto
      then have "stays s (kput fs (KHandle ?h1) (kput ft (KBytes t) s6))" using 4 False st1(2) st5(2) by (intro stays_kput) auto
      from fat12_mount_root_fails [OF heap t(2) this] show ?thesis
        using 4 False st1(2) st2(2) st5(2) by (simp add: fat12_layout_def Let_def)
    qed
  qed
qed

section \<open>A running file system layer\<close>

text \<open>A driver that adds nothing but what it should: a mount that fails and every vnode operation leave the mounted
  file systems, the vnodes and the table as they are, and a mount that succeeds only adds to them. The FAT12
  driver is such a driver.\<close>

definition driver_stays :: "'w fs_type_t \<Rightarrow> 'w vnode_ops_t \<Rightarrow> bool" where
  "driver_stays ty ops \<longleftrightarrow> mount_extends (vfs_op_mount (vfs_ops ty))
     \<and> (\<forall>dev s s'. vfs_op_mount (vfs_ops ty) dev s = Some (NULL, s') \<longrightarrow> stays s s')
     \<and> (\<forall>opn n p fl s r s'. vop_open ops = Some opn \<and> opn n p fl s = Some (r, s') \<longrightarrow> stays s s')
     \<and> (\<forall>rd n off sz b s r b' s'. vop_read ops = Some rd \<and> rd n off sz b s = Some (r, b', s') \<longrightarrow> stays s s')
     \<and> (\<forall>wr n off sz b s r s'. vop_write ops = Some wr \<and> wr n off sz b s = Some (r, s') \<longrightarrow> stays s s')
     \<and> (\<forall>cl n s r s'. vop_close ops = Some cl \<and> cl n s = Some (r, s') \<longrightarrow> stays s s')"

lemma fat12_driver_stays:
  assumes "heap_ok kh"
  shows "driver_stays (fat12_fs_type kh) (fat12_vnode_ops kh stack)"
  using fat12_mount_extends [OF assms] fat12_mount_fails [OF assms] fat12_open_stays [OF assms] fat12_read_stays [OF assms]
  by (auto simp: driver_stays_def fat12_fs_type_def fat12_vnode_ops_def fat12_close_def fat12_write_def)

text \<open>A free slot, or the first mount with memory for the smaller table.\<close>

definition table_room :: "'w kheap \<Rightarrow> 'w kstate \<Rightarrow> bool" where
  "table_room kh s \<longleftrightarrow> Some NULL \<in> set (mp_slots s) \<or> curr_size s = 0 \<and> (\<forall>s'. kh_realloc kh s' (5 * sizeof_ptr))"

text \<open>The calls of the layer. The source of the HFS driver is not part of the program, so a step is a call that
  is not handed to it: the mount is not for HFS, and the vnode the call is about is not one of HFS.\<close>

definition not_hfs :: "'w kstate \<Rightarrow> ptr \<Rightarrow> bool" where
  "not_hfs s n \<longleftrightarrow> (case get_vnode s n of None \<Rightarrow> True | Some v \<Rightarrow> vn_ops v \<noteq> Some HFS_FS)"

definition file_not_hfs :: "'w kstate \<Rightarrow> ptr \<Rightarrow> bool" where
  "file_not_hfs s fp \<longleftrightarrow> (case get_file s fp of None \<Rightarrow> True | Some f \<Rightarrow> not_hfs s (f_vnode_ptr f))"

definition path_not_hfs :: "'w kstate \<Rightarrow> u8 list option \<Rightarrow> bool" where
  "path_not_hfs s path \<longleftrightarrow> (case vfs_resolve_mountpoint path s of None \<Rightarrow> True | Some (n, p) \<Rightarrow> not_hfs s n)"

inductive vfs_step :: "'w kheap \<Rightarrow> 'w fs_table \<Rightarrow> 'w kstate \<Rightarrow> 'w kstate \<Rightarrow> bool" for kh ft where
  step_mount: "vfs_mount kh ft dev (Some (47 # name)) ty s = Some (r, s') \<Longrightarrow> 0 \<notin> set name \<Longrightarrow> length name < 28
     \<Longrightarrow> mount_map s name = None \<Longrightarrow> table_room kh s \<Longrightarrow> find_fs_type ft ty fs_types \<noteq> Some HFS_FS \<Longrightarrow> vfs_step kh ft s s'"
| step_open: "vfs_open kh ft path flags s = Some (fp, s') \<Longrightarrow> path_not_hfs s path \<Longrightarrow> vfs_step kh ft s s'"
| step_read: "vfs_read ft fp buf sz s = Some (r, buf', s') \<Longrightarrow> file_not_hfs s fp \<Longrightarrow> vfs_step kh ft s s'"
| step_write: "vfs_write ft fp buf sz s = Some (r, s') \<Longrightarrow> file_not_hfs s fp \<Longrightarrow> vfs_step kh ft s s'"
| step_close: "vfs_close ft fp s = Some (r, s') \<Longrightarrow> file_not_hfs s fp \<Longrightarrow> vfs_step kh ft s s'"
| step_alloc: "kalloc kh n s = (p, s') \<Longrightarrow> vfs_step kh ft s s'"
| step_device: "vfs_step kh ft s (s\<lparr>ks_world := w\<rparr>)"

lemma file_spare: "get_file s fp = Some f \<Longrightarrow> spare s fp"
  by (auto simp: get_file_def spare_def get_vfs_def get_vnode_def split: option.splits kobj.splits)

lemma advance_file_stays:
  assumes "advance_file fp n s1 = Some s2" and "stays s s1" and "spare s fp"
  shows "stays s s2"
  using assms stays_kput by (auto simp: advance_file_def Option.bind_eq_Some_conv split: if_splits)

lemma node_opsD: "node_ops ft s n = Some ops \<Longrightarrow> not_hfs s n \<Longrightarrow> ops = ft_ops ft FAT12_FS"
  by (auto simp: node_ops_def Option.bind_eq_Some_conv not_hfs_def) (metis fs_id.exhaust)

lemma ops_stay:
  assumes "driver_stays (ft_type ft FAT12_FS) (ft_ops ft FAT12_FS)" and "not_hfs s0 n0" and "node_ops ft s0 n0 = Some ops"
  shows "vop_open ops = Some opn \<Longrightarrow> opn n p fl s = Some (r, s') \<Longrightarrow> stays s s'"
    and "vop_read ops = Some rd \<Longrightarrow> rd n off sz b s = Some (r', b', s') \<Longrightarrow> stays s s'"
    and "vop_write ops = Some wr \<Longrightarrow> wr n off sz b s = Some (r', s') \<Longrightarrow> stays s s'"
    and "vop_close ops = Some cl \<Longrightarrow> cl n s = Some (r', s') \<Longrightarrow> stays s s'"
proof -
  note d = assms(1) [folded node_opsD [OF assms(3,2)], unfolded driver_stays_def]
  show "vop_open ops = Some opn \<Longrightarrow> opn n p fl s = Some (r, s') \<Longrightarrow> stays s s'" using d by (elim conjE) metis
  show "vop_read ops = Some rd \<Longrightarrow> rd n off sz b s = Some (r', b', s') \<Longrightarrow> stays s s'" using d by (elim conjE) metis
  show "vop_write ops = Some wr \<Longrightarrow> wr n off sz b s = Some (r', s') \<Longrightarrow> stays s s'" using d by (elim conjE) metis
  show "vop_close ops = Some cl \<Longrightarrow> cl n s = Some (r', s') \<Longrightarrow> stays s s'" using d by (elim conjE) metis
qed

lemma vfs_open_stays:
  assumes heap: "heap_ok kh" and drv: "driver_stays (ft_type ft FAT12_FS) (ft_ops ft FAT12_FS)" and "vfs_open kh ft path flags s = Some (fp, s')"
    and hfs: "path_not_hfs s path"
  shows "stays s s'"
proof -
  obtain n p where "vfs_resolve_mountpoint path s = Some (n, p)" using assms(3) by (auto simp: vfs_open_def Option.bind_eq_Some_conv)
  show ?thesis
  proof (cases "n = NULL")
    case False
    then obtain ops opn q s1 where o: "node_ops ft s n = Some ops" "vop_open ops = Some opn" "opn n (Some p) flags s = Some (q, s1)"
      "(if q = NULL then Some (NULL, s1) else let (fp, s2) = kalloc kh sizeof_file_t s1 in
         if fp = NULL then None else Some (fp, kput fp (KFile \<lparr>f_vnode_ptr = q, f_offset = 0, f_flags = flags\<rparr>) s2)) = Some (fp, s')"
      using assms(3) \<open>vfs_resolve_mountpoint path s = Some (n, p)\<close> by (auto simp: vfs_open_def Option.bind_eq_Some_conv)
    have nh: "not_hfs s n" using hfs \<open>vfs_resolve_mountpoint path s = Some (n, p)\<close> by (simp add: path_not_hfs_def)
    have s1: "stays s s1" by (rule ops_stay(1) [OF drv nh o(1-3)])
    then show ?thesis using o(4) stays_kalloc [OF heap _ s1] by (fastforce simp: Let_def split: if_splits prod.splits intro!: stays_kput)
  qed (use assms(3) \<open>vfs_resolve_mountpoint path s = Some (n, p)\<close> in \<open>simp add: vfs_open_def\<close>)
qed

lemma vfs_file_stays:
  assumes drv: "driver_stays (ft_type ft FAT12_FS) (ft_ops ft FAT12_FS)" and hfs: "file_not_hfs s fp"
  shows "vfs_read ft fp buf sz s = Some (r, buf', s') \<Longrightarrow> stays s s'"
    and "vfs_write ft fp buf sz s = Some (r, s') \<Longrightarrow> stays s s'"
    and "vfs_close ft fp s = Some (r, s') \<Longrightarrow> stays s s'"
proof -
  have nh: "get_file s fp = Some f \<Longrightarrow> not_hfs s (f_vnode_ptr f)" for f using hfs by (simp add: file_not_hfs_def)
  show "stays s s'" if "vfs_read ft fp buf sz s = Some (r, buf', s')"
  proof (cases "\<exists>f ops rd n b s1. get_file s fp = Some f \<and> node_ops ft s (f_vnode_ptr f) = Some ops \<and> vop_read ops = Some rd
      \<and> rd (f_vnode_ptr f) (f_offset f) sz buf s = Some (n, b, s1) \<and> advance_file fp n s1 = Some s'")
    case True
    then show ?thesis using ops_stay(2) [OF drv nh] advance_file_stays file_spare by metis
  next
    case False
    then show ?thesis using that by (auto simp: vfs_read_def Option.bind_eq_Some_conv split: if_splits)
  qed
  show "stays s s'" if "vfs_write ft fp buf sz s = Some (r, s')"
  proof (cases "\<exists>f ops wr n s1. get_file s fp = Some f \<and> node_ops ft s (f_vnode_ptr f) = Some ops \<and> vop_write ops = Some wr
      \<and> wr (f_vnode_ptr f) (f_offset f) sz buf s = Some (n, s1) \<and> advance_file fp n s1 = Some s'")
    case True
    then show ?thesis using ops_stay(3) [OF drv nh] advance_file_stays file_spare by metis
  next
    case False
    then show ?thesis using that by (auto simp: vfs_write_def Option.bind_eq_Some_conv split: if_splits)
  qed
  show "stays s s'" if "vfs_close ft fp s = Some (r, s')"
  proof (cases "\<exists>f ops cl n s1. get_file s fp = Some f \<and> node_ops ft s (f_vnode_ptr f) = Some ops \<and> vop_close ops = Some cl
      \<and> cl (f_vnode_ptr f) s = Some (n, s1) \<and> kfree fp s1 = Some s'")
    case True
    then show ?thesis using ops_stay(4) [OF drv nh] stays_kfree file_spare by metis
  next
    case False
    then show ?thesis using that by (auto simp: vfs_close_def Option.bind_eq_Some_conv split: if_splits)
  qed
qed

definition mounts_grow :: "'w kstate \<Rightarrow> 'w kstate \<Rightarrow> bool" where
  "mounts_grow s s' \<longleftrightarrow> vfs_inv s' \<and> mount_map s \<subseteq>\<^sub>m mount_map s' \<and> objs_le s s'"

lemma mounts_grow_trans: "mounts_grow s s1 \<Longrightarrow> mounts_grow s1 s2 \<Longrightarrow> mounts_grow s s2"
  by (auto simp: mounts_grow_def objs_le_def intro: map_le_trans)

lemma stays_mounts_grow: "vfs_inv s \<Longrightarrow> stays s s' \<Longrightarrow> mounts_grow s s'"
  using inv_extends [of s s'] by (simp add: mounts_grow_def stays_def keeps_table_def)

lemma vfs_mount_grows:
  assumes heap: "heap_ok kh" and drv: "driver_stays (ft_type ft FAT12_FS) (ft_ops ft FAT12_FS)" and inv: "vfs_inv s"
    and m: "vfs_mount kh ft dev (Some (47 # name)) ty s = Some (r, s')"
    and name: "0 \<notin> set name" "length name < 28" "mount_map s name = None" and room: "table_room kh s"
    and hfs: "find_fs_type ft ty fs_types \<noteq> Some HFS_FS"
  shows "mounts_grow s s'"
proof (cases "find_fs_type ft ty fs_types")
  case None
  then show ?thesis using m stays_mounts_grow [OF inv stays_refl] by (simp add: vfs_mount_def)
next
  case (Some fid)
  have fid12: "fid = FAT12_FS" using Some hfs by (cases fid) simp_all
  let ?mnt = "vfs_op_mount (vfs_ops (ft_type ft fid))"
  have d: "mount_extends ?mnt" "?mnt dev s = Some (NULL, s1) \<Longrightarrow> stays s s1" for s1
    using drv [folded fid12] unfolding driver_stays_def by (elim conjE, metis)+
  obtain p s1 where p: "?mnt dev s = Some (p, s1)" using m Some by (auto simp: vfs_mount_def Option.bind_eq_Some_conv)
  show ?thesis
  proof (cases "p = NULL")
    case True
    then have "s' = s1" using m Some p by (simp add: vfs_mount_def)
    then show ?thesis using stays_mounts_grow [OF inv d(2)] p True by simp
  next
    case False
    have mem: "kh_malloc kh s1 sizeof_vnode \<noteq> NULL"
      using m Some p False by (auto simp: vfs_mount_def kalloc_def Let_def split: if_splits)
    obtain s2 where s2: "vfs_mount kh ft dev (Some (47 # name)) ty s = Some (0, s2)" "vfs_inv s2" "mount_map s2 = (mount_map s)(name \<mapsto> p)"
      "ks_store s \<subseteq>\<^sub>m ks_store s2"
      using vfs_mount_extends [OF heap inv Some d(1) p False mem name mount_table_room [OF room [unfolded table_room_def]]] by blast
    then have "s' = s2" using m by simp
    moreover have "mount_map s \<subseteq>\<^sub>m (mount_map s)(name \<mapsto> p)" using name(3) by (auto simp: map_le_def)
    ultimately show ?thesis using s2 store_le_objs by (simp add: mounts_grow_def)
  qed
qed

lemma vfs_step_grows:
  assumes "heap_ok kh" and "driver_stays (ft_type ft FAT12_FS) (ft_ops ft FAT12_FS)" and "vfs_inv s" and "vfs_step kh ft s s'"
  shows "mounts_grow s s'"
  using assms(4)
proof (cases rule: vfs_step.cases)
  case (step_mount dev name ty r)
  then show ?thesis using vfs_mount_grows [OF assms(1-3)] by blast
next
  case (step_alloc n p)
  then show ?thesis using stays_mounts_grow [OF assms(3)] stays_kalloc(1) [OF assms(1) _ stays_refl] by blast
qed (use stays_mounts_grow [OF assms(3)] vfs_open_stays [OF assms(1,2)] vfs_file_stays [OF assms(2)] in auto)

lemma vfs_steps_grow:
  assumes "heap_ok kh" and "driver_stays (ft_type ft FAT12_FS) (ft_ops ft FAT12_FS)" and "vfs_inv s" and "(vfs_step kh ft)\<^sup>*\<^sup>* s s'"
  shows "mounts_grow s s'"
  using assms(4)
proof (induction rule: rtranclp_induct)
  case base
  show ?case by (rule stays_mounts_grow [OF assms(3) stays_refl])
next
  case (step s1 s2)
  have "vfs_inv s1" using step.IH by (simp add: mounts_grow_def)
  from vfs_step_grows [OF assms(1,2) this step.hyps(2)] show ?case using step.IH mounts_grow_trans by blast
qed

text \<open>Property C10: whatever sequence of mounts at new names, opens, reads, writes, closes and allocations that are not
  handed to the HFS driver follows the initialisation, the table of mount points keeps its invariant, and a
  file system that is mounted stays mounted: every path below its name resolves to the same root vnode and
  rest in every later state. Mounts may fail, but the table must have room for them; unmounting is not among
  the steps, since it leaves the table dangling.\<close>

theorem vfs_mounts_persist:
  assumes "heap_ok kh" and "ft = kernel_fs kh stack hfs_fs_type hfs_ops"
    and "vfs_init kh s0 = Some s1" and "(vfs_step kh ft)\<^sup>*\<^sup>* s1 s" and "(vfs_step kh ft)\<^sup>*\<^sup>* s s'"
  shows "vfs_inv s \<and> mount_map s \<subseteq>\<^sub>m mount_map s'
     \<and> (\<forall>name mp rest. mount_map s name = Some mp \<and> 47 \<notin> set name \<and> name \<noteq> [] \<and> length name < 255 \<and> (rest = [] \<or> hd rest = 47) \<longrightarrow>
          vfs_resolve_mountpoint (Some (47 # name @ rest)) s' = vfs_resolve_mountpoint (Some (47 # name @ rest)) s
          \<and> vfs_resolve_mountpoint (Some (47 # name @ rest)) s
              = Some (vfs_vroot (the (get_vfs s mp)), take 255 (if rest = [] then [47] else rest)))"
proof -
  have drv: "driver_stays (ft_type ft FAT12_FS) (ft_ops ft FAT12_FS)"
    using fat12_driver_stays [OF assms(1)] unfolding assms(2) by (simp add: kernel_fs_def)
  have inv: "vfs_inv s" using vfs_steps_grow [OF assms(1) drv vfs_init_inv(1) [OF assms(3)] assms(4)] by (simp add: mounts_grow_def)
  then have grow: "mounts_grow s s'" using vfs_steps_grow [OF assms(1) drv _ assms(5)] by blast
  then have g: "vfs_inv s'" "mount_map s \<subseteq>\<^sub>m mount_map s'" "objs_le s s'" by (simp_all add: mounts_grow_def)
  show ?thesis
  proof (intro conjI allI impI inv g(2); elim conjE)
    fix name mp and rest :: "u8 list"
    assume n: "mount_map s name = Some mp" "47 \<notin> set name" "name \<noteq> []" "length name < 255" "rest = [] \<or> hd rest = 47"
    have n': "mount_map s' name = Some mp" using g(2) n(1) unfolding map_le_def by (metis domI)
    obtain f where "get_vfs s mp = Some f" using mount_map_ok(2) [OF inv n(1)] by (auto simp: mount_ok_def)
    then have "get_vfs s' mp = get_vfs s mp" using g(3) by (simp add: objs_le_def)
    then show "vfs_resolve_mountpoint (Some (47 # name @ rest)) s' = vfs_resolve_mountpoint (Some (47 # name @ rest)) s"
      unfolding resolve_mounted [OF inv n(2-5)] resolve_mounted [OF g(1) n(2-5)] n(1) n' by simp
    show "vfs_resolve_mountpoint (Some (47 # name @ rest)) s = Some (vfs_vroot (the (get_vfs s mp)), take 255 (if rest = [] then [47] else rest))"
      unfolding resolve_mounted [OF inv n(2-5)] n(1) by simp
  qed
qed

theorem vfs_mounts_persist_witness:
  "\<exists>s s'. (vfs_step demo_heap demo_ft)\<^sup>*\<^sup>* demo_vfs s \<and> (vfs_step demo_heap demo_ft)\<^sup>*\<^sup>* s s' \<and> mount_map s = [[102, 100] \<mapsto> 0x4000]
     \<and> mount_map s \<subseteq>\<^sub>m mount_map s'
     \<and> vfs_resolve_mountpoint (Some [47, 102, 100, 47, 65]) s' = Some (vfs_vroot (the (get_vfs s 0x4000)), [47, 65])"
proof -
  obtain s1 where s1: "fat12_mount demo_heap (Some [102, 100, 48]) demo_vfs = Some (0x4000, s1)" "kh_malloc demo_heap s1 sizeof_vnode \<noteq> NULL"
    using demo_vfs_mount by blast
  note i = vfs_init_inv [OF demo_vfs_init]
  have op: "vfs_op_mount (vfs_ops (ft_type demo_ft FAT12_FS)) = fat12_mount demo_heap" by (simp add: demo_ft_def kernel_fs_def fat12_fs_type_def)
  have fid: "find_fs_type demo_ft [102, 97, 116, 49, 50] fs_types = Some FAT12_FS" by (simp add: demo_ft_def fs_types_def kernel_fs_def fat12_fs_type_def)
  have room: "table_room demo_heap demo_vfs" using i(3) by (simp add: table_room_def demo_heap_def)
  have nm: "0 \<notin> set [102, 100 :: u8]" "length [102, 100 :: u8] < 28" "mount_map demo_vfs [102, 100] = None" using i(2) by simp_all
  obtain s where s: "vfs_mount demo_heap demo_ft (Some [102, 100, 48]) (Some (47 # [102, 100])) [102, 97, 116, 49, 50] demo_vfs = Some (0, s)"
     "mount_map s = (mount_map demo_vfs)([102, 100] \<mapsto> 0x4000)"
    using vfs_mount_extends [OF demo_heap_ok i(1) fid, unfolded op, OF fat12_mount_extends [OF demo_heap_ok] s1(1) _ s1(2) nm mount_table_room [OF room [unfolded table_room_def]]]
    by auto
  have r1: "(vfs_step demo_heap demo_ft)\<^sup>*\<^sup>* demo_vfs s" by (rule r_into_rtranclp, rule step_mount [OF s(1) nm room]) (simp add: fid)
  obtain p s' where "kalloc demo_heap 16 s = (p, s')" by fastforce
  then have r2: "(vfs_step demo_heap demo_ft)\<^sup>*\<^sup>* s s'" by (intro r_into_rtranclp step_alloc)
  have map: "mount_map s = [[102, 100] \<mapsto> 0x4000]" using s(2) i(2) by simp
  note persist = vfs_mounts_persist [OF demo_heap_ok demo_ft_def demo_vfs_init r1 r2]
  have "vfs_resolve_mountpoint (Some (47 # [102, 100] @ [47, 65])) s' = Some (vfs_vroot (the (get_vfs s 0x4000)), [47, 65])"
    using persist [THEN conjunct2, THEN conjunct2, rule_format, of "[102, 100]" "0x4000" "[47, 65]"] map by simp
  then show ?thesis using r1 r2 map persist by (intro exI [of _ s] exI [of _ s']) simp
qed

end
