(* ===== verification/Fs_File.thy ===== *)
theory Fs_File
  imports Fs_Vfs_Mount
begin

text \<open>
  The file system as a whole on any readable device: with room on the heap, mounting a volume succeeds, opening
  one of its files succeeds, and reading yields the bytes the disk has for the file.
\<close>

section \<open>Room on the heap\<close>

text \<open>The heap can provide \<open>k\<close> more blocks of up to 6144 bytes, whichever blocks of up to that size are allocated in
  between, and can grow a block within that size. The largest block the driver asks for is the table of a
  volume, and a FAT12 table has at most 12 sectors.\<close>

definition ROOM_SIZE :: nat where [const_defs]: "ROOM_SIZE = 6144"

definition heap_more :: "'w kstate \<Rightarrow> 'w kstate \<Rightarrow> ptr set" where
  "heap_more s s' = dom (heap_use s') - dom (heap_use s)"

definition heap_room :: "'w kheap \<Rightarrow> 'w kstate \<Rightarrow> nat \<Rightarrow> bool" where
  "heap_room kh s k \<longleftrightarrow> (\<forall>s' n. heap_use s \<subseteq>\<^sub>m heap_use s' \<and> finite (heap_more s s') \<and> card (heap_more s s') < k
     \<and> (\<forall>p\<in>heap_more s s'. the (heap_use s' p) \<le> ROOM_SIZE) \<and> unat n \<le> ROOM_SIZE
     \<longrightarrow> kh_malloc kh s' n \<noteq> NULL \<and> kh_realloc kh s' n)"

lemma heap_room_malloc: "heap_room kh s (Suc k) \<Longrightarrow> heap_use s' = heap_use s \<Longrightarrow> unat n \<le> ROOM_SIZE \<Longrightarrow> kh_malloc kh s' n \<noteq> NULL \<and> kh_realloc kh s' n"
  by (simp add: heap_room_def heap_more_def)

lemma heap_room_same: "heap_use s' = heap_use s \<Longrightarrow> heap_room kh s' k = heap_room kh s k"
  by (simp add: heap_room_def heap_more_def)

lemma heap_room_Suc:
  assumes "heap_room kh s (Suc k)" and use: "heap_use s1 = (heap_use s)(p \<mapsto> m)" and fresh: "ks_store s p = None" and m: "m \<le> ROOM_SIZE"
  shows "heap_room kh s1 k"
  unfolding heap_room_def
proof (intro allI impI, elim conjE)
  fix s' :: "'a kstate" and n :: u32
  assume a: "heap_use s1 \<subseteq>\<^sub>m heap_use s'" "finite (heap_more s1 s')" "card (heap_more s1 s') < k"
    "\<forall>q\<in>heap_more s1 s'. the (heap_use s' q) \<le> ROOM_SIZE" "unat n \<le> ROOM_SIZE"
  have p: "heap_use s' p = Some m" using a(1) use unfolding map_le_def by (metis domI fun_upd_same)
  have "heap_use s \<subseteq>\<^sub>m heap_use s1" using use fresh by (auto simp: map_le_def heap_use_def)
  then have "heap_use s \<subseteq>\<^sub>m heap_use s'" using a(1) map_le_trans by blast
  moreover have more: "heap_more s s' = insert p (heap_more s1 s')" using use p fresh by (auto simp: heap_more_def heap_use_def)
  moreover have "p \<notin> heap_more s1 s'" using use by (simp add: heap_more_def)
  ultimately show "kh_malloc kh s' n \<noteq> NULL \<and> kh_realloc kh s' n"
    using assms(1) a p m unfolding heap_room_def by simp
qed

lemma kalloc_room:
  assumes "heap_ok kh" and "heap_room kh s (Suc k)" and "unat n \<le> ROOM_SIZE"
  obtains p bs where "kalloc kh n s = (p, kput p (KBytes bs) s)" and "p \<noteq> NULL" and "ks_store s p = None"
    and "heap_room kh (kput p (KBytes bs) s) k" and "length bs = unat n"
proof -
  obtain p s1 where a: "kalloc kh n s = (p, s1)" by fastforce
  have "p \<noteq> NULL" using a heap_room_malloc [OF assms(2) refl assms(3)] by (auto simp: kalloc_def Let_def)
  then show ?thesis using kalloc_fresh [OF assms(1) a] a that heap_room_Suc [OF assms(2) _ _ assms(3)] by auto
qed

lemma struct_sizes:
  "unat sizeof_vnode \<le> ROOM_SIZE" "unat sizeof_inode \<le> ROOM_SIZE" "unat sizeof_vfs \<le> ROOM_SIZE" "unat sizeof_file_t \<le> ROOM_SIZE"
  "unat sizeof_fat12_handle_t \<le> ROOM_SIZE" "unat (512 :: u32) \<le> ROOM_SIZE"
  by (simp_all add: const_defs)

section \<open>Opening a file\<close>

text \<open>A new vnode and its inode are allocated; nothing that was live changes.\<close>

lemma fat12_new_node_room:
  assumes "heap_ok kh" and "heap_room kh s (Suc (Suc k))" and "get_vfs s (vn_vfs_ptr dn) = Some f" and "vfs_fs_data f \<noteq> NULL"
    and "get_handle s (vfs_fs_data f) = Some fs"
  obtains p s' v where "fat12_new_node kh dn name e sector i s = Some (p, s')" and "fat12_node s' p fs (dir_entry_of e)"
    and "get_vnode s' p = Some v" and "vn_ops v = Some FAT12_FS" and "heap_room kh s' k"
    and "ks_store s \<subseteq>\<^sub>m ks_store s'" and "ks_blk s' = ks_blk s" and "ks_world s' = ks_world s"
proof -
  note small = struct_sizes
  obtain p b1 where p: "kalloc kh sizeof_vnode s = (p, kput p (KBytes b1) s)" "p \<noteq> NULL" "ks_store s p = None"
    "heap_room kh (kput p (KBytes b1) s) (Suc k)" "length b1 = unat sizeof_vnode" by (rule kalloc_room [OF assms(1,2) small(1)])
  obtain q b2 where q: "kalloc kh sizeof_inode (kput p (KBytes b1) s) = (q, kput q (KBytes b2) (kput p (KBytes b1) s))" "q \<noteq> NULL"
    "ks_store (kput p (KBytes b1) s) q = None" "heap_room kh (kput q (KBytes b2) (kput p (KBytes b1) s)) k" "length b2 = unat sizeof_inode"
    by (rule kalloc_room [OF assms(1) p(4) small(2)])
  let ?i = "KInode \<lparr>in_dir_entry = dir_entry_of e, in_dir_sector = sector, in_dir_offset = of_nat i\<rparr>"
  let ?v = "\<lparr>vn_name = strncpy_array 28 name, vn_mountedhere = NULL, vn_vfs_ptr = vn_vfs_ptr dn,
     vn_type = (if de_attributes (dir_entry_of e) AND FAT12_DIR \<noteq> 0 then V_DIRECTORY else V_FILE),
     vn_ops = Some FAT12_FS, vn_flags = 0, vn_data = q\<rparr>"
  let ?s = "kput p (KVnode ?v) (kput q ?i (kput p (KBytes b1) s))"
  have ne: "q \<noteq> p" "ks_store s q = None" using q(3) by (auto split: if_splits)
  have old: "vn_vfs_ptr dn \<noteq> p" "vn_vfs_ptr dn \<noteq> q" "vfs_fs_data f \<noteq> p" "vfs_fs_data f \<noteq> q"
    using assms(3,5) p(3) ne(2) by (auto simp: get_vfs_def get_handle_def)
  show ?thesis
  proof (rule that)
    show "fat12_new_node kh dn name e sector i s = Some (p, ?s)" using p(1,2) q(1,2) by (simp add: fat12_new_node_def)
    show "fat12_node ?s p fs (dir_entry_of e)" using p(2) q(2) ne old assms(3-5) by (simp add: fat12_node_def)
    show "get_vnode ?s p = Some ?v" "vn_ops ?v = Some FAT12_FS" by simp_all
    have "heap_use ?s = heap_use (kput q (KBytes b2) (kput p (KBytes b1) s))" using p(5) q(5) ne(1) by (auto simp: const_defs fun_eq_iff)
    then show "heap_room kh ?s k" using q(4) heap_room_same by blast
    show "ks_store s \<subseteq>\<^sub>m ks_store ?s" using p(3) ne by (auto simp: map_le_def)
  qed simp_all
qed

text \<open>A file of a mounted volume, as the disk has it: the entry the directory has for the path, not a directory
  itself, and the clusters it has in the table.\<close>

definition volume_file :: "'w kstate \<Rightarrow> (nat \<Rightarrow> u8 list) \<Rightarrow> nat \<Rightarrow> fat12_handle_t \<Rightarrow> u8 list \<Rightarrow> u16 list \<Rightarrow> u8 list \<Rightarrow> bool" where
  "volume_file s disk n fs path cs d \<longleftrightarrow>
     (\<exists>k i e. dir_find (fat12_normal_to_8_3 (dropWhile (\<lambda>c. c = 47) path))
            (dir_entries_at disk (fh_root_dir_start fs) [0..<unat (fh_root_dir_sectors fs)]) = Some (k, i, e)
        \<and> e ! 11 AND FAT12_DIR = 0 \<and> fat12_file s fs (dir_entry_of e) cs n
        \<and> d = take (unat (de_file_size (dir_entry_of e))) (file_blocks disk fs cs))"

lemma store_le_more:
  assumes "ks_store s \<subseteq>\<^sub>m ks_store s'"
  shows "get_bytes s q = Some b \<Longrightarrow> get_bytes s' q = Some b" "get_inode s q = Some i \<Longrightarrow> get_inode s' q = Some i"
    "get_handle s q = Some h \<Longrightarrow> get_handle s' q = Some h"
proof -
  have le: "ks_store s q = Some ob \<Longrightarrow> ks_store s' q = Some ob" for ob using assms unfolding map_le_def by (metis domI)
  show "get_bytes s q = Some b \<Longrightarrow> get_bytes s' q = Some b" "get_inode s q = Some i \<Longrightarrow> get_inode s' q = Some i"
    "get_handle s q = Some h \<Longrightarrow> get_handle s' q = Some h"
    unfolding get_bytes_def get_inode_def get_handle_def using le by (auto split: option.splits kobj.splits)
qed

lemma fat12_node_mono:
  assumes "ks_store s \<subseteq>\<^sub>m ks_store s'" and "fat12_node s p fs e"
  shows "fat12_node s' p fs e"
  using assms(2) store_le_get [OF assms(1)] store_le_more [OF assms(1)] unfolding fat12_node_def by blast

lemma fat12_file_mono:
  assumes "ks_store s \<subseteq>\<^sub>m ks_store s'" and "fat12_file s fs e cs n"
  shows "fat12_file s' fs e cs n"
  using assms(2) store_le_more(1) [OF assms(1)] unfolding fat12_file_def fat12_tables_def by blast

text \<open>Opening such a file through the layer gives an open file at offset 0 whose node reads as its bytes.\<close>

lemma vfs_open_reads:
  assumes heap: "heap_ok kh" "heap_room kh s 4" and inv: "vfs_inv s" and mp: "mount_map s name = Some fsys"
    and vol: "fat12_mounted s fsys f fs root n" and ops: "vn_ops root = Some FAT12_FS"
    and rd: "reads_disk (fh_block_dev fs) I disk n" "I (ks_blk s) (ks_world s)"
    and nm: "47 \<notin> set name" "name \<noteq> []" "length name < 255" "length path < 255" and stack: "512 \<le> length stack"
    and vf: "volume_file s disk n fs (47 # path) cs d" and ft: "ft = kernel_fs kh stack hfs_fs_type hfs_ops"
  shows "\<exists>fp node s1. vfs_open kh ft (Some (47 # name @ 47 # path)) flags s = Some (fp, s1)
     \<and> open_file ft s1 fp node 0 (fat12_read kh) \<and> fat12_reads_as kh s1 node cs d"
proof -
  let ?path = "47 # path"
  obtain k i e where e: "dir_find (fat12_normal_to_8_3 (dropWhile (\<lambda>c. c = 47) ?path))
       (dir_entries_at disk (fh_root_dir_start fs) [0..<unat (fh_root_dir_sectors fs)]) = Some (k, i, e)"
    "e ! 11 AND FAT12_DIR = 0" "fat12_file s fs (dir_entry_of e) cs n"
    "d = take (unat (de_file_size (dir_entry_of e))) (file_blocks disk fs cs)"
    using vf unfolding volume_file_def by blast
  have m: "get_vfs s fsys = Some f" "vfs_fs_data f \<noteq> NULL" "get_handle s (vfs_fs_data f) = Some fs"
    "get_vnode s (vfs_vroot f) = Some root" "vfs_vroot f \<noteq> NULL" "vn_vfs_ptr root = fsys"
    using vol by (simp_all add: fat12_mounted_def)
  have res: "vfs_resolve_mountpoint (Some (47 # name @ ?path)) s = Some (vfs_vroot f, ?path)"
    using resolve_mounted [OF inv nm(1-3), of ?path] mp m(1) nm(4) by simp
  obtain w where w: "fat12_open kh stack (vfs_vroot f) (Some ?path) flags s
      = fat12_new_node kh root ?path e (fh_root_dir_start fs + of_nat k) i (s\<lparr>ks_world := w\<rparr>)" "I (ks_blk s) w"
    using fat12_open_searches [OF rd vol m(5,4,6) _ stack, of ?path kh flags] e(1) by auto
  let ?s = "s\<lparr>ks_world := w\<rparr>"
  have room: "heap_room kh ?s (Suc (Suc (Suc (Suc 0))))" using heap(2) heap_room_same [of ?s s] by (simp add: numeral_eq_Suc)
  have mw: "get_vfs ?s (vn_vfs_ptr root) = Some f" "get_handle ?s (vfs_fs_data f) = Some fs" using m by simp_all
  obtain p s1 v where p: "fat12_new_node kh root ?path e (fh_root_dir_start fs + of_nat k) i ?s = Some (p, s1)"
    "fat12_node s1 p fs (dir_entry_of e)" "get_vnode s1 p = Some v" "vn_ops v = Some FAT12_FS" "heap_room kh s1 (Suc (Suc 0))"
    "ks_store ?s \<subseteq>\<^sub>m ks_store s1" "ks_blk s1 = ks_blk ?s" "ks_world s1 = ks_world ?s"
    by (rule fat12_new_node_room [OF heap(1) room mw(1) m(2) mw(2), where name = ?path and e = e and i = i and sector = "fh_root_dir_start fs + of_nat k"])
  obtain fp b where fp: "kalloc kh sizeof_file_t s1 = (fp, kput fp (KBytes b) s1)" "fp \<noteq> NULL" "ks_store s1 fp = None"
    "heap_room kh (kput fp (KBytes b) s1) (Suc 0)" "length b = unat sizeof_file_t" by (rule kalloc_room [OF heap(1) p(5) struct_sizes(4)])
  let ?s2 = "kput fp (KFile \<lparr>f_vnode_ptr = p, f_offset = 0, f_flags = flags\<rparr>) s1"
  have le2: "ks_store s1 \<subseteq>\<^sub>m ks_store ?s2" using fp(3) by (auto simp: map_le_def)
  then have le1: "ks_store s \<subseteq>\<^sub>m ks_store ?s2" using p(6) map_le_trans by fastforce
  have pn: "p \<noteq> NULL" using p(2) by (simp add: fat12_node_def)
  have tab: "node_ops ft s (vfs_vroot f) = Some (fat12_vnode_ops kh stack)" using m(4) ops by (simp add: node_ops_def ft kernel_fs_def)
  have "vop_open (fat12_vnode_ops kh stack) = Some (fat12_open kh stack)" by (simp add: fat12_vnode_ops_def)
  then have opn: "vfs_open kh ft (Some (47 # name @ ?path)) flags s = Some (fp, ?s2)"
    using res m(5) tab w(1) p(1) pn fp(1,2) by (simp add: vfs_open_def)
  have node: "fat12_node ?s2 p fs (dir_entry_of e)" using p(2) le2 by (rule fat12_node_mono [rotated])
  have "get_vnode ?s2 p = Some v" using store_le_get(2) [OF le2 p(3)] .
  then have "node_ops ft ?s2 p = Some (fat12_vnode_ops kh stack)" using p(4) unfolding node_ops_def by (simp add: ft kernel_fs_def del: get_simps)
  then have op: "open_file ft ?s2 fp p 0 (fat12_read kh)" using fp(2) by (simp add: open_file_def fat12_vnode_ops_def)
  have "heap_use ?s2 = heap_use (kput fp (KBytes b) s1)" using fp(5) by (simp add: const_defs)
  then have mem: "\<forall>s'. heap_use s' = heap_use ?s2 \<longrightarrow> kh_malloc kh s' 512 \<noteq> NULL" using heap_room_malloc [OF fp(4) _ struct_sizes(6)] by simp
  have "I (ks_blk ?s2) (ks_world ?s2)" using w(2) p(7,8) by simp
  moreover have "de_attributes (dir_entry_of e) AND FAT12_DIR = 0" using e(2) by (simp add: dir_entry_of_def)
  ultimately have "fat12_reads_as kh ?s2 p cs d"
    unfolding fat12_reads_as_def using heap(1) mem rd(1) node e(4) fat12_file_mono [OF le1 e(3)] by blast
  then show ?thesis using opn op by blast
qed

section \<open>Mounting with room on the heap\<close>

lemma fat12_mount_root_room:
  assumes "heap_ok kh" and "heap_room kh s (Suc (Suc (Suc k)))"
  obtains p s' where "fat12_mount_root kh fs h s = Some (p, s')" and "p \<noteq> NULL" and "heap_room kh s' k"
proof -
  obtain p b1 where p: "kalloc kh sizeof_vfs s = (p, kput p (KBytes b1) s)" "p \<noteq> NULL" "ks_store s p = None"
    "heap_room kh (kput p (KBytes b1) s) (Suc (Suc k))" "length b1 = unat sizeof_vfs"
    by (rule kalloc_room [OF assms struct_sizes(3)])
  let ?s1 = "kput p (KBytes b1) s"
  obtain v b2 where v: "kalloc kh sizeof_vnode ?s1 = (v, kput v (KBytes b2) ?s1)" "v \<noteq> NULL" "ks_store ?s1 v = None"
    "heap_room kh (kput v (KBytes b2) ?s1) (Suc k)" "length b2 = unat sizeof_vnode"
    by (rule kalloc_room [OF assms(1) p(4) struct_sizes(1)])
  let ?s3 = "kput p (KVfs \<lparr>vfs_type = FAT12_FS, vfs_vcovered = NULL, vfs_vroot = v, vfs_fs_data = fs\<rparr>) (kput v (KBytes b2) ?s1)"
  have "v \<noteq> p" using v(3) by auto
  then have "heap_use ?s3 = heap_use (kput v (KBytes b2) ?s1)" using p(5) by (auto simp: const_defs fun_eq_iff)
  then have room3: "heap_room kh ?s3 (Suc k)" using v(4) heap_room_same by blast
  obtain i b3 where i: "kalloc kh sizeof_inode ?s3 = (i, kput i (KBytes b3) ?s3)" "i \<noteq> NULL" "ks_store ?s3 i = None"
    "heap_room kh (kput i (KBytes b3) ?s3) k" "length b3 = unat sizeof_inode"
    by (rule kalloc_room [OF assms(1) room3 struct_sizes(2)])
  let ?s5 = "kput i (KInode \<lparr>in_dir_entry = zero_dir_entry, in_dir_sector = fh_root_dir_start h, in_dir_offset = 0\<rparr>) ?s3"
  let ?s6 = "kput v (KVnode \<lparr>vn_name = strncpy_array 28 [47], vn_mountedhere = NULL, vn_vfs_ptr = p,
                       vn_type = V_DIRECTORY, vn_ops = Some FAT12_FS, vn_flags = 0, vn_data = i\<rparr>) ?s5"
  have "fat12_mount_root kh fs h s = Some (p, ?s6)" using p(1,2) v(1,2) i(1,2) by (simp add: fat12_mount_root_def)
  moreover have "i \<noteq> v" using i(3) \<open>v \<noteq> p\<close> by auto
  then have "heap_use ?s6 = heap_use (kput i (KBytes b3) ?s3)" using i(5) v(5) \<open>v \<noteq> p\<close> by (auto simp: const_defs fun_eq_iff)
  then have "heap_room kh ?s6 k" using i(4) heap_room_same by blast
  ultimately show ?thesis using that p(2) by blast
qed

text \<open>A volume as the disk has it: sectors and clusters of 512 bytes, a table of at most 12 sectors, as FAT12 has, and
  its parts within the first \<open>n\<close> blocks. The partition starts below block 256, since the driver keeps only
  the low byte of that number.\<close>

definition vol_fat :: "(nat \<Rightarrow> u8 list) \<Rightarrow> nat" where
  "vol_fat disk = unat (bpb_hidden_sectors (bpb_of (disk 0))) + unat (bpb_rsrvd_cnt (bpb_of (disk 0)))"

definition vol_root :: "(nat \<Rightarrow> u8 list) \<Rightarrow> nat" where
  "vol_root disk = vol_fat disk + unat (bpb_num_fats (bpb_of (disk 0))) * unat (bpb_sectors_per_fat (bpb_of (disk 0)))"

definition vol_dir_sectors :: "(nat \<Rightarrow> u8 list) \<Rightarrow> nat" where
  "vol_dir_sectors disk = unat (bpb_max_root_dir_entries (bpb_of (disk 0))) div 16"

definition vol_data :: "(nat \<Rightarrow> u8 list) \<Rightarrow> nat" where
  "vol_data disk = vol_root disk + vol_dir_sectors disk"

definition vol_table :: "(nat \<Rightarrow> u8 list) \<Rightarrow> u8 list" where
  "vol_table disk = concat (map (\<lambda>i. disk (vol_fat disk + i)) [0..<unat (bpb_sectors_per_fat (bpb_of (disk 0)))])"

definition fat12_volume :: "(nat \<Rightarrow> u8 list) \<Rightarrow> nat \<Rightarrow> bool" where
  "fat12_volume disk n \<longleftrightarrow> 0 < n \<and> bpb_bytes_per_sector (bpb_of (disk 0)) = 512 \<and> bpb_sectors_per_cluster (bpb_of (disk 0)) = 1
     \<and> unat (bpb_hidden_sectors (bpb_of (disk 0))) < 256 \<and> unat (bpb_sectors_per_fat (bpb_of (disk 0))) \<le> 12
     \<and> vol_fat disk + unat (bpb_sectors_per_fat (bpb_of (disk 0))) \<le> n \<and> vol_data disk \<le> n"

lemmas vol_defs = vol_fat_def vol_root_def vol_dir_sectors_def vol_data_def vol_table_def

lemma fat12_volume_fat:
  "fat12_volume disk n \<Longrightarrow> vol_fat disk = unat (bpb_hidden_sectors (bpb_of (disk 0))) mod 256 + unat (bpb_rsrvd_cnt (bpb_of (disk 0)))"
  by (simp add: vol_fat_def fat12_volume_def)

lemma length_concat_blocks: "\<forall>i\<in>set is. length (f i) = n \<Longrightarrow> length is = k \<Longrightarrow> length (concat (map f is)) = n * k"
  by (induction "is" arbitrary: k) auto

lemma fat12_mount_room:
  assumes heap: "heap_ok kh" "heap_room kh s (Suc (Suc (Suc (Suc (Suc (Suc k))))))" and dev: "dev = blkdev_get_by_name (ks_blk s) device" "dev \<noteq> NULL"
    and rd: "reads_disk dev I disk n" "I (ks_blk s) (ks_world s)" and vol: "fat12_volume disk n"
  obtains p s' where "fat12_mount kh device s = Some (p, s')" and "p \<noteq> NULL" and "heap_room kh s' k"
proof -
  note d = block_disk.intro [OF rd(1)]
  let ?b = "bpb_of (disk 0)"
  obtain fs b1 where fs: "kalloc kh sizeof_fat12_handle_t s = (fs, kput fs (KBytes b1) s)" "fs \<noteq> NULL" "ks_store s fs = None"
    "heap_room kh (kput fs (KBytes b1) s) (Suc (Suc (Suc (Suc (Suc k)))))" "length b1 = unat sizeof_fat12_handle_t"
    by (rule kalloc_room [OF heap struct_sizes(5)])
  let ?s1 = "kput fs (KBytes b1) s"
  obtain bo b2 where bo: "kalloc kh 512 ?s1 = (bo, kput bo (KBytes b2) ?s1)" "bo \<noteq> NULL" "ks_store ?s1 bo = None"
    "heap_room kh (kput bo (KBytes b2) ?s1) (Suc (Suc (Suc (Suc k))))" "length b2 = unat (512 :: u32)"
    by (rule kalloc_room [OF heap(1) fs(4) struct_sizes(6)])
  let ?s2 = "kput bo (KBytes b2) ?s1"
  have b2: "length b2 = 512" using bo(5) by simp
  obtain w where w: "kblkread dev 0 b2 ?s2 = Some (disk 0, ?s2\<lparr>ks_world := w\<rparr>)" "I (ks_blk ?s2) w"
    using block_disk.disk_read [OF d, of ?s2 0 b2] rd(2) vol b2 by (auto simp: fat12_volume_def)
  have bps: "bpb_bytes_per_sector ?b = 512" using vol by (simp add: fat12_volume_def)
  let ?h = "fat12_layout ?b bo dev"
  let ?s4 = "kput fs (KHandle ?h) (kput bo (KBytes (disk 0)) (?s2\<lparr>ks_world := w\<rparr>))"
  let ?sz = "ucast (bpb_sectors_per_fat ?b) * ucast (bpb_bytes_per_sector ?b) :: u32"
  have "length (disk 0) = 512" using block_disk.disk_length [OF d, of 0] vol by (simp add: fat12_volume_def)
  moreover have "bo \<noteq> fs" using bo(3) by auto
  ultimately have "heap_use ?s4 = heap_use ?s2" using fs(5) b2 by (auto simp: const_defs fun_eq_iff)
  then have room4: "heap_room kh ?s4 (Suc (Suc (Suc (Suc k))))" using heap_room_same bo(4) by blast
  have spf: "unat (bpb_sectors_per_fat ?b) \<le> 12" using vol by (simp add: fat12_volume_def)
  then have sz: "unat ?sz = 512 * unat (bpb_sectors_per_fat ?b)" using bps by (simp add: unat_word_ariths unsigned_ucast_eq take_bit_nat_def)
  then have "unat ?sz \<le> ROOM_SIZE" using spf by (simp add: const_defs)
  then obtain fa b5 where fa: "kalloc kh ?sz ?s4 = (fa, kput fa (KBytes b5) ?s4)" "fa \<noteq> NULL" "ks_store ?s4 fa = None"
    "heap_room kh (kput fa (KBytes b5) ?s4) (Suc (Suc (Suc k)))" "length b5 = unat ?sz"
    by (rule kalloc_room [OF heap(1) room4])
  let ?s5 = "kput fa (KBytes b5) ?s4"
  have b5: "length b5 = 512 * unat (bpb_sectors_per_fat ?b)" using fa(5) sz by simp
  have st: "unat (fh_fat_start ?h) = vol_fat disk" using fat12_layout_numbers(1) [OF bps] by (simp add: fat12_volume_fat [OF vol])
  have "\<exists>w1. fat12_load_fat dev (fh_fat_start ?h) 512 [0..<0 + unat (bpb_sectors_per_fat ?b)] b5 ?s5 =
      Some (take (512 * 0) b5 @ concat (map (\<lambda>i. disk (unat (fh_fat_start ?h) + i)) [0..<0 + unat (bpb_sectors_per_fat ?b)]), ?s5\<lparr>ks_world := w1\<rparr>)
      \<and> I (ks_blk ?s5) w1"
    by (rule block_disk.fat12_load_fat_blocks [OF d]) (use w(2) vol st b5 in \<open>simp_all add: fat12_volume_def\<close>)
  then obtain t w1 where t: "fat12_load_fat dev (fh_fat_start ?h) 512 [0..<unat (bpb_sectors_per_fat ?b)] b5 ?s5 = Some (t, ?s5\<lparr>ks_world := w1\<rparr>)"
    "t = concat (map (\<lambda>i. disk (unat (fh_fat_start ?h) + i)) [0..<unat (bpb_sectors_per_fat ?b)])"
    by auto
  let ?h1 = "?h\<lparr>fh_fat_table := fa\<rparr>"
  let ?s7 = "kput fs (KHandle ?h1) (kput fa (KBytes t) (?s5\<lparr>ks_world := w1\<rparr>))"
  have "length (disk (unat (fh_fat_start ?h) + i)) = 512" if "i < unat (bpb_sectors_per_fat ?b)" for i
    using that vol st rd(1) by (auto simp: fat12_volume_def reads_disk_def)
  then have "length t = 512 * unat (bpb_sectors_per_fat ?b)"
    unfolding t(2) by (intro length_concat_blocks) auto
  moreover have "fs \<noteq> fa" using fa(3) by auto
  ultimately have "heap_use ?s7 = heap_use ?s5" using b5 by (auto simp: fun_eq_iff)
  then have "heap_room kh ?s7 (Suc (Suc (Suc k)))" using heap_room_same fa(4) by blast
  then obtain p s' where p: "fat12_mount_root kh fs ?h1 ?s7 = Some (p, s')" "p \<noteq> NULL" "heap_room kh s' k"
    using fat12_mount_root_room [OF heap(1)] by blast
  have ud: "unat (512 :: u16) = 512" by simp
  have "fat12_mount kh device s = Some (p, s')"
    unfolding fat12_mount_def Let_def fs(1) prod.case if_not_P [OF fs(2)] bo(1) if_not_P [OF bo(2)] kput_simps(2) dev(1) [symmetric]
      if_not_P [OF dev(2)]
    using w(1) bps fa(1,2) t(1) p(1) by simp
  then show ?thesis using that p by blast
qed

section \<open>From the mount to the file\<close>

lemma get_except:
  assumes le: "ks_store s1 \<subseteq>\<^sub>m (ks_store s')(p := ks_store s1 p)" and p: "get_vfs s1 p \<noteq> None"
  shows "get_vnode s1 q = Some v \<Longrightarrow> get_vnode s' q = Some v" "get_handle s1 q = Some h \<Longrightarrow> get_handle s' q = Some h"
    "get_bytes s1 q = Some b \<Longrightarrow> get_bytes s' q = Some b"
proof -
  have same: "ks_store s' q = Some ob" if "ks_store s1 q = Some ob" "q \<noteq> p" for ob q
    using le that unfolding map_le_def by (metis domI fun_upd_other)
  have kind: "\<exists>f. ks_store s1 p = Some (KVfs f)" using p by (auto simp: get_vfs_def split: option.splits kobj.splits)
  show "get_vnode s1 q = Some v \<Longrightarrow> get_vnode s' q = Some v" "get_handle s1 q = Some h \<Longrightarrow> get_handle s' q = Some h"
    "get_bytes s1 q = Some b \<Longrightarrow> get_bytes s' q = Some b"
    unfolding get_vnode_def get_handle_def get_bytes_def
    by (cases "q = p"; use kind same in \<open>auto split: option.splits kobj.splits\<close>)+
qed

lemma fat12_mount_root_ops:
  assumes "heap_ok kh" and "fat12_mount kh device s = Some (p, s1)" and "p \<noteq> NULL" and "get_vfs s1 p = Some f"
    and "get_vnode s1 (vfs_vroot f) = Some root"
  shows "vn_ops root = Some FAT12_FS"
proof -
  obtain fs boot fat vroot ino h b t where own: "fat12_owns (ks_store s) fs boot fat p vroot ino h b t (ks_store s1)"
    using fat12_mount_owns [OF assms(1,2)] assms(3) by blast
  then show ?thesis using assms(4,5) by (auto simp: fat12_owns_def get_vfs_def get_vnode_def)
qed

text \<open>A volume in the table under a name, with everything its files are read from.\<close>

definition vfs_volume :: "'w kheap \<Rightarrow> u8 list \<Rightarrow> ptr \<Rightarrow> (nat \<Rightarrow> u8 list) \<Rightarrow> nat \<Rightarrow> fat12_handle_t \<Rightarrow> 'w kstate \<Rightarrow> bool" where
  "vfs_volume kh name dev disk n fs s \<longleftrightarrow> vfs_inv s
     \<and> (\<exists>p f root. mount_map s name = Some p \<and> fat12_mounted s p f fs root n \<and> vn_ops root = Some FAT12_FS)
     \<and> fh_block_dev fs = dev \<and> unat (fh_root_dir_start fs) = vol_root disk \<and> unat (fh_root_dir_sectors fs) = vol_dir_sectors disk
     \<and> unat (fh_data_area_start fs) = vol_data disk
     \<and> get_bytes s (fh_bpb fs) = Some (disk 0) \<and> get_bytes s (fh_fat_table fs) = Some (vol_table disk)"

lemma vfs_mount_volume:
  assumes heap: "heap_ok kh" "heap_room kh s (8 + k)" and inv: "vfs_inv s" and dev: "dev = blkdev_get_by_name (ks_blk s) device" "dev \<noteq> NULL"
    and rd: "reads_disk dev I disk n" "I (ks_blk s) (ks_world s)" and vol: "fat12_volume disk n"
    and name: "0 \<notin> set name" "length name < 28" "mount_map s name = None"
    and room: "Some NULL \<in> set (mp_slots s) \<or> curr_size s = 0"
    and ft: "ft = kernel_fs kh stack hfs_fs_type hfs_ops"
  shows "\<exists>s' fs. vfs_mount kh ft device (Some (47 # name)) [102, 97, 116, 49, 50] s = Some (0, s') \<and> vfs_volume kh name dev disk n fs s'
     \<and> I (ks_blk s') (ks_world s') \<and> heap_room kh s' (Suc k) \<and> (\<exists>p. mount_map s' = (mount_map s)(name \<mapsto> p))"
proof -
  have hr: "heap_room kh s (Suc (Suc (Suc (Suc (Suc (Suc (Suc (Suc k))))))))" using heap(2) by (simp add: numeral_eq_Suc)
  obtain p s1 where p: "fat12_mount kh device s = Some (p, s1)" "p \<noteq> NULL" "heap_room kh s1 (Suc (Suc k))"
    by (rule fat12_mount_room [OF heap(1) hr dev rd vol])
  have n0: "0 < n" and bps: "bpb_bytes_per_sector (bpb_of (disk 0)) = 512" using vol by (simp_all add: fat12_volume_def)
  have fit: "vol_fat disk + unat (bpb_sectors_per_fat (bpb_of (disk 0))) \<le> n" "vol_root disk + unat (bpb_max_root_dir_entries (bpb_of (disk 0))) div 16 \<le> n"
    using vol by (simp_all add: fat12_volume_def vol_data_def vol_dir_sectors_def)
  obtain f fs root where v: "fat12_mounted s1 p f fs root n" "fh_block_dev fs = dev" "unat (fh_root_dir_start fs) = vol_root disk"
    "unat (fh_root_dir_sectors fs) = unat (bpb_max_root_dir_entries (bpb_of (disk 0))) div 16"
    "unat (fh_data_area_start fs) = vol_root disk + unat (bpb_max_root_dir_entries (bpb_of (disk 0))) div 16"
    "get_bytes s1 (fh_bpb fs) = Some (disk 0)"
    "get_bytes s1 (fh_fat_table fs) = Some (concat (map (\<lambda>i. disk (vol_fat disk + i)) [0..<unat (bpb_sectors_per_fat (bpb_of (disk 0)))]))"
    "I (ks_blk s1) (ks_world s1)"
    using fat12_mount_volume [OF heap(1) p(1,2) dev(1) rd n0 refl bps fat12_volume_fat [OF vol] fit(1) vol_root_def fit(2)] by blast
  have m: "get_vfs s1 p = Some f" "get_vnode s1 (vfs_vroot f) = Some root" using v(1) by (simp_all add: fat12_mounted_def)
  have ops: "vn_ops root = Some FAT12_FS" by (rule fat12_mount_root_ops [OF heap(1) p(1,2) m])
  have fid: "find_fs_type ft [102, 97, 116, 49, 50] fs_types = Some FAT12_FS" and op: "vfs_op_mount (vfs_ops (ft_type ft FAT12_FS)) = fat12_mount kh"
    by (simp_all add: ft fs_types_def kernel_fs_def fat12_fs_type_def)
  have mem: "kh_malloc kh s1 sizeof_vnode \<noteq> NULL" using heap_room_malloc [OF p(3) refl struct_sizes(1)] by blast
  have fiftytwo: "52 \<le> ROOM_SIZE" and twenty: "unat (5 * sizeof_ptr) \<le> ROOM_SIZE" by (simp_all add: const_defs)
  have tab: "Some NULL \<in> set (mp_slots s) \<or> curr_size s = 0
      \<and> (\<forall>s' c. ks_store s1 c = None \<and> heap_use s' = (heap_use s1)(c \<mapsto> 52) \<longrightarrow> kh_realloc kh s' (5 * sizeof_ptr))"
    using room heap_room_malloc [OF heap_room_Suc [OF p(3) _ _ fiftytwo] refl twenty] by blast
  obtain s' c where s': "vfs_mount kh ft device (Some (47 # name)) [102, 97, 116, 49, 50] s = Some (0, s')" "vfs_inv s'"
    "mount_map s' = (mount_map s)(name \<mapsto> p)" "get_vfs s' p = Some (f\<lparr>vfs_vcovered := c\<rparr>)" "ks_store s1 c = None" "heap_use s' = (heap_use s1)(c \<mapsto> 52)"
    "ks_store s1 \<subseteq>\<^sub>m (ks_store s')(p := ks_store s1 p)" "ks_blk s' = ks_blk s1" "ks_world s' = ks_world s1"
    using vfs_mount_extends [OF heap(1) inv fid fat12_mount_extends [OF heap(1), folded op] p(1) [folded op] p(2) mem name tab] m(1) by auto
  have ex: "get_vfs s1 p \<noteq> None" using m(1) by simp
  note keep = get_except [OF s'(7) ex]
  have "fat12_mounted s' p (f\<lparr>vfs_vcovered := c\<rparr>) fs root n"
    using v(1) s'(4) keep(1,2) by (auto simp: fat12_mounted_def)
  moreover have "heap_room kh s' (Suc k)" by (rule heap_room_Suc [OF p(3) s'(6,5) fiftytwo])
  moreover have "I (ks_blk s') (ks_world s')" using v(8) s'(8,9) by simp
  moreover have "vfs_volume kh name dev disk n fs s'"
    using calculation(1) s'(2,3) ops v keep(3) unfolding vfs_volume_def vol_table_def vol_dir_sectors_def vol_data_def by auto
  ultimately show ?thesis using s'(1,3) by blast
qed

text \<open>A file as the disk has it, without reference to the state of the kernel: its directory entry, the clusters
  that are linked in the table from the one the entry names, wherever they lie, and their bytes up to the
  size in the entry.\<close>

definition disk_file :: "(nat \<Rightarrow> u8 list) \<Rightarrow> nat \<Rightarrow> u8 list \<Rightarrow> u16 list \<Rightarrow> u8 list \<Rightarrow> bool" where
  "disk_file disk n path cs d \<longleftrightarrow>
     (\<exists>k i e. dir_find (fat12_normal_to_8_3 (dropWhile (\<lambda>c. c = 47) path))
            (dir_entries_at disk (of_nat (vol_root disk)) [0..<vol_dir_sectors disk]) = Some (k, i, e)
        \<and> e ! 11 AND FAT12_DIR = 0 \<and> fat12_chain (vol_table disk) cs \<and> cs \<noteq> [] \<and> length cs \<le> 4096
        \<and> hd cs = de_first_cluster_low (dir_entry_of e)
        \<and> (\<forall>c\<in>set cs. vol_data disk + (unat c - 2) < n) \<and> unat (de_file_size (dir_entry_of e)) \<le> 512 * length cs
        \<and> d = take (unat (de_file_size (dir_entry_of e))) (concat (map (\<lambda>c. disk (vol_data disk + (unat c - 2))) cs)))"

lemma cluster_lba:
  assumes "unat start = d" and "2 \<le> c" and "d + (unat c - 2) < 4294967296"
  shows "unat (start + (ucast (c :: u16) - 2) :: u32) = d + (unat c - 2)"
proof -
  have "unat (ucast c :: u32) = unat c" by (simp add: unsigned_ucast_eq take_bit_nat_def less_trans [OF unsigned_less])
  moreover have "2 \<le> (ucast c :: u32)" using assms(2) calculation by (simp add: word_le_nat_alt)
  ultimately have "unat (ucast c - 2 :: u32) = unat c - 2" by (simp add: unat_sub)
  then show ?thesis using assms(1,3) by (simp add: unat_word_ariths)
qed

lemma disk_file_volume_file:
  assumes vol: "vfs_volume kh name dev disk n fs s" and "n \<le> 4294967296" and spec: "fat12_volume disk n" and df: "disk_file disk n path cs d"
  shows "volume_file s disk n fs path cs d"
proof -
  obtain k i e where e: "dir_find (fat12_normal_to_8_3 (dropWhile (\<lambda>c. c = 47) path))
            (dir_entries_at disk (of_nat (vol_root disk)) [0..<vol_dir_sectors disk]) = Some (k, i, e)"
    "e ! 11 AND FAT12_DIR = 0" "fat12_chain (vol_table disk) cs" "cs \<noteq> []" "length cs \<le> 4096"
    "hd cs = de_first_cluster_low (dir_entry_of e)"
    "\<forall>c\<in>set cs. vol_data disk + (unat c - 2) < n" "unat (de_file_size (dir_entry_of e)) \<le> 512 * length cs"
    "d = take (unat (de_file_size (dir_entry_of e))) (concat (map (\<lambda>c. disk (vol_data disk + (unat c - 2))) cs))"
    using df unfolding disk_file_def by blast
  have fs: "unat (fh_root_dir_start fs) = vol_root disk" "unat (fh_root_dir_sectors fs) = vol_dir_sectors disk"
    "unat (fh_data_area_start fs) = vol_data disk" "get_bytes s (fh_bpb fs) = Some (disk 0)" "get_bytes s (fh_fat_table fs) = Some (vol_table disk)"
    using vol by (simp_all add: vfs_volume_def)
  have start: "of_nat (vol_root disk) = fh_root_dir_start fs" unfolding fs(1) [symmetric] by simp
  have two: "2 \<le> c" if "c \<in> set cs" for c using e(3) that by (simp add: fat12_chain_def)
  have lba: "unat (fh_data_area_start fs + (ucast c - 2)) = vol_data disk + (unat c - 2)" if "c \<in> set cs" for c
    using cluster_lba [OF fs(3) two [OF that]] e(7) that assms(2) by fastforce
  have "file_blocks disk fs cs = concat (map (\<lambda>c. disk (vol_data disk + (unat c - 2))) cs)"
    unfolding file_blocks_def using lba by (intro arg_cong [where f = concat] map_cong) simp_all
  moreover have "fat12_file s fs (dir_entry_of e) cs n"
  proof -
    have "unat (fat12_cluster_to_lba fs (bpb_of (disk 0)) c) < n" if "c \<in> set cs" for c
      using lba [OF that] e(7) that two [OF that] spec by (auto simp: fat12_cluster_to_lba_def fat12_volume_def not_less [symmetric])
    moreover have "fat12_tables s fs (bpb_of (disk 0)) (vol_table disk)" using fs(4,5) spec by (auto simp: fat12_tables_def fat12_volume_def)
    ultimately show ?thesis using spec e(3-6,8) unfolding fat12_file_def fat12_volume_def by blast
  qed
  ultimately show ?thesis
    unfolding volume_file_def using e(1,2,9) start fs(2) by (intro exI [of _ k] exI [of _ i] exI [of _ e]) simp
qed

text \<open>A file of a mounted volume, opened and read in pieces.\<close>

lemma volume_open_read:
  assumes heap: "heap_ok kh" "heap_room kh s 4" and vol: "vfs_volume kh name dev disk n fs s" "fat12_volume disk n"
    and rd: "reads_disk dev I disk n" "I (ks_blk s) (ks_world s)"
    and name: "47 \<notin> set name" "name \<noteq> []" "length name < 255"
    and path: "length path < 255" "disk_file disk n (47 # path) cs d" and stack: "512 \<le> length stack"
    and szs: "\<forall>sz\<in>set szs. 0 < sz" "reads_total szs < 4294967296" "\<forall>p\<in>set (read_starts 0 szs). p < length d \<longrightarrow> in_place cs p"
    and ft: "ft = kernel_fs kh stack hfs_fs_type hfs_ops"
  shows "\<exists>fp s2 s3. vfs_open kh ft (Some (47 # name @ 47 # path)) flags s = Some (fp, s2)
     \<and> vfs_read_seq ft fp szs s2 = Some (take (reads_total szs) d, s3)"
proof -
  obtain p f root where v: "vfs_inv s" "mount_map s name = Some p" "fat12_mounted s p f fs root n" "vn_ops root = Some FAT12_FS" "fh_block_dev fs = dev"
    using vol(1) unfolding vfs_volume_def by blast
  have "n \<le> 4294967296" using rd(1) by (simp add: reads_disk_def)
  note vf = disk_file_volume_file [OF vol(1) this vol(2) path(2)]
  obtain fp node s2 where s2: "vfs_open kh ft (Some (47 # name @ 47 # path)) flags s = Some (fp, s2)"
    "open_file ft s2 fp node 0 (fat12_read kh)" "fat12_reads_as kh s2 node cs d"
    using vfs_open_reads [OF heap v(1-4) rd(1) [folded v(5)] rd(2) name path(1) stack vf ft, of flags] by blast
  obtain s3 where "vfs_read_seq ft fp szs s2 = Some (take (reads_total szs) (drop 0 d), s3)"
    using f12.vfs_read_in_pieces [OF s2(2,3) szs(1) _ szs(3)] szs(2) by auto
  then show ?thesis using s2(1) by auto
qed

text \<open>A volume on a readable device, mounted, one of its files opened and read: the bytes are those of the disk.\<close>

lemma mount_open_read:
  assumes heap: "heap_ok kh" "heap_room kh s 11" and inv: "vfs_inv s"
    and dev: "dev = blkdev_get_by_name (ks_blk s) device" "dev \<noteq> NULL"
    and rd: "reads_disk dev I disk n" "I (ks_blk s) (ks_world s)" and vol: "fat12_volume disk n"
    and name: "0 \<notin> set name" "47 \<notin> set name" "name \<noteq> []" "length name < 28" "mount_map s name = None"
    and room: "Some NULL \<in> set (mp_slots s) \<or> curr_size s = 0"
    and path: "length path < 255" "disk_file disk n (47 # path) cs d" and stack: "512 \<le> length stack"
    and szs: "\<forall>sz\<in>set szs. 0 < sz" "reads_total szs < 4294967296" "\<forall>p\<in>set (read_starts 0 szs). p < length d \<longrightarrow> in_place cs p"
    and ft: "ft = kernel_fs kh stack hfs_fs_type hfs_ops"
  shows "\<exists>s1 fp s2 s3. vfs_mount kh ft device (Some (47 # name)) [102, 97, 116, 49, 50] s = Some (0, s1)
     \<and> vfs_open kh ft (Some (47 # name @ 47 # path)) flags s1 = Some (fp, s2)
     \<and> vfs_read_seq ft fp szs s2 = Some (take (reads_total szs) d, s3)"
proof -
  have hr: "heap_room kh s (8 + 3)" using heap(2) by simp
  obtain s1 fs where s1: "vfs_mount kh ft device (Some (47 # name)) [102, 97, 116, 49, 50] s = Some (0, s1)"
    "vfs_volume kh name dev disk n fs s1" "I (ks_blk s1) (ks_world s1)" "heap_room kh s1 (Suc 3)"
    using vfs_mount_volume [OF heap(1) hr inv dev rd vol name(1,4,5) room ft] by blast
  have len: "length name < 255" using name(4) by simp
  have "heap_room kh s1 4" using s1(4) by simp
  from volume_open_read [OF heap(1) this s1(2) vol rd(1) s1(3) name(2,3) len path stack szs ft, of flags] s1(1) show ?thesis by blast
qed

end
