(* ===== verification/Fs_Ide.thy ===== *)
theory Fs_Ide
  imports Fs_File Drv_Ide Fs_Vfs_Demo
begin

text \<open>
  The IDE driver as the device below the file system, and the small volume on an IDE drive.
\<close>

section \<open>The IDE driver as a readable device\<close>

text \<open>The device at \<open>dev\<close> is drive \<open>i\<close> of the controller, the hardware behind the ports is an ATA device that
  answers, and the sectors of the drive hold the image.\<close>

definition ide_serves :: "hardware \<Rightarrow> ptr \<Rightarrow> (bool \<Rightarrow> u16 list) \<Rightarrow> ata \<Rightarrow> ptr \<Rightarrow> nat \<Rightarrow> (nat \<Rightarrow> u16 list) \<Rightarrow> nat
    \<Rightarrow> ide_state blk_state \<Rightarrow> ide_state \<Rightarrow> bool" where
  "ide_serves hw prim idn a dev i img n bs s \<longleftrightarrow>
     ata_answers hw idn a \<and> ide_at_ports s \<and> dev \<noteq> NULL
     \<and> (\<exists>d. blk_store bs dev = Some d \<and> bd_ops d = Some (ide_block_device_ops hw prim) \<and> ide_dev_at prim (bd_private d) = Some i
          \<and> n \<le> unat (bd_num_blocks d))
     \<and> ide_present (ide_dev s i) \<and> ide_is_hdd (ide_dev s i) \<and> n \<le> unat (ide_total_sectors (ide_dev s i))
     \<and> (\<forall>k<n. ata_disk (ata_run a (ide_trace s)) (ide_device_num (ide_dev s i) \<noteq> 0) k = img k \<and> length (img k) = 256)"

text \<open>The blocks of the drive as bytes; a sector of another length is filled up.\<close>

definition ide_image :: "(nat \<Rightarrow> u16 list) \<Rightarrow> nat \<Rightarrow> u8 list" where
  "ide_image img k = words_bytes (take 256 (img k @ replicate 256 0))"

lemma ide_reads_disk: "reads_disk dev (ide_serves hw prim idn a dev i img n) (ide_image img) (min n 268435456)"
  unfolding reads_disk_def
proof (intro conjI allI impI, goal_cases)
  case (2 lba)
  then show ?case by (simp add: ide_image_def)
next
  case (3 s lba b)
  then have lba: "lba < n" "lba < 268435456" "512 \<le> length b" and I: "ide_serves hw prim idn a dev i img n (ks_blk s) (ks_world s)" by simp_all
  obtain d where d: "blk_store (ks_blk s) dev = Some d" "bd_ops d = Some (ide_block_device_ops hw prim)" "ide_dev_at prim (bd_private d) = Some i"
    "n \<le> unat (bd_num_blocks d)" "dev \<noteq> NULL" using I unfolding ide_serves_def by blast
  let ?w = "ks_world s"
  have dv: "ata_answers hw idn a" "ide_at_ports ?w" "ide_present (ide_dev ?w i)" "ide_is_hdd (ide_dev ?w i)" "n \<le> unat (ide_total_sectors (ide_dev ?w i))"
    and im: "\<forall>k<n. ata_disk (ata_run a (ide_trace ?w)) (ide_device_num (ide_dev ?w i) \<noteq> 0) k = img k \<and> length (img k) = 256"
    using I unfolding ide_serves_def by blast+
  have u: "unat (of_nat lba :: u32) = lba" using lba(2) by (simp add: unat_of_nat)
  have use: "ide_usable (Some i) (of_nat lba) ?w" using dv lba(1) u by (simp add: ide_usable_def word_le_nat_alt)
  have small: "(of_nat lba :: u32) < 2 ^ 28" using lba(2) u by (simp add: word_less_nat_alt)
  have ws: "img lba = ata_disk (ata_run a (ide_trace ?w)) (ide_device_num (ide_dev ?w i) \<noteq> 0) (unat (of_nat lba :: u32))" "length (img lba) = 256"
    using im lba(1) u by simp_all
  obtain w where w: "ide_read_sector hw (Some i) (of_nat lba) (Some b) ?w = Some (Some (words_bytes (img lba) @ drop 512 b), w)"
    "ide_prim w = ide_prim ?w" "ata_disk (ata_run a (ide_trace w)) = ata_disk (ata_run a (ide_trace ?w))"
    using ide_read_sector_ata [OF dv(1,2) use small refl ws lba(3)] by blast
  have "\<not> bd_num_blocks d \<le> (of_nat lba :: u32)" using d(4) lba(1) u by (simp add: word_le_nat_alt)
  then have "kblkread dev (of_nat lba) b s = Some (words_bytes (img lba) @ drop 512 b, s\<lparr>ks_world := w\<rparr>)"
    using d w(1) by (simp add: kblkread_def blkread_def ide_block_device_ops_def ide_blk_read_def)
  moreover have "ide_image img lba = words_bytes (img lba)" using ws(2) by (simp add: ide_image_def)
  moreover have "ide_serves hw prim idn a dev i img n (ks_blk s) w"
    using I ide_at_ports_cong [OF w(2)] w(2,3) unfolding ide_serves_def by simp
  ultimately show ?case by auto
qed simp

interpretation ided: block_disk dev "ide_serves hw prim idn a dev i img n" "ide_image img" "min n 268435456"
  for dev hw prim idn a i img n
  by unfold_locales (rule ide_reads_disk)

section \<open>The small volume on an IDE drive\<close>

definition demo_img :: "nat \<Rightarrow> u16 list" where
  "demo_img k = bytes_words (demo_disk k)"

definition demo_ata :: ata where
  "demo_ata = ata_demo\<lparr>ata_disk := \<lambda>sl k. demo_img k\<rparr>"

definition demo_ide_hw :: hardware where
  "demo_ide_hw = ata_hw demo_ata (\<lambda>_. [])"

definition demo_ide_dev :: "ide_state block_device_t" where
  "demo_ide_dev = \<lparr>bd_name = [104, 100, 49], bd_block_size = 512, bd_num_blocks = 1000, bd_private = ide_dev_ptr 0x9000 1,
     bd_ops = Some (ide_block_device_ops demo_ide_hw 0x9000)\<rparr>"

definition demo_ide_ks :: "ide_state kstate" where
  "demo_ide_ks = \<lparr>ks_store = Map.empty, ks_blk = \<lparr>block_devices = Some [0x500], num_block_devices = 1, max_block_devices = 1,
       blk_store = [0x500 \<mapsto> demo_ide_dev], blk_live = [0x500]\<rparr>,
     ks_world = ide_demo, mountpoints = Some (replicate 16 (Some NULL)), curr_size = 0, vfs_root_vnode = NULL\<rparr>"

lemma demo_ide_lookup: "blkdev_get_by_name (ks_blk demo_ide_ks) (Some [104, 100, 49]) = 0x500"
  by (simp add: blkdev_get_by_name_def registered_def demo_ide_ks_def demo_ide_dev_def)

lemma demo_ide_serves:
  "ide_serves demo_ide_hw 0x9000 (\<lambda>_. []) demo_ata 0x500 1 demo_img 5 (ks_blk demo_ide_ks) (ks_world demo_ide_ks)"
proof -
  have img: "\<forall>k<5. length (demo_img k) = 256" using demo_disk_length by (simp add: demo_img_def length_bytes_words)
  have "ata_answers demo_ide_hw (\<lambda>_. []) demo_ata" unfolding demo_ide_hw_def by (rule ata_hw_answers)
  moreover have "ide_dev_at 0x9000 (ide_dev_ptr 0x9000 1) = Some 1"
    by (simp add: ide_dev_at_def ide_dev_ptr_def const_defs)
  ultimately show ?thesis
    using img by (simp add: ide_serves_def demo_ide_ks_def demo_ide_dev_def) (simp add: ide_demo_def demo_ata_def)
qed

lemma demo_ide_image: "k < 5 \<Longrightarrow> ide_image demo_img k = demo_disk k"
  using demo_disk_length [of k] by (simp add: ide_image_def demo_img_def length_bytes_words words_bytes_of_bytes)

lemma demo_ide_inv: "vfs_inv demo_ide_ks" "mount_map demo_ide_ks name = None"
  by (simp_all add: vfs_inv_def demo_ide_ks_def mount_map_def mount_list_def mp_slots_def list_all_length)

lemma demo_room:
  fixes s :: "'w kstate"
  assumes e: "dom (ks_store s) = {}" and k: "k \<le> 16"
  shows "heap_room demo_heap s k"
  unfolding heap_room_def
proof (intro allI impI, elim conjE)
  fix s' :: "'w kstate" and n :: u32
  assume "finite (heap_more s s')" "card (heap_more s s') < k"
  then have a: "finite (dom (ks_store s'))" "card (dom (ks_store s')) < k" using e by (simp_all add: heap_more_def heap_use_dom)
  let ?as = "[0x1000, 0x2000, 0x3000, 0x4000, 0x5000, 0x6000, 0x7000, 0x8000, 0x9000, 0xA000, 0xB000, 0xC000,
      0xD000, 0xE000, 0xF000, 0x10000] :: ptr list"
  have "\<not> set ?as \<subseteq> dom (ks_store s')"
  proof
    assume "set ?as \<subseteq> dom (ks_store s')"
    then have "card (set ?as) \<le> card (dom (ks_store s'))" using a(1) by (intro card_mono) simp_all
    then show False using a(2) k by simp
  qed
  then obtain x where x: "x \<in> set ?as" "ks_store s' x = None" by blast
  have "find (\<lambda>p. ks_store s' p = None) ?as \<noteq> None" using x unfolding find_None_iff by blast
  then obtain p where p: "find (\<lambda>p. ks_store s' p = None) ?as = Some p" by blast
  then have "p \<in> set ?as" unfolding find_Some_iff using nth_mem by blast
  then show "kh_malloc demo_heap s' n \<noteq> NULL \<and> kh_realloc demo_heap s' n" unfolding demo_malloc p by (auto simp: demo_heap_def)
qed

text \<open>A disk that begins with the small volume holds it, and its file.\<close>

lemma demo_vol:
  assumes "\<forall>k<5. img k = demo_disk k"
  shows "vol_fat img = 1" "vol_root img = 2" "vol_dir_sectors img = 1" "vol_data img = 3" "vol_table img = demo_disk 1"
  using assms by (simp_all add: vol_defs demo_bpb)

lemma demo_image_volume:
  assumes img: "\<forall>k<5. img k = demo_disk k" and n: "5 \<le> n"
  shows "fat12_volume img n" "disk_file img n [47, 65, 46, 84, 88, 84] [2, 3] (replicate 512 3 @ replicate 88 4)"
proof -
  show "fat12_volume img n" using img n by (simp add: fat12_volume_def demo_vol [OF img] demo_bpb)
  have dir: "dir_entries_at img (of_nat (vol_root img)) [0..<vol_dir_sectors img] = dir_entries_at demo_disk 2 [0..<1]"
    using img by (simp add: dir_entries_at_def demo_vol [OF img])
  have bl: "concat (map (\<lambda>c. img (vol_data img + (unat c - 2))) [2, 3 :: u16]) = demo_disk 3 @ demo_disk 4"
    using img by (simp add: demo_vol [OF img])
  have d: "replicate 512 3 @ replicate 88 4 = take 600 (demo_disk 3 @ demo_disk 4)" by (simp add: demo_disk_def)
  show "disk_file img n [47, 65, 46, 84, 88, 84] [2, 3] (replicate 512 3 @ replicate 88 4)"
    unfolding disk_file_def dir using demo_find demo_chain bl d demo_entry_fields n
    by (intro exI [of _ 0] exI [of _ 0] exI [of _ demo_entry])
      (simp add: demo_vol [OF img] less_Suc_eq dir_entry_of_def demo_entry_def const_defs)
qed

lemma demo_ide_volume: "fat12_volume (ide_image demo_img) 5"
  "disk_file (ide_image demo_img) 5 [47, 65, 46, 84, 88, 84] [2, 3] (replicate 512 3 @ replicate 88 4)"
  using demo_image_volume [of "ide_image demo_img" 5] demo_ide_image by simp_all

lemma demo_ide_room: "heap_room demo_heap demo_ide_ks 11"
  by (rule demo_room) (simp_all add: demo_ide_ks_def)

text \<open>The kernel's file systems on this machine; the place of the other driver is taken by a second copy of FAT12.\<close>

definition demo_ide_ft :: "ide_state fs_table" where
  "demo_ide_ft = kernel_fs demo_heap (replicate 512 0) (fat12_fs_type demo_heap) (fat12_vnode_ops demo_heap [])"

end
