(* ===== verification/Fs_Floppy.thy ===== *)
theory Fs_Floppy
  imports Fs_Ide Drv_Fdc
begin

text \<open>
  The floppy driver as the device below the file system, from its initialisation on, and the small volume on a floppy
  disk.
\<close>

section \<open>The floppy driver as a readable device\<close>

definition fdc_block_ops :: "hardware \<Rightarrow> fdc_state block_device_ops_t" where
  "fdc_block_ops hw = \<lparr>op_read = Some (fdc_blk_read hw), op_write = Some (fdc_blk_write hw)\<rparr>"

text \<open>The device at \<open>dev\<close> is the floppy drive, the controller answers, and the disk in the drive serves its sectors.\<close>

definition fdc_serves :: "hardware \<Rightarrow> dmac0 \<Rightarrow> (u8 \<Rightarrow> u8 \<Rightarrow> u8 \<Rightarrow> u8 list) \<Rightarrow> ptr \<Rightarrow> fdc_state blk_state \<Rightarrow> fdc_state \<Rightarrow> bool" where
  "fdc_serves hw d0 disk dev bs s \<longleftrightarrow>
     fdc_answers hw \<and> fdc_reports_seek hw \<and> floppy_serves hw d0 disk \<and> dev \<noteq> NULL
     \<and> (\<exists>d. blk_store bs dev = Some d \<and> bd_ops d = Some (fdc_block_ops hw) \<and> bd_num_blocks d = 2880)
     \<and> fdc_motor_mask (fdc_current_drive s) \<noteq> None"

text \<open>The 2880 blocks of a disk with 80 cylinders, two heads and 18 sectors to the track; a sector of another length
  is filled up.\<close>

definition floppy_image :: "(u8 \<Rightarrow> u8 \<Rightarrow> u8 \<Rightarrow> u8 list) \<Rightarrow> nat \<Rightarrow> u8 list" where
  "floppy_image disk k = take 512 (disk (of_nat (k div 36)) (of_nat (k mod 36 div 18)) (of_nat (k mod 36 mod 18 + 1)) @ replicate 512 0)"

lemma fdc_reads_disk: "reads_disk dev (fdc_serves hw d0 disk dev) (floppy_image disk) 2880"
  unfolding reads_disk_def
proof (intro conjI allI impI, goal_cases)
  case (2 lba)
  show ?case unfolding floppy_image_def length_take length_append length_replicate by linarith
next
  case (3 s lba b)
  then have lba: "lba < 2880" "512 \<le> length b" and I: "fdc_serves hw d0 disk dev (ks_blk s) (ks_world s)" by simp_all
  obtain d m where d: "blk_store (ks_blk s) dev = Some d" "bd_ops d = Some (fdc_block_ops hw)" "bd_num_blocks d = 2880" "dev \<noteq> NULL"
    and hw: "fdc_answers hw" "fdc_reports_seek hw" "floppy_serves hw d0 disk" and m: "fdc_motor_mask (fdc_current_drive (ks_world s)) = Some m"
    using I unfolding fdc_serves_def by blast
  have u: "unat (of_nat lba :: u32) = lba" using lba(1) by simp
  obtain c h sec where chs: "fdc_lba_to_chs (of_nat lba) = (c, h, sec)" by (cases "fdc_lba_to_chs (of_nat lba)")
  then have "unat c = lba div 36" "unat h = lba mod 36 div 18" "unat sec = lba mod 36 mod 18 + 1"
    using fdc_lba_to_chs_arith [of "of_nat lba"] lba(1) u by auto
  then have img: "disk (ucast c) (ucast h) (ucast sec) = floppy_image disk lba"
    using hw(3) unfolding floppy_image_def floppy_serves_def by (simp add: ucast_of_unat)
  have l: "unat (of_nat lba :: u32) < 2880" using u lba(1) by simp
  obtain w where w: "fdc_read_sector hw (of_nat lba) (Some b) (ks_world s) = Some (0, Some (floppy_image disk lba @ drop 512 b), w)"
    "fdc_current_drive w = fdc_current_drive (ks_world s)"
    using fdc_read_sector_answers [OF hw m lba(2) chs l] unfolding img by blast
  have "\<not> (2880 :: u32) \<le> of_nat lba" using lba(1) u by (simp add: word_le_nat_alt)
  then have "kblkread dev (of_nat lba) b s = Some (floppy_image disk lba @ drop 512 b, s\<lparr>ks_world := w\<rparr>)"
    using d w(1) by (simp add: kblkread_def blkread_def fdc_block_ops_def fdc_blk_read_def)
  moreover have "fdc_serves hw d0 disk dev (ks_blk s) w" using I w(2) unfolding fdc_serves_def by simp
  ultimately show ?case by auto
qed simp

interpretation fdcd: block_disk dev "fdc_serves hw d0 disk dev" "floppy_image disk" 2880
  for dev hw d0 disk
  by unfold_locales (rule fdc_reads_disk)

section \<open>Initialising the driver\<close>

lemma fdc_io_drive [simp]: "fdc_current_drive (fdc_io f s) = fdc_current_drive s"
  by (simp add: fdc_io_def)

lemma fdc_motor_drive [simp]: "fdc_current_drive (fdc_control_motor d e s) = fdc_current_drive s"
  by (simp add: fdc_control_motor_def fdc_write_dor_def Let_def split: option.splits)

lemma fdc_recalibrate_answers:
  assumes "fdc_answers hw"
  shows "\<exists>r s'. fdc_recalibrate hw drive s = Some (r, s') \<and> fdc_current_drive s' = fdc_current_drive s"
proof -
  have "\<exists>r s'. fdc_recalibrate_loop hw drive n s = Some (r, s') \<and> fdc_current_drive s' = fdc_current_drive s" for n s
  proof (induction n arbitrary: s)
    case (Suc n)
    let ?s1 = "fdc_interrupted hw (fdc_send_all hw [FDC_CMD_RECALIBRATE, drive] s)"
    let ?s2 = "fdc_got hw (fdc_got hw (fdc_sent hw FDC_CMD_SENSE_INTERRUPT ?s1))"
    have "fdc_current_drive ?s2 = fdc_current_drive s" by (simp add: fdc_send_all_answers [OF assms] del: fdc_send_all.simps)
    then show ?case
      using Suc.IH [of ?s2] by (simp add: fdc_wait_answers [OF assms] fdc_sense_answers [OF assms] Let_def del: fdc_send_all.simps)
  qed simp
  from this [of 10 "fdc_control_motor drive True s"] show ?thesis by (auto simp: fdc_recalibrate_def)
qed

lemma fdc_sense_all_drive:
  assumes "fdc_answers hw"
  shows "fdc_current_drive (fdc_sense_all hw n s) = fdc_current_drive s"
  by (induction n arbitrary: s) (simp_all add: fdc_sense_answers [OF assms] Let_def)

text \<open>The reset leaves drive 0 selected, whatever the state before.\<close>

lemma fdc_reset_drive:
  assumes hw: "fdc_answers hw"
  obtains s1 where "fdc_reset hw (fdc_set_drive 0 s) = Some s1" "fdc_current_drive s1 = 0"
proof -
  let ?s0 = "fdc_interrupted hw (fdc_enable (fdc_disable (fdc_set_drive 0 s)))"
  let ?s4 = "fdc_fix_drivedata hw 3 16 240 True (fdc_write_ccr FDC_CCR_500KBPS (fdc_sense_all hw 4 ?s0))"
  have d4: "fdc_current_drive ?s4 = 0"
    by (simp add: fdc_fix_drivedata_def fdc_send_all_answers [OF hw] fdc_write_ccr_def fdc_sense_all_drive [OF hw]
        fdc_enable_def fdc_disable_def fdc_write_dor_def fdc_set_drive_def del: fdc_send_all.simps fdc_sense_all.simps)
  obtain q s1 where s1: "fdc_recalibrate hw (fdc_current_drive ?s4) ?s4 = Some (q, s1)" "fdc_current_drive s1 = 0"
    using fdc_recalibrate_answers [OF hw] d4 by metis
  have "fdc_reset hw (fdc_set_drive 0 s) = Some s1"
    unfolding fdc_reset_def fdc_wait_answers [OF hw] bind.bind_lunit Let_def s1(1) by simp
  then show ?thesis using s1(2) by (rule that)
qed

text \<open>What the initialisation registers, for any machine the driver's functions are embedded into.\<close>

lemma fdc_init_registers:
  assumes hw: "fdc_answers hw" and inv: "blk_inv bs" "malloc_fresh malloc"
    and reg: "fst (blkdev_register malloc [102, 100, 48] 512 2880 (Some (emb (fdc_block_ops hw))) NULL bs) = 0"
  obtains s1 bs1 dev where "fdc_init emb hw malloc s bs = Some (s1, bs1, IRQ6_FLOPPY)" "fdc_current_drive s1 = 0" "blk_inv bs1"
    "dev = blkdev_get_by_name bs1 (Some [102, 100, 48])" "dev \<noteq> NULL"
    "blk_store bs1 dev = Some \<lparr>bd_name = [102, 100, 48], bd_block_size = 512, bd_num_blocks = 2880, bd_private = NULL,
       bd_ops = Some (emb (fdc_block_ops hw))\<rparr>"
proof -
  obtain bs1 where r: "blkdev_register malloc [102, 100, 48] 512 2880 (Some (emb (fdc_block_ops hw))) NULL bs = (0, bs1)"
    using reg by (metis prod.collapse)
  let ?dev = "blkdev_get_by_name bs1 (Some [102, 100, 48])"
  have dev: "?dev \<noteq> NULL" "blk_store bs1 ?dev
      = Some \<lparr>bd_name = [102, 100, 48], bd_block_size = 512, bd_num_blocks = 2880, bd_private = NULL, bd_ops = Some (emb (fdc_block_ops hw))\<rparr>"
    using blkdev_lookup_registered [OF inv r] by (simp_all add: Let_def)
  have i1: "blk_inv bs1" using blkdev_register_keeps_inv [OF inv r] .
  obtain s1 where s1: "fdc_reset hw (fdc_set_drive 0 s) = Some s1" "fdc_current_drive s1 = 0" by (rule fdc_reset_drive [OF hw])
  then have "fdc_init emb hw malloc s bs = Some (s1, bs1, IRQ6_FLOPPY)" using r by (simp add: fdc_init_def fdc_block_ops_def)
  then show ?thesis using s1(2) i1 refl dev by (rule that)
qed

lemma fdc_init_serves:
  assumes hw: "fdc_answers hw" "fdc_reports_seek hw" "floppy_serves hw d0 disk" and inv: "blk_inv bs" "malloc_fresh malloc"
    and reg: "fst (blkdev_register malloc [102, 100, 48] 512 2880 (Some (fdc_block_ops hw)) NULL bs) = 0"
  obtains s1 bs1 where "fdc_init id hw malloc s bs = Some (s1, bs1, IRQ6_FLOPPY)"
    "fdc_serves hw d0 disk (blkdev_get_by_name bs1 (Some [102, 100, 48])) bs1 s1"
proof -
  obtain s1 bs1 dev where r: "fdc_init id hw malloc s bs = Some (s1, bs1, IRQ6_FLOPPY)" "fdc_current_drive s1 = 0" "blk_inv bs1"
    "dev = blkdev_get_by_name bs1 (Some [102, 100, 48])" "dev \<noteq> NULL"
    "blk_store bs1 dev = Some \<lparr>bd_name = [102, 100, 48], bd_block_size = 512, bd_num_blocks = 2880, bd_private = NULL,
       bd_ops = Some (id (fdc_block_ops hw))\<rparr>"
    by (rule fdc_init_registers [OF hw(1) inv, where emb = id and s = s]) (use reg in simp)
  have "fdc_serves hw d0 disk (blkdev_get_by_name bs1 (Some [102, 100, 48])) bs1 s1"
    using hw r(2,5,6) unfolding r(4) by (simp add: fdc_serves_def fdc_motor_mask_def)
  then show ?thesis using r(1) by (intro that)
qed

lemma vfs_inv_device:
  assumes "vfs_inv s"
  shows "vfs_inv (s\<lparr>ks_blk := b, ks_world := w\<rparr>)" "mount_map (s\<lparr>ks_blk := b, ks_world := w\<rparr>) = mount_map s"
  using inv_extends [OF assms, of "s\<lparr>ks_blk := b, ks_world := w\<rparr>"]
  by (simp_all add: objs_le_def get_vfs_def get_vnode_def)

section \<open>The small volume on a floppy disk\<close>

definition demo_floppy :: "u8 \<Rightarrow> u8 \<Rightarrow> u8 \<Rightarrow> u8 list" where
  "demo_floppy track head sector = (if track = 0 \<and> head = 0 \<and> 1 \<le> sector \<and> sector \<le> 5 then demo_disk (unat sector - 1) else replicate 512 0)"

definition demo_fd :: hardware where
  "demo_fd = fd_with_disk demo_floppy"

lemma demo_fd_hyps: "fdc_answers demo_fd" "fdc_reports_seek demo_fd" "floppy_serves demo_fd dmac0_init demo_floppy"
proof -
  have "length (demo_floppy t h s) = 512" for t h s
    using demo_disk_length [of "unat s - 1"] by (auto simp: demo_floppy_def word_le_nat_alt)
  then show "fdc_answers demo_fd" "fdc_reports_seek demo_fd" "floppy_serves demo_fd dmac0_init demo_floppy"
    unfolding demo_fd_def using fd_with_disk_hyps [of demo_floppy] by blast+
qed

lemma demo_floppy_image: "\<forall>k<5. floppy_image demo_floppy k = demo_disk k"
proof (intro allI impI)
  fix k :: nat assume k: "k < 5"
  have "unat (of_nat (Suc k) :: u8) = Suc k" using k by (simp only: unat_of_nat) simp
  then show "floppy_image demo_floppy k = demo_disk k"
    using k demo_disk_length [of k] by (simp add: floppy_image_def demo_floppy_def word_le_nat_alt)
qed

definition demo_fd_ks :: "fdc_state kstate" where
  "demo_fd_ks = \<lparr>ks_store = Map.empty, ks_blk = no_devices,
     ks_world = \<lparr>fdc_current_drive = 0, fdc_irq_fired = False, fdc_trace = [], fdc_dmabuf = []\<rparr>,
     mountpoints = Some (replicate 16 (Some NULL)), curr_size = 0, vfs_root_vnode = NULL\<rparr>"

definition demo_fd_ft :: "fdc_state fs_table" where
  "demo_fd_ft = kernel_fs demo_heap (replicate 512 0) (fat12_fs_type demo_heap) (fat12_vnode_ops demo_heap [])"

lemma demo_fd_inv: "vfs_inv demo_fd_ks" "mount_map demo_fd_ks name = None"
  by (simp_all add: vfs_inv_def demo_fd_ks_def mount_map_def mount_list_def mp_slots_def list_all_length)

lemma demo_fd_register:
  "fst (blkdev_register bump_malloc [102, 100, 48] 512 2880 (Some (fdc_block_ops demo_fd)) NULL (ks_blk demo_fd_ks)) = 0"
  by (simp add: blkdev_register_def blkdev_init_table_def bump_malloc_def demo_fd_ks_def no_devices_def registered_def Let_def)

end
