(* ===== verification/Libc_Stdio.thy ===== *)
theory Libc_Stdio
  imports Libc_Printf Drv_Serial
begin

text \<open>
  Formatted output and line input of both worlds: the user library of \<^verbatim>\<open>libc/stdio.c\<close> on the system calls of
  \<^verbatim>\<open>libc/unitstd.c\<close>, and \<^verbatim>\<open>printk\<close>, \<^verbatim>\<open>getlinek\<close> of \<^verbatim>\<open>libc/kernel/stdio.c\<close> with the logging macros of
  \<^verbatim>\<open>include/log.h\<close>. What the kernel does on a system call and the terminal driver are object files: they are
  arguments of the definitions.
\<close>

section \<open>System calls\<close>

definition SYS_read :: u32 where [const_defs]: "SYS_read = 0"
definition SYS_write :: u32 where [const_defs]: "SYS_write = 1"
definition SYS_fork :: u32 where [const_defs]: "SYS_fork = 2"
definition SYS_exec :: u32 where [const_defs]: "SYS_exec = 3"

text \<open>The kernel's numbering of the same calls.\<close>

datatype syscall_nr = SYSCALL_READ | SYSCALL_WRITE | SYSCALL_FORK | SYSCALL_EXEC

primrec syscall_code :: "syscall_nr \<Rightarrow> u32" where
  "syscall_code SYSCALL_READ = 0"
| "syscall_code SYSCALL_WRITE = 1"
| "syscall_code SYSCALL_FORK = 2"
| "syscall_code SYSCALL_EXEC = 3"

text \<open>The calls are ordered by their numbers, and the numbers of the user library are those of the kernel.\<close>

instantiation syscall_nr :: linorder
begin

definition less_eq_syscall_nr :: "syscall_nr \<Rightarrow> syscall_nr \<Rightarrow> bool" where
  "less_eq_syscall_nr a b \<longleftrightarrow> syscall_code a \<le> syscall_code b"

definition less_syscall_nr :: "syscall_nr \<Rightarrow> syscall_nr \<Rightarrow> bool" where
  "less_syscall_nr a b \<longleftrightarrow> syscall_code a < syscall_code b"

instance
proof
  fix a b :: syscall_nr
  assume "a \<le> b" and "b \<le> a"
  then show "a = b" by (cases a; cases b) (simp_all add: less_eq_syscall_nr_def word_le_nat_alt)
qed (auto simp: less_eq_syscall_nr_def less_syscall_nr_def)

end

lemma syscall_numbers:
  "sorted_wrt (<) [SYSCALL_READ, SYSCALL_WRITE, SYSCALL_FORK, SYSCALL_EXEC]
   \<and> map syscall_code [SYSCALL_READ, SYSCALL_WRITE, SYSCALL_FORK, SYSCALL_EXEC] = [SYS_read, SYS_write, SYS_fork, SYS_exec]"
  by (simp add: less_syscall_nr_def const_defs)

text \<open>The kernel seen from a user program: the number in \<^verbatim>\<open>eax\<close>, the parameters in registers, the memory of the
  program and the rest of the machine; \<open>None\<close> when the call does not return.\<close>

type_synonym 'w kernel = "u32 \<Rightarrow> u32 list \<Rightarrow> mem \<Rightarrow> 'w \<Rightarrow> (u32 \<times> mem \<times> 'w) option"

text \<open>A running user program: its memory, the static \<^verbatim>\<open>next_token\<close> of \<^verbatim>\<open>strtok\<close>, and the world around it.\<close>

record 'w user =
  u_mem :: mem
  u_next_token :: ptr
  u_world :: 'w

definition int80 :: "'w kernel \<Rightarrow> u32 \<Rightarrow> u32 list \<Rightarrow> 'w user \<Rightarrow> (u32 \<times> 'w user) option" where
  "int80 sys num regs st =
     map_option (\<lambda>(ret, m, w). (ret, st\<lparr>u_mem := m, u_world := w\<rparr>)) (sys num regs (u_mem st) (u_world st))"

definition sys_write :: "'w kernel \<Rightarrow> ptr \<Rightarrow> u32 \<Rightarrow> 'w user \<Rightarrow> (u32 \<times> 'w user) option" where
  "sys_write sys buf count = int80 sys SYS_write [buf, count]"

definition sys_read :: "'w kernel \<Rightarrow> ptr \<Rightarrow> u32 \<Rightarrow> 'w user \<Rightarrow> (u32 \<times> 'w user) option" where
  "sys_read sys buf count = int80 sys SYS_read [buf, count]"

definition sys_fork :: "'w kernel \<Rightarrow> 'w user \<Rightarrow> (u32 \<times> 'w user) option" where
  "sys_fork sys = int80 sys SYS_fork []"

definition sys_exec :: "'w kernel \<Rightarrow> ptr \<Rightarrow> 'w user \<Rightarrow> (u32 \<times> 'w user) option" where
  "sys_exec sys path = int80 sys SYS_exec [path]"

section \<open>The user library\<close>

text \<open>Where the linker and the compiler put things: the string literals, \<^verbatim>\<open>"(null)"\<close> of the formatter and the
  buffer of \<^verbatim>\<open>printf\<close>.\<close>

record layout =
  lay_lit :: "u8 list \<Rightarrow> ptr"
  lay_null :: ptr
  lay_printf :: ptr

definition printf :: "'w kernel \<Rightarrow> layout \<Rightarrow> u8 list \<Rightarrow> u32 list \<Rightarrow> 'w user \<Rightarrow> (u32 \<times> 'w user) option" where
  "printf sys ly fmt ap st =
     Option.bind (vsnprintf (lay_null ly) (u_mem st) (lay_printf ly) 1024 (lay_lit ly fmt) ap)
       (\<lambda>(m, len). Option.bind (sys_write sys (lay_printf ly) len (st\<lparr>u_mem := m\<rparr>))
          (\<lambda>(ret, st1). Some (len, st1)))"

definition getline :: "'w kernel \<Rightarrow> ptr \<Rightarrow> u32 \<Rightarrow> 'w user \<Rightarrow> (int \<times> 'w user) option" where
  "getline sys buf sz st =
     (if buf = NULL \<or> sz = 0 then Some (- 1, st)
      else map_option (\<lambda>(ret, st1). (0, st1)) (sys_read sys buf (sz - 1) st))"

section \<open>The kernel's side\<close>

text \<open>The terminal driver, and the console: the memory, the state of the terminal and the port history of the
  serial line.\<close>

record 'w tty_ops =
  terminal_writestring :: "mem \<Rightarrow> ptr \<Rightarrow> 'w \<Rightarrow> 'w"
  terminal_read :: "ptr \<Rightarrow> u32 \<Rightarrow> mem \<Rightarrow> 'w \<Rightarrow> (mem \<times> 'w) option"
  terminal_settext_color :: "u8 \<Rightarrow> 'w \<Rightarrow> 'w"
  terminal_setbg_color :: "u8 \<Rightarrow> 'w \<Rightarrow> 'w"
  terminal_reset_color :: "'w \<Rightarrow> 'w"

record 'w console =
  con_mem :: mem
  con_tty :: 'w
  con_trace :: io_trace

text \<open>The string in a buffer of \<open>n\<close> bytes.\<close>

definition buffer_string :: "mem \<Rightarrow> ptr \<Rightarrow> nat \<Rightarrow> u8 list" where
  "buffer_string m p n = takeWhile (\<lambda>c. c \<noteq> 0) (bytes_at m p n)"

definition printk :: "hardware \<Rightarrow> 'w tty_ops \<Rightarrow> layout \<Rightarrow> u8 list \<Rightarrow> u32 list \<Rightarrow> 'w console \<Rightarrow> (u32 \<times> 'w console) option" where
  "printk hw tty ly fmt ap con =
     Option.bind (vsnprintf (lay_null ly) (con_mem con) (lay_printf ly) 1024 (lay_lit ly fmt) ap)
       (\<lambda>(m, len). Option.bind (serial_puts hw (buffer_string m (lay_printf ly) 1024) (con_trace con))
          (\<lambda>tr. Some (len, con\<lparr>con_mem := m, con_tty := terminal_writestring tty m (lay_printf ly) (con_tty con), con_trace := tr\<rparr>)))"

definition getlinek :: "'w tty_ops \<Rightarrow> ptr \<Rightarrow> u32 \<Rightarrow> 'w console \<Rightarrow> (int \<times> 'w console) option" where
  "getlinek tty buf sz con =
     (if buf = NULL \<or> sz = 0 then Some (- 1, con)
      else map_option (\<lambda>(m, w). (0, con\<lparr>con_mem := m, con_tty := w\<rparr>)) (terminal_read tty buf (sz - 1) (con_mem con) (con_tty con)))"

text \<open>The logging macros, for a module with its name (\<open>None\<close> when it has none) and its switches.\<close>

datatype log_type = LOG_ERR | LOG_DBG | LOG_PRI

primrec log_color :: "log_type \<Rightarrow> u8" where
  "log_color LOG_ERR = 12"
| "log_color LOG_DBG = 11"
| "log_color LOG_PRI = 10"

primrec log_prefix :: "log_type \<Rightarrow> u8 list" where
  "log_prefix LOG_ERR = bytes_of '' [ERR] - ''"
| "log_prefix LOG_DBG = bytes_of '' [DBG] - ''"
| "log_prefix LOG_PRI = bytes_of '' [ + ] - ''"

definition PRINT_PREFIX :: "hardware \<Rightarrow> 'w tty_ops \<Rightarrow> layout \<Rightarrow> u8 list option \<Rightarrow> log_type \<Rightarrow> 'w console \<Rightarrow> 'w console option" where
  "PRINT_PREFIX hw tty ly mod_name ty con =
     Option.bind
       (case mod_name of
          Some n \<Rightarrow> printk hw tty ly (bytes_of '' [%s] - '') [lay_lit ly n] (con\<lparr>con_tty := terminal_settext_color tty (log_color ty) (con_tty con)\<rparr>)
        | None \<Rightarrow> printk hw tty ly (bytes_of ''%s'') [lay_lit ly (log_prefix ty)] (con\<lparr>con_tty := terminal_settext_color tty (log_color ty) (con_tty con)\<rparr>))
       (\<lambda>(r, con1). Some (con1\<lparr>con_tty := terminal_reset_color tty (con_tty con1)\<rparr>))"

definition LOG :: "hardware \<Rightarrow> 'w tty_ops \<Rightarrow> layout \<Rightarrow> bool \<Rightarrow> bool \<Rightarrow> u8 list option \<Rightarrow> log_type \<Rightarrow> u8 list \<Rightarrow> u32 list
    \<Rightarrow> 'w console \<Rightarrow> 'w console option" where
  "LOG hw tty ly debug mod_enable mod_name ty fmt ap con =
     (if (ty = LOG_DBG \<and> debug \<and> mod_enable) \<or> (ty \<noteq> LOG_DBG \<and> mod_enable)
      then Option.bind (PRINT_PREFIX hw tty ly mod_name ty con) (\<lambda>con1. map_option snd (printk hw tty ly fmt ap con1))
      else Some con)"

definition LOG_COLORED :: "hardware \<Rightarrow> 'w tty_ops \<Rightarrow> layout \<Rightarrow> u8 \<Rightarrow> u8 list \<Rightarrow> u32 list \<Rightarrow> 'w console \<Rightarrow> 'w console option" where
  "LOG_COLORED hw tty ly color fmt ap con =
     Option.bind (printk hw tty ly fmt ap (con\<lparr>con_tty := terminal_settext_color tty color (con_tty con)\<rparr>))
       (\<lambda>(r, con1). Some (con1\<lparr>con_tty := terminal_reset_color tty (con_tty con1)\<rparr>))"

section \<open>What \<^verbatim>\<open>printf\<close> writes\<close>

text \<open>The documented effect of the write call: the bytes of the buffer are appended to the output and the
  program's memory is not touched.\<close>

definition writes_output :: "'w kernel \<Rightarrow> ('w \<Rightarrow> u8 list) \<Rightarrow> bool" where
  "writes_output sys out \<longleftrightarrow> (\<forall>p n m w. \<exists>r w'. sys SYS_write [p, n] m w = Some (r, m, w') \<and> out w' = out w @ bytes_at m p (unat n))"

lemma sys_write_output:
  assumes "writes_output sys out"
  obtains r st' where "sys_write sys p n st = Some (r, st')" "u_mem st' = u_mem st" "u_next_token st' = u_next_token st"
    "out (u_world st') = out (u_world st) @ bytes_at (u_mem st) p (unat n)"
proof -
  obtain r w where "sys SYS_write [p, n] (u_mem st) (u_world st) = Some (r, u_mem st, w)" "out w = out (u_world st) @ bytes_at (u_mem st) p (unat n)"
    using assms unfolding writes_output_def by blast
  then show ?thesis by (intro that [of r "st\<lparr>u_mem := u_mem st, u_world := w\<rparr>"]) (simp_all add: sys_write_def int80_def)
qed

lemma cstr_bytes_at: "cstr_at m p s \<Longrightarrow> bytes_at m p (length s) = s \<and> m (p + of_nat (length s)) = 0"
proof (induction s arbitrary: p)
  case (Cons c s)
  then show ?case using Cons.IH [of "p + 1"] by (simp add: add.assoc)
qed simp

text \<open>A literal is in memory where the layout says, clear of the buffer of \<^verbatim>\<open>printf\<close>.\<close>

definition lit_ok :: "layout \<Rightarrow> mem \<Rightarrow> u8 list \<Rightarrow> bool" where
  "lit_ok ly m s \<longleftrightarrow> cstr_at m (lay_lit ly s) s \<and> region (lay_lit ly s) (Suc (length s)) \<inter> region (lay_printf ly) 1024 = {}"

text \<open>What reaches the output: the formatted text, or, when it is longer than the buffer, the part that fits, its
  terminator and the memory behind the buffer.\<close>

definition printf_bytes :: "mem \<Rightarrow> ptr \<Rightarrow> u8 list \<Rightarrow> u8 list" where
  "printf_bytes m buf out =
     (if length out < 1024 then out else take 1023 out @ 0 # bytes_at m (buf + 1024) (length out - 1024))"

lemma bytes_at_behind:
  assumes "\<forall>a. a \<notin> region p k \<longrightarrow> m' a = m a" and "k + n \<le> 4294967296"
  shows "bytes_at m' (p + of_nat k) n = bytes_at m (p + of_nat k) n"
proof -
  have "p + of_nat k + of_nat i \<notin> region p k" if "i < n" for i
  proof
    assume "p + of_nat k + of_nat i \<in> region p k"
    then obtain j where j: "j < k" "p + of_nat k + of_nat i = p + of_nat j" by (auto simp: region_def)
    then have "(of_nat (k + i) :: u32) = of_nat j" by (simp add: add.assoc)
    then show False using j(1) that assms(2) of_nat_u32_inject [of "k + i" j] by simp
  qed
  then show ?thesis using assms(1) by (simp add: bytes_at_eq_iff)
qed

lemma printf_pieces:
  assumes w: "writes_output sys out" and lit: "lit_ok ly (u_mem st) fmt" and fmt: "fmt = concat (map piece_text ps)"
    and ok: "\<forall>p\<in>set ps. piece_ok (u_mem st) (lay_printf ly) 1024 p" and ap: "ap = concat (map piece_args ps)"
    and tx: "tx = concat (map piece_out ps)" "length tx < 4294967295" and buf: "lay_printf ly \<noteq> NULL"
  shows "\<exists>st'. printf sys ly fmt ap st = Some (of_nat (length tx), st') \<and> same_outside (lay_printf ly) 1024 (u_mem st) (u_mem st')
     \<and> u_next_token st' = u_next_token st \<and> out (u_world st') = out (u_world st) @ printf_bytes (u_mem st) (lay_printf ly) tx"
proof -
  let ?b = "lay_printf ly"
  have c: "cstr_at (u_mem st) (lay_lit ly fmt) (concat (map piece_text ps))"
    "region (lay_lit ly fmt) (Suc (length (concat (map piece_text ps)))) \<inter> region ?b (unat (1024 :: u32)) = {}"
    using lit fmt by (simp_all add: lit_ok_def)
  obtain m where m: "vsnprintf (lay_null ly) (u_mem st) ?b 1024 (lay_lit ly fmt) ap = Some (m, of_nat (length tx))"
    "cstr_at m ?b (take 1023 tx)" "same_outside ?b 1024 (u_mem st) m"
    using vsnprintf_pieces [OF c ok, of ap "[]" tx] ap tx buf by auto
  obtain r st' where s: "sys_write sys ?b (of_nat (length tx)) (st\<lparr>u_mem := m\<rparr>) = Some (r, st')" "u_mem st' = m"
    "u_next_token st' = u_next_token st" "out (u_world st') = out (u_world st) @ bytes_at m ?b (length tx)"
    using sys_write_output [OF w, of ?b "of_nat (length tx)" "st\<lparr>u_mem := m\<rparr>"] tx(2) by auto
  have "bytes_at m ?b (length tx) = printf_bytes (u_mem st) ?b tx"
  proof (cases "length tx < 1024")
    case True
    then show ?thesis using cstr_bytes_at [OF m(2)] by (simp add: printf_bytes_def)
  next
    case False
    have len: "length tx = 1023 + Suc (length tx - 1024)" "length (take 1023 tx) = 1023" using False by simp_all
    have "bytes_at m ?b (length tx) = bytes_at m ?b 1023 @ bytes_at m (?b + of_nat 1023) (Suc (length tx - 1024))"
      by (subst len(1)) (rule bytes_at_append)
    moreover have "bytes_at m ?b 1023 = take 1023 tx" "m (?b + of_nat 1023) = 0" using cstr_bytes_at [OF m(2)] len(2) by simp_all
    moreover have "bytes_at m (?b + of_nat 1024) (length tx - 1024) = bytes_at (u_mem st) (?b + of_nat 1024) (length tx - 1024)"
      by (rule bytes_at_behind) (use m(3) tx(2) False in \<open>auto simp: same_outside_def\<close>)
    ultimately show ?thesis using False by (simp add: printf_bytes_def add.assoc)
  qed
  then show ?thesis using m s by (intro exI [of _ st']) (simp add: printf_def)
qed

text \<open>Property C16: \<^verbatim>\<open>printf\<close> sends the formatted text to the output, as the format describes it piece by piece, and
  returns its length, as long as the text is shorter than the buffer. For a longer text it still asks for
  its whole length to be written: the output gets the first 1023 characters, the terminator, and then
  whatever the memory holds behind the buffer.\<close>

theorem printf_output:
  assumes "writes_output sys out" and "lit_ok ly (u_mem st) fmt" and "fmt = concat (map piece_text ps)"
    and "\<forall>p\<in>set ps. piece_ok (u_mem st) (lay_printf ly) 1024 p" and "tx = concat (map piece_out ps)" and "length tx < 4294967295"
    and "lay_printf ly \<noteq> NULL"
  shows "\<exists>st'. printf sys ly fmt (concat (map piece_args ps)) st = Some (of_nat (length tx), st')
     \<and> (\<forall>a. a \<notin> region (lay_printf ly) 1024 \<longrightarrow> u_mem st' a = u_mem st a)
     \<and> out (u_world st') = out (u_world st) @
         (if length tx < 1024 then tx
          else take 1023 tx @ 0 # bytes_at (u_mem st) (lay_printf ly + 1024) (length tx - 1024))"
  using printf_pieces [OF assms(1-4) refl assms(5-7)] by (auto simp: same_outside_def printf_bytes_def)

section \<open>What \<^verbatim>\<open>printk\<close> writes\<close>

lemma buffer_string_cstr:
  assumes "cstr_at m p s" and "length s < n"
  shows "buffer_string m p n = s"
proof -
  obtain k where n: "n = length s + Suc k" using assms(2) less_iff_Suc_add by auto
  have "bytes_at m p n = s @ 0 # bytes_at m (p + of_nat (length s) + 1) k"
    using cstr_bytes_at [OF assms(1)] unfolding n bytes_at_append by simp
  then show ?thesis using cstr_at_nonzero [OF assms(1)] by (auto simp: buffer_string_def takeWhile_append)
qed

lemma printk_pieces:
  assumes uart: "thr_gets_empty hw" and lit: "lit_ok ly (con_mem con) fmt" and fmt: "fmt = concat (map piece_text ps)"
    and ok: "\<forall>p\<in>set ps. piece_ok (con_mem con) (lay_printf ly) 1024 p" and ap: "ap = concat (map piece_args ps)"
    and tx: "tx = concat (map piece_out ps)" "length tx < 4294967295" and buf: "lay_printf ly \<noteq> NULL"
  shows "\<exists>m tr. printk hw tty ly fmt ap con
       = Some (of_nat (length tx), con\<lparr>con_mem := m, con_tty := terminal_writestring tty m (lay_printf ly) (con_tty con), con_trace := tr\<rparr>)
     \<and> cstr_at m (lay_printf ly) (take 1023 tx) \<and> same_outside (lay_printf ly) 1024 (con_mem con) m
     \<and> writes_to (SERIAL_XMITBUF COM1_IO_BASE) tr = writes_to (SERIAL_XMITBUF COM1_IO_BASE) (con_trace con) @ crlf (take 1023 tx)
     \<and> (\<forall>p. p \<noteq> SERIAL_XMITBUF COM1_IO_BASE \<longrightarrow> writes_to p tr = writes_to p (con_trace con))"
proof -
  let ?b = "lay_printf ly"
  have c: "cstr_at (con_mem con) (lay_lit ly fmt) (concat (map piece_text ps))"
    "region (lay_lit ly fmt) (Suc (length (concat (map piece_text ps)))) \<inter> region ?b (unat (1024 :: u32)) = {}"
    using lit fmt by (simp_all add: lit_ok_def)
  obtain m where m: "vsnprintf (lay_null ly) (con_mem con) ?b 1024 (lay_lit ly fmt) ap = Some (m, of_nat (length tx))"
    "cstr_at m ?b (take 1023 tx)" "same_outside ?b 1024 (con_mem con) m"
    using vsnprintf_pieces [OF c ok, of ap "[]" tx] ap tx buf by auto
  have str: "buffer_string m ?b 1024 = take 1023 tx" by (rule buffer_string_cstr [OF m(2)]) simp
  obtain tr where tr: "serial_puts hw (take 1023 tx) (con_trace con) = Some tr"
    "writes_to (SERIAL_XMITBUF COM1_IO_BASE) tr = writes_to (SERIAL_XMITBUF COM1_IO_BASE) (con_trace con) @ crlf (take 1023 tx)"
    "\<forall>p. p \<noteq> SERIAL_XMITBUF COM1_IO_BASE \<longrightarrow> writes_to p tr = writes_to p (con_trace con)"
    using serial_puts_ready [OF uart] by blast
  then show ?thesis using m str by (intro exI [of _ m] exI [of _ tr]) (simp add: printk_def)
qed


section \<open>A program in memory\<close>

text \<open>A linker that puts the literals one after the other from \<open>base\<close>, each with its terminator.\<close>

primrec pool_addr :: "ptr \<Rightarrow> u8 list list \<Rightarrow> u8 list \<Rightarrow> ptr" where
  "pool_addr base [] s = NULL"
| "pool_addr base (l # ls) s = (if s = l then base else pool_addr (base + of_nat (Suc (length l))) ls s)"

definition pool_bytes :: "u8 list list \<Rightarrow> u8 list" where
  "pool_bytes ls = concat (map (\<lambda>l. l @ [0]) ls)"

lemma pool_at:
  assumes "s \<in> set ls" and "0 \<notin> set s" and "bytes_at m base (length (pool_bytes ls)) = pool_bytes ls"
  shows "cstr_at m (pool_addr base ls s) s \<and> region (pool_addr base ls s) (Suc (length s)) \<subseteq> region base (length (pool_bytes ls))"
  using assms(1,3)
proof (induction ls arbitrary: base)
  case (Cons l ls)
  have len: "length (pool_bytes (l # ls)) = Suc (length l) + length (pool_bytes ls)" by (simp add: pool_bytes_def)
  have "bytes_at m base (Suc (length l)) @ bytes_at m (base + of_nat (Suc (length l))) (length (pool_bytes ls)) = (l @ [0]) @ pool_bytes ls"
    using Cons.prems(2) unfolding len bytes_at_append by (simp add: pool_bytes_def del: bytes_at.simps)
  then have "bytes_at m base (Suc (length l)) = l @ [0] \<and> bytes_at m (base + of_nat (Suc (length l))) (length (pool_bytes ls)) = pool_bytes ls"
    by (rule append_eq_append_conv [THEN iffD1, rotated]) simp
  then have b: "bytes_at m base (Suc (length l)) = l @ [0]"
    "bytes_at m (base + of_nat (Suc (length l))) (length (pool_bytes ls)) = pool_bytes ls" by blast+
  show ?case
  proof (cases "s = l")
    case True
    have "bytes_at m base (length l + 1) = l @ [0]" using b(1) by simp
    then have "bytes_at m base (length l) = l \<and> m (base + of_nat (length l)) = 0" unfolding bytes_at_append by simp
    then have "cstr_at m base l" using assms(2) True by (simp add: cstr_at_iff)
    moreover have "region base (Suc (length l)) \<subseteq> region base (length (pool_bytes (l # ls)))" unfolding len by (rule region_mono) simp
    ultimately show ?thesis using True by simp
  next
    case False
    then have "s \<in> set ls" using Cons.prems(1) by simp
    from Cons.IH [OF this b(2)] show ?thesis
      using False region_tail_subset [of base "Suc (length l)" "length (pool_bytes ls)"] unfolding len by auto
  qed
qed simp

lemma region_apart:
  assumes "unat p + n \<le> unat q" and "unat q + k \<le> 4294967296"
  shows "region p n \<inter> region q k = {}"
proof -
  have "unat a < unat q" if "a \<in> region p n" for a
    using that assms by (auto simp: region_def unat_word_ariths)
  moreover have "unat q \<le> unat a" if "a \<in> region q k" for a
    using that assms by (auto simp: region_def unat_word_ariths)
  ultimately show ?thesis by fastforce
qed

lemma null_apart: "0 < unat p \<Longrightarrow> unat p + n \<le> 4294967296 \<Longrightarrow> NULL \<notin> region p n"
  using region_apart [of NULL 1 p n] by (auto simp: region_def)

section \<open>A terminal\<close>

text \<open>The simplest kernel: input lines, and everything written.\<close>

record terminal =
  t_in :: "u8 list list"
  t_out :: "u8 list"

definition term_kernel :: "terminal kernel" where
  "term_kernel num regs m w =
     (case regs of
        [p, n] \<Rightarrow>
          if num = SYS_write then Some (n, m, w\<lparr>t_out := t_out w @ bytes_at m p (unat n)\<rparr>)
          else if num = SYS_read then
            (case t_in w of [] \<Rightarrow> None
             | l # ls \<Rightarrow> Some (0, store_bytes m p (take (unat n) l @ [0]), w\<lparr>t_in := ls\<rparr>))
          else None
      | _ \<Rightarrow> None)"

lemma term_writes_output: "writes_output term_kernel t_out"
  by (simp add: writes_output_def term_kernel_def)

definition demo_layout :: layout where
  "demo_layout = \<lparr>lay_lit = \<lambda>s. 0x2000, lay_null = 0, lay_printf = 0x1000\<rparr>"

definition demo_fmt_mem :: mem where
  "demo_fmt_mem = store_bytes (\<lambda>_. 0) 0x2000 [120, 61, 37, 48, 53, 100, 0]"

lemma demo_fmt_lit: "lit_ok demo_layout demo_fmt_mem [120, 61, 37, 48, 53, 100]"
proof -
  have reg: "a - 0x1000 \<ge> 1024" if "a \<in> region 0x2000 (Suc (length [120, 61, 37, 48, 53, 100 :: u8]))" for a :: u32
    using that by (auto simp: region_Suc)
  have sub: "region (0x1000 :: u32) 1024 \<subseteq> {a. a - 0x1000 < 1024}" by (auto simp: region_def word_less_nat_alt)
  have "region 0x2000 (Suc (length [120, 61, 37, 48, 53, 100 :: u8])) \<inter> region 0x1000 1024 = {}" using reg sub by fastforce
  then show ?thesis by (simp add: lit_ok_def demo_layout_def demo_fmt_mem_def)
qed

theorem printf_output_witness:
  "\<exists>st'. printf term_kernel demo_layout [120, 61, 37, 48, 53, 100] [- 42]
       \<lparr>u_mem = demo_fmt_mem, u_next_token = 0, u_world = \<lparr>t_in = [], t_out = [62]\<rparr>\<rparr>
     = Some (7, st') \<and> t_out (u_world st') = [62, 120, 61, 45, 48, 48, 52, 50]"
proof -
  let ?st = "\<lparr>u_mem = demo_fmt_mem, u_next_token = 0, u_world = \<lparr>t_in = [], t_out = [62]\<rparr>\<rparr>"
  have "lit_ok demo_layout (u_mem ?st) [120, 61, 37, 48, 53, 100]" using demo_fmt_lit by simp
  from printf_output [OF term_writes_output this fmt_demo_pieces(1) [symmetric] _ fmt_demo_pieces(2) [symmetric]]
  show ?thesis by (simp add: demo_layout_def bytes_of_def) blast
qed

text \<open>A terminal that records the strings it is given.\<close>

definition demo_tty :: "u8 list tty_ops" where
  "demo_tty = \<lparr>terminal_writestring = \<lambda>m p w. w @ buffer_string m p 1024, terminal_read = \<lambda>p n m w. None,
     terminal_settext_color = \<lambda>c w. w, terminal_setbg_color = \<lambda>c w. w, terminal_reset_color = \<lambda>w. w\<rparr>"

lemma ready_uart_empty: "thr_gets_empty ready_uart"
  by (simp add: thr_gets_empty_def ready_uart_def)


end
