(* ===== verification/User_Shell.thy ===== *)
theory User_Shell
  imports Libc_Stdio "HOL-Library.Monad_Syntax"
begin

text \<open>
  The user programs: the shell of \<^verbatim>\<open>user/shall.c\<close> with its commands and its main loop, and the three small
  programs beside it. They run on the flat memory with the routines of the C library and print through the
  system calls. A NULL string argument has no defined result. Local arrays lie where the layout says, and a write
  outside of one is a write to some other byte of the memory, as it is on the machine.
\<close>

section \<open>The shell\<close>

record shell_layout =
  sl_lay :: layout
  sl_cmd :: ptr
  sl_str :: ptr
  sl_esp :: ptr

definition sh_print :: "'w kernel \<Rightarrow> shell_layout \<Rightarrow> u8 list \<Rightarrow> u32 list \<Rightarrow> 'w user \<Rightarrow> 'w user option" where
  "sh_print sys sl fmt ap st = map_option snd (printf sys (sl_lay sl) fmt ap st)"

primrec sh_prints :: "'w kernel \<Rightarrow> shell_layout \<Rightarrow> u8 list list \<Rightarrow> 'w user \<Rightarrow> 'w user option" where
  "sh_prints sys sl [] st = Some st"
| "sh_prints sys sl (fmt # fmts) st = Option.bind (sh_print sys sl fmt [] st) (sh_prints sys sl fmts)"

text \<open>The tokens of the line, at most four: \<open>n\<close> places are left and \<open>token\<close> is the one just found.\<close>

primrec sh_args :: "shell_layout \<Rightarrow> nat \<Rightarrow> ptr \<Rightarrow> 'w user \<Rightarrow> (ptr list \<times> 'w user) option" where
  "sh_args sl 0 token st = Some ([], st)"
| "sh_args sl (Suc n) token st =
     (if token = NULL then Some ([], st)
      else do {
        (m, nt, tok) \<leftarrow> strtok (u_mem st) (u_next_token st) NULL (lay_lit (sl_lay sl) (bytes_of '' ''));
        (args, st1) \<leftarrow> sh_args sl n tok (st\<lparr>u_mem := m, u_next_token := nt\<rparr>);
        Some (token # args, st1)
      })"

definition sh_tokens :: "shell_layout \<Rightarrow> ptr \<Rightarrow> 'w user \<Rightarrow> (ptr list \<times> 'w user) option" where
  "sh_tokens sl cmd st =
     do {
       (m, nt, tok) \<leftarrow> strtok (u_mem st) (u_next_token st) cmd (lay_lit (sl_lay sl) (bytes_of '' ''));
       sh_args sl 4 tok (st\<lparr>u_mem := m, u_next_token := nt\<rparr>)
     }"

definition sh_is :: "shell_layout \<Rightarrow> ptr \<Rightarrow> string \<Rightarrow> 'w user \<Rightarrow> bool option" where
  "sh_is sl cmd name st = map_option (\<lambda>r. r = 0) (strcmp (u_mem st) cmd (lay_lit (sl_lay sl) (bytes_of name)))"

definition sh_help :: "u8 list list" where
  "sh_help =
     [[10], bytes_of ''Leenix v0.1 shell'' @ [10], bytes_of ''with a basic Command Line Interface (CLI)'' @ [10, 10],
      bytes_of ''Supported commands:'' @ [10],
      bytes_of '' - ticks: get total system ticks since init'' @ [10],
      bytes_of '' - clear: clears the display'' @ [10],
      bytes_of '' - kinfo: print kernel memory info'' @ [10],
      bytes_of '' - mdmp <address> <size>: dump memory contents at '' @ replicate 5 9 @ bytes_of ''address for size bytes'' @ [10],
      bytes_of '' - sd: dump current stack contents'' @ [10],
      bytes_of '' - heap: dump heap info'' @ [10],
      bytes_of '' - ptwalk <vstart> <vend>: walk the PTs from vstart to vend'' @ [10],
      bytes_of '' - open: open <filename>'' @ [10],
      bytes_of '' - elf: elf <filename>'' @ [10],
      bytes_of '' - break: trigger int3 breakpoint'' @ [10],
      bytes_of '' - help: displays this message'' @ [10],
      bytes_of '' - exit: quits and halts the system'' @ [10]]"

text \<open>Dumping memory: a row of the hexadecimal column, a row of the text column, and the loop over the rows, whose
  counter is an unsigned 32-bit integer.\<close>

primrec mdmp_hex :: "'w kernel \<Rightarrow> shell_layout \<Rightarrow> u32 \<Rightarrow> u32 \<Rightarrow> ptr \<Rightarrow> u32 list \<Rightarrow> 'w user \<Rightarrow> 'w user option" where
  "mdmp_hex sys sl i count addr [] st = Some st"
| "mdmp_hex sys sl i count addr (j # js) st =
     Option.bind (if i + j < count then sh_print sys sl (bytes_of ''%02x '') [ucast (u_mem st (addr + (i + j)))] st
                  else sh_print sys sl (bytes_of ''   '') [] st)
       (mdmp_hex sys sl i count addr js)"

primrec mdmp_text :: "'w kernel \<Rightarrow> shell_layout \<Rightarrow> u32 \<Rightarrow> u32 \<Rightarrow> ptr \<Rightarrow> u32 list \<Rightarrow> 'w user \<Rightarrow> 'w user option" where
  "mdmp_text sys sl i count addr [] st = Some st"
| "mdmp_text sys sl i count addr (j # js) st =
     (if i + j < count
      then let c = u_mem st (addr + (i + j)) in
        Option.bind (sh_print sys sl (bytes_of ''%c'') [if sint c \<ge> 32 \<and> sint c \<le> 126 then ucast c else 46] st)
          (mdmp_text sys sl i count addr js)
      else Some st)"

definition mdmp_row :: "'w kernel \<Rightarrow> shell_layout \<Rightarrow> u32 \<Rightarrow> u32 \<Rightarrow> ptr \<Rightarrow> 'w user \<Rightarrow> 'w user option" where
  "mdmp_row sys sl i count addr st =
     do {
       st1 \<leftarrow> sh_print sys sl (bytes_of ''0x%08x: '') [addr + i] st;
       st2 \<leftarrow> mdmp_hex sys sl i count addr (map of_nat [0..<16]) st1;
       st3 \<leftarrow> sh_print sys sl (bytes_of '' |'') [] st2;
       st4 \<leftarrow> mdmp_text sys sl i count addr (map of_nat [0..<16]) st3;
       sh_print sys sl (bytes_of ''|'' @ [10]) [] st4
     }"

partial_function (option) mdmp_rows :: "'w kernel \<Rightarrow> shell_layout \<Rightarrow> u32 \<Rightarrow> u32 \<Rightarrow> ptr \<Rightarrow> 'w user \<Rightarrow> 'w user option" where
  "mdmp_rows sys sl i count addr st =
     (if i < count then Option.bind (mdmp_row sys sl i count addr st) (mdmp_rows sys sl (i + 16) count addr) else Some st)"

definition sh_mdmp :: "'w kernel \<Rightarrow> shell_layout \<Rightarrow> ptr list \<Rightarrow> 'w user \<Rightarrow> 'w user option" where
  "sh_mdmp sys sl args st =
     (if length args < 3 then sh_print sys sl (bytes_of ''Usage: mdmp <size> <address>'' @ [10]) [] st
      else do {
        st1 \<leftarrow> sh_print sys sl [10] [] st;
        (count, e1) \<leftarrow> strtol (u_mem st1) (args ! 1) 0;
        (addr, e2) \<leftarrow> strtol (u_mem st1) (args ! 2) 0;
        mdmp_rows sys sl 0 count addr st1
      })"

definition u32_at :: "mem \<Rightarrow> ptr \<Rightarrow> u32" where
  "u32_at m p = ucast (m p) OR push_bit 8 (ucast (m (p + 1))) OR push_bit 16 (ucast (m (p + 2))) OR push_bit 24 (ucast (m (p + 3)))"

primrec sd_loop :: "'w kernel \<Rightarrow> shell_layout \<Rightarrow> int list \<Rightarrow> 'w user \<Rightarrow> 'w user option" where
  "sd_loop sys sl [] st = Some st"
| "sd_loop sys sl (i # is) st =
     (let addr = sl_esp sl + 4 * of_int i; val = u32_at (u_mem st) addr in
      Option.bind
        (if i = 0
         then Option.bind (sh_print sys sl (bytes_of ''-> 0x%08x: 0x%08x   <-- ESP'') [addr, val] st) (sh_print sys sl [10] [])
         else sh_print sys sl (bytes_of ''   0x%08x: 0x%08x'' @ [10]) [addr, val] st)
        (sd_loop sys sl is))"

definition sh_rule :: "u8 list" where
  "sh_rule = replicate 41 45 @ [10]"

definition sh_sd :: "'w kernel \<Rightarrow> shell_layout \<Rightarrow> 'w user \<Rightarrow> 'w user option" where
  "sh_sd sys sl st =
     do {
       st1 \<leftarrow> sh_print sys sl [10] [] st;
       st2 \<leftarrow> sh_print sys sl (bytes_of ''Stack dump (ESP = 0x%08x):'') [sl_esp sl] st1;
       st3 \<leftarrow> sh_prints sys sl [[10], sh_rule, bytes_of ''    Address       Value       %esp'' @ [10], sh_rule] st2;
       st4 \<leftarrow> sd_loop sys sl [- 5 .. 4] st3;
       sh_print sys sl (sh_rule @ [10]) [] st4
     }"

text \<open>Joining the words of a command in the local array \<^verbatim>\<open>str\<close>: each word and a space, and the last space cut off
  by writing a terminator before the end.\<close>

primrec sh_join :: "shell_layout \<Rightarrow> ptr list \<Rightarrow> mem \<Rightarrow> mem option" where
  "sh_join sl [] m = Some m"
| "sh_join sl (a # as) m =
     do {
       m1 \<leftarrow> strcat m (sl_str sl) a;
       m2 \<leftarrow> strcat m1 (sl_str sl) (lay_lit (sl_lay sl) (bytes_of '' ''));
       sh_join sl as m2
     }"

definition sh_words :: "shell_layout \<Rightarrow> ptr list \<Rightarrow> mem \<Rightarrow> mem option" where
  "sh_words sl as m =
     do {
       m1 \<leftarrow> sh_join sl as (memset m (sl_str sl) 0 1024);
       n \<leftarrow> strlen m1 (sl_str sl);
       Some (m1(sl_str sl + (n - 1) := 0))
     }"

definition sh_echo :: "'w kernel \<Rightarrow> shell_layout \<Rightarrow> ptr list \<Rightarrow> 'w user \<Rightarrow> 'w user option" where
  "sh_echo sys sl args st =
     do { m \<leftarrow> sh_words sl (drop 1 args) (u_mem st); sh_print sys sl (bytes_of ''%s'' @ [10]) [sl_str sl] (st\<lparr>u_mem := m\<rparr>) }"

primrec repeat_loop :: "'w kernel \<Rightarrow> shell_layout \<Rightarrow> nat \<Rightarrow> 'w user \<Rightarrow> 'w user option" where
  "repeat_loop sys sl 0 st = Some st"
| "repeat_loop sys sl (Suc n) st = Option.bind (sh_print sys sl (bytes_of ''%s '') [sl_str sl] st) (repeat_loop sys sl n)"

definition sh_repeat :: "'w kernel \<Rightarrow> shell_layout \<Rightarrow> ptr list \<Rightarrow> 'w user \<Rightarrow> 'w user option" where
  "sh_repeat sys sl args st =
     (if length args > 1
      then do {
        (n, e) \<leftarrow> strtol (u_mem st) (args ! 1) 10;
        m \<leftarrow> sh_words sl (drop 2 args) (u_mem st);
        st1 \<leftarrow> repeat_loop sys sl (nat (sint n)) (st\<lparr>u_mem := m\<rparr>);
        sh_print sys sl (bytes_of ''%s'' @ [10]) [lay_lit (sl_lay sl) []] st1
      }
      else Some st)"

text \<open>What is done for each command, in the order the code compares the names; \<^verbatim>\<open>int3\<close> goes to the kernel's
  breakpoint handler and comes back.\<close>

definition sh_commands :: "'w kernel \<Rightarrow> shell_layout \<Rightarrow> ptr list \<Rightarrow> (string \<times> ('w user \<Rightarrow> (bool \<times> 'w user) option)) list" where
  "sh_commands sys sl args =
     [(''exit'', \<lambda>st. Some (True, st)),
      (''help'', \<lambda>st. map_option (Pair False) (sh_prints sys sl sh_help st)),
      (''mdmp'', \<lambda>st. map_option (Pair False) (sh_mdmp sys sl args st)),
      ('''', \<lambda>st. Some (False, st)),
      (''break'', \<lambda>st. Some (False, st)),
      (''kinfo'', \<lambda>st. Some (False, st)),
      (''sd'', \<lambda>st. map_option (Pair False) (sh_sd sys sl st)),
      (''echo'', \<lambda>st. map_option (Pair False) (sh_echo sys sl args st)),
      (''repeat'', \<lambda>st. map_option (Pair False) (sh_repeat sys sl args st)),
      (''color'', \<lambda>st. Some (False, st)),
      (''bgcolor'', \<lambda>st. Some (False, st))]"

primrec sh_dispatch :: "'w kernel \<Rightarrow> shell_layout \<Rightarrow> ptr \<Rightarrow> (string \<times> ('w user \<Rightarrow> (bool \<times> 'w user) option)) list \<Rightarrow> 'w user
    \<Rightarrow> (bool \<times> 'w user) option" where
  "sh_dispatch sys sl cmd [] st =
     map_option (Pair False) (sh_print sys sl (bytes_of ''sh: error: Unkown command'' @ [10]) [] st)"
| "sh_dispatch sys sl cmd (c # cs) st =
     Option.bind (sh_is sl cmd (fst c) st) (\<lambda>b. if b then snd c st else sh_dispatch sys sl cmd cs st)"

definition run_cmd :: "'w kernel \<Rightarrow> shell_layout \<Rightarrow> ptr \<Rightarrow> 'w user \<Rightarrow> (bool \<times> 'w user) option" where
  "run_cmd sys sl cmd st =
     do {
       (args, st1) \<leftarrow> sh_tokens sl cmd st;
       (case args of [] \<Rightarrow> None | c # _ \<Rightarrow> sh_dispatch sys sl c (sh_commands sys sl args) st1)
     }"

partial_function (option) sh_loop :: "'w kernel \<Rightarrow> shell_layout \<Rightarrow> 'w user \<Rightarrow> (int \<times> 'w user) option" where
  "sh_loop sys sl st =
     do {
       st1 \<leftarrow> sh_print sys sl (bytes_of '' $ '') [] st;
       (r, st2) \<leftarrow> getline sys (sl_cmd sl) 128 st1;
       (quit, st3) \<leftarrow> run_cmd sys sl (sl_cmd sl) st2;
       if quit then map_option (Pair 0) (sh_print sys sl (bytes_of ''exiting shell...'' @ [10]) [] st3)
       else sh_loop sys sl st3
     }"

definition shall_main :: "'w kernel \<Rightarrow> shell_layout \<Rightarrow> 'w user \<Rightarrow> (int \<times> 'w user) option" where
  "shall_main sys sl st = Option.bind (sh_print sys sl [10] [] st) (sh_loop sys sl)"

section \<open>The small programs\<close>

primrec echo_args :: "'w kernel \<Rightarrow> shell_layout \<Rightarrow> ptr list \<Rightarrow> 'w user \<Rightarrow> 'w user option" where
  "echo_args sys sl [] st = Some st"
| "echo_args sys sl (a # as) st = Option.bind (sh_print sys sl (bytes_of ''%s '') [a] st) (echo_args sys sl as)"

definition echo_main :: "'w kernel \<Rightarrow> shell_layout \<Rightarrow> ptr list \<Rightarrow> 'w user \<Rightarrow> (int \<times> 'w user) option" where
  "echo_main sys sl argv st =
     Option.bind (echo_args sys sl argv st) (\<lambda>st1. map_option (Pair 0) (sh_print sys sl [10] [] st1))"

definition greet_main :: "'w kernel \<Rightarrow> shell_layout \<Rightarrow> 'w user \<Rightarrow> (int \<times> 'w user) option" where
  "greet_main sys sl st =
     do {
       st1 \<leftarrow> sh_print sys sl (bytes_of ''Enter your name: '') [] st;
       (r, st2) \<leftarrow> getline sys (sl_str sl) 50 st1;
       map_option (Pair 0) (sh_print sys sl (bytes_of ''Hello, %s!'' @ [10]) [sl_str sl] st2)
     }"

text \<open>The child and the parent print a line and then loop forever: no result.\<close>

definition hello_main :: "'w kernel \<Rightarrow> shell_layout \<Rightarrow> 'w user \<Rightarrow> (int \<times> 'w user) option" where
  "hello_main sys sl st =
     do {
       st1 \<leftarrow> sh_print sys sl (bytes_of ''Hello, World!'' @ [10]) [] st;
       (pid, st2) \<leftarrow> sys_fork sys st1;
       if pid = 0 then do { st3 \<leftarrow> sh_print sys sl (bytes_of ''Hello from the child process! PID=%d'' @ [10]) [pid] st2; None }
       else if sint pid > 0 then do { st3 \<leftarrow> sh_print sys sl (bytes_of ''Hello from the parent process! PID=%d'' @ [10]) [pid] st2; None }
       else map_option (Pair 0) (sh_print sys sl (bytes_of ''Fork failed!'' @ [10]) [] st2)
     }"

end
