(* ===== verification/User_Shell_Cmds.thy ===== *)
theory User_Shell_Cmds
  imports User_Shell
begin

text \<open>
  What the shell does with a line: the words \<^verbatim>\<open>strtok\<close> cuts it into, the choice of the command by the first word,
  \<^verbatim>\<open>echo\<close>, and the memory dump with its termination.
\<close>

section \<open>The words of a line\<close>

text \<open>What \<^verbatim>\<open>strtok\<close> makes of a line: it is cut at every single space, so that neighbouring spaces give empty
  words, and nothing follows a space at the end.\<close>

function sh_split :: "u8 list \<Rightarrow> u8 list list" where
  "sh_split s = (if s = [] then [] else takeWhile (\<lambda>c. c \<noteq> 32) s # sh_split (tl (dropWhile (\<lambda>c. c \<noteq> 32) s)))"
  by pat_completeness auto
termination
proof (relation "measure length")
  fix s :: "u8 list" assume "s \<noteq> []"
  then have "0 < length s" by simp
  then have "length (tl (dropWhile (\<lambda>c. c \<noteq> 32) s)) < length s"
    using length_dropWhile_le [of "\<lambda>c. c \<noteq> 32" s] unfolding length_tl by linarith
  then show "(tl (dropWhile (\<lambda>c. c \<noteq> 32) s), s) \<in> measure length" by simp
qed simp

declare sh_split.simps [simp del]

lemma sh_split_Nil [simp]: "sh_split [] = []"
  by (subst sh_split.simps) simp

lemma ucast_scast_u8: "ucast (scast (c :: u8) :: u32) = c"
  by (rule bit_word_eqI) (auto simp: bit_simps)

lemma strtok_scan_space:
  assumes "cstr_at m d [32]" and "d \<noteq> NULL"
  shows "cstr_at m p s \<Longrightarrow> strtok_scan m d p = Some (p + of_nat (length (takeWhile (\<lambda>c. c \<noteq> 32) s)))"
proof (induction s arbitrary: p)
  case Nil
  then show ?case by (subst strtok_scan.simps) simp
next
  case (Cons c s)
  have "strchr m d (scast c) = Some (if c = 32 then d else NULL)"
    using strchr_loop_cstr [OF assms(1), of c] Cons.prems by (auto simp: strchr_def ucast_scast_u8)
  then show ?case using Cons assms(2) by (subst strtok_scan.simps) (auto simp: add.assoc)
qed

text \<open>What is left to cut: nothing, or a string at \<^verbatim>\<open>next_token\<close>.\<close>

definition pending :: "mem \<Rightarrow> ptr \<Rightarrow> u8 list \<Rightarrow> bool" where
  "pending m nt s \<longleftrightarrow> (nt = NULL \<and> s = []) \<or> (nt \<noteq> NULL \<and> cstr_at m nt s \<and> NULL \<notin> region nt (Suc (length s)))"

definition pending_region :: "ptr \<Rightarrow> u8 list \<Rightarrow> u32 set" where
  "pending_region nt s = (if nt = NULL then {} else region nt (Suc (length s)))"

lemma strtok_done: "pending m nt [] \<Longrightarrow> strtok m nt NULL d = Some (m, nt, NULL)"
  by (auto simp: pending_def strtok_def Let_def)

lemma strtok_word:
  assumes d: "cstr_at m d [32]" "d \<noteq> NULL" and s: "cstr_at m p s" "NULL \<notin> region p (Suc (length s))" "s \<noteq> []"
    and p: "(str = p \<or> str = NULL \<and> nt0 = p)"
  shows "\<exists>m' nt. strtok m nt0 str d = Some (m', nt, p) \<and> cstr_at m' p (takeWhile (\<lambda>c. c \<noteq> 32) s)
     \<and> pending m' nt (tl (dropWhile (\<lambda>c. c \<noteq> 32) s))
     \<and> pending_region nt (tl (dropWhile (\<lambda>c. c \<noteq> 32) s)) \<subseteq> region p (Suc (length s))
     \<and> pending_region nt (tl (dropWhile (\<lambda>c. c \<noteq> 32) s)) \<inter> region p (Suc (length (takeWhile (\<lambda>c. c \<noteq> 32) s))) = {}
     \<and> (\<forall>a. a \<notin> region p (Suc (length s)) \<longrightarrow> m' a = m a)"
proof -
  let ?tok = "takeWhile (\<lambda>c. c \<noteq> 32) s" and ?rest = "dropWhile (\<lambda>c. c \<noteq> 32) s"
  let ?e = "p + of_nat (length ?tok)"
  have pn: "p \<noteq> NULL" using s(2) by (auto simp: region_Suc)
  have sp: "s = ?tok @ ?rest" by simp
  have first: "m p \<noteq> 0" using s(1,3) by (cases s) auto
  have scan: "strtok_scan m d p = Some ?e" by (rule strtok_scan_space [OF d s(1)])
  have call: "strtok m nt0 str d = (if m ?e \<noteq> 0 then Some (m(?e := 0), ?e + 1, p) else Some (m, NULL, p))"
    using p pn first scan by (auto simp: strtok_def Let_def)
  show ?thesis
  proof (cases ?rest)
    case Nil
    then have tok: "?tok = s" using sp by (metis append_Nil2)
    have "m ?e = 0" unfolding tok by (rule cstr_at_end [OF s(1)])
    then have "strtok m nt0 str d = Some (m, NULL, p)" using call by simp
    then show ?thesis unfolding tok Nil using s(1) by (simp add: pending_def pending_region_def)
  next
    case (Cons c r)
    have cs: "cstr_at m p (?tok @ c # r)" using s(1) sp Cons by metis
    have len: "length s = length ?tok + Suc (length r)" using sp Cons by (metis length_append length_Cons)
    have e: "?e \<in> region p (Suc (length s))" using len by (intro in_region) simp
    have "m ?e \<noteq> 0" using cs by (auto simp: cstr_at_append)
    moreover have e1: "?e + 1 = p + of_nat (Suc (length ?tok))" by (simp add: add_ac)
    have total: "Suc (length s) = Suc (length ?tok) + Suc (length r)" using len by simp
    have sub: "region (?e + 1) (Suc (length r)) \<subseteq> region p (Suc (length s))" unfolding e1 total by (rule region_tail_subset)
    have dis: "region p (Suc (length ?tok)) \<inter> region (?e + 1) (Suc (length r)) = {}"
      unfolding e1 by (rule region_split_disjoint) (use cstr_at_length [OF s(1)] len in linarith)
    have "?e + 1 \<in> region (?e + 1) (Suc (length r))" by (simp add: region_Suc)
    then have "?e + 1 \<noteq> NULL" using sub s(2) by auto
    ultimately show ?thesis
      using call cstr_at_cut [OF cs] sub s(2) Cons dis e
      by (intro exI [of _ "m(?e := 0)"] exI [of _ "?e + 1"]) (auto simp: pending_def pending_region_def)
  qed
qed

definition arg_at :: "mem \<Rightarrow> u32 set \<Rightarrow> ptr \<Rightarrow> u8 list \<Rightarrow> bool" where
  "arg_at m R p w \<longleftrightarrow> p \<noteq> NULL \<and> cstr_at m p w \<and> region p (Suc (length w)) \<subseteq> R"

lemma arg_at_frame:
  assumes "arg_at m R p w" and "\<forall>a. a \<notin> R' \<longrightarrow> m' a = m a" and "R' \<inter> region p (Suc (length w)) = {}"
  shows "arg_at m' R p w"
proof -
  have "cstr_at m' p w = cstr_at m p w" by (rule cstr_at_cong) (use assms(2,3) in blast)
  then show ?thesis using assms(1) by (simp add: arg_at_def)
qed

lemma sh_args_split:
  assumes "d = lay_lit (sl_lay sl) (bytes_of '' '')" and "d \<noteq> NULL" and "cstr_at (u_mem st) d [32]" and "region d 2 \<inter> R = {}"
    and "arg_at (u_mem st) R tok w" and "pending (u_mem st) (u_next_token st) rest" and "pending_region (u_next_token st) rest \<subseteq> R"
    and "pending_region (u_next_token st) rest \<inter> region tok (Suc (length w)) = {}"
  shows "\<exists>ps st'. sh_args sl (Suc n) tok st = Some (ps, st') \<and> list_all2 (arg_at (u_mem st') R) ps (w # take n (sh_split rest))
     \<and> (\<forall>a. a \<notin> pending_region (u_next_token st) rest \<longrightarrow> u_mem st' a = u_mem st a) \<and> u_world st' = u_world st"
  using assms
proof (induction n arbitrary: tok w rest st)
  case (0 tok w rest st)
  have tn: "tok \<noteq> NULL" using 0(5) by (simp add: arg_at_def)
  show ?case
  proof (cases "rest = []")
    case True
    then show ?thesis using 0 tn strtok_done [of "u_mem st" "u_next_token st" d] by simp
  next
    case False
    then have nt: "u_next_token st \<noteq> NULL" "cstr_at (u_mem st) (u_next_token st) rest" "NULL \<notin> region (u_next_token st) (Suc (length rest))"
      using 0(6) by (auto simp: pending_def)
    obtain m' nt' where m': "strtok (u_mem st) (u_next_token st) NULL d = Some (m', nt', u_next_token st)"
      "\<forall>a. a \<notin> pending_region (u_next_token st) rest \<longrightarrow> m' a = u_mem st a"
      using strtok_word [OF 0(3,2) nt(2,3) False, of NULL "u_next_token st"] nt(1) by (auto simp: pending_region_def)
    have "arg_at m' R tok w" by (rule arg_at_frame [OF 0(5) m'(2)]) (use 0(8) in blast)
    then show ?thesis using m' 0(1) tn by simp
  qed
next
  case (Suc n tok w rest st)
  have tn: "tok \<noteq> NULL" using Suc.prems(5) by (simp add: arg_at_def)
  show ?case
  proof (cases "rest = []")
    case True
    then show ?thesis using Suc.prems tn strtok_done [of "u_mem st" "u_next_token st" d] by simp
  next
    case False
    let ?P = "pending_region (u_next_token st) rest"
    let ?w = "takeWhile (\<lambda>c. c \<noteq> 32) rest" and ?r = "tl (dropWhile (\<lambda>c. c \<noteq> 32) rest)"
    have nt: "u_next_token st \<noteq> NULL" "cstr_at (u_mem st) (u_next_token st) rest" "NULL \<notin> region (u_next_token st) (Suc (length rest))"
      using Suc.prems(6) False by (auto simp: pending_def)
    then have P: "?P = region (u_next_token st) (Suc (length rest))" by (simp add: pending_region_def)
    obtain m' nt' where m': "strtok (u_mem st) (u_next_token st) NULL d = Some (m', nt', u_next_token st)"
      "cstr_at m' (u_next_token st) ?w" "pending m' nt' ?r" "pending_region nt' ?r \<subseteq> ?P"
      "pending_region nt' ?r \<inter> region (u_next_token st) (Suc (length ?w)) = {}" "\<forall>a. a \<notin> ?P \<longrightarrow> m' a = u_mem st a"
      using strtok_word [OF Suc.prems(3,2) nt(2,3) False, of NULL "u_next_token st"] unfolding P by blast
    let ?st = "st\<lparr>u_mem := m', u_next_token := nt'\<rparr>"
    have le: "length ?w \<le> length rest" by (rule length_takeWhile_le)
    then have "region (u_next_token st) (Suc (length ?w)) \<subseteq> ?P" unfolding P by (intro region_mono) simp
    then have a2: "arg_at m' R (u_next_token st) ?w" using m'(2) nt(1) Suc.prems(7) by (auto simp: arg_at_def)
    have "cstr_at m' d [32] = cstr_at (u_mem st) d [32]"
      by (rule cstr_at_cong) (use m'(6) Suc.prems(4,7) in \<open>auto simp: numeral_2_eq_2\<close>)
    then have dd: "cstr_at (u_mem ?st) d [32]" using Suc.prems(3) by simp
    have sub: "pending_region nt' ?r \<subseteq> R" using m'(4) Suc.prems(7) by (rule subset_trans)
    obtain ps st' where st': "sh_args sl (Suc n) (u_next_token st) ?st = Some (ps, st')" "list_all2 (arg_at (u_mem st') R) ps (?w # take n (sh_split ?r))"
      "\<forall>a. a \<notin> pending_region nt' ?r \<longrightarrow> u_mem st' a = m' a" "u_world st' = u_world st"
      using Suc.IH [OF Suc.prems(1,2) dd Suc.prems(4), of "u_next_token st" ?w ?r] a2 m'(3,5) sub by (auto simp del: sh_args.simps)
    have fr: "\<forall>a. a \<notin> ?P \<longrightarrow> u_mem st' a = u_mem st a" using st'(3) m'(4,6) by (metis (no_types) in_mono)
    have "arg_at (u_mem st') R tok w" by (rule arg_at_frame [OF Suc.prems(5) fr]) (use Suc.prems(8) in blast)
    moreover have "take (Suc n) (sh_split rest) = ?w # take n (sh_split ?r)" using False by (subst sh_split.simps) simp
    ultimately have all: "list_all2 (arg_at (u_mem st') R) (tok # ps) (w # take (Suc n) (sh_split rest))" using st'(2) by simp
    have "sh_args sl (Suc (Suc n)) tok st = Some (tok # ps, st')"
      using m'(1) st'(1) tn by (subst sh_args.simps(2)) (simp add: Suc.prems(1) [symmetric])
    then show ?thesis using all fr st'(4) by blast
  qed
qed

text \<open>The shell's argument vector is the first four words of the line, each a string inside the line.\<close>

lemma sh_tokens_split:
  assumes d: "d = lay_lit (sl_lay sl) (bytes_of '' '')" "d \<noteq> NULL" "cstr_at (u_mem st) d [32]" "region d 2 \<inter> region cmd (Suc (length line)) = {}"
    and line: "cstr_at (u_mem st) cmd line" "NULL \<notin> region cmd (Suc (length line))"
  shows "\<exists>ps st'. sh_tokens sl cmd st = Some (ps, st')
     \<and> list_all2 (arg_at (u_mem st') (region cmd (Suc (length line)))) ps (take 4 (sh_split line))
     \<and> (\<forall>a. a \<notin> region cmd (Suc (length line)) \<longrightarrow> u_mem st' a = u_mem st a) \<and> u_world st' = u_world st"
proof (cases "line = []")
  case True
  have "cmd \<noteq> NULL" using line(2) by (auto simp: region_Suc)
  then have "strtok (u_mem st) (u_next_token st) cmd d = Some (u_mem st, cmd, NULL)" using line(1) True by (simp add: strtok_def)
  then show ?thesis using True d(1) by (simp add: sh_tokens_def numeral_eq_Suc)
next
  case False
  let ?R = "region cmd (Suc (length line))"
  let ?w = "takeWhile (\<lambda>c. c \<noteq> 32) line" and ?r = "tl (dropWhile (\<lambda>c. c \<noteq> 32) line)"
  obtain m' nt' where m': "strtok (u_mem st) (u_next_token st) cmd d = Some (m', nt', cmd)" "cstr_at m' cmd ?w" "pending m' nt' ?r"
    "pending_region nt' ?r \<subseteq> ?R" "pending_region nt' ?r \<inter> region cmd (Suc (length ?w)) = {}" "\<forall>a. a \<notin> ?R \<longrightarrow> m' a = u_mem st a"
    using strtok_word [OF d(3,2) line False, of cmd "u_next_token st"] by blast
  let ?st = "st\<lparr>u_mem := m', u_next_token := nt'\<rparr>"
  have "region cmd (Suc (length ?w)) \<subseteq> ?R" using length_takeWhile_le [of "\<lambda>c. c \<noteq> 32" line] by (intro region_mono) simp
  moreover have "cmd \<noteq> NULL" using line(2) by (auto simp: region_Suc)
  ultimately have a: "arg_at (u_mem ?st) ?R cmd ?w" using m'(2) by (simp add: arg_at_def)
  have "cstr_at m' d [32] = cstr_at (u_mem st) d [32]"
    by (rule cstr_at_cong) (use m'(6) d(4) in \<open>auto simp: numeral_2_eq_2\<close>)
  then have dd: "cstr_at (u_mem ?st) d [32]" using d(3) by simp
  obtain ps st' where st': "sh_args sl (Suc 3) cmd ?st = Some (ps, st')" "list_all2 (arg_at (u_mem st') ?R) ps (?w # take 3 (sh_split ?r))"
    "\<forall>a. a \<notin> pending_region nt' ?r \<longrightarrow> u_mem st' a = m' a" "u_world st' = u_world st"
    using sh_args_split [OF d(1,2) dd d(4) a, of ?r 3] m'(3-5) by (auto simp del: sh_args.simps)
  have "take 4 (sh_split line) = ?w # take 3 (sh_split ?r)" using False by (subst sh_split.simps) (simp add: numeral_eq_Suc)
  moreover have "sh_tokens sl cmd st = Some (ps, st')" using m'(1) st'(1) by (simp add: sh_tokens_def d(1) [symmetric] del: sh_args.simps)
  moreover have "\<forall>a. a \<notin> ?R \<longrightarrow> u_mem st' a = u_mem st a"
  proof (intro allI impI)
    fix a assume "a \<notin> ?R"
    then show "u_mem st' a = u_mem st a" using st'(3) [THEN spec, of a] m'(6) [THEN spec, of a] m'(4) by auto
  qed
  ultimately show ?thesis using st'(2,4) by auto
qed

section \<open>Choosing the command\<close>

definition sh_lits :: "u8 list list" where
  "sh_lits = map bytes_of ['' '', ''exit'', ''help'', ''mdmp'', '''', ''break'', ''kinfo'', ''sd'', ''echo'', ''repeat'', ''color'', ''bgcolor'']
     @ [bytes_of ''%s'' @ [10], bytes_of ''sh: error: Unkown command'' @ [10]]"

text \<open>The shell is ready to run the line at \<open>cmd\<close>: its literals are in memory and none of its arrays overlaps
  another object.\<close>

definition sh_ready :: "shell_layout \<Rightarrow> mem \<Rightarrow> ptr \<Rightarrow> u8 list \<Rightarrow> bool" where
  "sh_ready sl m cmd line \<longleftrightarrow> cstr_at m cmd line \<and> NULL \<notin> region cmd (Suc (length line)) \<and> lay_printf (sl_lay sl) \<noteq> NULL
     \<and> NULL \<notin> region (sl_str sl) 1024
     \<and> region cmd (Suc (length line)) \<inter> region (lay_printf (sl_lay sl)) 1024 = {}
     \<and> region cmd (Suc (length line)) \<inter> region (sl_str sl) 1024 = {}
     \<and> region (sl_str sl) 1024 \<inter> region (lay_printf (sl_lay sl)) 1024 = {}
     \<and> (\<forall>s\<in>set sh_lits. lay_lit (sl_lay sl) s \<noteq> NULL \<and> lit_ok (sl_lay sl) m s
          \<and> region (lay_lit (sl_lay sl) s) (Suc (length s)) \<inter> region cmd (Suc (length line)) = {}
          \<and> region (lay_lit (sl_lay sl) s) (Suc (length s)) \<inter> region (sl_str sl) 1024 = {})"

lemma lit_ok_frame:
  assumes "lit_ok ly m s" and "\<forall>a. a \<notin> R \<longrightarrow> m' a = m a" and "region (lay_lit ly s) (Suc (length s)) \<inter> R = {}"
  shows "lit_ok ly m' s"
proof -
  have "cstr_at m' (lay_lit ly s) s = cstr_at m (lay_lit ly s) s" by (rule cstr_at_cong) (use assms(2,3) in blast)
  then show ?thesis using assms(1) by (simp add: lit_ok_def)
qed

lemma sh_is_word:
  assumes "cstr_at (u_mem st) c w" and "cstr_at (u_mem st) (lay_lit (sl_lay sl) (bytes_of name)) (bytes_of name)"
  shows "sh_is sl c name st = Some (w = bytes_of name)"
  using strcmp_cstr [OF assms] cmp_bytes_zero [OF cstr_at_nonzero [OF assms(1)] cstr_at_nonzero [OF assms(2)]] by (simp add: sh_is_def)

lemma sh_dispatch_find:
  assumes "cstr_at (u_mem st) c w" and "\<forall>x\<in>set cmds. cstr_at (u_mem st) (lay_lit (sl_lay sl) (bytes_of (fst x))) (bytes_of (fst x))"
  shows "sh_dispatch sys sl c cmds st =
     (case find (\<lambda>x. w = bytes_of (fst x)) cmds of Some x \<Rightarrow> snd x st
      | None \<Rightarrow> map_option (Pair False) (sh_print sys sl (bytes_of ''sh: error: Unkown command'' @ [10]) [] st))"
  using assms(2)
proof (induction cmds)
  case (Cons x cmds)
  then show ?case using sh_is_word [OF assms(1), of sl "fst x"] by simp
qed simp

lemma sh_command_names: "x \<in> set (sh_commands sys sl args) \<Longrightarrow> bytes_of (fst x) \<in> set sh_lits"
  unfolding sh_commands_def sh_lits_def by auto

lemma sh_ready_tokens:
  assumes "sh_ready sl (u_mem st) cmd line"
  obtains ps st1 where "sh_tokens sl cmd st = Some (ps, st1)"
    "list_all2 (arg_at (u_mem st1) (region cmd (Suc (length line)))) ps (take 4 (sh_split line))" "u_world st1 = u_world st"
    "\<forall>s\<in>set sh_lits. lit_ok (sl_lay sl) (u_mem st1) s" "\<forall>a. a \<notin> region cmd (Suc (length line)) \<longrightarrow> u_mem st1 a = u_mem st a"
proof -
  have sp: "bytes_of '' '' = [32]" "bytes_of '' '' \<in> set sh_lits" by (simp_all add: bytes_of_def sh_lits_def)
  let ?d = "lay_lit (sl_lay sl) (bytes_of '' '')"
  have d: "?d \<noteq> NULL" "cstr_at (u_mem st) ?d [32]" "region ?d 2 \<inter> region cmd (Suc (length line)) = {}"
  proof -
    have "?d \<noteq> NULL \<and> lit_ok (sl_lay sl) (u_mem st) (bytes_of '' '') \<and> region ?d (Suc (length (bytes_of '' ''))) \<inter> region cmd (Suc (length line)) = {}"
      using assms sp(2) unfolding sh_ready_def by blast
    then show "?d \<noteq> NULL" "cstr_at (u_mem st) ?d [32]" "region ?d 2 \<inter> region cmd (Suc (length line)) = {}"
      by (simp_all add: lit_ok_def sp(1) numeral_2_eq_2)
  qed
  obtain ps st1 where t: "sh_tokens sl cmd st = Some (ps, st1)"
    "list_all2 (arg_at (u_mem st1) (region cmd (Suc (length line)))) ps (take 4 (sh_split line))"
    "\<forall>a. a \<notin> region cmd (Suc (length line)) \<longrightarrow> u_mem st1 a = u_mem st a" "u_world st1 = u_world st"
    using sh_tokens_split [OF refl d] assms unfolding sh_ready_def by blast
  have "\<forall>s\<in>set sh_lits. lit_ok (sl_lay sl) (u_mem st1) s"
    using assms lit_ok_frame [OF _ t(3)] unfolding sh_ready_def by blast
  then show ?thesis using that t by blast
qed

lemma run_cmd_find:
  assumes ready: "sh_ready sl (u_mem st) cmd line" and tok: "sh_tokens sl cmd st = Some (ps, st1)"
    and args: "list_all2 (arg_at (u_mem st1) (region cmd (Suc (length line)))) ps (take 4 (sh_split line))"
    and lits: "\<forall>s\<in>set sh_lits. lit_ok (sl_lay sl) (u_mem st1) s"
  shows "run_cmd sys sl cmd st =
     (case sh_split line of [] \<Rightarrow> None
      | w # _ \<Rightarrow> (case find (\<lambda>x. w = bytes_of (fst x)) (sh_commands sys sl ps) of Some x \<Rightarrow> snd x st1
                 | None \<Rightarrow> map_option (Pair False) (sh_print sys sl (bytes_of ''sh: error: Unkown command'' @ [10]) [] st1)))"
proof (cases "sh_split line")
  case Nil
  then show ?thesis using tok args by (simp add: run_cmd_def)
next
  case (Cons w ws)
  then obtain p ps' where ps: "ps = p # ps'" "arg_at (u_mem st1) (region cmd (Suc (length line))) p w"
    using args by (auto simp: numeral_eq_Suc list_all2_Cons2)
  then have "cstr_at (u_mem st1) p w" by (simp add: arg_at_def)
  moreover have "\<forall>x\<in>set (sh_commands sys sl ps). cstr_at (u_mem st1) (lay_lit (sl_lay sl) (bytes_of (fst x))) (bytes_of (fst x))"
    using sh_command_names lits unfolding lit_ok_def by blast
  ultimately show ?thesis using sh_dispatch_find tok ps(1) Cons by (simp add: run_cmd_def)
qed

lemma sh_print_pieces:
  assumes "writes_output sys out" and "lit_ok (sl_lay sl) (u_mem st) fmt" and "fmt = concat (map piece_text ps)"
    and "\<forall>p\<in>set ps. piece_ok (u_mem st) (lay_printf (sl_lay sl)) 1024 p" and "ap = concat (map piece_args ps)"
    and "tx = concat (map piece_out ps)" and "length tx < 1024" and "lay_printf (sl_lay sl) \<noteq> NULL"
  shows "\<exists>st'. sh_print sys sl fmt ap st = Some st' \<and> same_outside (lay_printf (sl_lay sl)) 1024 (u_mem st) (u_mem st')
     \<and> out (u_world st') = out (u_world st) @ tx"
  using printf_pieces [OF assms(1-6) _ assms(8)] assms(7) by (auto simp: sh_print_def printf_bytes_def)

section \<open>Echo\<close>

primrec unwords :: "u8 list list \<Rightarrow> u8 list" where
  "unwords [] = []"
| "unwords (w # ws) = (if ws = [] then w else w @ 32 # unwords ws)"

lemma concat_spaces: "ws \<noteq> [] \<Longrightarrow> concat (map (\<lambda>w. w @ [32]) ws) = unwords ws @ [32]"
  by (induction ws) auto

lemma sh_split_length: "length (concat (map (\<lambda>w. w @ [32]) (sh_split s))) \<le> Suc (length s)"
proof (induction s rule: sh_split.induct)
  case (1 s)
  show ?case
  proof (cases "s = []")
    case True
    then show ?thesis by simp
  next
    case False
    let ?t = "takeWhile (\<lambda>c. c \<noteq> 32) s" and ?d = "dropWhile (\<lambda>c. c \<noteq> 32) s"
    have split: "sh_split s = ?t # sh_split (tl ?d)" using False by (subst sh_split.simps) simp
    have len: "length ?t + length ?d = length s" by (rule takeWhile_dropWhile_length)
    have "length (concat (map (\<lambda>w. w @ [32]) (sh_split (tl ?d)))) \<le> length ?d"
    proof (cases "?d = []")
      case True
      show ?thesis unfolding True by simp
    next
      case dn: False
      then show ?thesis using 1 [OF False] by simp
    qed
    then show ?thesis unfolding split using len by simp
  qed
qed

lemma sh_join_words:
  assumes "cstr_at m (lay_lit (sl_lay sl) (bytes_of '' '')) [32]"
    and "region (lay_lit (sl_lay sl) (bytes_of '' '')) 2 \<inter> region (sl_str sl) 1024 = {}"
    and "R \<inter> region (sl_str sl) 1024 = {}" and "list_all2 (arg_at m R) ps ws" and "cstr_at m (sl_str sl) acc"
    and "length acc + length (concat (map (\<lambda>w. w @ [32]) ws)) < 1024"
  shows "\<exists>m'. sh_join sl ps m = Some m' \<and> cstr_at m' (sl_str sl) (acc @ concat (map (\<lambda>w. w @ [32]) ws))
     \<and> (\<forall>a. a \<notin> region (sl_str sl) 1024 \<longrightarrow> m' a = m a)"
  using assms
proof (induction ps arbitrary: ws acc m)
  case (Cons p ps)
  let ?d = "lay_lit (sl_lay sl) (bytes_of '' '')" and ?s = "sl_str sl"
  obtain w ws' where ws: "ws = w # ws'" "arg_at m R p w" "list_all2 (arg_at m R) ps ws'"
    using Cons.prems(4) by (auto simp: list_all2_Cons1)
  have a: "cstr_at m p w" "region p (Suc (length w)) \<subseteq> R" using ws(2) by (simp_all add: arg_at_def)
  have len: "length acc + (length w + Suc (length (concat (map (\<lambda>w. w @ [32]) ws')))) < 1024" using Cons.prems(6) ws(1) by simp
  have sub: "region ?s n \<subseteq> region ?s 1024" if "n \<le> 1024" for n using that by (rule region_mono)
  have "region ?s (length acc + Suc (length w)) \<inter> region p (Suc (length w)) = {}"
    using sub [of "length acc + Suc (length w)"] len a(2) Cons.prems(3) by auto
  then obtain m1 where m1: "strcat m ?s p = Some m1" "cstr_at m1 ?s (acc @ w)"
    "\<forall>a. a \<notin> region (?s + of_nat (length acc)) (Suc (length w)) \<longrightarrow> m1 a = m a"
    using strcat_concat [OF Cons.prems(5) a(1)] len by auto
  have "region (?s + of_nat (length acc)) (Suc (length w)) \<subseteq> region ?s 1024"
    using region_tail_subset [of ?s "length acc" "Suc (length w)"] sub [of "length acc + Suc (length w)"] len by auto
  then have f1: "\<forall>a. a \<notin> region ?s 1024 \<longrightarrow> m1 a = m a" using m1(3) by auto
  have "cstr_at m1 ?d [32] = cstr_at m ?d [32]"
    by (rule cstr_at_cong) (use f1 Cons.prems(2) in \<open>auto simp: numeral_2_eq_2\<close>)
  then have d1: "cstr_at m1 ?d [32]" using Cons.prems(1) by simp
  have "region ?s (length (acc @ w) + Suc (length [32 :: u8])) \<inter> region ?d (Suc (length [32 :: u8])) = {}"
    using sub [of "length (acc @ w) + Suc (length [32 :: u8])"] len Cons.prems(2) by (auto simp: numeral_2_eq_2)
  then obtain m2 where m2: "strcat m1 ?s ?d = Some m2" "cstr_at m2 ?s ((acc @ w) @ [32])"
    "\<forall>a. a \<notin> region (?s + of_nat (length (acc @ w))) (Suc (length [32 :: u8])) \<longrightarrow> m2 a = m1 a"
    using strcat_concat [OF m1(2) d1] len by auto
  have "region (?s + of_nat (length (acc @ w))) (Suc (length [32 :: u8])) \<subseteq> region ?s 1024"
    using region_tail_subset [of ?s "length (acc @ w)" "Suc (length [32 :: u8])"] sub [of "length (acc @ w) + Suc (length [32 :: u8])"] len by auto
  then have f2: "\<forall>a. a \<notin> region ?s 1024 \<longrightarrow> m2 a = m a" using m2(3) f1 by auto
  have "cstr_at m2 ?d [32] = cstr_at m ?d [32]"
    by (rule cstr_at_cong) (use f2 Cons.prems(2) in \<open>auto simp: numeral_2_eq_2\<close>)
  then have d2: "cstr_at m2 ?d [32]" using Cons.prems(1) by simp
  have args2: "list_all2 (arg_at m2 R) ps ws'"
  proof (rule list_all2_mono [OF ws(3)])
    fix q v assume q: "arg_at m R q v"
    show "arg_at m2 R q v" by (rule arg_at_frame [OF q f2]) (use q Cons.prems(3) in \<open>auto simp: arg_at_def\<close>)
  qed
  obtain m3 where m3: "sh_join sl ps m2 = Some m3" "cstr_at m3 ?s (((acc @ w) @ [32]) @ concat (map (\<lambda>w. w @ [32]) ws'))"
    "\<forall>a. a \<notin> region ?s 1024 \<longrightarrow> m3 a = m2 a"
    using Cons.IH [OF d2 Cons.prems(2,3) args2 m2(2)] len by auto
  then show ?case using m1(1) m2(1) f2 ws(1) by auto
qed simp

lemma memset_array:
  assumes "m' = memset m (p) 0 1024"
  shows "cstr_at m' (p) []" "\<forall>a. a \<notin> region (p) 1024 \<longrightarrow> m' a = m a"
proof -
  have m': "m' = store_bytes m (p) (replicate 1024 0)"
    using memset_loop_store [of 0 "1024 :: u32" m "p" 0] by (simp add: assms memset_def)
  have "bytes_at m' (p) 1024 = replicate 1024 0"
    unfolding m' using bytes_at_store_bytes [of "replicate 1024 0" m "p"] by simp
  then have "bytes_at m' (p) 1024 ! 0 = replicate 1024 0 ! 0" by simp
  then show "cstr_at m' (p) []" by simp
  show "\<forall>a. a \<notin> region (p) 1024 \<longrightarrow> m' a = m a" unfolding m' by (simp add: store_bytes_other)
qed

lemma sh_words_joined:
  assumes "cstr_at m (lay_lit (sl_lay sl) (bytes_of '' '')) [32]"
    and "region (lay_lit (sl_lay sl) (bytes_of '' '')) 2 \<inter> region (sl_str sl) 1024 = {}"
    and "R \<inter> region (sl_str sl) 1024 = {}" and "list_all2 (arg_at m R) ps ws" and "ws \<noteq> []"
    and "length (concat (map (\<lambda>w. w @ [32]) ws)) < 1024"
  shows "\<exists>m'. sh_words sl ps m = Some m' \<and> cstr_at m' (sl_str sl) (unwords ws) \<and> (\<forall>a. a \<notin> region (sl_str sl) 1024 \<longrightarrow> m' a = m a)"
proof -
  let ?d = "lay_lit (sl_lay sl) (bytes_of '' '')" and ?s = "sl_str sl"
  let ?m0 = "memset m ?s 0 1024"
  note m0 = memset_array [OF refl, where m = m and p = ?s]
  have "cstr_at ?m0 ?d [32] = cstr_at m ?d [32]"
    by (rule cstr_at_cong) (use m0(2) assms(2) in \<open>auto simp: numeral_2_eq_2\<close>)
  then have d0: "cstr_at ?m0 ?d [32]" using assms(1) by simp
  have args0: "list_all2 (arg_at ?m0 R) ps ws"
  proof (rule list_all2_mono [OF assms(4)])
    fix q v assume q: "arg_at m R q v"
    show "arg_at ?m0 R q v" by (rule arg_at_frame [OF q m0(2)]) (use q assms(3) in \<open>auto simp: arg_at_def\<close>)
  qed
  obtain m1 where m1: "sh_join sl ps ?m0 = Some m1" "cstr_at m1 ?s (unwords ws @ [32])" "\<forall>a. a \<notin> region ?s 1024 \<longrightarrow> m1 a = ?m0 a"
    using sh_join_words [OF d0 assms(2,3) args0 m0(1)] assms(6) unfolding concat_spaces [OF assms(5)] by auto
  have len: "length (unwords ws) < 1023" using assms(6) unfolding concat_spaces [OF assms(5)] by simp
  let ?e = "?s + of_nat (length (unwords ws))"
  have "strlen m1 ?s = Some (of_nat (length (unwords ws)) + 1)" using strlen_cstr [OF m1(2)] by simp
  then have w: "sh_words sl ps m = Some (m1(?e := 0))" using m1(1) by (simp add: sh_words_def)
  have "?e \<in> region ?s 1024" using len by (intro in_region) simp
  then have "\<forall>a. a \<notin> region ?s 1024 \<longrightarrow> (m1(?e := 0)) a = m a" using m1(3) m0(2) by auto
  moreover have "cstr_at (m1(?e := 0)) ?s (unwords ws)" by (rule cstr_at_cut(1) [OF m1(2)])
  ultimately show ?thesis using w by blast
qed

text \<open>Without words the terminator goes in front of the array.\<close>

lemma sh_words_none: "sh_words sl [] m = Some ((memset m (sl_str sl) 0 1024)(sl_str sl - 1 := 0))"
  using strlen_cstr [OF memset_array(1) [OF refl, where m = m and p = "sl_str sl"]] by (simp add: sh_words_def)

section \<open>What the shell does with a line\<close>

text \<open>Further property: the shell's arguments are the first four words of the line, where the line is cut at every
  single space; each is left in memory as a string inside the line, and no byte outside the line changes.\<close>

theorem shell_args_are_words:
  assumes "d = lay_lit (sl_lay sl) (bytes_of '' '')" and "d \<noteq> NULL" and "cstr_at (u_mem st) d [32]"
    and "region d 2 \<inter> region cmd (Suc (length line)) = {}" and "cstr_at (u_mem st) cmd line" and "NULL \<notin> region cmd (Suc (length line))"
  shows "\<exists>args st'. sh_tokens sl cmd st = Some (args, st')
     \<and> list_all2 (\<lambda>p w. p \<noteq> NULL \<and> cstr_at (u_mem st') p w \<and> region p (Suc (length w)) \<subseteq> region cmd (Suc (length line)))
          args (take 4 (sh_split line))
     \<and> (\<forall>a. a \<notin> region cmd (Suc (length line)) \<longrightarrow> u_mem st' a = u_mem st a) \<and> u_world st' = u_world st"
  using sh_tokens_split [OF assms] unfolding arg_at_def .

text \<open>Further property: the first word chooses the command. \<^verbatim>\<open>exit\<close> ends the shell and prints nothing, a first word that
  is the name of no command prints the error message and goes on, and an empty line has no defined result:
  the comparison is then with a NULL pointer.\<close>

theorem run_cmd_chooses:
  assumes "sh_ready sl (u_mem st) cmd line" and "writes_output sys out"
    and names: "names = map bytes_of [''exit'', ''help'', ''mdmp'', '''', ''break'', ''kinfo'', ''sd'', ''echo'', ''repeat'', ''color'', ''bgcolor'']"
  shows "case sh_split line of [] \<Rightarrow> run_cmd sys sl cmd st = None
     | w # _ \<Rightarrow> (w = bytes_of ''exit'' \<longrightarrow> (\<exists>st'. run_cmd sys sl cmd st = Some (True, st') \<and> u_world st' = u_world st))
         \<and> (w \<notin> set names \<longrightarrow> (\<exists>st'. run_cmd sys sl cmd st = Some (False, st')
              \<and> out (u_world st') = out (u_world st) @ bytes_of ''sh: error: Unkown command'' @ [10]))"
proof -
  obtain ps st1 where t: "sh_tokens sl cmd st = Some (ps, st1)"
    "list_all2 (arg_at (u_mem st1) (region cmd (Suc (length line)))) ps (take 4 (sh_split line))" "u_world st1 = u_world st"
    "\<forall>s\<in>set sh_lits. lit_ok (sl_lay sl) (u_mem st1) s"
    by (rule sh_ready_tokens [OF assms(1)])
  note run = run_cmd_find [OF assms(1) t(1,2,4), of sys]
  let ?msg = "bytes_of ''sh: error: Unkown command'' @ [10]"
  show ?thesis
  proof (cases "sh_split line")
    case Nil
    then show ?thesis using run by simp
  next
    case (Cons w ws)
    have ex: "find (\<lambda>x. w = bytes_of (fst x)) (sh_commands sys sl ps) = Some (''exit'', \<lambda>st. Some (True, st))" if "w = bytes_of ''exit''"
      using that by (simp add: sh_commands_def)
    have none: "find (\<lambda>x. w = bytes_of (fst x)) (sh_commands sys sl ps) = None" if "w \<notin> set names"
      using that names by (simp add: sh_commands_def)
    have "?msg \<in> set sh_lits" by (simp add: sh_lits_def)
    then have lit: "lit_ok (sl_lay sl) (u_mem st1) ?msg" using t(4) by blast
    have pb: "lay_printf (sl_lay sl) \<noteq> NULL" using assms(1) by (simp add: sh_ready_def)
    have "?msg = concat (map piece_text (map Lit ?msg))" "?msg = concat (map piece_out (map Lit ?msg))" by (simp_all add: bytes_of_def)
    moreover have "\<forall>p\<in>set (map Lit ?msg). piece_ok (u_mem st1) (lay_printf (sl_lay sl)) 1024 p" by (simp add: bytes_of_def)
    moreover have "[] = concat (map piece_args (map Lit ?msg))" "length ?msg < 1024" by (simp_all add: bytes_of_def)
    ultimately obtain st' where st': "sh_print sys sl ?msg [] st1 = Some st'" "out (u_world st') = out (u_world st1) @ ?msg"
      using sh_print_pieces [OF assms(2) lit _ _ _ _ _ pb] by blast
    have run': "run_cmd sys sl cmd st = (case find (\<lambda>x. w = bytes_of (fst x)) (sh_commands sys sl ps) of Some x \<Rightarrow> snd x st1
        | None \<Rightarrow> map_option (Pair False) (sh_print sys sl ?msg [] st1))" using run Cons by simp
    have "w = bytes_of ''exit'' \<longrightarrow> run_cmd sys sl cmd st = Some (True, st1)" using run' ex by simp
    moreover have "w \<notin> set names \<longrightarrow> run_cmd sys sl cmd st = Some (False, st')" using run' none st'(1) by simp
    ultimately show ?thesis using Cons st'(2) t(3) by simp
  qed
qed

lemma echo_found: "find (\<lambda>x. bytes_of ''echo'' = bytes_of (fst x)) (sh_commands sys sl ps)
    = Some (''echo'', \<lambda>st. map_option (Pair False) (sh_echo sys sl ps st))"
  by (simp add: sh_commands_def bytes_of_def)

lemma echo_runs:
  assumes ready: "sh_ready sl (u_mem st) cmd line" and w: "writes_output sys out" and "length line < 1023"
    and words: "sh_split line = bytes_of ''echo'' # ws" "ws \<noteq> []"
  shows "\<exists>st1 st'. run_cmd sys sl cmd st = Some (False, st') \<and> out (u_world st') = out (u_world st) @ unwords (take 3 ws) @ [10]
     \<and> u_world st1 = u_world st \<and> sh_print sys sl (bytes_of ''%s'' @ [10]) [sl_str sl] st1 = Some st'
     \<and> (\<forall>a. a \<notin> region cmd (Suc (length line)) \<union> region (sl_str sl) 1024 \<union> region (lay_printf (sl_lay sl)) 1024 \<longrightarrow> u_mem st' a = u_mem st a)"
proof -
  let ?R = "region cmd (Suc (length line))" and ?s = "sl_str sl" and ?d = "lay_lit (sl_lay sl) (bytes_of '' '')"
  obtain ps st1 where t: "sh_tokens sl cmd st = Some (ps, st1)" "list_all2 (arg_at (u_mem st1) ?R) ps (take 4 (sh_split line))"
    "u_world st1 = u_world st" "\<forall>s\<in>set sh_lits. lit_ok (sl_lay sl) (u_mem st1) s"
    "\<forall>a. a \<notin> ?R \<longrightarrow> u_mem st1 a = u_mem st a"
    by (rule sh_ready_tokens [OF ready])
  have run: "run_cmd sys sl cmd st = map_option (Pair False) (sh_echo sys sl ps st1)"
    using run_cmd_find [OF ready t(1,2,4), of sys] words(1) echo_found [of sys sl ps] by simp
  have lit: "s \<in> set sh_lits \<Longrightarrow> region (lay_lit (sl_lay sl) s) (Suc (length s)) \<inter> region ?s 1024 = {}" for s
    using ready unfolding sh_ready_def by blast
  have sp: "bytes_of '' '' = [32]" "bytes_of '' '' \<in> set sh_lits" by (simp_all add: bytes_of_def sh_lits_def)
  have d: "cstr_at (u_mem st1) ?d [32]" "region ?d 2 \<inter> region ?s 1024 = {}"
    using t(4) sp lit [OF sp(2)] by (auto simp: lit_ok_def numeral_2_eq_2)
  have R: "?R \<inter> region ?s 1024 = {}" using ready by (simp add: sh_ready_def)
  have args: "list_all2 (arg_at (u_mem st1) ?R) (drop 1 ps) (take 3 ws)"
    using t(2) words(1) by (auto simp: list_all2_Cons2 numeral_eq_Suc)
  have ne: "take 3 ws \<noteq> []" using words(2) by simp
  have "concat (map (\<lambda>w. w @ [32]) ws) = concat (map (\<lambda>w. w @ [32]) (take 3 ws)) @ concat (map (\<lambda>w. w @ [32]) (drop 3 ws))"
    by (metis append_take_drop_id concat_append map_append)
  moreover have "length (concat (map (\<lambda>w. w @ [32]) ws)) \<le> length line" using sh_split_length [of line] unfolding words(1) by simp
  ultimately have len: "length (concat (map (\<lambda>w. w @ [32]) (take 3 ws))) < 1023" using assms(3) by simp
  obtain m where m: "sh_words sl (drop 1 ps) (u_mem st1) = Some m" "cstr_at m ?s (unwords (take 3 ws))"
    "\<forall>a. a \<notin> region ?s 1024 \<longrightarrow> m a = u_mem st1 a"
    using sh_words_joined [OF d R args ne] len by auto
  have ul: "length (unwords (take 3 ws)) < 1022" using len unfolding concat_spaces [OF ne] by simp
  let ?fmt = "bytes_of ''%s'' @ [10]" and ?ps = "[Dir [] 0 (Str_Item ?s (unwords (take 3 ws))), Lit 10]"
  have fl: "?fmt \<in> set sh_lits" by (simp add: sh_lits_def)
  then have lf: "lit_ok (sl_lay sl) m ?fmt" using lit_ok_frame [OF _ m(3) lit] t(4) by blast
  have pb: "lay_printf (sl_lay sl) \<noteq> NULL" "?s \<noteq> NULL" "region ?s 1024 \<inter> region (lay_printf (sl_lay sl)) 1024 = {}"
    using ready in_region [of 0 1024 ?s] by (auto simp: sh_ready_def)
  have sub: "region ?s (Suc (length (unwords (take 3 ws)))) \<subseteq> region ?s 1024" by (rule region_mono) (use ul in simp)
  have "?fmt = concat (map piece_text ?ps)" by (simp add: bytes_of_def width_text_def)
  moreover have "\<forall>p\<in>set ?ps. piece_ok m (lay_printf (sl_lay sl)) 1024 p" using pb m(2) sub ul by auto
  moreover have "[?s] = concat (map piece_args ?ps)" by simp
  moreover have "unwords (take 3 ws) @ [10] = concat (map piece_out ?ps)" by (simp add: field_text_def)
  moreover have "lit_ok (sl_lay sl) (u_mem (st1\<lparr>u_mem := m\<rparr>)) ?fmt" using lf by simp
  moreover have "length (unwords (take 3 ws) @ [10]) < 1024" using ul by simp
  ultimately have "\<exists>st'. sh_print sys sl ?fmt [?s] (st1\<lparr>u_mem := m\<rparr>) = Some st'
      \<and> same_outside (lay_printf (sl_lay sl)) 1024 (u_mem (st1\<lparr>u_mem := m\<rparr>)) (u_mem st')
      \<and> out (u_world st') = out (u_world (st1\<lparr>u_mem := m\<rparr>)) @ unwords (take 3 ws) @ [10]"
    by (intro sh_print_pieces [OF w _ _ _ _ _ _ pb(1), where ps = ?ps]) simp_all
  then obtain st' where st': "sh_print sys sl ?fmt [?s] (st1\<lparr>u_mem := m\<rparr>) = Some st'" "out (u_world st') = out (u_world st1) @ unwords (take 3 ws) @ [10]"
    "same_outside (lay_printf (sl_lay sl)) 1024 m (u_mem st')" by auto
  then have "\<forall>a. a \<notin> ?R \<union> region ?s 1024 \<union> region (lay_printf (sl_lay sl)) 1024 \<longrightarrow> u_mem st' a = u_mem st a"
    using t(5) m(3) by (simp add: same_outside_def)
  moreover have "run_cmd sys sl cmd st = Some (False, st')" using run m(1) st'(1) by (simp add: sh_echo_def)
  ultimately show ?thesis using st' t(3) by (intro exI [of _ "st1\<lparr>u_mem := m\<rparr>"] exI [of _ st']) simp
qed

text \<open>Further property: \<^verbatim>\<open>echo\<close> prints its words, separated by single spaces and followed by a newline, but at most the
  first three of them; whatever the line, the array it joins them in is large enough.\<close>

theorem run_cmd_echo:
  assumes ready: "sh_ready sl (u_mem st) cmd line" and w: "writes_output sys out" and "length line < 1023"
    and words: "sh_split line = bytes_of ''echo'' # ws" "ws \<noteq> []"
  shows "\<exists>st'. run_cmd sys sl cmd st = Some (False, st') \<and> out (u_world st') = out (u_world st) @ unwords (take 3 ws) @ [10]"
  using echo_runs [OF assms] by blast

section \<open>Dumping memory\<close>

text \<open>The \<open>k\<close> hexadecimal digits of a number, and that the formatter prints them.\<close>

primrec hex_text :: "nat \<Rightarrow> u32 \<Rightarrow> u8 list" where
  "hex_text 0 w = []"
| "hex_text (Suc k) w = hex_text k (w div 16) @ [digit_char True (w mod 16)]"

lemma length_hex_text [simp]: "length (hex_text k w) = k"
  by (induction k arbitrary: w) simp_all

lemma hex_text_zero: "hex_text k 0 = replicate k 48"
  by (induction k) (simp_all add: digit_char_def replicate_append_same)

lemma hex_text_digits:
  assumes "unat w < 16 ^ k" and "0 < k"
  shows "length (fmt_digits True 16 w) \<le> k \<and> replicate (k - length (fmt_digits True 16 w)) 48 @ rev (fmt_digits True 16 w) = hex_text k w"
  using assms
proof (induction k arbitrary: w)
  case (Suc k)
  have f: "fmt_digits True 16 w = digit_char True (w mod 16) # (if w div 16 > 0 then fmt_digits True 16 (w div 16) else [])"
    by (subst fmt_digits.simps) simp
  show ?case
  proof (cases "w div 16 > 0")
    case True
    have lt: "unat (w div 16) < 16 ^ k" using Suc.prems(1) by (simp add: unat_div)
    moreover have "0 < unat (w div 16)" using True by (simp add: word_less_nat_alt)
    ultimately have "0 < k" by (cases k) simp_all
    from Suc.IH [OF lt this] show ?thesis using True f by (simp flip: append_assoc)
  next
    case False
    then have "w div 16 = 0" by (simp add: word_gt_0)
    then show ?thesis using f hex_text_zero [of k] by simp
  qed
qed simp

lemma fmt_hex:
  assumes "unat w < 16 ^ k" and "0 < k" and "k < 100"
  shows "int_text [48] k 120 w = hex_text k w"
proof -
  note h = hex_text_digits [OF assms(1,2)]
  have fl: "\<not> has_flag (F_ZEROPAD OR F_SMALL) F_LEFT" "\<not> has_flag (F_ZEROPAD OR F_SMALL) F_SIGNED" "\<not> has_flag (F_ZEROPAD OR F_SMALL) F_PLUS"
    "\<not> has_flag (F_ZEROPAD OR F_SMALL) F_SPACE" "\<not> has_flag (F_ZEROPAD OR F_SMALL) F_ALTERNATE" "has_flag (F_ZEROPAD OR F_SMALL) F_SMALL"
    "has_flag (F_ZEROPAD OR F_SMALL) F_ZEROPAD"
    by (simp_all add: has_flag_def const_defs)
  have w: "ucast (ucast w :: u64) = w" by (rule bit_word_eqI) (auto simp: bit_simps)
  have s: "sint (of_nat k :: u32) = int k" using assms(3) by (simp add: signed_of_nat signed_take_bit_int_eq_self_iff)
  have "fmt_int_chars (ucast w) 16 (of_nat k) (F_ZEROPAD OR F_SMALL)
      = replicate (k - length (fmt_digits True 16 w)) 48 @ rev (fmt_digits True 16 w)"
    using h by (auto simp: fmt_int_chars_def fl w s Let_def nat_diff_distrib)
  moreover have "flags_of 0 [48] OR conv_flags 120 = F_ZEROPAD OR F_SMALL" "\<forall>x\<in>set [48]. flag_of x \<noteq> None" "is_int_conv 120" "conv_base 120 = 16"
    by (simp_all add: flags_of_def flag_of_def conv_flags_def is_int_conv_def conv_base_def)
  ultimately show ?thesis using h assms(3) fmt_int_text [of "[48]" 120 k False w] by simp
qed

text \<open>What a dump prints for a row: the address, sixteen cells, and the printable characters.\<close>

definition dump_cell :: "mem \<Rightarrow> u32 \<Rightarrow> u32 \<Rightarrow> ptr \<Rightarrow> u32 \<Rightarrow> u8 list" where
  "dump_cell m i count addr j = (if i + j < count then hex_text 2 (ucast (m (addr + (i + j)))) @ [32] else [32, 32, 32])"

definition dump_char :: "u8 \<Rightarrow> u8" where
  "dump_char c = (if sint c \<ge> 32 \<and> sint c \<le> 126 then c else 46)"

definition dump_row :: "mem \<Rightarrow> u32 \<Rightarrow> u32 \<Rightarrow> ptr \<Rightarrow> u8 list" where
  "dump_row m i count addr =
     [48, 120] @ hex_text 8 (addr + i) @ [58, 32]
     @ concat (map (dump_cell m i count addr) (map of_nat [0..<16])) @ [32, 124]
     @ map (\<lambda>j. dump_char (m (addr + (i + j)))) (takeWhile (\<lambda>j. i + j < count) (map of_nat [0..<16])) @ [124, 10]"

definition dump_lits :: "u8 list list" where
  "dump_lits = [bytes_of ''0x%08x: '', bytes_of ''%02x '', bytes_of ''   '', bytes_of '' |'', bytes_of ''%c'', bytes_of ''|'' @ [10]]"

definition dump_state :: "shell_layout \<Rightarrow> mem \<Rightarrow> 'w user \<Rightarrow> bool" where
  "dump_state sl m st \<longleftrightarrow> lay_printf (sl_lay sl) \<noteq> NULL \<and> (\<forall>s\<in>set dump_lits. lit_ok (sl_lay sl) m s)
     \<and> same_outside (lay_printf (sl_lay sl)) 1024 m (u_mem st)"

lemma dump_print:
  assumes "writes_output sys out" and "dump_state sl m st" and "fmt \<in> set dump_lits" and "fmt = concat (map piece_text ps)"
    and "\<forall>p\<in>set ps. piece_ok (u_mem st) (lay_printf (sl_lay sl)) 1024 p" and "ap = concat (map piece_args ps)"
    and "tx = concat (map piece_out ps)" and "length tx < 1024"
  shows "\<exists>st'. sh_print sys sl fmt ap st = Some st' \<and> dump_state sl m st' \<and> out (u_world st') = out (u_world st) @ tx"
proof -
  have lm: "lit_ok (sl_lay sl) m fmt" and so: "same_outside (lay_printf (sl_lay sl)) 1024 m (u_mem st)" and b: "lay_printf (sl_lay sl) \<noteq> NULL"
    using assms(2,3) by (auto simp: dump_state_def)
  have "lit_ok (sl_lay sl) (u_mem st) fmt"
    by (rule lit_ok_frame [OF lm, of "region (lay_printf (sl_lay sl)) 1024"]) (use so lm in \<open>auto simp: same_outside_def lit_ok_def\<close>)
  from sh_print_pieces [OF assms(1) this assms(4-8) b] show ?thesis
    using assms(2) same_outside_trans [OF so] unfolding dump_state_def by blast
qed

lemmas piece_simps = dump_lits_def bytes_of_def width_text_def num_text_def num_digits.simps field_text_def

lemma print_hex:
  assumes "writes_output sys out" and "dump_state sl m st" and "v = ucast (c :: u8)"
  shows "\<exists>st'. sh_print sys sl (bytes_of ''%02x '') [v] st = Some st' \<and> dump_state sl m st' \<and> out (u_world st') = out (u_world st) @ hex_text 2 v @ [32]"
proof -
  have "unat v < 256" using assms(3) unsigned_less [where ?'a = nat, of c] by (simp add: unsigned_ucast_eq take_bit_nat_def)
  then have h: "int_text [48] 2 120 v = hex_text 2 v" using fmt_hex [of v 2] by simp
  show ?thesis
    by (rule dump_print [OF assms(1,2), where ps = "[Dir [48] 2 (Int_Item 120 False v), Lit 32]"])
      (use h in \<open>simp_all add: piece_simps\<close>)
qed

lemma print_address:
  assumes "writes_output sys out" and "dump_state sl m st"
  shows "\<exists>st'. sh_print sys sl (bytes_of ''0x%08x: '') [v] st = Some st' \<and> dump_state sl m st'
     \<and> out (u_world st') = out (u_world st) @ [48, 120] @ hex_text 8 v @ [58, 32]"
proof -
  have h: "int_text [48] 8 120 v = hex_text 8 v" using fmt_hex [of v 8] unat_u32_bound [of v] by simp
  show ?thesis
    by (rule dump_print [OF assms, where ps = "[Lit 48, Lit 120, Dir [48] 8 (Int_Item 120 False v), Lit 58, Lit 32]"])
      (use h in \<open>simp_all add: piece_simps\<close>)
qed

lemma print_char:
  assumes "writes_output sys out" and "dump_state sl m st" and "c \<noteq> 0"
  shows "\<exists>st'. sh_print sys sl (bytes_of ''%c'') [ucast (c :: u8)] st = Some st' \<and> dump_state sl m st' \<and> out (u_world st') = out (u_world st) @ [c]"
proof -
  have u: "ucast (ucast c :: u32) = c" by (rule bit_word_eqI) (auto simp: bit_simps)
  show ?thesis
    by (rule dump_print [OF assms(1,2), where ps = "[Dir [] 0 (Chr_Item (ucast c))]"]) (use u assms(3) in \<open>simp_all add: piece_simps\<close>)
qed

lemma print_plain:
  assumes "writes_output sys out" and "dump_state sl m st" and "tx \<in> {[32, 32, 32], [32, 124], [124, 10]}"
  shows "\<exists>st'. sh_print sys sl tx [] st = Some st' \<and> dump_state sl m st' \<and> out (u_world st') = out (u_world st) @ tx"
  by (rule dump_print [OF assms(1,2), where ps = "map Lit tx"]) (use assms(3) in \<open>auto simp: piece_simps\<close>)

lemma mdmp_hex_out:
  assumes "writes_output sys out" and "dump_state sl m st"
    and "\<forall>j\<in>set js. i + j < count \<longrightarrow> addr + (i + j) \<notin> region (lay_printf (sl_lay sl)) 1024"
  shows "\<exists>st'. mdmp_hex sys sl i count addr js st = Some st' \<and> dump_state sl m st'
     \<and> out (u_world st') = out (u_world st) @ concat (map (dump_cell m i count addr) js)"
  using assms(2,3)
proof (induction js arbitrary: st)
  case (Cons j js)
  have "\<exists>st1. (if i + j < count then sh_print sys sl (bytes_of ''%02x '') [ucast (u_mem st (addr + (i + j)))] st
       else sh_print sys sl (bytes_of ''   '') [] st) = Some st1 \<and> dump_state sl m st1
     \<and> out (u_world st1) = out (u_world st) @ dump_cell m i count addr j"
  proof (cases "i + j < count")
    case True
    then have "u_mem st (addr + (i + j)) = m (addr + (i + j))"
      using Cons.prems by (auto simp: dump_state_def same_outside_def)
    then show ?thesis using True print_hex [OF assms(1) Cons.prems(1) refl] by (simp add: dump_cell_def)
  next
    case False
    then show ?thesis using print_plain [OF assms(1) Cons.prems(1), of "[32, 32, 32]"] by (simp add: dump_cell_def bytes_of_def)
  qed
  then obtain st1 where st1: "(if i + j < count then sh_print sys sl (bytes_of ''%02x '') [ucast (u_mem st (addr + (i + j)))] st
       else sh_print sys sl (bytes_of ''   '') [] st) = Some st1" "dump_state sl m st1"
     "out (u_world st1) = out (u_world st) @ dump_cell m i count addr j" by blast
  obtain st2 where "mdmp_hex sys sl i count addr js st1 = Some st2" "dump_state sl m st2"
     "out (u_world st2) = out (u_world st1) @ concat (map (dump_cell m i count addr) js)"
    using Cons.IH [OF st1(2)] Cons.prems(2) by auto
  then show ?case using st1 by simp
qed simp

lemma dump_char_nz: "dump_char c \<noteq> 0"
  by (auto simp: dump_char_def)

lemma mdmp_text_out:
  assumes "writes_output sys out" and "dump_state sl m st"
    and "\<forall>j\<in>set js. i + j < count \<longrightarrow> addr + (i + j) \<notin> region (lay_printf (sl_lay sl)) 1024"
  shows "\<exists>st'. mdmp_text sys sl i count addr js st = Some st' \<and> dump_state sl m st'
     \<and> out (u_world st') = out (u_world st) @ map (\<lambda>j. dump_char (m (addr + (i + j)))) (takeWhile (\<lambda>j. i + j < count) js)"
  using assms(2,3)
proof (induction js arbitrary: st)
  case (Cons j js)
  show ?case
  proof (cases "i + j < count")
    case True
    let ?c = "m (addr + (i + j))"
    have c: "u_mem st (addr + (i + j)) = ?c" using True Cons.prems by (auto simp: dump_state_def same_outside_def)
    have arg: "(if sint ?c \<ge> 32 \<and> sint ?c \<le> 126 then ucast ?c else 46) = (ucast (dump_char ?c) :: u32)" by (simp add: dump_char_def)
    obtain st1 where st1: "sh_print sys sl (bytes_of ''%c'') [ucast (dump_char ?c)] st = Some st1" "dump_state sl m st1"
       "out (u_world st1) = out (u_world st) @ [dump_char ?c]"
      using print_char [OF assms(1) Cons.prems(1) dump_char_nz] by blast
    obtain st2 where "mdmp_text sys sl i count addr js st1 = Some st2" "dump_state sl m st2"
       "out (u_world st2) = out (u_world st1) @ map (\<lambda>j. dump_char (m (addr + (i + j)))) (takeWhile (\<lambda>j. i + j < count) js)"
      using Cons.IH [OF st1(2)] Cons.prems(2) by auto
    then show ?thesis using st1 True by (simp only: mdmp_text.simps Let_def c arg) simp
  qed (use Cons.prems in simp)
qed simp

lemma mdmp_row_out:
  assumes "writes_output sys out" and "dump_state sl m st"
    and "\<forall>k<16. i + of_nat k < count \<longrightarrow> addr + (i + of_nat k) \<notin> region (lay_printf (sl_lay sl)) 1024"
  shows "\<exists>st'. mdmp_row sys sl i count addr st = Some st' \<and> dump_state sl m st'
     \<and> out (u_world st') = out (u_world st) @ dump_row m i count addr"
proof -
  let ?js = "map of_nat [0..<16] :: u32 list"
  have js: "\<forall>j\<in>set ?js. i + j < count \<longrightarrow> addr + (i + j) \<notin> region (lay_printf (sl_lay sl)) 1024" using assms(3) by auto
  obtain st1 where s1: "sh_print sys sl (bytes_of ''0x%08x: '') [addr + i] st = Some st1" "dump_state sl m st1"
     "out (u_world st1) = out (u_world st) @ [48, 120] @ hex_text 8 (addr + i) @ [58, 32]"
    using print_address [OF assms(1,2)] by blast
  obtain st2 where s2: "mdmp_hex sys sl i count addr ?js st1 = Some st2" "dump_state sl m st2"
     "out (u_world st2) = out (u_world st1) @ concat (map (dump_cell m i count addr) ?js)"
    using mdmp_hex_out [OF assms(1) s1(2) js] by blast
  obtain st3 where s3: "sh_print sys sl (bytes_of '' |'') [] st2 = Some st3" "dump_state sl m st3"
     "out (u_world st3) = out (u_world st2) @ [32, 124]"
    using print_plain [OF assms(1) s2(2), of "[32, 124]"] by (auto simp: bytes_of_def)
  obtain st4 where s4: "mdmp_text sys sl i count addr ?js st3 = Some st4" "dump_state sl m st4"
     "out (u_world st4) = out (u_world st3) @ map (\<lambda>j. dump_char (m (addr + (i + j)))) (takeWhile (\<lambda>j. i + j < count) ?js)"
    using mdmp_text_out [OF assms(1) s3(2) js] by blast
  obtain st5 where s5: "sh_print sys sl (bytes_of ''|'' @ [10]) [] st4 = Some st5" "dump_state sl m st5"
     "out (u_world st5) = out (u_world st4) @ [124, 10]"
    using print_plain [OF assms(1) s4(2), of "[124, 10]"] by (auto simp: bytes_of_def)
  have "mdmp_row sys sl i count addr st = Some st5"
    unfolding mdmp_row_def s1(1) bind.bind_lunit s2(1) s3(1) s4(1) s5(1) ..
  then show ?thesis using s1(3) s2(3) s3(3) s4(3) s5(2,3) by (simp add: dump_row_def)
qed

lemma row_index:
  assumes "(count :: u32) \<le> 0xFFFFFFF0" and "k \<le> (unat count + 15) div 16"
  shows "unat (of_nat (16 * k) :: u32) = 16 * k"
proof -
  have "unat count \<le> 4294967280" using assms(1) by (simp add: word_le_nat_alt)
  then have "16 * k < 4294967296" using assms(2) by linarith
  then show ?thesis by (rule unat_of_nat_u32)
qed

lemma mdmp_rows_out:
  assumes "writes_output sys out" and "dump_state sl m st" and "count \<le> 0xFFFFFFF0" and "k \<le> (unat count + 15) div 16"
    and "\<forall>j<unat count. addr + of_nat j \<notin> region (lay_printf (sl_lay sl)) 1024"
  shows "\<exists>st'. mdmp_rows sys sl (of_nat (16 * k)) count addr st = Some st' \<and> dump_state sl m st'
     \<and> out (u_world st') = out (u_world st) @ concat (map (\<lambda>r. dump_row m (of_nat (16 * r)) count addr) [k..<(unat count + 15) div 16])"
  using assms(2,4)
proof (induction "(unat count + 15) div 16 - k" arbitrary: k st)
  case 0
  then have "unat count \<le> unat (of_nat (16 * k) :: u32)" unfolding row_index [OF assms(3) 0(3)] by linarith
  then have "\<not> (of_nat (16 * k) :: u32) < count" by (simp add: word_less_nat_alt)
  then show ?case using 0 by (subst mdmp_rows.simps) simp
next
  case (Suc n)
  have ri: "unat (of_nat (16 * k) :: u32) = 16 * k" by (rule row_index [OF assms(3) Suc.prems(2)])
  have k: "16 * k < unat count" "Suc k \<le> (unat count + 15) div 16" using Suc.hyps(2) by linarith+
  then have lt: "(of_nat (16 * k) :: u32) < count" using ri by (simp add: word_less_nat_alt)
  have "addr + (of_nat (16 * k) + of_nat j) \<notin> region (lay_printf (sl_lay sl)) 1024" if "j < 16" "of_nat (16 * k) + of_nat j < count" for j
  proof -
    have "(of_nat (16 * k) + of_nat j :: u32) = of_nat (unat (of_nat (16 * k) + of_nat j :: u32))" by simp
    moreover have "unat (of_nat (16 * k) + of_nat j :: u32) < unat count" using that(2) by (simp only: word_less_nat_alt)
    ultimately show ?thesis using assms(5) by metis
  qed
  then obtain st1 where s1: "mdmp_row sys sl (of_nat (16 * k)) count addr st = Some st1" "dump_state sl m st1"
     "out (u_world st1) = out (u_world st) @ dump_row m (of_nat (16 * k)) count addr"
    using mdmp_row_out [OF assms(1) Suc.prems(1)] by blast
  have "n = (unat count + 15) div 16 - Suc k" using Suc.hyps(2) by linarith
  from Suc.hyps(1) [OF this s1(2) k(2)] obtain st2 where s2: "mdmp_rows sys sl (of_nat (16 * Suc k)) count addr st1 = Some st2" "dump_state sl m st2"
     "out (u_world st2) = out (u_world st1) @ concat (map (\<lambda>r. dump_row m (of_nat (16 * r)) count addr) [Suc k..<(unat count + 15) div 16])"
    by blast
  have "(of_nat (16 * Suc k) :: u32) = of_nat (16 * k) + 16" by simp
  then have "mdmp_rows sys sl (of_nat (16 * k)) count addr st = Some st2" using s1(1) s2(1) lt by (subst mdmp_rows.simps) (simp only: if_True bind.bind_lunit)
  moreover have "[k..<(unat count + 15) div 16] = k # [Suc k..<(unat count + 15) div 16]" using k(2) by (simp add: upt_conv_Cons)
  ultimately show ?case using s1(3) s2(2,3) by simp
qed

lemma mdmp_rows_endless:
  assumes "mdmp_rows sys sl i count addr st = Some y" and "unat i mod 16 = 0" and "0xFFFFFFF0 < count"
  shows False
proof -
  have "\<not> (unat i mod 16 = 0 \<and> 0xFFFFFFF0 < count)"
  proof (rule mdmp_rows.raw_induct [where P = "\<lambda>sys sl i count addr st y. \<not> (unat i mod 16 = 0 \<and> 0xFFFFFFF0 < count)", OF _ assms(1)])
    fix f :: "'a kernel \<Rightarrow> shell_layout \<Rightarrow> u32 \<Rightarrow> u32 \<Rightarrow> ptr \<Rightarrow> 'a user \<Rightarrow> 'a user option"
      and sys :: "'a kernel" and sl i count addr st y
    assume ih: "\<And>sys sl i count addr st y. f sys sl i count addr st = Some y \<Longrightarrow> \<not> (unat i mod 16 = 0 \<and> 0xFFFFFFF0 < count)"
      and body: "(if i < count then Option.bind (mdmp_row sys sl i count addr st) (f sys sl (i + 16) count addr) else Some st) = Some y"
    show "\<not> (unat i mod 16 = 0 \<and> 0xFFFFFFF0 < count)"
    proof
      assume a: "unat i mod 16 = 0 \<and> 0xFFFFFFF0 < count"
      have "i < count"
      proof (rule ccontr)
        assume "\<not> i < count"
        then have "4294967280 < unat i" using a by (simp add: word_less_nat_alt)
        moreover have "unat i < 4294967296" using unat_u32_bound [of i] by simp
        ultimately show False using a [THEN conjunct1] by presburger
      qed
      then obtain st1 where "f sys sl (i + 16) count addr st1 = Some y" using body by (auto simp: Option.bind_eq_Some_conv)
      moreover have "unat (i + 16) mod 16 = 0" using a by (simp add: unat_word_ariths mod_mod_cancel mod_add_left_eq)
      ultimately show False using ih [of sys sl "i + 16" count addr st1 y] a by simp
    qed
  qed
  then show False using assms(2,3) by blast
qed

text \<open>Further property: the loop of \<^verbatim>\<open>mdmp\<close> ends and prints one row for every sixteen bytes of the range: its address, the
  bytes in hexadecimal with the missing ones blank, and their printable characters. It does so for every
  count up to 0xFFFFFFF0; for a larger one the counter wraps around and the loop never ends.\<close>

theorem mdmp_dumps:
  assumes "writes_output sys out" and "lay_printf (sl_lay sl) \<noteq> NULL" and "\<forall>s\<in>set dump_lits. lit_ok (sl_lay sl) (u_mem st) s"
    and "\<forall>j<unat count. addr + of_nat j \<notin> region (lay_printf (sl_lay sl)) 1024"
  shows "if count \<le> 0xFFFFFFF0
     then \<exists>st'. mdmp_rows sys sl 0 count addr st = Some st'
       \<and> out (u_world st') = out (u_world st) @ concat (map (\<lambda>r. dump_row (u_mem st) (of_nat (16 * r)) count addr) [0..<(unat count + 15) div 16])
     else mdmp_rows sys sl 0 count addr st = None"
proof (cases "count \<le> 0xFFFFFFF0")
  case True
  have "dump_state sl (u_mem st) st" using assms(2,3) by (simp add: dump_state_def same_outside_def)
  from mdmp_rows_out [OF assms(1) this True, of 0] assms(4) show ?thesis using True by auto
next
  case False
  then show ?thesis using mdmp_rows_endless [of sys sl 0 count addr st] by (cases "mdmp_rows sys sl 0 count addr st") (auto simp: not_le)
qed

end
