(* ===== verification/User_Shell_Session.thy ===== *)
theory User_Shell_Session
  imports User_Shell_Cmds
begin

text \<open>
  A whole session of the shell against the documented behaviour of the read and write calls, and a concrete program
  in memory on which the properties of the shell are instantiated.
\<close>

section \<open>A session\<close>

text \<open>The documented behaviour of the two calls a session makes: a write appends to the output and takes nothing
  from the input; a read puts the next line of the input, with a terminator, in the buffer.\<close>

definition serves_lines :: "'w kernel \<Rightarrow> ('w \<Rightarrow> u8 list list) \<Rightarrow> ('w \<Rightarrow> u8 list) \<Rightarrow> bool" where
  "serves_lines sys inp out \<longleftrightarrow> writes_output sys out
     \<and> (\<forall>p n m w r m' w'. sys SYS_write [p, n] m w = Some (r, m', w') \<longrightarrow> inp w' = inp w)
     \<and> (\<forall>p n m w l ls. inp w = l # ls \<and> length l \<le> unat n \<longrightarrow>
          (\<exists>r w'. sys SYS_read [p, n] m w = Some (r, store_bytes m p (l @ [0]), w') \<and> inp w' = ls \<and> out w' = out w))"

definition sh_own :: "shell_layout \<Rightarrow> u32 set" where
  "sh_own sl = region (sl_cmd sl) 128 \<union> region (sl_str sl) 1024 \<union> region (lay_printf (sl_lay sl)) 1024"

definition shell_lits :: "u8 list list" where
  "shell_lits = sh_lits @ dump_lits @ [bytes_of '' $ '', [10], bytes_of ''exiting shell...'' @ [10], bytes_of ''%s '', bytes_of ''Usage: mdmp <size> <address>'' @ [10]] @ sh_help"

text \<open>Between two commands the literals are in place, and the shell's arrays overlap neither each other nor the
  literals.\<close>

definition shell_inv :: "shell_layout \<Rightarrow> mem \<Rightarrow> bool" where
  "shell_inv sl m \<longleftrightarrow> NULL \<notin> sh_own sl
     \<and> region (sl_cmd sl) 128 \<inter> region (sl_str sl) 1024 = {}
     \<and> region (sl_cmd sl) 128 \<inter> region (lay_printf (sl_lay sl)) 1024 = {}
     \<and> region (sl_str sl) 1024 \<inter> region (lay_printf (sl_lay sl)) 1024 = {}
     \<and> (\<forall>s\<in>set shell_lits. lay_lit (sl_lay sl) s \<noteq> NULL \<and> cstr_at m (lay_lit (sl_lay sl) s) s
          \<and> region (lay_lit (sl_lay sl) s) (Suc (length s)) \<inter> sh_own sl = {})"

lemma shell_inv_frame:
  assumes "shell_inv sl m" and "\<forall>a. a \<notin> sh_own sl \<longrightarrow> m' a = m a"
  shows "shell_inv sl m'"
proof -
  have "cstr_at m' (lay_lit (sl_lay sl) s) s" if "s \<in> set shell_lits" for s
  proof -
    have c: "cstr_at m (lay_lit (sl_lay sl) s) s" "region (lay_lit (sl_lay sl) s) (Suc (length s)) \<inter> sh_own sl = {}"
      using assms(1) that unfolding shell_inv_def by blast+
    have "cstr_at m' (lay_lit (sl_lay sl) s) s = cstr_at m (lay_lit (sl_lay sl) s) s"
      by (rule cstr_at_cong) (use c(2) assms(2) in blast)
    then show ?thesis using c(1) by simp
  qed
  then show ?thesis using assms(1) unfolding shell_inv_def by blast
qed

lemma shell_inv_lit: "shell_inv sl m \<Longrightarrow> s \<in> set shell_lits \<Longrightarrow> lit_ok (sl_lay sl) m s"
  unfolding shell_inv_def lit_ok_def sh_own_def by blast

lemma shell_inv_apart:
  assumes "shell_inv sl m" and "s \<in> set shell_lits"
  shows "cstr_at m (lay_lit (sl_lay sl) s) s" "lay_lit (sl_lay sl) s \<noteq> NULL" "region (lay_lit (sl_lay sl) s) (Suc (length s)) \<inter> sh_own sl = {}"
  using assms unfolding shell_inv_def by blast+

lemma shell_inv_ready:
  assumes "shell_inv sl m" and "cstr_at m (sl_cmd sl) line" and "length line < 128"
  shows "sh_ready sl m (sl_cmd sl) line"
proof -
  have "Suc (length line) \<le> 128" using assms(3) by simp
  then have sub: "region (sl_cmd sl) (Suc (length line)) \<subseteq> region (sl_cmd sl) 128" by (rule region_mono)
  have pn: "lay_printf (sl_lay sl) \<in> region (lay_printf (sl_lay sl)) 1024" using in_region [of 0 1024 "lay_printf (sl_lay sl)"] by simp
  have own: "region (sl_cmd sl) 128 \<subseteq> sh_own sl" "region (sl_str sl) 1024 \<subseteq> sh_own sl" "region (lay_printf (sl_lay sl)) 1024 \<subseteq> sh_own sl"
    by (auto simp: sh_own_def)
  have lits: "lay_lit (sl_lay sl) s \<noteq> NULL \<and> lit_ok (sl_lay sl) m s
       \<and> region (lay_lit (sl_lay sl) s) (Suc (length s)) \<inter> region (sl_cmd sl) (Suc (length line)) = {}
       \<and> region (lay_lit (sl_lay sl) s) (Suc (length s)) \<inter> region (sl_str sl) 1024 = {}" if "s \<in> set sh_lits" for s
  proof -
    have s: "s \<in> set shell_lits" using that by (simp add: shell_lits_def)
    moreover from s have "region (lay_lit (sl_lay sl) s) (Suc (length s)) \<inter> sh_own sl = {}" "lay_lit (sl_lay sl) s \<noteq> NULL"
      using assms(1) unfolding shell_inv_def by blast+
    ultimately show ?thesis using shell_inv_lit [OF assms(1)] own sub by blast
  qed
  have "NULL \<notin> sh_own sl" "region (sl_cmd sl) 128 \<inter> region (sl_str sl) 1024 = {}" "region (sl_cmd sl) 128 \<inter> region (lay_printf (sl_lay sl)) 1024 = {}"
    "region (sl_str sl) 1024 \<inter> region (lay_printf (sl_lay sl)) 1024 = {}" using assms(1) unfolding shell_inv_def by blast+
  moreover from this(1) have "NULL \<notin> region (sl_cmd sl) (Suc (length line))" "lay_printf (sl_lay sl) \<noteq> NULL" "NULL \<notin> region (sl_str sl) 1024"
    using own sub pn by (blast, metis subsetD, blast)
  ultimately show ?thesis using assms(2) sub lits unfolding sh_ready_def by blast
qed

text \<open>How a part of the session goes: what it appends to the output, leaving the input and the memory outside the
  shell's arrays.\<close>

definition answers :: "('w \<Rightarrow> u8 list list) \<Rightarrow> ('w \<Rightarrow> u8 list) \<Rightarrow> shell_layout \<Rightarrow> 'w user \<Rightarrow> 'w user \<Rightarrow> u8 list \<Rightarrow> bool" where
  "answers inp out sl st st' tx \<longleftrightarrow> out (u_world st') = out (u_world st) @ tx \<and> inp (u_world st') = inp (u_world st)
     \<and> (\<forall>a. a \<notin> sh_own sl \<longrightarrow> u_mem st' a = u_mem st a)"

lemma answers_refl [simp]: "answers inp out sl st st []"
  by (simp add: answers_def)

lemma answers_trans: "answers inp out sl st st1 a \<Longrightarrow> answers inp out sl st1 st2 b \<Longrightarrow> answers inp out sl st st2 (a @ b)"
  by (simp add: answers_def)

lemma answers_inv: "answers inp out sl st st' tx \<Longrightarrow> shell_inv sl (u_mem st) \<Longrightarrow> shell_inv sl (u_mem st')"
  using shell_inv_frame unfolding answers_def by blast

lemma sh_print_input:
  assumes "serves_lines sys inp out" and "sh_print sys sl fmt ap st = Some st'"
  shows "inp (u_world st') = inp (u_world st)"
proof -
  have w: "sys SYS_write [p, n] m w = Some (r, m', w') \<Longrightarrow> inp w' = inp w" for p n m w r m' w'
    using assms(1) unfolding serves_lines_def by blast
  show ?thesis using assms(2) w
    by (fastforce simp: sh_print_def printf_def sys_write_def int80_def Option.bind_eq_Some_conv)
qed

text \<open>A format without directives is printed as it is.\<close>

lemma sh_print_answers:
  assumes "serves_lines sys inp out" and "shell_inv sl (u_mem st)" and "s \<in> set shell_lits" and "37 \<notin> set s" and "length s < 1024"
  shows "\<exists>st'. sh_print sys sl s [] st = Some st' \<and> answers inp out sl st st' s"
proof -
  have w: "writes_output sys out" using assms(1) by (simp add: serves_lines_def)
  have nz: "0 \<notin> set s" using assms(2,3) cstr_at_nonzero unfolding shell_inv_def by blast
  have own: "region (lay_printf (sl_lay sl)) 1024 \<subseteq> sh_own sl" by (auto simp: sh_own_def)
  have pn: "lay_printf (sl_lay sl) \<noteq> NULL"
    using assms(2) own in_region [of 0 1024 "lay_printf (sl_lay sl)"] unfolding shell_inv_def by auto
  have "s = concat (map piece_text (map Lit s))" "[] = concat (map piece_args (map Lit s))" "s = concat (map piece_out (map Lit s))"
    by (induction s) simp_all
  moreover have "\<forall>p\<in>set (map Lit s). piece_ok (u_mem st) (lay_printf (sl_lay sl)) 1024 p" using nz assms(4) by auto
  ultimately obtain st' where st': "sh_print sys sl s [] st = Some st'" "same_outside (lay_printf (sl_lay sl)) 1024 (u_mem st) (u_mem st')"
     "out (u_world st') = out (u_world st) @ s"
    using sh_print_pieces [OF w shell_inv_lit [OF assms(2,3)] _ _ _ _ assms(5) pn] by blast
  then show ?thesis using sh_print_input [OF assms(1) st'(1)] own by (auto simp: answers_def same_outside_def)
qed

lemma sh_prints_answers:
  assumes "serves_lines sys inp out" and "shell_inv sl (u_mem st)" and "set ss \<subseteq> set shell_lits" and "\<forall>s\<in>set ss. 37 \<notin> set s \<and> length s < 1024"
  shows "\<exists>st'. sh_prints sys sl ss st = Some st' \<and> answers inp out sl st st' (concat ss)"
  using assms(2-4)
proof (induction ss arbitrary: st)
  case (Cons s ss)
  obtain st1 where st1: "sh_print sys sl s [] st = Some st1" "answers inp out sl st st1 s"
    using sh_print_answers [OF assms(1) Cons.prems(1), of s] Cons.prems(2,3) by auto
  obtain st2 where "sh_prints sys sl ss st1 = Some st2" "answers inp out sl st1 st2 (concat ss)"
    using Cons.IH [OF answers_inv [OF st1(2) Cons.prems(1)]] Cons.prems(2,3) by auto
  then show ?case using st1 answers_trans [OF st1(2)] by auto
qed simp

text \<open>The answer to a line, by its words: \<open>None\<close> for a line without words, for \<^verbatim>\<open>exit\<close>, for the commands whose
  answer depends on the memory (\<^verbatim>\<open>mdmp\<close> with its arguments and \<^verbatim>\<open>sd\<close>), for \<^verbatim>\<open>echo\<close> and \<^verbatim>\<open>repeat\<close> without words to
  join (they write in front of their array) and for a count of \<^verbatim>\<open>repeat\<close> that is not a decimal number below
  \<open>2\<^sup>3\<^sup>1\<close>.\<close>

definition sh_names :: "string list" where
  "sh_names = [''exit'', ''help'', ''mdmp'', '''', ''break'', ''kinfo'', ''sd'', ''echo'', ''repeat'', ''color'', ''bgcolor'']"

definition dec_value :: "u8 list \<Rightarrow> nat" where
  "dec_value ds = foldl (\<lambda>n c. 10 * n + (unat c - 48)) 0 ds"

definition reply :: "u8 list list \<Rightarrow> u8 list option" where
  "reply words =
     (case words of [] \<Rightarrow> None
      | w # ws \<Rightarrow>
          if w \<notin> bytes_of ` set sh_names then Some (bytes_of ''sh: error: Unkown command'' @ [10])
          else if w \<in> bytes_of ` {'''', ''break'', ''kinfo'', ''color'', ''bgcolor''} then Some []
          else if w = bytes_of ''help'' then Some (concat sh_help)
          else if w = bytes_of ''mdmp'' \<and> length ws < 2 then Some (bytes_of ''Usage: mdmp <size> <address>'' @ [10])
          else if w = bytes_of ''echo'' \<and> ws \<noteq> [] then Some (unwords (take 3 ws) @ [10])
          else if w = bytes_of ''repeat'' then
            (case ws of [] \<Rightarrow> Some []
             | k # vs \<Rightarrow>
                 if k \<noteq> [] \<and> (\<forall>c\<in>set k. 48 \<le> c \<and> c \<le> 57) \<and> dec_value k < 2147483648 \<and> vs \<noteq> []
                 then Some (concat (replicate (dec_value k) (unwords (take 2 vs) @ [32])) @ [10])
                 else None)
          else None)"

lemma sh_print_str:
  assumes sys: "serves_lines sys inp out" and inv: "shell_inv sl (u_mem st)" and fmt: "fmt = bytes_of ''%s'' @ t" "fmt \<in> set shell_lits" "37 \<notin> set t" "0 \<notin> set t"
    and str: "cstr_at (u_mem st) p s" "p \<noteq> NULL" "region p (Suc (length s)) \<inter> region (lay_printf (sl_lay sl)) 1024 = {}" and len: "length s + length t < 1024"
  shows "\<exists>st'. sh_print sys sl fmt [p] st = Some st' \<and> answers inp out sl st st' (s @ t) \<and> same_outside (lay_printf (sl_lay sl)) 1024 (u_mem st) (u_mem st')"
proof -
  have w: "writes_output sys out" using sys by (simp add: serves_lines_def)
  have own: "region (lay_printf (sl_lay sl)) 1024 \<subseteq> sh_own sl" by (auto simp: sh_own_def)
  have pn: "lay_printf (sl_lay sl) \<noteq> NULL"
    using inv own in_region [of 0 1024 "lay_printf (sl_lay sl)"] unfolding shell_inv_def by auto
  let ?ps = "Dir [] 0 (Str_Item p s) # map Lit t"
  have "concat (map (\<lambda>c. [c]) t) = t" "concat (map (piece_args \<circ> Lit) t) = []" by (induction t) simp_all
  then have "fmt = concat (map piece_text ?ps)" "[p] = concat (map piece_args ?ps)" "s @ t = concat (map piece_out ?ps)"
    using fmt(1) by (simp_all add: bytes_of_def width_text_def field_text_def o_def)
  moreover have "\<forall>q\<in>set ?ps. piece_ok (u_mem st) (lay_printf (sl_lay sl)) 1024 q" using str len fmt(3,4) by auto
  moreover have "length (s @ t) < 1024" using len by simp
  ultimately obtain st' where st': "sh_print sys sl fmt [p] st = Some st'" "same_outside (lay_printf (sl_lay sl)) 1024 (u_mem st) (u_mem st')"
     "out (u_world st') = out (u_world st) @ s @ t"
    using sh_print_pieces [OF w shell_inv_lit [OF inv fmt(2)] _ _ _ _ _ pn] by blast
  then show ?thesis using sh_print_input [OF sys st'(1)] own by (auto simp: answers_def same_outside_def)
qed

lemma repeat_loop_answers:
  assumes sys: "serves_lines sys inp out" and "shell_inv sl (u_mem st)" and "cstr_at (u_mem st) (sl_str sl) s" and len: "length s < 1000"
  shows "\<exists>st'. repeat_loop sys sl n st = Some st' \<and> answers inp out sl st st' (concat (replicate n (s @ [32])))"
  using assms(2,3)
proof (induction n arbitrary: st)
  case (Suc n)
  have sub: "region (sl_str sl) (Suc (length s)) \<subseteq> region (sl_str sl) 1024" by (rule region_mono) (use len in simp)
  have "NULL \<notin> sh_own sl" "region (sl_str sl) 1024 \<inter> region (lay_printf (sl_lay sl)) 1024 = {}" using Suc.prems(1) unfolding shell_inv_def by blast+
  then have st: "sl_str sl \<noteq> NULL" "region (sl_str sl) (Suc (length s)) \<inter> region (lay_printf (sl_lay sl)) 1024 = {}"
    using sub in_region [of 0 1024 "sl_str sl"] by (auto simp: sh_own_def)
  have f: "bytes_of ''%s '' = bytes_of ''%s'' @ [32]" "bytes_of ''%s '' \<in> set shell_lits" by (simp_all add: bytes_of_def shell_lits_def)
  obtain s1 where s1: "sh_print sys sl (bytes_of ''%s '') [sl_str sl] st = Some s1" "answers inp out sl st s1 (s @ [32])"
     "same_outside (lay_printf (sl_lay sl)) 1024 (u_mem st) (u_mem s1)"
    using sh_print_str [OF sys Suc.prems(1) f _ _ Suc.prems(2) st] len by auto
  have "cstr_at (u_mem s1) (sl_str sl) s = cstr_at (u_mem st) (sl_str sl) s" using cstr_at_outside [OF s1(3)] st(2) by simp
  then obtain s2 where "repeat_loop sys sl n s1 = Some s2" "answers inp out sl s1 s2 (concat (replicate n (s @ [32])))"
    using Suc.IH [OF answers_inv [OF s1(2) Suc.prems(1)]] Suc.prems(2) by auto
  then show ?case using s1(1) answers_trans [OF s1(2)] by auto
qed simp

lemma dec_value_num:
  assumes "\<forall>c\<in>set ds. 48 \<le> c \<and> c \<le> 57"
  shows "(\<forall>c\<in>set ds. is_digit_of 10 c) \<and> num_value 10 ds = dec_value ds"
proof -
  have d: "is_digit_of 10 c \<and> unat (the (digit_of c)) = unat c - 48" if "48 \<le> c" "c \<le> 57" for c
  proof -
    have "48 \<le> unat c \<and> unat c \<le> 57" using that by (simp add: word_le_nat_alt)
    then have "unat c \<in> {48, 49, 50, 51, 52, 53, 54, 55, 56, 57}" by (simp, presburger)
    then have "c \<in> {48, 49, 50, 51, 52, 53, 54, 55, 56, 57}" by (auto simp: word_unat_eq_iff)
    then show ?thesis by (elim insertE) (simp_all add: is_digit_of_def digit_of_def)
  qed
  have "foldl (\<lambda>v c. v * unat (10 :: u32) + unat (the (digit_of c))) n ds = foldl (\<lambda>n c. 10 * n + (unat c - 48)) n ds" for n
    using assms d by (induction ds arbitrary: n) (simp_all add: mult.commute)
  then show ?thesis using assms d by (auto simp: num_value_def dec_value_def)
qed

text \<open>The command \<^verbatim>\<open>repeat\<close> with a count and words behind it.\<close>

lemma repeat_runs:
  assumes sys: "serves_lines sys inp out" and inv: "shell_inv sl (u_mem st)"
    and args: "list_all2 (arg_at (u_mem st) (region (sl_cmd sl) 128)) ps (w # k # ws)" and "ws \<noteq> []"
    and k: "k \<noteq> []" "\<forall>c\<in>set k. 48 \<le> c \<and> c \<le> 57" "dec_value k < 2147483648" and len: "length (concat (map (\<lambda>w. w @ [32]) ws)) < 1000"
  shows "\<exists>st'. sh_repeat sys sl ps st = Some st' \<and> answers inp out sl st st' (concat (replicate (dec_value k) (unwords ws @ [32])) @ [10])"
proof -
  obtain p0 p1 qs where ps: "ps = p0 # p1 # qs" "cstr_at (u_mem st) p1 k" "list_all2 (arg_at (u_mem st) (region (sl_cmd sl) 128)) qs ws"
    using args by (auto simp: list_all2_Cons2 arg_at_def)
  obtain e where "strtol (u_mem st) p1 10 = Some (of_nat (num_value 10 k), e)"
    using strtol_decimal_gen [of "u_mem st" p1 "[]" "[]" k "[]"] ps(2) k(1) dec_value_num [OF k(2)] by auto
  then have st: "strtol (u_mem st) p1 10 = Some (of_nat (dec_value k), e)" using dec_value_num [OF k(2)] by simp
  have n: "nat (sint (of_nat (dec_value k) :: u32)) = dec_value k" using sint_of_nat_u32 [OF k(3)] by simp
  let ?d = "lay_lit (sl_lay sl) (bytes_of '' '')"
  have sp: "bytes_of '' '' = [32]" "bytes_of '' '' \<in> set shell_lits" "[] \<in> set shell_lits" by (simp_all add: bytes_of_def shell_lits_def sh_lits_def)
  have own: "region (sl_str sl) 1024 \<subseteq> sh_own sl" by (auto simp: sh_own_def)
  have d: "cstr_at (u_mem st) ?d [32]" "region ?d 2 \<inter> region (sl_str sl) 1024 = {}"
    using shell_inv_apart [OF inv sp(2)] own by (simp add: sp(1), auto simp: sp(1) numeral_2_eq_2)
  have R: "region (sl_cmd sl) 128 \<inter> region (sl_str sl) 1024 = {}" using inv by (simp add: shell_inv_def)
  obtain m where m: "sh_words sl qs (u_mem st) = Some m" "cstr_at m (sl_str sl) (unwords ws)" "\<forall>a. a \<notin> region (sl_str sl) 1024 \<longrightarrow> m a = u_mem st a"
    using sh_words_joined [OF d R ps(3) assms(4)] len by auto
  let ?s1 = "st\<lparr>u_mem := m\<rparr>"
  have a1: "answers inp out sl st ?s1 []" using m(3) own by (auto simp: answers_def)
  have "length (unwords ws) < 1000" using len concat_spaces [OF assms(4)] by simp
  then obtain s2 where s2: "repeat_loop sys sl (dec_value k) ?s1 = Some s2" "answers inp out sl ?s1 s2 (concat (replicate (dec_value k) (unwords ws @ [32])))"
    using repeat_loop_answers [OF sys answers_inv [OF a1 inv]] m(2) by auto
  note inv2 = answers_inv [OF s2(2) answers_inv [OF a1 inv]]
  let ?e = "lay_lit (sl_lay sl) []"
  have e: "cstr_at (u_mem s2) ?e []" "?e \<noteq> NULL" "region ?e (Suc (length [])) \<inter> region (lay_printf (sl_lay sl)) 1024 = {}"
    using shell_inv_apart [OF inv2 sp(3)] by (simp, simp, auto simp: sh_own_def)
  have f: "bytes_of ''%s'' @ [10] = bytes_of ''%s'' @ [10]" "bytes_of ''%s'' @ [10] \<in> set shell_lits" by (simp_all add: shell_lits_def sh_lits_def)
  obtain s3 where s3: "sh_print sys sl (bytes_of ''%s'' @ [10]) [?e] s2 = Some s3" "answers inp out sl s2 s3 [10]"
    using sh_print_str [OF sys inv2 f _ _ e] by auto
  have "sh_repeat sys sl ps st = Some s3" using ps(1) st n m(1) s2(1) s3(1) by (simp add: sh_repeat_def)
  then show ?thesis using answers_trans [OF answers_trans [OF a1 s2(2)] s3(2)] by simp
qed

lemma help_plain: "set sh_help \<subseteq> set shell_lits" "\<forall>s\<in>set sh_help. 37 \<notin> set s \<and> length s < 1024"
  by (simp_all add: shell_lits_def sh_help_def bytes_of_def)

lemma run_cmd_reply:
  assumes sys: "serves_lines sys inp out" and inv: "shell_inv sl (u_mem st)" and line: "cstr_at (u_mem st) (sl_cmd sl) line" "length line < 128"
    and "reply (sh_split line) = Some tx"
  shows "\<exists>st'. run_cmd sys sl (sl_cmd sl) st = Some (False, st') \<and> answers inp out sl st st' tx"
proof -
  note ready = shell_inv_ready [OF inv line]
  have "Suc (length line) \<le> 128" using line(2) by simp
  then have sub: "region (sl_cmd sl) (Suc (length line)) \<subseteq> region (sl_cmd sl) 128" by (rule region_mono)
  obtain ps st1 where t: "sh_tokens sl (sl_cmd sl) st = Some (ps, st1)"
    "list_all2 (arg_at (u_mem st1) (region (sl_cmd sl) (Suc (length line)))) ps (take 4 (sh_split line))" "u_world st1 = u_world st"
    "\<forall>s\<in>set sh_lits. lit_ok (sl_lay sl) (u_mem st1) s" "\<forall>a. a \<notin> region (sl_cmd sl) (Suc (length line)) \<longrightarrow> u_mem st1 a = u_mem st a"
    by (rule sh_ready_tokens [OF ready])
  have a1: "answers inp out sl st st1 []" using t(3,5) sub by (auto simp: answers_def sh_own_def)
  have inv1: "shell_inv sl (u_mem st1)" by (rule answers_inv [OF a1 inv])
  obtain w ws where ws: "sh_split line = w # ws" using assms(5) by (cases "sh_split line") (auto simp: reply_def)
  have run: "run_cmd sys sl (sl_cmd sl) st = (case find (\<lambda>x. w = bytes_of (fst x)) (sh_commands sys sl ps) of Some x \<Rightarrow> snd x st1
      | None \<Rightarrow> map_option (Pair False) (sh_print sys sl (bytes_of ''sh: error: Unkown command'' @ [10]) [] st1))"
    using run_cmd_find [OF ready t(1,2,4), of sys] ws by simp
  consider "w \<notin> bytes_of ` set sh_names" "tx = bytes_of ''sh: error: Unkown command'' @ [10]"
    | "w \<in> bytes_of ` {'''', ''break'', ''kinfo'', ''color'', ''bgcolor''}" "tx = []"
    | "w = bytes_of ''help''" "tx = concat sh_help"
    | "w = bytes_of ''mdmp''" "length ws < 2" "tx = bytes_of ''Usage: mdmp <size> <address>'' @ [10]"
    | "w = bytes_of ''echo''" "ws \<noteq> []" "tx = unwords (take 3 ws) @ [10]"
    | "w = bytes_of ''repeat''" "ws = []" "tx = []"
    | k vs where "w = bytes_of ''repeat''" "ws = k # vs" "k \<noteq> []" "\<forall>c\<in>set k. 48 \<le> c \<and> c \<le> 57" "dec_value k < 2147483648" "vs \<noteq> []"
        "tx = concat (replicate (dec_value k) (unwords (take 2 vs) @ [32])) @ [10]"
    using assms(5) ws by (auto simp: reply_def split: if_splits list.splits)
  then show ?thesis
  proof cases
    case 1
    have "find (\<lambda>x. w = bytes_of (fst x)) (sh_commands sys sl ps) = None" using 1(1) by (simp add: sh_commands_def sh_names_def)
    moreover have "tx \<in> set shell_lits" "37 \<notin> set tx" "length tx < 1024" using 1(2) by (simp_all add: shell_lits_def sh_lits_def bytes_of_def)
    ultimately show ?thesis using run sh_print_answers [OF sys inv1, of tx] 1(2) answers_trans [OF a1] by auto
  next
    case 2
    then have "run_cmd sys sl (sl_cmd sl) st = Some (False, st1)" using run by (auto simp: sh_commands_def bytes_of_def)
    then show ?thesis using 2(2) a1 by blast
  next
    case 3
    obtain st2 where st2: "sh_prints sys sl sh_help st1 = Some st2" "answers inp out sl st1 st2 (concat sh_help)"
      using sh_prints_answers [OF sys inv1 help_plain] by blast
    then have "run_cmd sys sl (sl_cmd sl) st = Some (False, st2)" using run 3(1) by (simp add: sh_commands_def bytes_of_def)
    then show ?thesis using 3(2) answers_trans [OF a1 st2(2)] by simp
  next
    case 4
    have "length ps < 3" using t(2) ws 4(2) by (auto dest!: list_all2_lengthD)
    moreover have "tx \<in> set shell_lits" "37 \<notin> set tx" "length tx < 1024" using 4(3) by (simp_all add: shell_lits_def bytes_of_def)
    ultimately obtain st2 where st2: "sh_mdmp sys sl ps st1 = Some st2" "answers inp out sl st1 st2 tx"
      using sh_print_answers [OF sys inv1, of tx] 4(3) by (auto simp: sh_mdmp_def)
    then have "run_cmd sys sl (sl_cmd sl) st = Some (False, st2)" using run 4(1) by (simp add: sh_commands_def bytes_of_def)
    then show ?thesis using answers_trans [OF a1 st2(2)] by simp
  next
    case 5
    have wo: "writes_output sys out" using sys by (simp add: serves_lines_def)
    have s: "sh_split line = bytes_of ''echo'' # ws" using ws 5(1) by simp
    from echo_runs [OF ready wo _ s 5(2)] line(2)
    obtain st2 st' where "run_cmd sys sl (sl_cmd sl) st = Some (False, st')" "out (u_world st') = out (u_world st) @ tx" "u_world st2 = u_world st"
       "sh_print sys sl (bytes_of ''%s'' @ [10]) [sl_str sl] st2 = Some st'"
       "\<forall>a. a \<notin> region (sl_cmd sl) (Suc (length line)) \<union> region (sl_str sl) 1024 \<union> region (lay_printf (sl_lay sl)) 1024 \<longrightarrow> u_mem st' a = u_mem st a"
      unfolding 5(3) by auto
    moreover from this have "inp (u_world st') = inp (u_world st)" using sh_print_input [OF sys] by metis
    ultimately show ?thesis using sub unfolding answers_def sh_own_def by blast
  next
    case 6
    have "length ps \<le> 1" using t(2) ws 6(2) by (auto dest: list_all2_lengthD)
    then have "run_cmd sys sl (sl_cmd sl) st = Some (False, st1)" using run 6(1) by (simp add: sh_commands_def bytes_of_def sh_repeat_def)
    then show ?thesis using 6(3) a1 by blast
  next
    case (7 k vs)
    have args: "list_all2 (arg_at (u_mem st1) (region (sl_cmd sl) 128)) ps (w # k # take 2 vs)"
    proof -
      have "take 4 (w # k # vs) = w # k # take 2 vs" by (simp add: numeral_eq_Suc)
      then have "list_all2 (arg_at (u_mem st1) (region (sl_cmd sl) (Suc (length line)))) ps (w # k # take 2 vs)" using t(2) ws 7(2) by simp
      then show ?thesis by (rule list_all2_mono) (use sub in \<open>auto simp: arg_at_def\<close>)
    qed
    have "concat (map (\<lambda>w. w @ [32]) vs) = concat (map (\<lambda>w. w @ [32]) (take 2 vs)) @ concat (map (\<lambda>w. w @ [32]) (drop 2 vs))"
      by (metis append_take_drop_id concat_append map_append)
    moreover have "length (concat (map (\<lambda>w. w @ [32]) vs)) \<le> Suc (length line)" using sh_split_length [of line] unfolding ws 7(2) by simp
    ultimately have len: "length (concat (map (\<lambda>w. w @ [32]) (take 2 vs))) < 1000" using line(2) by simp
    have ne: "take 2 vs \<noteq> []" using 7(6) by simp
    obtain st2 where st2: "sh_repeat sys sl ps st1 = Some st2" "answers inp out sl st1 st2 tx"
      using repeat_runs [OF sys inv1 args ne 7(3-5) len] unfolding 7(7) by blast
    then have "run_cmd sys sl (sl_cmd sl) st = Some (False, st2)" using run 7(1) by (simp add: sh_commands_def bytes_of_def)
    then show ?thesis using answers_trans [OF a1 st2(2)] by simp
  qed
qed

lemma getline_line:
  assumes "serves_lines sys inp out" and "inp (u_world st) = l # ls" and "length l < 128" and "0 \<notin> set l" and "shell_inv sl (u_mem st)"
  shows "\<exists>r st'. getline sys (sl_cmd sl) 128 st = Some (r, st') \<and> cstr_at (u_mem st') (sl_cmd sl) l \<and> inp (u_world st') = ls
     \<and> out (u_world st') = out (u_world st) \<and> shell_inv sl (u_mem st')"
proof -
  have "sl_cmd sl \<in> sh_own sl" using in_region [of 0 128 "sl_cmd sl"] by (simp add: sh_own_def)
  then have c: "sl_cmd sl \<noteq> NULL" using assms(5) by (auto simp: shell_inv_def)
  have "length l \<le> unat (127 :: u32)" using assms(3) by simp
  then obtain r w' where r: "sys SYS_read [sl_cmd sl, 127] (u_mem st) (u_world st) = Some (r, store_bytes (u_mem st) (sl_cmd sl) (l @ [0]), w')"
    "inp w' = ls" "out w' = out (u_world st)"
    using assms(1,2) unfolding serves_lines_def by blast
  let ?m = "store_bytes (u_mem st) (sl_cmd sl) (l @ [0])"
  have "cstr_at ?m (sl_cmd sl) l" by (rule cstr_at_store_bytes) (use assms(3,4) in simp_all)
  moreover have "region (sl_cmd sl) (length (l @ [0])) \<subseteq> sh_own sl"
    using region_mono [of "length (l @ [0])" 128 "sl_cmd sl"] assms(3) by (auto simp: sh_own_def)
  then have "shell_inv sl ?m" by (intro shell_inv_frame [OF assms(5)]) (auto intro!: store_bytes_other)
  ultimately show ?thesis using r c by (auto simp: getline_def sys_read_def int80_def)
qed

lemma exit_runs:
  assumes "shell_inv sl (u_mem st)" and "cstr_at (u_mem st) (sl_cmd sl) (bytes_of ''exit'')"
  shows "\<exists>st'. run_cmd sys sl (sl_cmd sl) st = Some (True, st') \<and> u_world st' = u_world st \<and> shell_inv sl (u_mem st')"
proof -
  have len: "length (bytes_of ''exit'') < 128" "Suc (length (bytes_of ''exit'')) \<le> 128" by (simp_all add: bytes_of_def)
  note ready = shell_inv_ready [OF assms len(1)]
  obtain ps st1 where t: "sh_tokens sl (sl_cmd sl) st = Some (ps, st1)"
    "list_all2 (arg_at (u_mem st1) (region (sl_cmd sl) (Suc (length (bytes_of ''exit''))))) ps (take 4 (sh_split (bytes_of ''exit'')))" "u_world st1 = u_world st"
    "\<forall>s\<in>set sh_lits. lit_ok (sl_lay sl) (u_mem st1) s" "\<forall>a. a \<notin> region (sl_cmd sl) (Suc (length (bytes_of ''exit''))) \<longrightarrow> u_mem st1 a = u_mem st a"
    by (rule sh_ready_tokens [OF ready])
  have "sh_split (bytes_of ''exit'') = [bytes_of ''exit'']" by (simp add: bytes_of_def sh_split.simps)
  then have "run_cmd sys sl (sl_cmd sl) st = Some (True, st1)"
    using run_cmd_find [OF ready t(1,2,4), of sys] by (simp add: sh_commands_def)
  moreover have "shell_inv sl (u_mem st1)"
    by (rule shell_inv_frame [OF assms(1)]) (use t(5) region_mono [OF len(2), of "sl_cmd sl"] in \<open>auto simp: sh_own_def\<close>)
  ultimately show ?thesis using t(3) by blast
qed

lemma session_lits: "[10] \<in> set shell_lits" "bytes_of '' $ '' \<in> set shell_lits" "bytes_of ''exiting shell...'' @ [10] \<in> set shell_lits"
  "37 \<notin> set (bytes_of '' $ '')" "37 \<notin> set (bytes_of ''exiting shell...'' @ [10])" "length (bytes_of '' $ '') < 1024"
  "length (bytes_of ''exiting shell...'' @ [10]) < 1024"
  by (simp_all add: shell_lits_def bytes_of_def)

lemma sh_loop_lines:
  assumes sys: "serves_lines sys inp out" and "shell_inv sl (u_mem st)" and "inp (u_world st) = lines @ more_lines"
    and "list_all2 (\<lambda>l r. length l < 128 \<and> 0 \<notin> set l \<and> reply (sh_split l) = Some r) lines replies"
  shows "\<exists>st'. sh_loop sys sl st = sh_loop sys sl st' \<and> shell_inv sl (u_mem st') \<and> inp (u_world st') = more_lines
     \<and> out (u_world st') = out (u_world st) @ concat (map (\<lambda>r. bytes_of '' $ '' @ r) replies)"
  using assms(4,2,3)
proof (induction lines replies arbitrary: st rule: list_all2_induct)
  case (Cons l lines tx replies)
  have l: "length l < 128" "0 \<notin> set l" "reply (sh_split l) = Some tx" using Cons.hyps(1) by simp_all
  obtain s1 where s1: "sh_print sys sl (bytes_of '' $ '') [] st = Some s1" "answers inp out sl st s1 (bytes_of '' $ '')"
    using sh_print_answers [OF sys Cons.prems(1) session_lits(2,4,6)] by blast
  have i1: "inp (u_world s1) = l # lines @ more_lines" using s1(2) Cons.prems(2) by (simp add: answers_def)
  obtain r s2 where s2: "getline sys (sl_cmd sl) 128 s1 = Some (r, s2)" "cstr_at (u_mem s2) (sl_cmd sl) l" "inp (u_world s2) = lines @ more_lines"
     "out (u_world s2) = out (u_world s1)" "shell_inv sl (u_mem s2)"
    using getline_line [OF sys i1 l(1,2) answers_inv [OF s1(2) Cons.prems(1)]] by blast
  obtain s3 where s3: "run_cmd sys sl (sl_cmd sl) s2 = Some (False, s3)" "answers inp out sl s2 s3 tx"
    using run_cmd_reply [OF sys s2(5,2) l(1,3)] by blast
  have i3: "inp (u_world s3) = lines @ more_lines" using s3(2) s2(3) by (simp add: answers_def)
  obtain s4 where s4: "sh_loop sys sl s3 = sh_loop sys sl s4" "shell_inv sl (u_mem s4)" "inp (u_world s4) = more_lines"
     "out (u_world s4) = out (u_world s3) @ concat (map (\<lambda>r. bytes_of '' $ '' @ r) replies)"
    using Cons.IH [OF answers_inv [OF s3(2) s2(5)] i3] by blast
  have "sh_loop sys sl st = sh_loop sys sl s4" unfolding s4(1) [symmetric] by (subst sh_loop.simps) (simp add: s1(1) s2(1) s3(1))
  then show ?case using s1(2) s2(4) s3(2) s4(2-4) by (auto simp: answers_def)
qed auto

text \<open>The next line is printed a prompt for and read before it is run.\<close>

lemma sh_loop_reads:
  assumes sys: "serves_lines sys inp out" and "shell_inv sl (u_mem st)" and "inp (u_world st) = l # rest" and "length l < 128" and "0 \<notin> set l"
  shows "\<exists>s2. sh_loop sys sl st = Option.bind (run_cmd sys sl (sl_cmd sl) s2) (\<lambda>(quit, st3).
       if quit then map_option (Pair 0) (sh_print sys sl (bytes_of ''exiting shell...'' @ [10]) [] st3) else sh_loop sys sl st3)
     \<and> cstr_at (u_mem s2) (sl_cmd sl) l \<and> inp (u_world s2) = rest \<and> out (u_world s2) = out (u_world st) @ bytes_of '' $ '' \<and> shell_inv sl (u_mem s2)"
proof -
  obtain s1 where s1: "sh_print sys sl (bytes_of '' $ '') [] st = Some s1" "answers inp out sl st s1 (bytes_of '' $ '')"
    using sh_print_answers [OF sys assms(2) session_lits(2,4,6)] by blast
  have i1: "inp (u_world s1) = l # rest" using s1(2) assms(3) by (simp add: answers_def)
  obtain r s2 where s2: "getline sys (sl_cmd sl) 128 s1 = Some (r, s2)" "cstr_at (u_mem s2) (sl_cmd sl) l" "inp (u_world s2) = rest"
     "out (u_world s2) = out (u_world s1)" "shell_inv sl (u_mem s2)"
    using getline_line [OF sys i1 assms(4,5) answers_inv [OF s1(2) assms(2)]] by blast
  then show ?thesis using s1 by (intro exI [of _ s2]) (subst sh_loop.simps, simp add: answers_def)
qed

lemma sh_loop_exit:
  assumes sys: "serves_lines sys inp out" and "shell_inv sl (u_mem st)" and "inp (u_world st) = bytes_of ''exit'' # rest"
  shows "\<exists>st'. sh_loop sys sl st = Some (0, st') \<and> inp (u_world st') = rest
     \<and> out (u_world st') = out (u_world st) @ bytes_of '' $ '' @ bytes_of ''exiting shell...'' @ [10]"
proof -
  have ex: "length (bytes_of ''exit'') < 128" "0 \<notin> set (bytes_of ''exit'')" by (simp_all add: bytes_of_def)
  from sh_loop_reads [OF assms ex] obtain s2 where s2: "sh_loop sys sl st = Option.bind (run_cmd sys sl (sl_cmd sl) s2) (\<lambda>(quit, st3).
       if quit then map_option (Pair 0) (sh_print sys sl (bytes_of ''exiting shell...'' @ [10]) [] st3) else sh_loop sys sl st3)"
     "cstr_at (u_mem s2) (sl_cmd sl) (bytes_of ''exit'')" "inp (u_world s2) = rest" "out (u_world s2) = out (u_world st) @ bytes_of '' $ ''" "shell_inv sl (u_mem s2)"
    by blast
  obtain s3 where s3: "run_cmd sys sl (sl_cmd sl) s2 = Some (True, s3)" "u_world s3 = u_world s2" "shell_inv sl (u_mem s3)"
    using exit_runs [OF s2(5,2)] by blast
  obtain s4 where s4: "sh_print sys sl (bytes_of ''exiting shell...'' @ [10]) [] s3 = Some s4" "answers inp out sl s3 s4 (bytes_of ''exiting shell...'' @ [10])"
    using sh_print_answers [OF sys s3(3) session_lits(3,5,7)] by blast
  have "sh_loop sys sl st = Some (0, s4)" using s2(1) s3(1) s4(1) by simp
  then show ?thesis using s2(3,4) s3(2) s4(2) by (simp add: answers_def)
qed

text \<open>An empty line has no words: the command compared with \<^verbatim>\<open>exit\<close> is then a NULL pointer.\<close>

lemma sh_loop_empty:
  assumes sys: "serves_lines sys inp out" and "shell_inv sl (u_mem st)" and "inp (u_world st) = [] # rest"
  shows "sh_loop sys sl st = None"
proof -
  from sh_loop_reads [OF assms] obtain s2 where s2: "sh_loop sys sl st = Option.bind (run_cmd sys sl (sl_cmd sl) s2) (\<lambda>(quit, st3).
       if quit then map_option (Pair 0) (sh_print sys sl (bytes_of ''exiting shell...'' @ [10]) [] st3) else sh_loop sys sl st3)"
     "cstr_at (u_mem s2) (sl_cmd sl) []" "shell_inv sl (u_mem s2)"
    by auto
  have ready: "sh_ready sl (u_mem s2) (sl_cmd sl) []" by (rule shell_inv_ready [OF s2(3,2)]) simp
  obtain ps st1 where t: "sh_tokens sl (sl_cmd sl) s2 = Some (ps, st1)"
    "list_all2 (arg_at (u_mem st1) (region (sl_cmd sl) (Suc (length ([] :: u8 list))))) ps (take 4 (sh_split []))" "u_world st1 = u_world s2" "\<forall>s\<in>set sh_lits. lit_ok (sl_lay sl) (u_mem st1) s"
    by (rule sh_ready_tokens [OF ready]) blast
  have "run_cmd sys sl (sl_cmd sl) s2 = None" using run_cmd_find [OF ready t(1,2,4), of sys] by simp
  then show ?thesis using s2(1) by simp
qed

text \<open>Property C15: a whole session. The lines that have an answer are those that start with a word that is no
  command or with a space, \<^verbatim>\<open>break\<close>, \<^verbatim>\<open>kinfo\<close>, \<^verbatim>\<open>color\<close>, \<^verbatim>\<open>bgcolor\<close>, \<^verbatim>\<open>help\<close>, \<^verbatim>\<open>mdmp\<close> with fewer than two arguments,
  \<^verbatim>\<open>echo\<close> with words, and \<^verbatim>\<open>repeat\<close> alone or with a decimal count and words. After any such lines, when
  \<^verbatim>\<open>exit\<close> follows, the shell returns 0, having printed a prompt and the answer for each line and the farewell for
  the last, and the lines behind \<^verbatim>\<open>exit\<close> are not read; when an empty line follows, the session has no defined
  result, for the shell compares a NULL pointer with the command names. The other lines (\<^verbatim>\<open>mdmp\<close> with its arguments,
  \<^verbatim>\<open>sd\<close>, \<^verbatim>\<open>echo\<close> and \<^verbatim>\<open>repeat\<close> without words to join) are outside this property.\<close>

theorem shell_session:
  assumes "serves_lines sys inp out" and "shell_inv sl (u_mem st)" and "inp (u_world st) = lines @ final # rest"
    and "list_all2 (\<lambda>l r. length l < 128 \<and> 0 \<notin> set l \<and> reply (sh_split l) = Some r) lines replies"
  shows "(final = bytes_of ''exit'' \<longrightarrow> (\<exists>st'. shall_main sys sl st = Some (0, st') \<and> inp (u_world st') = rest
     \<and> out (u_world st') = out (u_world st) @ [10] @ concat (map (\<lambda>r. bytes_of '' $ '' @ r) replies) @ bytes_of '' $ '' @ bytes_of ''exiting shell...'' @ [10]))
     \<and> (final = [] \<longrightarrow> shall_main sys sl st = None)"
proof -
  obtain s1 where s1: "sh_print sys sl [10] [] st = Some s1" "answers inp out sl st s1 [10]"
    using sh_print_answers [OF assms(1,2) session_lits(1)] by auto
  have i1: "inp (u_world s1) = lines @ final # rest" using s1(2) assms(3) by (simp add: answers_def)
  obtain s2 where s2: "sh_loop sys sl s1 = sh_loop sys sl s2" "shell_inv sl (u_mem s2)" "inp (u_world s2) = final # rest"
     "out (u_world s2) = out (u_world s1) @ concat (map (\<lambda>r. bytes_of '' $ '' @ r) replies)"
    using sh_loop_lines [OF assms(1) answers_inv [OF s1(2) assms(2)] i1 assms(4)] by blast
  have main: "shall_main sys sl st = sh_loop sys sl s2" using s1(1) s2(1) by (simp add: shall_main_def)
  have "out (u_world s2) = out (u_world st) @ [10] @ concat (map (\<lambda>r. bytes_of '' $ '' @ r) replies)" using s1(2) s2(4) by (simp add: answers_def)
  then show ?thesis
    using sh_loop_exit [OF assms(1) s2(2), of rest] sh_loop_empty [OF assms(1) s2(2), of rest] s2(3) unfolding main by auto
qed

section \<open>A shell in memory\<close>

definition demo_shell :: shell_layout where
  "demo_shell = \<lparr>sl_lay = \<lparr>lay_lit = pool_addr 0x5000 shell_lits, lay_null = 0x4000, lay_printf = 0x1000\<rparr>, sl_cmd = 0x2000, sl_str = 0x3000, sl_esp = 0x8000\<rparr>"

definition shell_mem :: "u8 list \<Rightarrow> mem" where
  "shell_mem line = store_bytes (store_bytes (\<lambda>_. 0) 0x5000 (pool_bytes shell_lits)) 0x2000 (line @ [0])"

definition shell_state :: "u8 list \<Rightarrow> u8 list list \<Rightarrow> terminal user" where
  "shell_state line inp = \<lparr>u_mem = shell_mem line, u_next_token = NULL, u_world = \<lparr>t_in = inp, t_out = []\<rparr>\<rparr>"

lemma pool_length: "length (pool_bytes shell_lits) < 0x1000"
  by (simp add: pool_bytes_def shell_lits_def sh_lits_def dump_lits_def sh_help_def bytes_of_def)

lemma shell_lits_nz: "s \<in> set shell_lits \<Longrightarrow> 0 \<notin> set s"
  by (auto simp: shell_lits_def sh_lits_def dump_lits_def sh_help_def bytes_of_def)

lemma demo_apart:
  "region 0x1000 1024 \<inter> region (0x3000 :: u32) 1024 = {}"
  "n \<le> 0x1000 \<Longrightarrow> region 0x1000 1024 \<inter> region (0x2000 :: u32) n = {}"
  "n \<le> 0x1000 \<Longrightarrow> region 0x2000 n \<inter> region (0x3000 :: u32) 1024 = {}"
  "n \<le> 0x1000 \<Longrightarrow> region 0x2000 n \<inter> region (0x5000 :: u32) (length (pool_bytes shell_lits)) = {}"
  "region 0x3000 1024 \<inter> region (0x5000 :: u32) (length (pool_bytes shell_lits)) = {}"
  "region 0x1000 1024 \<inter> region (0x5000 :: u32) (length (pool_bytes shell_lits)) = {}"
  using pool_length by (simp_all add: region_apart)

lemma demo_lit:
  assumes "s \<in> set shell_lits" and "length line < 0x1000"
  shows "cstr_at (shell_mem line) (lay_lit (sl_lay demo_shell) s) s"
    "region (lay_lit (sl_lay demo_shell) s) (Suc (length s)) \<subseteq> region 0x5000 (length (pool_bytes shell_lits))"
proof -
  have "bytes_at (shell_mem line) 0x5000 (length (pool_bytes shell_lits))
      = bytes_at (store_bytes (\<lambda>_. 0) 0x5000 (pool_bytes shell_lits)) 0x5000 (length (pool_bytes shell_lits))"
    unfolding shell_mem_def
    by (rule bytes_at_cong, rule store_bytes_other) (use demo_apart(4) [of "Suc (length line)"] assms(2) in auto)
  also have "\<dots> = pool_bytes shell_lits" by (rule bytes_at_store_bytes) (use pool_length in simp)
  finally have "bytes_at (shell_mem line) 0x5000 (length (pool_bytes shell_lits)) = pool_bytes shell_lits" .
  from pool_at [OF assms(1) shell_lits_nz [OF assms(1)] this]
  show "cstr_at (shell_mem line) (lay_lit (sl_lay demo_shell) s) s"
    "region (lay_lit (sl_lay demo_shell) s) (Suc (length s)) \<subseteq> region 0x5000 (length (pool_bytes shell_lits))"
    by (simp_all add: demo_shell_def)
qed

lemma demo_lit_ok:
  assumes "s \<in> set shell_lits" and "length line < 0x1000"
  shows "lit_ok (sl_lay demo_shell) (shell_mem line) s"
  using demo_lit [OF assms] demo_apart(6) unfolding lit_ok_def by (auto simp: demo_shell_def)

lemma demo_inv:
  assumes "length line < 0x1000"
  shows "shell_inv demo_shell (shell_mem line)"
proof -
  have n: "NULL \<notin> region 0x2000 128" "NULL \<notin> region 0x3000 1024" "NULL \<notin> region 0x1000 1024" "NULL \<notin> region 0x5000 (length (pool_bytes shell_lits))"
    using pool_length by (simp_all add: null_apart)
  have own: "sh_own demo_shell = region 0x2000 128 \<union> region 0x3000 1024 \<union> region 0x1000 1024" by (simp add: sh_own_def demo_shell_def)
  have d: "region (0x1000 :: u32) 1024 \<inter> region 0x2000 128 = {}" "region (0x2000 :: u32) 128 \<inter> region 0x3000 1024 = {}"
    "region (0x2000 :: u32) 128 \<inter> region 0x5000 (length (pool_bytes shell_lits)) = {}"
    by (simp_all add: demo_apart)
  have lits: "lay_lit (sl_lay demo_shell) s \<noteq> NULL \<and> cstr_at (shell_mem line) (lay_lit (sl_lay demo_shell) s) s
      \<and> region (lay_lit (sl_lay demo_shell) s) (Suc (length s)) \<inter> sh_own demo_shell = {}" if s: "s \<in> set shell_lits" for s
  proof -
    note l = demo_lit [OF s assms]
    have "lay_lit (sl_lay demo_shell) s \<in> region (lay_lit (sl_lay demo_shell) s) (Suc (length s))" by (simp add: region_Suc)
    then have "lay_lit (sl_lay demo_shell) s \<noteq> NULL" using l(2) n(4) by auto
    then show ?thesis using l d(3) demo_apart(5,6) unfolding own by blast
  qed
  have "NULL \<notin> sh_own demo_shell" using n(1-3) unfolding own by blast
  then show ?thesis using lits d(1,2) demo_apart(1) unfolding shell_inv_def by (auto simp: demo_shell_def)
qed

lemma demo_ready:
  assumes "0 \<notin> set line" and "length line < 128"
  shows "sh_ready demo_shell (shell_mem line) 0x2000 line"
proof -
  have c: "cstr_at (shell_mem line) (sl_cmd demo_shell) line"
    unfolding shell_mem_def by (simp add: demo_shell_def, rule cstr_at_store_bytes) (use assms in simp_all)
  from shell_inv_ready [OF demo_inv c assms(2)] assms(2) show ?thesis by (simp add: demo_shell_def)
qed

lemma shell_state_sel [simp]: "u_mem (shell_state line inp) = shell_mem line" "u_world (shell_state line inp) = \<lparr>t_in = inp, t_out = []\<rparr>"
  by (simp_all add: shell_state_def)

lemma demo_split:
  "sh_split (bytes_of ''echo a  b c'') = [bytes_of ''echo'', [97], [], [98], [99]]"
  "sh_split (bytes_of ''exit'') = [bytes_of ''exit'']" "sh_split (bytes_of ''foo'') = [bytes_of ''foo'']"
  by (simp_all add: bytes_of_def sh_split.simps)

lemma demo_lengths: "length (bytes_of s) = length s" "0 \<notin> set (bytes_of ''echo a  b c'')" "0 \<notin> set (bytes_of ''foo'')"
  by (simp_all add: bytes_of_def)

theorem shell_args_are_words_witness:
  "\<exists>args st'. sh_tokens demo_shell 0x2000 (shell_state (bytes_of ''echo a  b c'') []) = Some (args, st')
     \<and> list_all2 (cstr_at (u_mem st')) args [bytes_of ''echo'', [97], [], [98]]"
proof -
  let ?line = "bytes_of ''echo a  b c''"
  have ready: "sh_ready demo_shell (shell_mem ?line) 0x2000 ?line" by (rule demo_ready) (simp_all add: demo_lengths)
  have sp: "[32] \<in> set sh_lits" "bytes_of '' '' = [32]" by (simp_all add: sh_lits_def bytes_of_def)
  have lit: "lay_lit (sl_lay demo_shell) [32] \<noteq> NULL" "cstr_at (shell_mem ?line) (lay_lit (sl_lay demo_shell) [32]) [32]"
    "region (lay_lit (sl_lay demo_shell) [32]) 2 \<inter> region 0x2000 (Suc (length ?line)) = {}"
    using bspec [OF ready [unfolded sh_ready_def, THEN conjunct2, THEN conjunct2, THEN conjunct2, THEN conjunct2, THEN conjunct2, THEN conjunct2, THEN conjunct2] sp(1)]
    by (simp_all add: lit_ok_def numeral_2_eq_2)
  have line: "cstr_at (shell_mem ?line) 0x2000 ?line" "NULL \<notin> region 0x2000 (Suc (length ?line))" using ready by (simp_all add: sh_ready_def)
  have "\<exists>args st'. sh_tokens demo_shell 0x2000 (shell_state ?line []) = Some (args, st')
     \<and> list_all2 (\<lambda>p w. p \<noteq> NULL \<and> cstr_at (u_mem st') p w \<and> region p (Suc (length w)) \<subseteq> region 0x2000 (Suc (length ?line)))
          args (take 4 (sh_split ?line))
     \<and> (\<forall>a. a \<notin> region 0x2000 (Suc (length ?line)) \<longrightarrow> u_mem st' a = u_mem (shell_state ?line []) a) \<and> u_world st' = u_world (shell_state ?line [])"
    by (rule shell_args_are_words [OF refl]) (unfold sp(2) shell_state_sel, (rule lit line)+)
  then show ?thesis unfolding demo_split by (auto elim!: list_all2_mono)
qed

theorem run_cmd_chooses_witness:
  "\<exists>st'. run_cmd term_kernel demo_shell 0x2000 (shell_state (bytes_of ''foo'') []) = Some (False, st')
     \<and> t_out (u_world st') = bytes_of ''sh: error: Unkown command'' @ [10]"
proof -
  have "sh_ready demo_shell (u_mem (shell_state (bytes_of ''foo'') [])) 0x2000 (bytes_of ''foo'')"
    unfolding shell_state_sel by (rule demo_ready) (simp_all add: demo_lengths)
  from run_cmd_chooses [OF this term_writes_output refl] show ?thesis unfolding demo_split by (simp add: bytes_of_def)
qed

theorem run_cmd_echo_witness:
  "\<exists>st'. run_cmd term_kernel demo_shell 0x2000 (shell_state (bytes_of ''echo a  b c'') []) = Some (False, st')
     \<and> t_out (u_world st') = bytes_of ''a  b'' @ [10]"
proof -
  have "sh_ready demo_shell (u_mem (shell_state (bytes_of ''echo a  b c'') [])) 0x2000 (bytes_of ''echo a  b c'')"
    unfolding shell_state_sel by (rule demo_ready) (simp_all add: demo_lengths)
  from run_cmd_echo [OF this term_writes_output _ demo_split(1)] show ?thesis by (simp add: bytes_of_def)
qed

theorem mdmp_dumps_witness:
  "\<exists>st'. mdmp_rows term_kernel demo_shell 0 2 0x2000 (shell_state (bytes_of ''foo'') []) = Some st'
     \<and> t_out (u_world st') = bytes_of ''0x00002000: 66 6f                                            |fo|'' @ [10]"
proof -
  have lits: "\<forall>s\<in>set dump_lits. lit_ok (sl_lay demo_shell) (u_mem (shell_state (bytes_of ''foo'') [])) s"
    unfolding shell_state_sel by (intro ballI demo_lit_ok) (simp_all add: demo_lengths shell_lits_def)
  have far: "\<forall>j<unat (2 :: u32). 0x2000 + of_nat j \<notin> region (lay_printf (sl_lay demo_shell)) 1024"
    using demo_apart(2) [of 2] by (auto simp: region_def demo_shell_def)
  have "dump_row (shell_mem (bytes_of ''foo'')) 0 2 0x2000 = bytes_of ''0x00002000: 66 6f                                            |fo|'' @ [10]"
    by code_simp
  with mdmp_dumps [where sl = demo_shell and count = 2 and addr = "0x2000", OF term_writes_output _ lits far]
  show ?thesis by (simp add: demo_shell_def)
qed

lemma term_serves_lines: "serves_lines term_kernel t_in t_out"
  by (auto simp: serves_lines_def term_writes_output term_kernel_def SYS_write_def SYS_read_def split: if_splits)

theorem shell_session_witness:
  "(\<exists>st'. shall_main term_kernel demo_shell (shell_state [] [bytes_of ''echo hi you'', bytes_of ''ls'', bytes_of ''repeat 3 ho'', bytes_of ''exit'', bytes_of ''help'']) = Some (0, st')
     \<and> t_in (u_world st') = [bytes_of ''help'']
     \<and> t_out (u_world st') = [10] @ bytes_of '' $ hi you'' @ [10] @ bytes_of '' $ sh: error: Unkown command'' @ [10]
          @ bytes_of '' $ ho ho ho '' @ [10] @ bytes_of '' $ exiting shell...'' @ [10])
   \<and> shall_main term_kernel demo_shell (shell_state [] [bytes_of ''echo hi you'', bytes_of ''ls'', bytes_of ''repeat 3 ho'', [], bytes_of ''exit'']) = None"
proof -
  let ?lines = "[bytes_of ''echo hi you'', bytes_of ''ls'', bytes_of ''repeat 3 ho'']"
  have inv: "shell_inv demo_shell (u_mem (shell_state [] ls))" for ls unfolding shell_state_sel by (rule demo_inv) simp
  have inp: "t_in (u_world (shell_state [] (?lines @ l # ls))) = ?lines @ l # ls" for l ls by simp
  have "reply (sh_split (bytes_of ''echo hi you'')) = Some (bytes_of ''hi you'' @ [10])" by code_simp
  moreover have "reply (sh_split (bytes_of ''ls'')) = Some (bytes_of ''sh: error: Unkown command'' @ [10])" by code_simp
  moreover have "reply (sh_split (bytes_of ''repeat 3 ho'')) = Some (bytes_of ''ho ho ho '' @ [10])" by (simp add: reply_def sh_names_def bytes_of_def sh_split.simps dec_value_def numeral_3_eq_3)
  ultimately have all: "list_all2 (\<lambda>l r. length l < 128 \<and> 0 \<notin> set l \<and> reply (sh_split l) = Some r) ?lines
      [bytes_of ''hi you'' @ [10], bytes_of ''sh: error: Unkown command'' @ [10], bytes_of ''ho ho ho '' @ [10]]"
    by (simp add: demo_lengths) (simp add: bytes_of_def)
  from shell_session [OF term_serves_lines inv inp all, of "bytes_of ''exit''" "[bytes_of ''help'']"]
    shell_session [OF term_serves_lines inv inp all, of "[]" "[bytes_of ''exit'']"]
  show ?thesis by (simp add: bytes_of_def)
qed

end
