(* ===== verification/C_Layout.thy ===== *)
theory C_Layout
  imports C_Memory
begin

text \<open>
  How the compiler lays a structure out in memory. A structure is a list of field widths in bytes (an
  array member is its element's width, repeated) and the list of its field values; each value is
  stored little-endian, and a packed structure is the concatenation of its fields. A structure
  without the attribute \<^verbatim>\<open>packed\<close> has each member at a multiple of its width, with padding between
  members where that is needed; \<open>no_padding\<close> decides that no padding is needed, so that both layouts
  agree. The locale \<open>c_struct\<close> is what a structure type has to provide to be read and written through
  a pointer to its bytes; the lemmas inside it are the laws every such structure obeys, alone and as
  the element of an array.
\<close>

section \<open>Ranges of memory\<close>

lemma region_iff: "n \<le> 4294967296 \<Longrightarrow> a \<in> region p n \<longleftrightarrow> unat (a - p) < n"
proof
  assume n: "n \<le> 4294967296" and "a \<in> region p n"
  then obtain i where "i < n" "a = p + of_nat i"
    by (auto simp: region_def)
  with n show "unat (a - p) < n"
    by simp
next
  assume "unat (a - p) < n"
  moreover have "a = p + of_nat (unat (a - p))"
    by simp
  ultimately show "a \<in> region p n"
    unfolding region_def by blast
qed

lemma take_drop_bytes_at:
  assumes "i + j \<le> n"
  shows "take j (drop i (bytes_at m p n)) = bytes_at m (p + of_nat i) j"
proof -
  obtain k where "n = i + (j + k)"
    using assms le_Suc_ex by (metis add.assoc)
  then show ?thesis
    by (simp add: bytes_at_append)
qed

section \<open>Scalars\<close>

primrec le_bytes :: "nat \<Rightarrow> nat \<Rightarrow> u8 list" where
  "le_bytes 0 v = []"
| "le_bytes (Suc w) v = of_nat v # le_bytes w (v div 256)"

primrec le_nat :: "u8 list \<Rightarrow> nat" where
  "le_nat [] = 0"
| "le_nat (b # bs) = unat b + 256 * le_nat bs"

lemma length_le_bytes [simp]: "length (le_bytes w v) = w"
  by (induction w arbitrary: v) auto

lemma unat_u8_bound [simp]: "unat (b :: u8) < 256"
  using unsigned_less [of b] by simp

lemma unat_u16_bound [simp]: "unat (b :: u16) < 65536"
  using unsigned_less [of b] by simp

lemma le_nat_le_bytes [simp]: "v < 256 ^ w \<Longrightarrow> le_nat (le_bytes w v) = v"
proof (induction w arbitrary: v)
  case (Suc w)
  then have "v div 256 < 256 ^ w"
    by (simp add: less_mult_imp_div_less mult.commute)
  then show ?case
    using Suc.IH [of "v div 256"] by (simp add: unat_of_nat)
qed simp

lemma le_bytes_inject: "v < 256 ^ w \<Longrightarrow> v' < 256 ^ w \<Longrightarrow> le_bytes w v = le_bytes w v' \<longleftrightarrow> v = v'"
  using le_nat_le_bytes [of v w] le_nat_le_bytes [of v' w] by metis

lemma le_bytes_numeral: "le_bytes (numeral k) v = of_nat v # le_bytes (pred_numeral k) (v div 256)"
  using le_bytes.simps(2) [of "pred_numeral k" v] by (simp only: numeral_eq_Suc)

lemma le_bytes_le_nat: "le_bytes (length bs) (le_nat bs) = bs"
proof (induction bs)
  case (Cons b bs)
  have "(256 :: u8) = 0"
    by simp
  then have "(of_nat (256 * le_nat bs) :: u8) = 0"
    by (simp only: of_nat_mult of_nat_numeral mult_zero_left)
  moreover have "(unat b + 256 * le_nat bs) div 256 = le_nat bs"
    using unat_u8_bound [of b] by simp
  ultimately show ?case
    using Cons by (simp del: of_nat_mult)
qed simp

lemma le_nat_bound: "le_nat bs < 256 ^ length bs"
proof (induction bs)
  case (Cons b bs)
  then show ?case
    using unat_u8_bound [of b] by (simp add: less_eq_Suc_le)
qed simp

section \<open>Words in memory\<close>

definition write32 :: "mem \<Rightarrow> u32 \<Rightarrow> u32 \<Rightarrow> mem" where
  "write32 m a v = store_bytes m a (le_bytes 4 (unat v))"

definition read32 :: "mem \<Rightarrow> u32 \<Rightarrow> u32" where
  "read32 m a = of_nat (le_nat (bytes_at m a 4))"

lemma read_write_same [simp]: "read32 (write32 m a v) a = v"
  using bytes_at_store_bytes [of "le_bytes 4 (unat v)" m a] by (simp add: read32_def write32_def)

lemma write32_other: "a \<notin> region p 4 \<Longrightarrow> write32 m p v a = m a"
  using store_bytes_other [of a p "le_bytes 4 (unat v)" m] by (simp add: write32_def)

lemma read_write_other:
  assumes "4 \<le> a - b" and "4 \<le> b - a"
  shows "read32 (write32 m b v) a = read32 m a"
proof -
  have "write32 m b v x = m x" if "x \<in> region a 4" for x
  proof (rule write32_other)
    have "unat (x - a) < 4"
      using that by (simp add: region_iff)
    moreover have "x - b = (x - a) + (a - b)"
      by simp
    moreover have far: "4 \<le> unat (a - b)" "4 \<le> unat (0 - (a - b))"
      using assms by (simp_all add: word_le_nat_alt)
    moreover have "unat (a - b) + 4 \<le> 4294967296"
      using far unat_u32_bound [of "a - b"] by (simp add: unat_sub_if' del: diff_0 split: if_splits)
    ultimately have "4 \<le> unat (x - b)"
      by (simp only: unat_plus_if') (auto split: if_splits)
    then show "x \<notin> region b 4"
      by (simp add: region_iff)
  qed
  then show ?thesis
    by (simp add: read32_def cong: bytes_at_cong)
qed

section \<open>Fields\<close>

fun pack :: "nat list \<Rightarrow> nat list \<Rightarrow> u8 list" where
  "pack (w # ws) (v # vs) = le_bytes w v @ pack ws vs"
| "pack _ _ = []"

primrec unpack :: "nat list \<Rightarrow> u8 list \<Rightarrow> nat list" where
  "unpack [] bs = []"
| "unpack (w # ws) bs = le_nat (take w bs) # unpack ws (drop w bs)"

definition fits :: "nat list \<Rightarrow> nat list \<Rightarrow> bool" where
  "fits ws vs = list_all2 (\<lambda>w v. v < 256 ^ w) ws vs"

definition offset_of :: "nat list \<Rightarrow> nat \<Rightarrow> nat" where
  "offset_of ws i = sum_list (take i ws)"

text \<open>Where the members of a structure without \<^verbatim>\<open>packed\<close> start, and its size: the end, rounded up to
  the strictest alignment among the members.\<close>

definition round_up :: "nat \<Rightarrow> nat \<Rightarrow> nat" where
  "round_up w n = (n + (w - 1)) div w * w"

primrec natural_offsets :: "nat \<Rightarrow> nat list \<Rightarrow> nat list" where
  "natural_offsets n [] = []"
| "natural_offsets n (w # ws) = (let p = round_up w n in p # natural_offsets (p + w) ws)"

primrec natural_end :: "nat \<Rightarrow> nat list \<Rightarrow> nat" where
  "natural_end n [] = n"
| "natural_end n (w # ws) = natural_end (round_up w n + w) ws"

definition natural_size :: "nat list \<Rightarrow> nat" where
  "natural_size ws = round_up (Max (set ws)) (natural_end 0 ws)"

definition no_padding :: "nat list \<Rightarrow> bool" where
  "no_padding ws \<longleftrightarrow> natural_offsets 0 ws = map (offset_of ws) [0..<length ws]
     \<and> natural_size ws = sum_list ws"

lemma fits_simps [simp]:
  "fits [] vs \<longleftrightarrow> vs = []"
  "fits (w # ws) vs \<longleftrightarrow> (\<exists>v us. vs = v # us \<and> v < 256 ^ w \<and> fits ws us)"
  "fits ws [] \<longleftrightarrow> ws = []"
  by (auto simp: fits_def list_all2_Cons1)

lemma fits_append:
  "fits (ws @ ws') vs \<longleftrightarrow> (\<exists>us us'. vs = us @ us' \<and> fits ws us \<and> fits ws' us')"
proof -
  have "fits ws us \<Longrightarrow> fits ws' us' \<Longrightarrow> fits (ws @ ws') (us @ us')" for us us'
    by (simp add: fits_def list_all2_appendI)
  moreover have "\<exists>us us'. vs = us @ us' \<and> fits ws us \<and> fits ws' us'" if "fits (ws @ ws') vs"
    using that unfolding fits_def list_all2_append1 by blast
  ultimately show ?thesis by blast
qed

lemma fits_append_length:
  "length us = length ws \<Longrightarrow> fits (ws @ ws') (us @ us') \<longleftrightarrow> fits ws us \<and> fits ws' us'"
  by (simp add: fits_def list_all2_append)

lemma fits_replicate: "fits (replicate n w) vs \<longleftrightarrow> length vs = n \<and> (\<forall>v\<in>set vs. v < 256 ^ w)"
  by (induction n arbitrary: vs) (auto simp: length_Suc_conv)

lemma fits_length: "fits ws vs \<Longrightarrow> length vs = length ws"
  by (simp add: fits_def list_all2_lengthD)

lemma length_pack: "fits ws vs \<Longrightarrow> length (pack ws vs) = sum_list ws"
  by (induction ws vs rule: pack.induct) auto

lemma unpack_pack: "fits ws vs \<Longrightarrow> unpack ws (pack ws vs @ rest) = vs"
  by (induction ws vs rule: pack.induct) auto

lemma pack_unpack: "sum_list ws \<le> length bs \<Longrightarrow> pack ws (unpack ws bs) = take (sum_list ws) bs"
proof (induction ws arbitrary: bs)
  case (Cons w ws)
  then have "length (take w bs) = w"
    by simp
  then have "le_bytes w (le_nat (take w bs)) = take w bs"
    using le_bytes_le_nat [of "take w bs"] by metis
  with Cons show ?case
    by (simp add: take_add)
qed simp

lemma fits_unpack: "sum_list ws \<le> length bs \<Longrightarrow> fits ws (unpack ws bs)"
proof (induction ws arbitrary: bs)
  case (Cons w ws)
  then have "length (take w bs) = w"
    by simp
  then have "le_nat (take w bs) < 256 ^ w"
    using le_nat_bound [of "take w bs"] by metis
  with Cons show ?case by simp
qed simp

text \<open>Each field is found at its offset.\<close>

lemma pack_field:
  "fits ws vs \<Longrightarrow> i < length ws
     \<Longrightarrow> take (ws ! i) (drop (offset_of ws i) (pack ws vs)) = le_bytes (ws ! i) (vs ! i)"
proof (induction ws vs arbitrary: i rule: pack.induct)
  case (1 w ws v vs)
  then show ?case
    by (cases i) (auto simp: offset_of_def)
qed auto

lemma unpack_nth:
  "i < length ws \<Longrightarrow> unpack ws bs ! i = le_nat (take (ws ! i) (drop (offset_of ws i) bs))"
proof (induction ws arbitrary: bs i)
  case (Cons w ws)
  then show ?case
    by (cases i) (auto simp: offset_of_def add.commute)
qed simp

lemma length_unpack [simp]: "length (unpack ws bs) = length ws"
  by (induction ws arbitrary: bs) auto

lemma unpack_take: "sum_list ws \<le> n \<Longrightarrow> unpack ws (take n bs) = unpack ws bs"
  by (induction ws arbitrary: n bs) (auto simp: drop_take min_def)

lemma unpack_append: "sum_list ws \<le> length bs \<Longrightarrow> unpack ws (bs @ cs) = unpack ws bs"
  using unpack_take [of ws "length bs" "bs @ cs"] by simp

lemma offset_bound: "i < length ws \<Longrightarrow> offset_of ws i + ws ! i \<le> sum_list ws"
proof -
  assume "i < length ws"
  then have "offset_of ws i + ws ! i = sum_list (take (Suc i) ws)"
    by (simp add: offset_of_def take_Suc_conv_app_nth)
  also have "\<dots> \<le> sum_list (take (Suc i) ws @ drop (Suc i) ws)"
    by (simp only: sum_list_append)
  finally show ?thesis by simp
qed

lemma field_in_memory:
  assumes "fits ws vs" and "bytes_at m p (sum_list ws) = pack ws vs" and "i < length ws"
  shows "bytes_at m (p + of_nat (offset_of ws i)) (ws ! i) = le_bytes (ws ! i) (vs ! i)"
proof -
  have "offset_of ws i + ws ! i \<le> sum_list ws"
    by (rule offset_bound [OF assms(3)])
  then show ?thesis
    using pack_field [OF assms(1, 3)] take_drop_bytes_at [of "offset_of ws i" "ws ! i" "sum_list ws" m p] assms(2) by simp
qed

text \<open>Array members.\<close>

lemma map_of_nat_unat [simp]: "map (of_nat \<circ> unat) (xs :: 'a::len word list) = xs"
  by (induction xs) auto

lemma map_unat_of_nat:
  "(\<forall>v\<in>set vs. v < 2 ^ LENGTH('a)) \<Longrightarrow> map (unat \<circ> (of_nat :: nat \<Rightarrow> 'a::len word)) vs = vs"
  by (induction vs) (auto simp: unat_of_nat)

lemmas struct_fit = fits_append_length fits_replicate

lemmas struct_split = fits_append fits_replicate unat_of_nat map_unat_of_nat nth_append

section \<open>Structures\<close>

definition enc_struct :: "nat list \<Rightarrow> ('a \<Rightarrow> nat list) \<Rightarrow> 'a \<Rightarrow> u8 list" where
  "enc_struct ws fields x = pack ws (fields x)"

definition dec_struct :: "nat list \<Rightarrow> (nat list \<Rightarrow> 'a) \<Rightarrow> u8 list \<Rightarrow> 'a" where
  "dec_struct ws build bs = build (unpack ws bs)"

text \<open>An element of an array of structures, read and written through the array's bytes.\<close>

definition get_elem :: "nat list \<Rightarrow> (nat list \<Rightarrow> 'a) \<Rightarrow> u8 list \<Rightarrow> nat \<Rightarrow> 'a" where
  "get_elem ws build bs i = dec_struct ws build (drop (i * sum_list ws) bs)"

definition put_elem :: "nat list \<Rightarrow> ('a \<Rightarrow> nat list) \<Rightarrow> u8 list \<Rightarrow> nat \<Rightarrow> 'a \<Rightarrow> u8 list" where
  "put_elem ws fields bs i x =
     take (i * sum_list ws) bs @ enc_struct ws fields x @ drop (Suc i * sum_list ws) bs"

definition elems :: "nat list \<Rightarrow> (nat list \<Rightarrow> 'a) \<Rightarrow> u8 list \<Rightarrow> nat \<Rightarrow> 'a list" where
  "elems ws build bs n = map (get_elem ws build bs) [0..<n]"

locale c_struct =
  fixes ok :: "'a \<Rightarrow> bool" and ws :: "nat list" and fields :: "'a \<Rightarrow> nat list" and build :: "nat list \<Rightarrow> 'a"
  assumes fields_fit: "ok x \<Longrightarrow> fits ws (fields x)"
    and build_fields: "ok x \<Longrightarrow> build (fields x) = x"
    and fields_build: "fits ws vs \<Longrightarrow> ok (build vs) \<and> fields (build vs) = vs"
begin

lemma length_enc: "ok x \<Longrightarrow> length (enc_struct ws fields x) = sum_list ws"
  by (simp add: enc_struct_def length_pack fields_fit)

lemma dec_enc: "ok x \<Longrightarrow> dec_struct ws build (enc_struct ws fields x @ rest) = x"
  by (simp add: enc_struct_def dec_struct_def unpack_pack fields_fit build_fields)

lemma enc_dec:
  "sum_list ws \<le> length bs \<Longrightarrow> enc_struct ws fields (dec_struct ws build bs) = take (sum_list ws) bs"
  by (simp add: enc_struct_def dec_struct_def fields_build fits_unpack pack_unpack)

lemma ok_dec: "sum_list ws \<le> length bs \<Longrightarrow> ok (dec_struct ws build bs)"
  by (simp add: dec_struct_def fields_build fits_unpack)

lemma enc_inject: "ok x \<Longrightarrow> ok y \<Longrightarrow> enc_struct ws fields x = enc_struct ws fields y \<longleftrightarrow> x = y"
  using dec_enc [of x "[]"] dec_enc [of y "[]"] by metis

lemma field_at:
  "ok x \<Longrightarrow> i < length ws
     \<Longrightarrow> take (ws ! i) (drop (offset_of ws i) (enc_struct ws fields x)) = le_bytes (ws ! i) (fields x ! i)"
  by (simp add: enc_struct_def pack_field fields_fit)

lemma put_split:
  assumes "ok x" and "Suc i * sum_list ws \<le> length bs"
  obtains us vs zs where "bs = us @ vs @ zs" and "length us = i * sum_list ws" and "length vs = sum_list ws"
    and "put_elem ws fields bs i x = us @ enc_struct ws fields x @ zs"
proof (rule that)
  have le: "i * sum_list ws + sum_list ws \<le> length bs"
    using assms(2) by (simp add: add.commute)
  have "take (i * sum_list ws) bs @ take (sum_list ws) (drop (i * sum_list ws) bs) = take (Suc i * sum_list ws) bs"
    by (simp only: take_add [symmetric] mult_Suc add.commute)
  then show "bs = take (i * sum_list ws) bs @ take (sum_list ws) (drop (i * sum_list ws) bs) @ drop (Suc i * sum_list ws) bs"
    by (metis append_assoc append_take_drop_id)
  show "length (take (i * sum_list ws) bs) = i * sum_list ws"
    and "length (take (sum_list ws) (drop (i * sum_list ws) bs)) = sum_list ws"
    using le by simp_all
qed (simp add: put_elem_def)

lemma length_put:
  assumes "ok x" and "Suc i * sum_list ws \<le> length bs"
  shows "length (put_elem ws fields bs i x) = length bs"
  using put_split [OF assms] length_enc [OF assms(1)] by (metis length_append)

lemma get_put_same:
  assumes "ok x" and "Suc i * sum_list ws \<le> length bs"
  shows "get_elem ws build (put_elem ws fields bs i x) i = x"
  using put_split [OF assms] dec_enc [OF assms(1)] by (metis append_eq_conv_conj get_elem_def)

lemma get_put_other:
  assumes "ok x" and "Suc i * sum_list ws \<le> length bs" and "i \<noteq> j"
  shows "get_elem ws build (put_elem ws fields bs i x) j = get_elem ws build bs j"
proof -
  obtain us vs zs where bs: "bs = us @ vs @ zs" and len: "length us = i * sum_list ws" "length vs = sum_list ws"
    and put: "put_elem ws fields bs i x = us @ enc_struct ws fields x @ zs"
    by (rule put_split [OF assms(1, 2)])
  show ?thesis
  proof (cases "j < i")
    case True
    then have "Suc j * sum_list ws \<le> i * sum_list ws"
      by (intro mult_le_mono1) simp
    then have "j * sum_list ws \<le> length us" "sum_list ws \<le> length (drop (j * sum_list ws) us)"
      using len True by simp_all
    then show ?thesis
      unfolding get_elem_def put dec_struct_def by (simp add: bs unpack_append)
  next
    case False
    then have "Suc i * sum_list ws \<le> j * sum_list ws"
      using assms(3) by (intro mult_le_mono1) simp
    then show ?thesis
      unfolding get_elem_def put by (simp add: bs len length_enc [OF assms(1)])
  qed
qed

text \<open>So storing into one element of an array is the update of that element in the list of elements.\<close>

lemma elems_put:
  assumes "ok x" and "n * sum_list ws \<le> length bs" and "i < n"
  shows "elems ws build (put_elem ws fields bs i x) n = (elems ws build bs n)[i := x]"
proof (rule nth_equalityI)
  have "Suc i * sum_list ws \<le> n * sum_list ws"
    using assms(3) by (intro mult_le_mono1) simp
  then have le: "Suc i * sum_list ws \<le> length bs"
    using assms(2) by simp
  fix j assume "j < length (elems ws build (put_elem ws fields bs i x) n)"
  then show "elems ws build (put_elem ws fields bs i x) n ! j = (elems ws build bs n)[i := x] ! j"
    using get_put_same [OF assms(1) le] get_put_other [OF assms(1) le]
    by (cases "i = j") (simp_all add: elems_def)
qed (simp add: elems_def)

lemma elems_concat:
  assumes "\<forall>x\<in>set xs. ok x"
  shows "elems ws build (concat (map (enc_struct ws fields) xs) @ rest) (length xs) = xs"
  using assms
proof (induction xs)
  case (Cons x xs)
  then have ok: "ok x"
    by simp
  have tail: "get_elem ws build (enc_struct ws fields x @ bs) (Suc i) = get_elem ws build bs i" for bs i
    by (simp add: get_elem_def length_enc [OF ok])
  have "get_elem ws build (enc_struct ws fields x @ bs) 0 = x" for bs
    by (simp add: get_elem_def dec_enc [OF ok])
  then show ?case
    using Cons by (simp add: elems_def upt_conv_Cons tail o_def del: upt_Suc flip: map_Suc_upt)
qed (simp add: elems_def)

end

section \<open>Arrays of integers\<close>

definition scalar_fields :: "'a::len word \<Rightarrow> nat list" where
  "scalar_fields x = [unat x]"

definition scalar_build :: "nat list \<Rightarrow> 'a::len word" where
  "scalar_build vs = of_nat (vs ! 0)"

interpretation u32s: c_struct "\<lambda>_ :: u32. True" "[4]" scalar_fields scalar_build
  by unfold_locales (auto simp: scalar_fields_def scalar_build_def unat_of_nat)

interpretation u16s: c_struct "\<lambda>_ :: u16. True" "[2]" scalar_fields scalar_build
  by unfold_locales (auto simp: scalar_fields_def scalar_build_def unat_of_nat)

end
