(* ===== verification/Mm_Layout.thy ===== *)
theory Mm_Layout
  imports C_Layout Mm_Paging Drv_Fdc
begin

text \<open>
  The memory map of \<^verbatim>\<open>include/mem.h\<close>, the boot loader's reports in \<^verbatim>\<open>include/mm/kmm.h\<close> and the page
  tables of \<^verbatim>\<open>include/mm/vmm.h\<close> in memory. The memory managers are object files; shown is what they are
  given: translations between physical and virtual addresses, regions that keep clear of each other,
  and that entries made by \<^verbatim>\<open>pde_create\<close> and \<^verbatim>\<open>pte_create\<close>, stored at the indices the address macros
  compute, make the processor's page walk translate the addresses of the page, with the rights in the flags.
\<close>

section \<open>The memory map\<close>

definition PHYSMAP_BASE :: u32 where [const_defs]: "PHYSMAP_BASE = 0xC0000000"

definition PHYS_TO_VIRT :: "ptr \<Rightarrow> ptr" where
  "PHYS_TO_VIRT addr = addr + PHYSMAP_BASE"

definition VIRT_TO_PHYS :: "ptr \<Rightarrow> ptr" where
  "VIRT_TO_PHYS addr = addr - PHYSMAP_BASE"

definition KERNEL_LOAD_PHYS :: ptr where [const_defs]: "KERNEL_LOAD_PHYS = 0x00100000"
definition KERNEL_LOAD_VIRT :: ptr where "KERNEL_LOAD_VIRT = PHYS_TO_VIRT KERNEL_LOAD_PHYS"
definition KERNEL_STACK_EARLY :: ptr where [const_defs]: "KERNEL_STACK_EARLY = 0x00090000"
definition KERNEL_HEAP_VIRT :: ptr where [const_defs]: "KERNEL_HEAP_VIRT = 0xC0200000"
definition KERNEL_HEAP_SIZE :: u32 where [const_defs]: "KERNEL_HEAP_SIZE = 0x00100000"
definition IDENTITY_MAP_START :: ptr where [const_defs]: "IDENTITY_MAP_START = 0x00000000"
definition IDENTITY_MAP_END :: ptr where [const_defs]: "IDENTITY_MAP_END = 0x00100000"
definition USER_STACK_SIZE :: u32 where [const_defs]: "USER_STACK_SIZE = 0x1000"
definition USER_STACK_TOP :: ptr where [const_defs]: "USER_STACK_TOP = 0xBFFFE000"

section \<open>What the boot loader reports\<close>

definition MEM_SIZE_LOC :: ptr where [const_defs]: "MEM_SIZE_LOC = 0x3000"
definition MEM_MAP_ENTRY_COUNT_LOC :: ptr where [const_defs]: "MEM_MAP_ENTRY_COUNT_LOC = 0x3008"
definition MEM_MAP_LOC :: ptr where [const_defs]: "MEM_MAP_LOC = 0x300C"

record e820_entry_t =
  baseLow :: u32
  baseHigh :: u32
  lengthLow :: u32
  lengthHigh :: u32
  e820_type :: u32
  ACPI :: u32

record e801_memsize_t =
  memLow :: u32
  memHigh :: u32

definition e820_ws :: "nat list" where
  "e820_ws = [4, 4, 4, 4, 4, 4]"

definition e820_fields :: "e820_entry_t \<Rightarrow> nat list" where
  "e820_fields e = [unat (baseLow e), unat (baseHigh e), unat (lengthLow e), unat (lengthHigh e), unat (e820_type e), unat (ACPI e)]"

definition e820_build :: "nat list \<Rightarrow> e820_entry_t" where
  "e820_build vs = \<lparr>baseLow = of_nat (vs ! 0), baseHigh = of_nat (vs ! 1), lengthLow = of_nat (vs ! 2),
     lengthHigh = of_nat (vs ! 3), e820_type = of_nat (vs ! 4), ACPI = of_nat (vs ! 5)\<rparr>"

definition e801_ws :: "nat list" where
  "e801_ws = [4, 4]"

definition e801_fields :: "e801_memsize_t \<Rightarrow> nat list" where
  "e801_fields e = [unat (memLow e), unat (memHigh e)]"

definition e801_build :: "nat list \<Rightarrow> e801_memsize_t" where
  "e801_build vs = \<lparr>memLow = of_nat (vs ! 0), memHigh = of_nat (vs ! 1)\<rparr>"

interpretation e820: c_struct "\<lambda>_. True" e820_ws e820_fields e820_build
proof
  fix vs assume "fits e820_ws vs"
  then show "True \<and> e820_fields (e820_build vs) = vs"
    by (clarsimp simp: e820_ws_def e820_build_def e820_fields_def struct_split)
qed (simp_all add: e820_ws_def e820_fields_def e820_build_def)

interpretation e801: c_struct "\<lambda>_. True" e801_ws e801_fields e801_build
proof
  fix vs assume "fits e801_ws vs"
  then show "True \<and> e801_fields (e801_build vs) = vs"
    by (clarsimp simp: e801_ws_def e801_build_def e801_fields_def struct_split)
qed (simp_all add: e801_ws_def e801_fields_def e801_build_def)

section \<open>Page tables in memory\<close>

text \<open>\<^verbatim>\<open>pagedir_t\<close> and \<^verbatim>\<open>pagetable_t\<close> are arrays of 1024 entries of four bytes.\<close>

definition pagedir_entry :: "ptr \<Rightarrow> ptr \<Rightarrow> ptr" where
  "pagedir_entry dir virt = dir + 4 * VMM_DIR_INDEX virt"

definition pagetable_entry :: "ptr \<Rightarrow> ptr \<Rightarrow> ptr" where
  "pagetable_entry table virt = table + 4 * VMM_TABLE_INDEX virt"

text \<open>The processor's translation of a linear address, from its manual: bits 31 to 22 select one of the 1024 entries
  of the directory whose address is in bits 31 to 12 of the register \<^verbatim>\<open>cr3\<close>, bits 21 to 12 one of the 1024
  entries of the table it names in its bits 31 to 12, and bits 11 to 0 are the offset in the frame named in bits 31 to
  12 of that entry. Bit 0 says that an entry is present, bit 7 of a directory entry that it maps 4 MB without a
  table. The result has the physical address, and whether the page may be written and used at level three, which
  bits 1 and 2 of both entries have to allow. \<open>None\<close> is a page fault.\<close>

definition frame_bits :: "u32 \<Rightarrow> u32" where
  "frame_bits e = push_bit 12 (drop_bit 12 e)"

definition page_walk :: "mem \<Rightarrow> u32 \<Rightarrow> ptr \<Rightarrow> (ptr \<times> bool \<times> bool) option" where
  "page_walk m cr3 lin =
     (let pde = read32 m (frame_bits cr3 + 4 * drop_bit 22 lin) in
      if \<not> bit pde 0 then None
      else if bit pde 7 then Some (push_bit 22 (drop_bit 22 pde) OR take_bit 22 lin, bit pde 1, bit pde 2)
      else
        let pte = read32 m (frame_bits pde + 4 * take_bit 10 (drop_bit 12 lin)) in
        if \<not> bit pte 0 then None
        else Some (frame_bits pte OR take_bit 12 lin, bit pde 1 \<and> bit pte 1, bit pde 2 \<and> bit pte 2))"

lemma index_bounds: "unat (VMM_DIR_INDEX a) < 1024" "unat (VMM_TABLE_INDEX a) < 1024"
  by (simp_all add: dir_index_slice table_index_slice unsigned_take_bit_eq take_bit_nat_def)

lemma aligned_page:
  assumes "IS_ALIGNED a 4096"
  obtains q where "unat a = 4096 * q" and "q < 1048576"
proof -
  have "unat a mod 4096 = 0"
    using assms unat_and_mask [of a 12] by (simp add: IS_ALIGNED_def mask_eq_exp_minus_1)
  then obtain q where q: "unat a = 4096 * q"
    by (auto simp: mod_eq_0_iff_dvd)
  moreover have "q < 1048576"
    using unat_u32_bound [of a] unfolding q by simp
  ultimately show ?thesis ..
qed

text \<open>An entry of a table starts at a multiple of four, and its number and the table are determined by where
  it starts.\<close>

lemma table_slot:
  fixes a i :: u32
  assumes "unat a = 4096 * q" and "q < 1048576" and "unat i < 1024"
  shows "unat (a + 4 * i) = 4 * (1024 * q + unat i)"
  using assms by (simp add: unat_word_ariths)

lemma slots_apart:
  assumes "IS_ALIGNED a 4096" "unat i < 1024" "IS_ALIGNED b 4096" "unat j < 1024" and "a \<noteq> b \<or> i \<noteq> j"
  shows "4 \<le> (a + 4 * i) - (b + 4 * j)"
proof -
  obtain p q where a: "unat a = 4096 * p" "p < 1048576" and b: "unat b = 4096 * q" "q < 1048576"
    using aligned_page [OF assms(1)] aligned_page [OF assms(3)] by metis
  let ?x = "a + 4 * i" and ?y = "b + 4 * j"
  define X Y where "X = 1024 * p + unat i" and "Y = 1024 * q + unat j"
  have x: "unat ?x = 4 * X" and y: "unat ?y = 4 * Y"
    using assms table_slot [OF a] table_slot [OF b] by (simp_all add: X_def Y_def)
  have "X div 1024 = p" "X mod 1024 = unat i" "Y div 1024 = q" "Y mod 1024 = unat j"
    using assms by (simp_all add: X_def Y_def)
  moreover have "p \<noteq> q \<or> unat i \<noteq> unat j"
    using assms(5) a(1) b(1) by (auto simp: word_unat_eq_iff)
  ultimately have "X \<noteq> Y"
    by auto
  moreover have "Y < 1073741824"
    using b(2) assms(4) by (simp add: Y_def)
  ultimately have "4 \<le> unat (?x - ?y)"
    unfolding unat_sub_if' x y by (auto simp: not_le)
  then show ?thesis
    by (simp add: word_le_nat_alt)
qed

text \<open>The header's macros compute the processor's fields.\<close>

lemma frame_macros: "PDE_PTABLE_ADDR e = frame_bits e" "PTE_FRAME_ADDR e = frame_bits e"
proof -
  have "PDE_FRAME_MASK = NOT (mask 12)" "PTE_FRAME_MASK = NOT (mask 12)" by (simp_all add: const_defs mask_eq_exp_minus_1)
  moreover have "e AND NOT (mask 12) = frame_bits e"
    unfolding frame_bits_def by (rule bit_word_eqI) (auto simp: bit_simps)
  ultimately show "PDE_PTABLE_ADDR e = frame_bits e" "PTE_FRAME_ADDR e = frame_bits e"
    by (simp_all add: PDE_PTABLE_ADDR_def PTE_FRAME_ADDR_def)
qed

lemma dir_macro: "drop_bit 22 w = VMM_DIR_INDEX w"
  unfolding dir_index_slice by (rule bit_word_eqI) (auto simp: bit_simps dest: bit_imp_le_length)

lemma same_page: "drop_bit 12 w = drop_bit 12 v \<longleftrightarrow> VMM_DIR_INDEX w = VMM_DIR_INDEX v \<and> VMM_TABLE_INDEX w = VMM_TABLE_INDEX v"
proof
  assume "VMM_DIR_INDEX w = VMM_DIR_INDEX v \<and> VMM_TABLE_INDEX w = VMM_TABLE_INDEX v"
  moreover have "drop_bit 12 x = push_bit 10 (VMM_DIR_INDEX x) OR VMM_TABLE_INDEX x" for x :: u32
    unfolding dir_index_slice table_index_slice by (rule bit_word_eqI) (auto simp: bit_simps dest: bit_imp_le_length)
  ultimately show "drop_bit 12 w = drop_bit 12 v" by metis
next
  assume a: "drop_bit 12 w = drop_bit 12 v"
  then have "drop_bit 10 (drop_bit 12 w) = drop_bit 10 (drop_bit 12 v)" by (rule arg_cong)
  then have "drop_bit 22 w = drop_bit 22 v" unfolding drop_bit_drop_bit by simp
  then show "VMM_DIR_INDEX w = VMM_DIR_INDEX v \<and> VMM_TABLE_INDEX w = VMM_TABLE_INDEX v"
    using a by (simp add: dir_macro [symmetric] table_index_slice)
qed

lemma created_bits:
  "n < 12 \<Longrightarrow> bit (pde_create a f) n = bit f n" "n < 12 \<Longrightarrow> bit (pte_create a f) n = bit f n"
proof -
  have k: "PDE_FRAME_MASK = NOT (mask 12)" "PTE_FRAME_MASK = NOT (mask 12)" by (simp_all add: const_defs mask_eq_exp_minus_1)
  show "n < 12 \<Longrightarrow> bit (pde_create a f) n = bit f n" "n < 12 \<Longrightarrow> bit (pte_create a f) n = bit f n"
    unfolding pde_create_def pte_create_def k by (auto simp: bit_simps)
qed

lemma created_frames: "frame_bits (pde_create a f) = frame_bits a" "frame_bits (pte_create a f) = frame_bits a"
  using pde.frame_mk pte.frame_mk unfolding frame_macros .

lemma aligned_frame: "take_bit 12 a = 0 \<Longrightarrow> frame_bits a = a" "take_bit 12 a = 0 \<longleftrightarrow> IS_ALIGNED a 4096" "IS_ALIGNED (frame_bits e) 4096"
proof -
  have k: "(4096 :: u32) - 1 = mask 12" by (simp add: mask_eq_exp_minus_1)
  show "take_bit 12 a = 0 \<longleftrightarrow> IS_ALIGNED a 4096" unfolding IS_ALIGNED_def k by (simp add: take_bit_eq_mask)
  show "take_bit 12 a = 0 \<Longrightarrow> frame_bits a = a" using bits_ident [of 12 a] by (simp add: frame_bits_def)
  show "IS_ALIGNED (frame_bits e) 4096" unfolding IS_ALIGNED_def k frame_bits_def by (rule bit_word_eqI) (auto simp: bit_simps)
qed

text \<open>Memory after an entry for the table has been stored in the directory, and one for the frame in the table, at the
  places the macros compute for \<open>virt\<close>.\<close>

definition with_entries :: "mem \<Rightarrow> ptr \<Rightarrow> ptr \<Rightarrow> ptr \<Rightarrow> ptr \<Rightarrow> u32 \<Rightarrow> mem" where
  "with_entries m dir table virt phys fl =
     write32 (write32 m (pagedir_entry dir virt) (pde_create table fl)) (pagetable_entry table virt) (pte_create phys fl)"

lemma read_entries:
  assumes "IS_ALIGNED dir 4096" and "IS_ALIGNED table 4096" and "dir \<noteq> table"
  shows "read32 (with_entries m dir table virt phys fl) (pagedir_entry dir w) =
      (if VMM_DIR_INDEX w = VMM_DIR_INDEX virt then pde_create table fl else read32 m (pagedir_entry dir w))"
    and "IS_ALIGNED t 4096 \<Longrightarrow> t \<noteq> dir \<Longrightarrow> read32 (with_entries m dir table virt phys fl) (pagetable_entry t w) =
      (if t = table \<and> VMM_TABLE_INDEX w = VMM_TABLE_INDEX virt then pte_create phys fl else read32 m (pagetable_entry t w))"
proof -
  note slots_apart [OF _ index_bounds(1) _ index_bounds(1)] slots_apart [OF _ index_bounds(1) _ index_bounds(2)]
    slots_apart [OF _ index_bounds(2) _ index_bounds(1)] slots_apart [OF _ index_bounds(2) _ index_bounds(2)]
  note apart = this [folded pagedir_entry_def pagetable_entry_def]
  show "read32 (with_entries m dir table virt phys fl) (pagedir_entry dir w) =
      (if VMM_DIR_INDEX w = VMM_DIR_INDEX virt then pde_create table fl else read32 m (pagedir_entry dir w))"
    using assms apart by (auto simp: with_entries_def read_write_other) (simp_all add: pagedir_entry_def)
  show "IS_ALIGNED t 4096 \<Longrightarrow> t \<noteq> dir \<Longrightarrow> read32 (with_entries m dir table virt phys fl) (pagetable_entry t w) =
      (if t = table \<and> VMM_TABLE_INDEX w = VMM_TABLE_INDEX virt then pte_create phys fl else read32 m (pagetable_entry t w))"
    using assms apart by (auto simp: with_entries_def read_write_other) (simp_all add: pagetable_entry_def)
qed

text \<open>The walk in terms of the macros.\<close>

lemma page_walk_macros:
  assumes "take_bit 12 dir = 0"
  shows "page_walk m dir lin =
     (let pde = read32 m (pagedir_entry dir lin) in
      if \<not> bit pde 0 then None
      else if bit pde 7 then Some (push_bit 22 (drop_bit 22 pde) OR take_bit 22 lin, bit pde 1, bit pde 2)
      else
        let pte = read32 m (pagetable_entry (frame_bits pde) lin) in
        if \<not> bit pte 0 then None
        else Some (frame_bits pte OR take_bit 12 lin, bit pde 1 \<and> bit pte 1, bit pde 2 \<and> bit pte 2))"
  unfolding page_walk_def pagedir_entry_def pagetable_entry_def dir_macro table_index_slice [symmetric] aligned_frame(1) [OF assms] ..

section \<open>Properties\<close>

text \<open>Property C14: entries made with the header's functions map the page they are for. With a page-aligned directory
  and another page-aligned table, storing what \<^verbatim>\<open>pde_create\<close> makes for the table at the directory index of an
  address, and what \<^verbatim>\<open>pte_create\<close> makes for a frame at its table index, with flags that have the present bit and not
  the bit for 4 MB pages, makes the processor translate every address of the 4 KB page to the frame with the same
  offset, writable and usable at level three just as the flags say. Another page of the same directory entry is
  translated as before if that entry named this table before, with the same rights; a page of another directory
  entry is translated as before if the table that entry names, if any, is neither the directory nor this table.\<close>

theorem page_walk_mapped:
  assumes dir: "take_bit 12 dir = 0" and table: "take_bit 12 table = 0" "dir \<noteq> table" and fl: "bit fl 0" "\<not> bit fl 7"
    and m': "m' = write32 (write32 m (pagedir_entry dir virt) (pde_create table fl)) (pagetable_entry table virt) (pte_create phys fl)"
    and pde: "pde = read32 m (dir + 4 * drop_bit 22 w)"
  shows "(drop_bit 12 w = drop_bit 12 virt
      \<longrightarrow> page_walk m' dir w = Some (push_bit 12 (drop_bit 12 phys) OR take_bit 12 w, bit fl 1, bit fl 2))
    \<and> (drop_bit 12 w \<noteq> drop_bit 12 virt \<and> drop_bit 22 w = drop_bit 22 virt
        \<and> bit pde 0 \<and> \<not> bit pde 7 \<and> (bit pde 1 = bit fl 1) \<and> (bit pde 2 = bit fl 2) \<and> push_bit 12 (drop_bit 12 pde) = table
      \<longrightarrow> page_walk m' dir w = page_walk m dir w)
    \<and> (drop_bit 22 w \<noteq> drop_bit 22 virt \<and> (bit pde 0 \<and> \<not> bit pde 7 \<longrightarrow> push_bit 12 (drop_bit 12 pde) \<notin> {dir, table})
      \<longrightarrow> page_walk m' dir w = page_walk m dir w)"
proof -
  have al: "IS_ALIGNED dir 4096" "IS_ALIGNED table 4096" using dir table(1) aligned_frame(2) by simp_all
  note rd = read_entries [OF al table(2), where m = m and virt = virt and phys = phys and fl = fl, folded m' [folded with_entries_def]]
  have old: "read32 m (pagedir_entry dir w) = pde" unfolding pde pagedir_entry_def dir_macro ..
  have fr: "push_bit 12 (drop_bit 12 x) = frame_bits x" for x :: u32 by (simp add: frame_bits_def)
  show ?thesis
    unfolding page_walk_macros [OF dir] same_page dir_macro rd(1) old fr
    using fl rd(2) table(2) al(2) aligned_frame
    by (simp add: Let_def created_bits created_frames aligned_frame(1) [OF table(1)])
qed

theorem page_walk_mapped_witness:
  "page_walk (write32 (write32 (\<lambda>_. 0) (pagedir_entry 0x1000 0xC0100000) (pde_create 0x2000 (PTE_PRESENT OR PTE_WRITABLE)))
       (pagetable_entry 0x2000 0xC0100000) (pte_create 0x00100000 (PTE_PRESENT OR PTE_WRITABLE))) 0x1000 0xC0100ABC
     = Some (0x00100ABC, True, False)"
proof -
  have f: "bit (PTE_PRESENT OR PTE_WRITABLE) 0" "bit (PTE_PRESENT OR PTE_WRITABLE) 1" "\<not> bit (PTE_PRESENT OR PTE_WRITABLE) 2"
    "\<not> bit (PTE_PRESENT OR PTE_WRITABLE) 7" by (simp_all add: const_defs bit_numeral_rec)
  have a: "take_bit 12 (0x1000 :: u32) = 0" "take_bit 12 (0x2000 :: u32) = 0" "(0x1000 :: u32) \<noteq> 0x2000"
    "drop_bit 12 (0xC0100ABC :: u32) = drop_bit 12 0xC0100000"
    "push_bit 12 (drop_bit 12 (0x00100000 :: u32)) OR take_bit 12 0xC0100ABC = 0x00100ABC" by simp_all
  from page_walk_mapped [where m = "\<lambda>_. 0" and virt = "0xC0100000" and phys = "0x00100000" and w = "0xC0100ABC", OF a(1-3) f(1,4) refl refl, THEN conjunct1]
  show ?thesis using a(4,5) f(2,3) by simp
qed

text \<open>Further property: the memory map. Physical and virtual addresses of the direct map translate into each
  other, without wrap-around for the first gigabyte; the user stack is one page that ends below the
  direct map; the kernel image is mapped at 3 GB plus one megabyte, and the heap, one megabyte further,
  lies in the direct map behind it; the early stack, the floppy's DMA buffer, which stays within one 64 KB bank, and the boot
  loader's reports, which follow each other without a gap, lie in the identity-mapped megabyte and do
  not overlap the buffer; the entries of the memory map are read back one by one.\<close>

theorem memory_map_bounds:
  "VIRT_TO_PHYS (PHYS_TO_VIRT a) = a \<and> PHYS_TO_VIRT (VIRT_TO_PHYS a) = a
    \<and> (unat a < 0x40000000 \<longrightarrow> unat (PHYS_TO_VIRT a) = unat a + 0xC0000000)
    \<and> USER_STACK_TOP < PHYSMAP_BASE \<and> USER_STACK_SIZE = VMM_PAGE_SIZE \<and> IS_ALIGNED USER_STACK_TOP VMM_PAGE_SIZE
    \<and> KERNEL_LOAD_VIRT = 0xC0100000 \<and> KERNEL_LOAD_VIRT + 0x100000 = KERNEL_HEAP_VIRT
    \<and> VIRT_TO_PHYS KERNEL_HEAP_VIRT = 0x200000 \<and> KERNEL_HEAP_VIRT \<le> KERNEL_HEAP_VIRT + KERNEL_HEAP_SIZE
    \<and> IDENTITY_MAP_END = KERNEL_LOAD_PHYS \<and> KERNEL_STACK_EARLY < IDENTITY_MAP_END
    \<and> FLOPPY_DMA_BUFFER div 0x10000 = (FLOPPY_DMA_BUFFER + 511) div 0x10000 \<and> FLOPPY_DMA_BUFFER + 512 \<le> MEM_SIZE_LOC
    \<and> MEM_SIZE_LOC + of_nat (sum_list e801_ws) = MEM_MAP_ENTRY_COUNT_LOC \<and> MEM_MAP_ENTRY_COUNT_LOC + 4 = MEM_MAP_LOC
    \<and> no_padding e801_ws \<and> no_padding e820_ws
    \<and> elems e820_ws e820_build (concat (map (enc_struct e820_ws e820_fields) es)) (length es) = es"
proof -
  have "no_padding e801_ws" "no_padding e820_ws"
    by code_simp+
  moreover have "unat (PHYS_TO_VIRT a) = unat a + 0xC0000000" if "unat a < 0x40000000"
    using that by (simp add: PHYS_TO_VIRT_def PHYSMAP_BASE_def unat_word_ariths)
  ultimately show ?thesis
    using e820.elems_concat [of es "[]"]
    by (simp add: PHYS_TO_VIRT_def VIRT_TO_PHYS_def KERNEL_LOAD_VIRT_def IS_ALIGNED_def e801_ws_def const_defs)
qed

theorem memory_map_bounds_witness: "unat (PHYS_TO_VIRT 0x200000) = 0xC0200000"
  using memory_map_bounds [of "0x200000" "[]"] by simp

end
