(* ===== verification/Init_Kmain.thy ===== *)
theory Init_Kmain
  imports Libc_Stdio Mm_Layout "HOL-Library.Monad_Syntax"
begin

text \<open>
  The boot of \<^verbatim>\<open>init/kmain.c\<close>: clearing the BSS, the banner, and the order in which the kernel's parts are
  initialised, with the messages in between. The parts are arguments; what they print and that they return are
  hypotheses of the property that \<^verbatim>\<open>kmain\<close> reaches its idle loop.
\<close>

section \<open>The boot sequence\<close>

text \<open>The symbols of the linker script, and the initialisers \<^verbatim>\<open>kmain\<close> calls: object files, or components whose
  theories model them on their own state.\<close>

record linker =
  kernel_start :: ptr
  kernel_end :: ptr
  kbss_start :: ptr
  kbss_end :: ptr

type_synonym 'w boot_step = "'w console \<Rightarrow> 'w console option"

record 'w boot_ops =
  bo_tty_init :: "'w boot_step"
  bo_gdt_init_flat_protected :: "'w boot_step"
  bo_setup_x86_interrutps :: "'w boot_step"
  bo_terminal_stdin_init :: "'w boot_step"
  bo_syscall_init :: "'w boot_step"
  bo_kmm_init :: "'w boot_step"
  bo_vmm_init :: "'w boot_step"
  bo_kheap_init :: "ptr \<Rightarrow> u32 \<Rightarrow> u32 \<Rightarrow> bool \<Rightarrow> bool \<Rightarrow> 'w boot_step"
  bo_init_system_timer :: "u32 \<Rightarrow> 'w boot_step"
  bo_fdc_init :: "'w boot_step"
  bo_ide_init :: "'w boot_step"
  bo_vfs_init :: "'w boot_step"
  bo_vfs_mount :: "string \<Rightarrow> string \<Rightarrow> string \<Rightarrow> 'w boot_step"
  bo_hfs_format :: "string \<Rightarrow> 'w boot_step"
  bo_scheduler_init :: "'w boot_step"
  bo_start_tests :: "'w boot_step"
  bo_process_spawn :: "string \<Rightarrow> 'w boot_step"

definition VGA_COLOR_CYAN :: u8 where [const_defs]: "VGA_COLOR_CYAN = 3"
definition VGA_COLOR_RED :: u8 where [const_defs]: "VGA_COLOR_RED = 4"
definition VGA_COLOR_WHITE :: u8 where [const_defs]: "VGA_COLOR_WHITE = 15"

definition zero_bss :: "linker \<Rightarrow> mem \<Rightarrow> mem" where
  "zero_bss lk m = memset m (kbss_start lk) 0 (kbss_end lk - kbss_start lk)"

text \<open>\<^verbatim>\<open>printk\<close> and the logging macros as steps of the boot: their results are not used.\<close>

definition boot_print :: "hardware \<Rightarrow> 'w tty_ops \<Rightarrow> layout \<Rightarrow> u8 list \<Rightarrow> 'w boot_step" where
  "boot_print hw tty ly fmt con = map_option snd (printk hw tty ly fmt [] con)"

definition load_msg :: "hardware \<Rightarrow> 'w tty_ops \<Rightarrow> layout \<Rightarrow> 'w boot_step" where
  "load_msg hw tty ly con =
     do {
       con1 \<leftarrow> boot_print hw tty ly (replicate 21 32) con;
       let con2 = con1\<lparr>con_tty := terminal_settext_color tty VGA_COLOR_WHITE (terminal_setbg_color tty VGA_COLOR_CYAN (con_tty con1))\<rparr>;
       con3 \<leftarrow> boot_print hw tty ly (bytes_of '' ~[ leanix1.0 kernel initalizing! ]~ '' @ [10, 10]) con2;
       let con4 = con3\<lparr>con_tty := terminal_reset_color tty (con_tty con3)\<rparr>;
       boot_print hw tty ly (bytes_of '' +'' @ replicate 75 45 @ bytes_of ''+'' @ [10]) con4
     }"

definition tests_msg :: "hardware \<Rightarrow> 'w tty_ops \<Rightarrow> layout \<Rightarrow> 'w boot_step" where
  "tests_msg hw tty ly con =
     do {
       con1 \<leftarrow> boot_print hw tty ly ([10] @ bytes_of '' +'' @ replicate 75 45 @ bytes_of ''+'' @ [10]) con;
       con2 \<leftarrow> boot_print hw tty ly (replicate 21 32) con1;
       let con3 = con2\<lparr>con_tty := terminal_settext_color tty VGA_COLOR_RED (terminal_setbg_color tty VGA_COLOR_CYAN (con_tty con2))\<rparr>;
       con4 \<leftarrow> boot_print hw tty ly (bytes_of '' ~[ Starting Kernel Tests! ]~ '') con3;
       let con5 = con4\<lparr>con_tty := terminal_reset_color tty (con_tty con4)\<rparr>;
       boot_print hw tty ly [10, 10] con5
     }"

definition boot_serial :: "'w boot_step" where
  "boot_serial con = Some (con\<lparr>con_trace := snd (snd (serial_init False (con_trace con)))\<rparr>)"

definition LOG_P :: "hardware \<Rightarrow> 'w tty_ops \<Rightarrow> layout \<Rightarrow> bool \<Rightarrow> string \<Rightarrow> 'w boot_step" where
  "LOG_P hw tty ly debug msg = LOG hw tty ly debug True None LOG_PRI (bytes_of msg @ [10]) []"

definition LOG_DEBUG :: "hardware \<Rightarrow> 'w tty_ops \<Rightarrow> layout \<Rightarrow> bool \<Rightarrow> string \<Rightarrow> u32 list \<Rightarrow> 'w boot_step" where
  "LOG_DEBUG hw tty ly debug msg = LOG hw tty ly debug True None LOG_DBG (bytes_of msg @ [10])"

text \<open>What \<^verbatim>\<open>kmain\<close> does until its thread becomes the idle thread; \<open>testing\<close> says whether it is compiled with
  \<^verbatim>\<open>TESTING\<close>.\<close>

definition kmain :: "hardware \<Rightarrow> 'w tty_ops \<Rightarrow> layout \<Rightarrow> linker \<Rightarrow> bool \<Rightarrow> bool \<Rightarrow> 'w boot_ops \<Rightarrow> 'w boot_step" where
  "kmain hw tty ly lk debug testing ops con =
     do {
       con \<leftarrow> bo_tty_init ops (con\<lparr>con_mem := zero_bss lk (con_mem con)\<rparr>);
       con \<leftarrow> load_msg hw tty ly con;
       con \<leftarrow> boot_serial con;
       con \<leftarrow> LOG_DEBUG hw tty ly debug ''Kernel size: %d bytes'' [kernel_end lk - kernel_start lk] con;
       con \<leftarrow> LOG_P hw tty ly debug ''Initializing system descriptors...'' con;
       con \<leftarrow> bo_gdt_init_flat_protected ops con;
       con \<leftarrow> LOG_P hw tty ly debug ''Initializing system interrupts...'' con;
       con \<leftarrow> bo_setup_x86_interrutps ops con;
       con \<leftarrow> LOG_P hw tty ly debug ''Initializing terminal input...'' con;
       con \<leftarrow> bo_terminal_stdin_init ops con;
       con \<leftarrow> LOG_P hw tty ly debug ''Initializing syscalls interface'' con;
       con \<leftarrow> bo_syscall_init ops con;
       con \<leftarrow> LOG_P hw tty ly debug ''Initializing kernel memory manager...'' con;
       con \<leftarrow> bo_kmm_init ops con;
       con \<leftarrow> LOG_P hw tty ly debug ''Initializing virtual memory manager...'' con;
       con \<leftarrow> bo_vmm_init ops con;
       con \<leftarrow> LOG_P hw tty ly debug ''Initializing kernel heap...'' con;
       con \<leftarrow> bo_kheap_init ops KERNEL_HEAP_VIRT KERNEL_HEAP_SIZE KERNEL_HEAP_SIZE True False con;
       con \<leftarrow> LOG_P hw tty ly debug ''Initializing system timer at 1000 Hz...'' con;
       con \<leftarrow> bo_init_system_timer ops 1000 con;
       con \<leftarrow> LOG_P hw tty ly debug ''Initializing floppy disk controller...'' con;
       con \<leftarrow> bo_fdc_init ops con;
       con \<leftarrow> LOG_P hw tty ly debug ''Initializing IDE controller...'' con;
       con \<leftarrow> bo_ide_init ops con;
       con \<leftarrow> LOG_P hw tty ly debug ''Initializing VFS layer...'' con;
       con \<leftarrow> bo_vfs_init ops con;
       con \<leftarrow> LOG_P hw tty ly debug ''Mounting initfs FAT12 on /fd0'' con;
       con \<leftarrow> bo_vfs_mount ops ''fd0'' ''/fd0'' ''fat12'' con;
       con \<leftarrow> LOG_P hw tty ly debug ''Formatting and mounting HFS filesystem on /hd1...'' con;
       con \<leftarrow> bo_hfs_format ops ''hd1'' con;
       con \<leftarrow> bo_vfs_mount ops ''hd1'' ''/hd1'' ''hfs'' con;
       con \<leftarrow> LOG_P hw tty ly debug ''Initializing scheduler...'' con;
       con \<leftarrow> bo_scheduler_init ops con;
       con \<leftarrow> (if testing
         then do {
           con \<leftarrow> LOG_P hw tty ly debug ''Running kernel tests...'' con;
           con \<leftarrow> tests_msg hw tty ly con;
           bo_start_tests ops con
         }
         else Some con);
       con \<leftarrow> LOG_P hw tty ly debug ''Starting init user process...'' con;
       bo_process_spawn ops ''/fd0/SHALL'' con
     }"

section \<open>What the boot prints\<close>

text \<open>The text in front of the initialisation of the serial port, and the messages behind it.\<close>

definition boot_banner :: "u8 list list" where
  "boot_banner = [replicate 21 32, bytes_of '' ~[ leanix1.0 kernel initalizing! ]~ '' @ [10, 10], bytes_of '' +'' @ replicate 75 45 @ bytes_of ''+'' @ [10]]"

definition tests_banner :: "u8 list list" where
  "tests_banner = [[10] @ bytes_of '' +'' @ replicate 75 45 @ bytes_of ''+'' @ [10], replicate 21 32, bytes_of '' ~[ Starting Kernel Tests! ]~ '', [10, 10]]"

definition boot_msgs :: "string list" where
  "boot_msgs =
     [''Initializing system descriptors...'', ''Initializing system interrupts...'', ''Initializing terminal input...'',
      ''Initializing syscalls interface'', ''Initializing kernel memory manager...'', ''Initializing virtual memory manager...'',
      ''Initializing kernel heap...'', ''Initializing system timer at 1000 Hz...'', ''Initializing floppy disk controller...'',
      ''Initializing IDE controller...'', ''Initializing VFS layer...'', ''Mounting initfs FAT12 on /fd0'',
      ''Formatting and mounting HFS filesystem on /hd1...'', ''Initializing scheduler...'', ''Running kernel tests...'', ''Starting init user process...'']"

definition boot_lits :: "u8 list list" where
  "boot_lits = boot_banner @ tests_banner @ map (\<lambda>msg. bytes_of msg @ [10]) boot_msgs @ [bytes_of ''%s'', log_prefix LOG_PRI]"

definition boot_inv :: "layout \<Rightarrow> 'w console \<Rightarrow> bool" where
  "boot_inv ly con \<longleftrightarrow> lay_printf ly \<noteq> NULL \<and> (\<forall>s\<in>set boot_lits. lay_lit ly s \<noteq> NULL \<and> lit_ok ly (con_mem con) s)"

text \<open>A step that keeps the literals and sends \<open>tx\<close> over the serial line.\<close>

definition sends :: "layout \<Rightarrow> u8 list \<Rightarrow> 'w boot_step \<Rightarrow> bool" where
  "sends ly tx f \<longleftrightarrow> (\<forall>con. boot_inv ly con \<longrightarrow> (\<exists>con'. f con = Some con' \<and> boot_inv ly con'
     \<and> writes_to (SERIAL_XMITBUF COM1_IO_BASE) (con_trace con') = writes_to (SERIAL_XMITBUF COM1_IO_BASE) (con_trace con) @ tx))"

lemma sends_bind:
  assumes "sends ly a f" and "sends ly b g"
  shows "sends ly (a @ b) (\<lambda>con. Option.bind (f con) g)"
  unfolding sends_def
proof (intro allI impI)
  fix con :: "'a console" assume "boot_inv ly con"
  then obtain con1 where c1: "f con = Some con1" "boot_inv ly con1"
    "writes_to (SERIAL_XMITBUF COM1_IO_BASE) (con_trace con1) = writes_to (SERIAL_XMITBUF COM1_IO_BASE) (con_trace con) @ a"
    using assms(1) unfolding sends_def by blast
  obtain con2 where "g con1 = Some con2" "boot_inv ly con2"
    "writes_to (SERIAL_XMITBUF COM1_IO_BASE) (con_trace con2) = writes_to (SERIAL_XMITBUF COM1_IO_BASE) (con_trace con1) @ b"
    using assms(2) c1(2) unfolding sends_def by blast
  then show "\<exists>con'. Option.bind (f con) g = Some con' \<and> boot_inv ly con'
     \<and> writes_to (SERIAL_XMITBUF COM1_IO_BASE) (con_trace con') = writes_to (SERIAL_XMITBUF COM1_IO_BASE) (con_trace con) @ a @ b"
    using c1 by simp
qed

lemma sends_tty: "sends ly [] (\<lambda>con. Some (con\<lparr>con_tty := f (con_tty con)\<rparr>))"
  by (simp add: sends_def boot_inv_def)

lemma boot_inv_frame:
  assumes "boot_inv ly con" and "\<forall>a. a \<notin> R \<longrightarrow> con_mem con' a = con_mem con a"
    and "\<forall>s\<in>set boot_lits. region (lay_lit ly s) (Suc (length s)) \<inter> R = {}"
  shows "boot_inv ly con'"
proof -
  have "lit_ok ly (con_mem con') s" if "s \<in> set boot_lits" for s
  proof -
    have l: "lit_ok ly (con_mem con) s" "region (lay_lit ly s) (Suc (length s)) \<inter> R = {}" using assms(1,3) that by (auto simp: boot_inv_def)
    have "cstr_at (con_mem con') (lay_lit ly s) s = cstr_at (con_mem con) (lay_lit ly s) s" by (rule cstr_at_cong) (use l(2) assms(2) in blast)
    then show ?thesis using l(1) by (simp add: lit_ok_def)
  qed
  then show ?thesis using assms(1) by (simp add: boot_inv_def)
qed

lemma printk_sends:
  assumes uart: "thr_gets_empty hw" and "boot_inv ly con" and "fmt \<in> set boot_lits" and "fmt = concat (map piece_text ps)"
    and "\<forall>p\<in>set ps. piece_ok (con_mem con) (lay_printf ly) 1024 p" and "ap = concat (map piece_args ps)"
    and "tx = concat (map piece_out ps)" and "length tx < 1024"
  shows "\<exists>r con'. printk hw tty ly fmt ap con = Some (r, con') \<and> boot_inv ly con'
     \<and> writes_to (SERIAL_XMITBUF COM1_IO_BASE) (con_trace con') = writes_to (SERIAL_XMITBUF COM1_IO_BASE) (con_trace con) @ crlf tx"
proof -
  have lit: "lit_ok ly (con_mem con) fmt" "lay_printf ly \<noteq> NULL" using assms(2,3) by (auto simp: boot_inv_def)
  obtain m tr where p: "printk hw tty ly fmt ap con
       = Some (of_nat (length tx), con\<lparr>con_mem := m, con_tty := terminal_writestring tty m (lay_printf ly) (con_tty con), con_trace := tr\<rparr>)"
     "same_outside (lay_printf ly) 1024 (con_mem con) m"
     "writes_to (SERIAL_XMITBUF COM1_IO_BASE) tr = writes_to (SERIAL_XMITBUF COM1_IO_BASE) (con_trace con) @ crlf (take 1023 tx)"
    using printk_pieces [OF uart lit(1) assms(4-7) _ lit(2), of tty] assms(8) by auto
  let ?con = "con\<lparr>con_mem := m, con_tty := terminal_writestring tty m (lay_printf ly) (con_tty con), con_trace := tr\<rparr>"
  have "\<forall>s\<in>set boot_lits. region (lay_lit ly s) (Suc (length s)) \<inter> region (lay_printf ly) 1024 = {}"
    using assms(2) by (auto simp: boot_inv_def lit_ok_def)
  then have "boot_inv ly ?con"
    by (intro boot_inv_frame [OF assms(2), where R = "region (lay_printf ly) 1024"]) (use p(2) in \<open>simp_all add: same_outside_def\<close>)
  then show ?thesis using p assms(8) by (intro exI [of _ "of_nat (length tx)"] exI [of _ ?con]) simp
qed

lemma boot_print_sends:
  assumes "thr_gets_empty hw" and "s \<in> set boot_lits" and "37 \<notin> set s" and "length s < 1024"
  shows "sends ly (crlf s) (boot_print hw tty ly s)"
  unfolding sends_def
proof (intro allI impI)
  fix con :: "'a console" assume inv: "boot_inv ly con"
  have "0 \<notin> set s" using inv assms(2) cstr_at_nonzero by (auto simp: boot_inv_def lit_ok_def)
  then have ok: "\<forall>p\<in>set (map Lit s). piece_ok (con_mem con) (lay_printf ly) 1024 p" using assms(3) by auto
  have "s = concat (map piece_text (map Lit s))" "[] = concat (map piece_args (map Lit s))" "s = concat (map piece_out (map Lit s))"
    by (induction s) simp_all
  from printk_sends [OF assms(1) inv assms(2) this(1) ok this(2,3) assms(4), of tty]
  show "\<exists>con'. boot_print hw tty ly s con = Some con' \<and> boot_inv ly con'
     \<and> writes_to (SERIAL_XMITBUF COM1_IO_BASE) (con_trace con') = writes_to (SERIAL_XMITBUF COM1_IO_BASE) (con_trace con) @ crlf s"
    by (auto simp: boot_print_def)
qed

lemma prefix_sends:
  assumes "thr_gets_empty hw"
  shows "sends ly (crlf (log_prefix LOG_PRI)) (PRINT_PREFIX hw tty ly None LOG_PRI)"
  unfolding sends_def
proof (intro allI impI)
  fix con :: "'a console" assume "boot_inv ly con"
  let ?con = "con\<lparr>con_tty := terminal_settext_color tty (log_color LOG_PRI) (con_tty con)\<rparr>" and ?p = "log_prefix LOG_PRI"
  have inv: "boot_inv ly ?con" using \<open>boot_inv ly con\<close> by (simp add: boot_inv_def)
  have m: "bytes_of ''%s'' \<in> set boot_lits" "?p \<in> set boot_lits" by (simp_all add: boot_lits_def)
  have l: "lay_lit ly ?p \<noteq> NULL" "cstr_at (con_mem ?con) (lay_lit ly ?p) ?p" "region (lay_lit ly ?p) (Suc (length ?p)) \<inter> region (lay_printf ly) 1024 = {}"
    using inv m(2) unfolding boot_inv_def lit_ok_def by blast+
  let ?ps = "[Dir [] 0 (Str_Item (lay_lit ly ?p) ?p)]"
  have "bytes_of ''%s'' = concat (map piece_text ?ps)" by (simp add: bytes_of_def width_text_def)
  moreover have "\<forall>p\<in>set ?ps. piece_ok (con_mem ?con) (lay_printf ly) 1024 p" using l by (simp add: bytes_of_def)
  moreover have "[lay_lit ly ?p] = concat (map piece_args ?ps)" "?p = concat (map piece_out ?ps)" "length ?p < 1024"
    by (simp_all add: field_text_def bytes_of_def)
  ultimately obtain r con1 where c: "printk hw tty ly (bytes_of ''%s'') [lay_lit ly ?p] ?con = Some (r, con1)" "boot_inv ly con1"
     "writes_to (SERIAL_XMITBUF COM1_IO_BASE) (con_trace con1) = writes_to (SERIAL_XMITBUF COM1_IO_BASE) (con_trace ?con) @ crlf ?p"
    using printk_sends [OF assms inv m(1)] by blast
  have "PRINT_PREFIX hw tty ly None LOG_PRI con = Some (con1\<lparr>con_tty := terminal_reset_color tty (con_tty con1)\<rparr>)"
    unfolding PRINT_PREFIX_def option.case(1) c(1) by simp
  moreover have "boot_inv ly (con1\<lparr>con_tty := terminal_reset_color tty (con_tty con1)\<rparr>)" using c(2) by (simp add: boot_inv_def)
  ultimately show "\<exists>con'. PRINT_PREFIX hw tty ly None LOG_PRI con = Some con' \<and> boot_inv ly con'
     \<and> writes_to (SERIAL_XMITBUF COM1_IO_BASE) (con_trace con') = writes_to (SERIAL_XMITBUF COM1_IO_BASE) (con_trace con) @ crlf ?p"
    using c(3) by simp
qed

lemma msg_plain: "msg \<in> set boot_msgs \<Longrightarrow> 37 \<notin> set (bytes_of msg @ [10]) \<and> length (bytes_of msg @ [10]) < 1024 \<and> bytes_of msg @ [10] \<in> set boot_lits"
  by (auto simp: boot_msgs_def boot_lits_def bytes_of_def)

lemma LOG_P_sends:
  assumes "thr_gets_empty hw" and "msg \<in> set boot_msgs"
  shows "sends ly (crlf (log_prefix LOG_PRI @ bytes_of msg @ [10])) (LOG_P hw tty ly debug msg)"
proof -
  have b: "boot_print hw tty ly s = (\<lambda>con. map_option snd (printk hw tty ly s [] con))" for s by (rule ext) (simp add: boot_print_def)
  have "LOG_P hw tty ly debug msg = (\<lambda>con. Option.bind (PRINT_PREFIX hw tty ly None LOG_PRI con) (boot_print hw tty ly (bytes_of msg @ [10])))"
    by (rule ext) (simp add: LOG_P_def LOG_def b)
  moreover have "crlf (a @ c) = crlf a @ crlf c" for a c by (simp add: crlf_def)
  ultimately show ?thesis using sends_bind [OF prefix_sends boot_print_sends] assms msg_plain [OF assms(2)] by metis
qed

lemma crlf_append: "crlf (a @ b) = crlf a @ crlf b"
  by (simp add: crlf_def)

lemma sends_before_tty: "sends ly tx f \<Longrightarrow> sends ly tx (\<lambda>con. f (con\<lparr>con_tty := g (con_tty con)\<rparr>))"
  using sends_bind [OF sends_tty [of ly g], of tx f] by simp

lemma banner_plain: "s \<in> set (boot_banner @ tests_banner) \<Longrightarrow> s \<in> set boot_lits \<and> 37 \<notin> set s \<and> length s < 1024"
  by (auto simp: boot_banner_def tests_banner_def boot_lits_def bytes_of_def)

lemma load_msg_sends:
  assumes "thr_gets_empty hw"
  shows "sends ly (crlf (concat boot_banner)) (load_msg hw tty ly)"
proof -
  let ?a = "replicate 21 32 :: u8 list" and ?b = "bytes_of '' ~[ leanix1.0 kernel initalizing! ]~ '' @ [10, 10]"
    and ?c = "bytes_of '' +'' @ replicate 75 45 @ bytes_of ''+'' @ [10]"
  have s: "sends ly (crlf s) (boot_print hw tty ly s)" if "s \<in> set boot_banner" for s
    using boot_print_sends [OF assms] banner_plain that by auto
  have m: "?a \<in> set boot_banner" "?b \<in> set boot_banner" "?c \<in> set boot_banner" by (simp_all add: boot_banner_def)
  have "load_msg hw tty ly = (\<lambda>con. Option.bind (boot_print hw tty ly ?a con)
      (\<lambda>con. Option.bind (boot_print hw tty ly ?b (con\<lparr>con_tty := terminal_settext_color tty VGA_COLOR_WHITE (terminal_setbg_color tty VGA_COLOR_CYAN (con_tty con))\<rparr>))
        (\<lambda>con. boot_print hw tty ly ?c (con\<lparr>con_tty := terminal_reset_color tty (con_tty con)\<rparr>))))"
    by (rule ext) (simp add: load_msg_def Let_def)
  moreover have "sends ly (crlf ?a @ crlf ?b @ crlf ?c) \<dots>"
    by (intro sends_bind sends_before_tty [where g = "terminal_reset_color tty"]
        sends_before_tty [where g = "\<lambda>w. terminal_settext_color tty VGA_COLOR_WHITE (terminal_setbg_color tty VGA_COLOR_CYAN w)"] s m)
  moreover have "crlf ?a @ crlf ?b @ crlf ?c = crlf (concat boot_banner)" by (simp add: boot_banner_def flip: crlf_append)
  ultimately show ?thesis by simp
qed

lemma tests_msg_sends:
  assumes "thr_gets_empty hw"
  shows "sends ly (crlf (concat tests_banner)) (tests_msg hw tty ly)"
proof -
  let ?a = "[10] @ bytes_of '' +'' @ replicate 75 45 @ bytes_of ''+'' @ [10]" and ?b = "replicate 21 32 :: u8 list"
    and ?c = "bytes_of '' ~[ Starting Kernel Tests! ]~ ''" and ?d = "[10, 10] :: u8 list"
  have s: "sends ly (crlf s) (boot_print hw tty ly s)" if "s \<in> set tests_banner" for s
    using boot_print_sends [OF assms] banner_plain that by auto
  have m: "?a \<in> set tests_banner" "?b \<in> set tests_banner" "?c \<in> set tests_banner" "?d \<in> set tests_banner"
    by (simp_all add: tests_banner_def)
  have "tests_msg hw tty ly = (\<lambda>con. Option.bind (boot_print hw tty ly ?a con) (\<lambda>con. Option.bind (boot_print hw tty ly ?b con)
      (\<lambda>con. Option.bind (boot_print hw tty ly ?c (con\<lparr>con_tty := terminal_settext_color tty VGA_COLOR_RED (terminal_setbg_color tty VGA_COLOR_CYAN (con_tty con))\<rparr>))
        (\<lambda>con. boot_print hw tty ly ?d (con\<lparr>con_tty := terminal_reset_color tty (con_tty con)\<rparr>)))))"
    by (rule ext) (simp add: tests_msg_def Let_def)
  moreover have "sends ly (crlf ?a @ crlf ?b @ crlf ?c @ crlf ?d) \<dots>"
    by (intro sends_bind sends_before_tty [where g = "terminal_reset_color tty"]
        sends_before_tty [where g = "\<lambda>w. terminal_settext_color tty VGA_COLOR_RED (terminal_setbg_color tty VGA_COLOR_CYAN w)"] s m)
  moreover have "crlf ?a @ crlf ?b @ crlf ?c @ crlf ?d = crlf (concat tests_banner)" by (simp add: tests_banner_def flip: crlf_append)
  ultimately show ?thesis by simp
qed

lemma boot_serial_sends: "sends ly [12] boot_serial"
proof -
  have "snd (snd (serial_init False tr)) = tr @ snd (snd (serial_init False []))" for tr
    by (simp add: serial_init_def serial_disable_intrs_def serial_disable_fifo_def serial_set_rate_def
        serial_set_params_def serial_set_modemctrl_def outb_def Let_def)
  then have "writes_to (SERIAL_XMITBUF COM1_IO_BASE) (snd (snd (serial_init False tr))) = writes_to (SERIAL_XMITBUF COM1_IO_BASE) tr @ [12]" for tr
    by (simp add: serial_init_trace writes_to_append SERIAL_XMITBUF_def COM1_IO_BASE_def)
  then show ?thesis by (simp add: sends_def boot_serial_def boot_inv_def)
qed

lemma zero_bss_sends:
  assumes "\<forall>s\<in>set boot_lits. region (lay_lit ly s) (Suc (length s)) \<inter> region (kbss_start lk) (unat (kbss_end lk - kbss_start lk)) = {}"
  shows "sends ly [] (\<lambda>con. Some (con\<lparr>con_mem := zero_bss lk (con_mem con)\<rparr>))"
proof -
  have "boot_inv ly (con\<lparr>con_mem := zero_bss lk (con_mem con)\<rparr>)" if "boot_inv ly con" for con :: "'a console"
    by (rule boot_inv_frame [OF that _ assms]) (simp add: zero_bss_def memset_store store_bytes_other)
  then show ?thesis by (simp add: sends_def)
qed

text \<open>The calls \<^verbatim>\<open>kmain\<close> makes once the serial port is initialised, each with the message in front of it.\<close>

definition boot_calls :: "hardware \<Rightarrow> 'w tty_ops \<Rightarrow> layout \<Rightarrow> bool \<Rightarrow> 'w boot_ops \<Rightarrow> (string option \<times> 'w boot_step) list" where
  "boot_calls hw tty ly testing ops =
     [(Some ''Initializing system descriptors...'', bo_gdt_init_flat_protected ops),
      (Some ''Initializing system interrupts...'', bo_setup_x86_interrutps ops),
      (Some ''Initializing terminal input...'', bo_terminal_stdin_init ops),
      (Some ''Initializing syscalls interface'', bo_syscall_init ops),
      (Some ''Initializing kernel memory manager...'', bo_kmm_init ops),
      (Some ''Initializing virtual memory manager...'', bo_vmm_init ops),
      (Some ''Initializing kernel heap...'', bo_kheap_init ops KERNEL_HEAP_VIRT KERNEL_HEAP_SIZE KERNEL_HEAP_SIZE True False),
      (Some ''Initializing system timer at 1000 Hz...'', bo_init_system_timer ops 1000),
      (Some ''Initializing floppy disk controller...'', bo_fdc_init ops),
      (Some ''Initializing IDE controller...'', bo_ide_init ops),
      (Some ''Initializing VFS layer...'', bo_vfs_init ops),
      (Some ''Mounting initfs FAT12 on /fd0'', bo_vfs_mount ops ''fd0'' ''/fd0'' ''fat12''),
      (Some ''Formatting and mounting HFS filesystem on /hd1...'', bo_hfs_format ops ''hd1''),
      (None, bo_vfs_mount ops ''hd1'' ''/hd1'' ''hfs''),
      (Some ''Initializing scheduler...'', bo_scheduler_init ops)] @
     (if testing then [(Some ''Running kernel tests...'', tests_msg hw tty ly), (None, bo_start_tests ops)] else []) @
     [(Some ''Starting init user process...'', bo_process_spawn ops ''/fd0/SHALL'')]"

primrec boot_run :: "('w boot_step \<times> 'w boot_step) list \<Rightarrow> 'w boot_step" where
  "boot_run [] con = Some con"
| "boot_run (c # cs) con = Option.bind (fst c con) (\<lambda>con. Option.bind (snd c con) (boot_run cs))"

definition boot_say :: "hardware \<Rightarrow> 'w tty_ops \<Rightarrow> layout \<Rightarrow> bool \<Rightarrow> string option \<Rightarrow> 'w boot_step" where
  "boot_say hw tty ly debug msg = (case msg of None \<Rightarrow> Some | Some s \<Rightarrow> LOG_P hw tty ly debug s)"

definition boot_line :: "string option \<Rightarrow> u8 list" where
  "boot_line msg = (case msg of None \<Rightarrow> [] | Some s \<Rightarrow> crlf (log_prefix LOG_PRI @ bytes_of s @ [10]))"

lemma boot_run_eta: "boot_run [] = Some" "boot_run (c # cs) = (\<lambda>con. Option.bind (fst c con) (\<lambda>con. Option.bind (snd c con) (boot_run cs)))"
  by (rule ext, simp)+

lemma kmain_run:
  "kmain hw tty ly lk False testing ops =
     (\<lambda>con. Option.bind (Some (con\<lparr>con_mem := zero_bss lk (con_mem con)\<rparr>)) (\<lambda>con. Option.bind (bo_tty_init ops con)
        (\<lambda>con. Option.bind (load_msg hw tty ly con) (\<lambda>con. Option.bind (boot_serial con)
          (boot_run (map (\<lambda>(msg, f). (boot_say hw tty ly False msg, f)) (boot_calls hw tty ly testing ops)))))))"
  by (cases testing; rule ext) (simp_all add: kmain_def boot_calls_def boot_say_def LOG_DEBUG_def LOG_def boot_run_eta del: boot_run.simps)

lemma boot_say_sends:
  assumes "thr_gets_empty hw" and "msg \<in> fst ` set (boot_calls hw' tty' ly' testing ops)"
  shows "sends ly (boot_line msg) (boot_say hw tty ly debug msg)"
proof (cases msg)
  case None
  then show ?thesis by (simp add: boot_line_def boot_say_def sends_def)
next
  case (Some s)
  then have "s \<in> set boot_msgs" using assms(2) by (auto simp: boot_calls_def boot_msgs_def split: if_splits)
  then show ?thesis using Some LOG_P_sends [OF assms(1)] by (simp add: boot_line_def boot_say_def)
qed

lemma boot_run_sends:
  assumes "list_all2 (\<lambda>tx c. sends ly (fst tx) (fst c) \<and> sends ly (snd tx) (snd c)) txs cs"
  shows "sends ly (concat (map (\<lambda>(a, b). a @ b) txs)) (boot_run cs)"
  using assms
proof (induction txs cs rule: list_all2_induct)
  case Nil
  then show ?case by (simp add: sends_def)
next
  case (Cons tx txs c cs)
  have "sends ly (fst tx @ snd tx @ concat (map (\<lambda>(a, b). a @ b) txs)) (boot_run (c # cs))"
    unfolding boot_run_eta(2) using Cons by (intro sends_bind) simp_all
  then show ?case by (cases tx) (simp del: boot_run.simps)
qed

text \<open>Further property: on a machine whose serial line gets ready again and whose initialisers return, \<^verbatim>\<open>kmain\<close> reaches its
  idle loop, and what it sends over the line is, in order: the text of the terminal's initialisation, the
  banner, the divisor byte that \<^verbatim>\<open>serial_init\<close> writes, and for every initialiser its message followed by what it
  prints itself. The banner goes out in front of \<^verbatim>\<open>serial_init\<close>, on a line that is not yet configured.\<close>

theorem kmain_boots:
  assumes "thr_gets_empty hw" and "boot_inv ly con"
    and "\<forall>s\<in>set boot_lits. region (lay_lit ly s) (Suc (length s)) \<inter> region (kbss_start lk) (unat (kbss_end lk - kbss_start lk)) = {}"
    and "sends ly x0 (bo_tty_init ops)" and "list_all2 (sends ly) xs (map snd (boot_calls hw tty ly testing ops))"
  shows "\<exists>con'. kmain hw tty ly lk False testing ops con = Some con'
     \<and> writes_to (SERIAL_XMITBUF COM1_IO_BASE) (con_trace con') = writes_to (SERIAL_XMITBUF COM1_IO_BASE) (con_trace con)
          @ x0 @ crlf (concat boot_banner) @ [12] @ concat (map2 (\<lambda>c x. boot_line (fst c) @ x) (boot_calls hw tty ly testing ops) xs)"
proof -
  let ?cs = "boot_calls hw tty ly testing ops"
  let ?txs = "zip (map (\<lambda>c. boot_line (fst c)) ?cs) xs" and ?run = "map (\<lambda>(msg, f). (boot_say hw tty ly False msg, f)) ?cs"
  have len: "length xs = length ?cs" using list_all2_lengthD [OF assms(5)] by simp
  have "list_all2 (\<lambda>tx c. sends ly (fst tx) (fst c) \<and> sends ly (snd tx) (snd c)) ?txs ?run"
    unfolding list_all2_conv_all_nth
  proof (intro conjI allI impI)
    fix i assume i: "i < length ?txs"
    then have "sends ly (xs ! i) (snd (?cs ! i))" using len list_all2_nthD [OF assms(5), of i] by simp
    moreover have "sends ly (boot_line (fst (?cs ! i))) (boot_say hw tty ly False (fst (?cs ! i)))"
      by (rule boot_say_sends [OF assms(1), of _ hw tty ly testing ops]) (use i in simp)
    ultimately show "sends ly (fst (?txs ! i)) (fst (?run ! i))" "sends ly (snd (?txs ! i)) (snd (?run ! i))"
      using i len by (simp_all add: case_prod_beta)
  qed (simp add: len)
  from boot_run_sends [OF this]
  have "sends ly ([] @ x0 @ crlf (concat boot_banner) @ [12] @ concat (map (\<lambda>(a, b). a @ b) ?txs)) (kmain hw tty ly lk False testing ops)"
    unfolding kmain_run by (intro sends_bind zero_bss_sends assms(3,4) load_msg_sends [OF assms(1)] boot_serial_sends)
  moreover have "map (\<lambda>(a, b). a @ b) ?txs = map2 (\<lambda>c x. boot_line (fst c) @ x) ?cs xs" by (simp add: zip_map1 case_prod_beta)
  ultimately show ?thesis using assms(2) unfolding sends_def by auto
qed

text \<open>Further property: \<^verbatim>\<open>zero_bss\<close> clears exactly the bytes between the two symbols of the linker script.\<close>

theorem zero_bss_clears:
  "zero_bss lk m a = (if a \<in> region (kbss_start lk) (unat (kbss_end lk - kbss_start lk)) then 0 else m a)"
proof (cases "a \<in> region (kbss_start lk) (unat (kbss_end lk - kbss_start lk))")
  case True
  let ?n = "unat (kbss_end lk - kbss_start lk)"
  obtain i where i: "i < ?n" "a = kbss_start lk + of_nat i" using True by (auto simp: region_def)
  have "bytes_at (zero_bss lk m) (kbss_start lk) ?n = replicate ?n 0"
    using bytes_at_store_bytes [of "replicate ?n (0 :: u8)" m "kbss_start lk"] unat_u32_bound [of "kbss_end lk - kbss_start lk"]
    by (simp add: zero_bss_def memset_store)
  from arg_cong [OF this, where f = "\<lambda>l. l ! i"] show ?thesis using i True by simp
next
  case False
  then show ?thesis by (simp add: zero_bss_def memset_store store_bytes_other)
qed

section \<open>A machine that boots\<close>

definition demo_boot :: layout where
  "demo_boot = \<lparr>lay_lit = pool_addr 0x5000 boot_lits, lay_null = 0x4000, lay_printf = 0x1000\<rparr>"

definition demo_linker :: linker where
  "demo_linker = \<lparr>kernel_start = 0x5000, kernel_end = 0xA000, kbss_start = 0x8000, kbss_end = 0x8100\<rparr>"

definition demo_console :: "u8 list console" where
  "demo_console = \<lparr>con_mem = store_bytes (\<lambda>_. 7) 0x5000 (pool_bytes boot_lits), con_tty = [], con_trace = []\<rparr>"

definition demo_ops :: "u8 list boot_ops" where
  "demo_ops = \<lparr>bo_tty_init = Some, bo_gdt_init_flat_protected = Some, bo_setup_x86_interrutps = Some, bo_terminal_stdin_init = Some,
     bo_syscall_init = Some, bo_kmm_init = Some, bo_vmm_init = Some, bo_kheap_init = \<lambda>a b c d e. Some, bo_init_system_timer = \<lambda>a. Some,
     bo_fdc_init = Some, bo_ide_init = Some, bo_vfs_init = Some, bo_vfs_mount = \<lambda>a b c. Some, bo_hfs_format = \<lambda>a. Some,
     bo_scheduler_init = Some, bo_start_tests = Some, bo_process_spawn = \<lambda>a. Some\<rparr>"

lemma boot_pool_length: "length (pool_bytes boot_lits) < 0x1000"
  by (simp add: pool_bytes_def boot_lits_def boot_banner_def tests_banner_def boot_msgs_def bytes_of_def)

lemma boot_lits_nz: "s \<in> set boot_lits \<Longrightarrow> 0 \<notin> set s"
  by (auto simp: boot_lits_def boot_banner_def tests_banner_def boot_msgs_def bytes_of_def)

lemma demo_boot_lit:
  assumes "s \<in> set boot_lits"
  shows "cstr_at (con_mem demo_console) (lay_lit demo_boot s) s"
    "region (lay_lit demo_boot s) (Suc (length s)) \<subseteq> region 0x5000 (length (pool_bytes boot_lits))"
proof -
  have "bytes_at (con_mem demo_console) 0x5000 (length (pool_bytes boot_lits)) = pool_bytes boot_lits"
    using bytes_at_store_bytes [of "pool_bytes boot_lits"] boot_pool_length by (simp add: demo_console_def)
  from pool_at [OF assms boot_lits_nz [OF assms] this]
  show "cstr_at (con_mem demo_console) (lay_lit demo_boot s) s"
    "region (lay_lit demo_boot s) (Suc (length s)) \<subseteq> region 0x5000 (length (pool_bytes boot_lits))" by (simp_all add: demo_boot_def)
qed

lemma demo_boot_inv: "boot_inv demo_boot demo_console"
proof -
  have apart: "region 0x1000 1024 \<inter> region 0x5000 (length (pool_bytes boot_lits)) = {}" "NULL \<notin> region 0x5000 (length (pool_bytes boot_lits))"
    using boot_pool_length by (simp_all add: region_apart null_apart)
  have buf: "lay_printf demo_boot = 0x1000" by (simp add: demo_boot_def)
  have "lay_lit demo_boot s \<noteq> NULL \<and> lit_ok demo_boot (con_mem demo_console) s" if "s \<in> set boot_lits" for s
  proof
    note d = demo_boot_lit [OF that]
    have "lay_lit demo_boot s \<in> region (lay_lit demo_boot s) (Suc (length s))" by (simp add: region_Suc)
    then have "lay_lit demo_boot s \<in> region 0x5000 (length (pool_bytes boot_lits))" using d(2) by blast
    then show "lay_lit demo_boot s \<noteq> NULL" using apart(2) by metis
    show "lit_ok demo_boot (con_mem demo_console) s" using d apart(1) unfolding lit_ok_def buf by blast
  qed
  then show ?thesis by (simp add: boot_inv_def buf)
qed

lemma demo_boot_bss:
  "\<forall>s\<in>set boot_lits. region (lay_lit demo_boot s) (Suc (length s))
      \<inter> region (kbss_start demo_linker) (unat (kbss_end demo_linker - kbss_start demo_linker)) = {}"
proof
  fix s assume "s \<in> set boot_lits"
  moreover have "region 0x5000 (length (pool_bytes boot_lits)) \<inter> region (0x8000 :: u32) 0x100 = {}"
    using boot_pool_length by (simp add: region_apart)
  ultimately show "region (lay_lit demo_boot s) (Suc (length s)) \<inter> region (kbss_start demo_linker) (unat (kbss_end demo_linker - kbss_start demo_linker)) = {}"
    using demo_boot_lit(2) by (auto simp: demo_linker_def)
qed

theorem kmain_boots_witness:
  "\<exists>con'. kmain ready_uart demo_tty demo_boot demo_linker False False demo_ops demo_console = Some con'
     \<and> writes_to 0x3F8 (con_trace con') = crlf (concat boot_banner) @ [12] @ concat (map (\<lambda>c. boot_line (fst c)) (boot_calls ready_uart demo_tty demo_boot False demo_ops))"
proof -
  have quiet: "sends demo_boot [] Some" by (simp add: sends_def)
  have calls: "list_all2 (sends demo_boot) (replicate 16 []) (map snd (boot_calls ready_uart demo_tty demo_boot False demo_ops))"
    by (simp add: boot_calls_def demo_ops_def quiet numeral_eq_Suc)
  have tty: "sends demo_boot [] (bo_tty_init demo_ops)" by (simp add: demo_ops_def quiet)
  have "concat (map2 (\<lambda>c x. boot_line (fst c) @ x) (boot_calls ready_uart demo_tty demo_boot False demo_ops) (replicate 16 [])) = concat (map (\<lambda>c. boot_line (fst c)) (boot_calls ready_uart demo_tty demo_boot False demo_ops))"
    by (simp add: boot_calls_def numeral_eq_Suc)
  then show ?thesis using kmain_boots [OF ready_uart_empty demo_boot_inv demo_boot_bss tty calls]
    by (simp add: demo_console_def SERIAL_XMITBUF_def COM1_IO_BASE_def)
qed

end
