(* ===== verification/Kernel_Machine.thy ===== *)
theory Kernel_Machine
  imports Fs_Floppy Fs_Vfs_Run
begin

text \<open>
  One machine with both disk drivers. The models of \<^verbatim>\<open>driver/fdc.c\<close> and \<^verbatim>\<open>driver/ide.c\<close> work on the state of their
  own device; here the functions they register with the block layer act on their part of the state of the machine,
  and a disk that a driver reads is read in the same way through the machine's block layer.
\<close>

section \<open>A driver's functions on its part of the state\<close>

definition embed_ops :: "('w \<Rightarrow> 'a) \<Rightarrow> ('a \<Rightarrow> 'w \<Rightarrow> 'w) \<Rightarrow> 'a block_device_ops_t \<Rightarrow> 'w block_device_ops_t" where
  "embed_ops get put ops =
     \<lparr>op_read = map_option (\<lambda>rd priv lba b w. map_option (\<lambda>(r, b', a). (r, b', put a w)) (rd priv lba b (get w))) (op_read ops),
      op_write = map_option (\<lambda>wr priv lba b w. map_option (\<lambda>(r, a). (r, put a w)) (wr priv lba b (get w))) (op_write ops)\<rparr>"

definition embed_dev :: "('w \<Rightarrow> 'a) \<Rightarrow> ('a \<Rightarrow> 'w \<Rightarrow> 'w) \<Rightarrow> 'a block_device_t \<Rightarrow> 'w block_device_t" where
  "embed_dev get put d =
     \<lparr>bd_name = bd_name d, bd_block_size = bd_block_size d, bd_num_blocks = bd_num_blocks d, bd_private = bd_private d,
      bd_ops = map_option (embed_ops get put) (bd_ops d)\<rparr>"

text \<open>The device at \<open>dev\<close> is one of the driver, in a state of the driver's part that has the property \<open>I\<close>.\<close>

definition embedded :: "('w \<Rightarrow> 'a) \<Rightarrow> ('a \<Rightarrow> 'w \<Rightarrow> 'w) \<Rightarrow> ptr \<Rightarrow> ('a blk_state \<Rightarrow> 'a \<Rightarrow> bool) \<Rightarrow> 'w blk_state \<Rightarrow> 'w \<Rightarrow> bool" where
  "embedded get put dev I bs w \<longleftrightarrow>
     (\<exists>bs0. blk_store bs dev = map_option (embed_dev get put) (blk_store bs0 dev) \<and> I bs0 (get w))"

locale state_part =
  fixes get :: "'w \<Rightarrow> 'a" and put :: "'a \<Rightarrow> 'w \<Rightarrow> 'w"
  assumes get_put [simp]: "get (put a w) = a" and put_get [simp]: "put (get w) w = w"
begin

lemma blkread_embedded:
  "blkread (map_option (embed_dev get put) d) lba b w = map_option (\<lambda>(r, b', a). (r, b', put a w)) (blkread d lba b (get w))"
proof (cases "Option.bind d bd_ops")
  case None
  then show ?thesis by (cases d) (simp_all add: blkread_def embed_dev_def)
next
  case (Some ops)
  then show ?thesis by (cases d; cases "op_read ops") (simp_all add: blkread_def embed_dev_def embed_ops_def)
qed

lemma blkwrite_embedded:
  "blkwrite (map_option (embed_dev get put) d) lba b w = map_option (\<lambda>(r, a). (r, put a w)) (blkwrite d lba b (get w))"
proof (cases "Option.bind d bd_ops")
  case None
  then show ?thesis by (cases d) (simp_all add: blkwrite_def embed_dev_def)
next
  case (Some ops)
  then show ?thesis by (cases d; cases "op_write ops") (simp_all add: blkwrite_def embed_dev_def embed_ops_def)
qed

lemma kblkread_embedded:
  assumes "blk_store (ks_blk s) dev = map_option (embed_dev get put) (blk_store (ks_blk s0) dev)" and "ks_world s0 = get (ks_world s)"
    and "kblkread dev lba b s0 = Some (b', s0\<lparr>ks_world := a\<rparr>)"
  shows "kblkread dev lba b s = Some (b', s\<lparr>ks_world := put a (ks_world s)\<rparr>)"
proof -
  let ?d = "if dev = NULL then None else blk_store (ks_blk s0) dev"
  have d: "(if dev = NULL then None else blk_store (ks_blk s) dev) = map_option (embed_dev get put) ?d" using assms(1) by simp
  have inj: "s0\<lparr>ks_world := x\<rparr> = s0\<lparr>ks_world := y\<rparr> \<longleftrightarrow> x = y" for x y
    by (cases s0) simp
  obtain r where "blkread ?d lba (Some b) (get (ks_world s)) = Some (r, Some b', a)"
    using assms(2,3) by (auto simp: kblkread_def Option.bind_eq_Some_conv inj split: if_splits option.splits)
  then show ?thesis using assms(1,3) unfolding kblkread_def d blkread_embedded by (auto split: if_splits)
qed

text \<open>What reads as a disk to the driver reads as the same disk to the machine.\<close>

lemma embedded_reads_disk:
  assumes "reads_disk dev I disk n"
  shows "reads_disk dev (embedded get put dev I) disk n"
  unfolding reads_disk_def
proof (intro conjI allI impI, goal_cases)
  case (3 s lba b)
  then obtain bs0 where e: "blk_store (ks_blk s) dev = map_option (embed_dev get put) (blk_store bs0 dev)" "I bs0 (get (ks_world s))"
    by (auto simp: embedded_def)
  let ?s0 = "\<lparr>ks_store = ks_store s, ks_blk = bs0, ks_world = get (ks_world s), mountpoints = mountpoints s, curr_size = curr_size s,
     vfs_root_vnode = vfs_root_vnode s\<rparr>"
  obtain a where a: "kblkread dev (of_nat lba) b ?s0 = Some (disk lba @ drop 512 b, ?s0\<lparr>ks_world := a\<rparr>)" "I bs0 a"
    using assms 3 e(2) unfolding reads_disk_def by (elim conjE) (drule spec [of _ ?s0], fastforce)
  have "kblkread dev (of_nat lba) b s = Some (disk lba @ drop 512 b, s\<lparr>ks_world := put a (ks_world s)\<rparr>)"
    by (rule kblkread_embedded [OF _ _ a(1)]) (use e(1) in simp_all)
  moreover have "embedded get put dev I (ks_blk s) (put a (ks_world s))" using e(1) a(2) by (auto simp: embedded_def)
  ultimately show ?case by blast
qed (use assms in \<open>auto simp: reads_disk_def\<close>)

text \<open>A change outside the part, and to other devices, is not seen.\<close>

lemma embedded_cong:
  assumes "embedded get put dev I bs w" and "blk_store bs' dev = blk_store bs dev" and "get w' = get w"
  shows "embedded get put dev I bs' w'"
  using assms by (auto simp: embedded_def)

end

section \<open>The machine\<close>

record disks =
  dk_fdc :: fdc_state
  dk_ide :: ide_state

definition put_fdc :: "fdc_state \<Rightarrow> disks \<Rightarrow> disks" where
  "put_fdc a w = w\<lparr>dk_fdc := a\<rparr>"

definition put_ide :: "ide_state \<Rightarrow> disks \<Rightarrow> disks" where
  "put_ide a w = w\<lparr>dk_ide := a\<rparr>"

interpretation fdcp: state_part dk_fdc put_fdc
  by unfold_locales (simp_all add: put_fdc_def)

interpretation idep: state_part dk_ide put_ide
  by unfold_locales (simp_all add: put_ide_def)

lemma parts_apart [simp]: "dk_ide (put_fdc a w) = dk_ide w" "dk_fdc (put_ide b w) = dk_fdc w"
  by (simp_all add: put_fdc_def put_ide_def)

text \<open>The floppy disk and the IDE disk of the machine, below the file systems.\<close>

definition fd_in_machine :: "hardware \<Rightarrow> dmac0 \<Rightarrow> (u8 \<Rightarrow> u8 \<Rightarrow> u8 \<Rightarrow> u8 list) \<Rightarrow> ptr \<Rightarrow> disks blk_state \<Rightarrow> disks \<Rightarrow> bool" where
  "fd_in_machine hw d0 disk dev = embedded dk_fdc put_fdc dev (fdc_serves hw d0 disk dev)"


definition hd_in_machine :: "hardware \<Rightarrow> ptr \<Rightarrow> (bool \<Rightarrow> u16 list) \<Rightarrow> ata \<Rightarrow> ptr \<Rightarrow> nat \<Rightarrow> (nat \<Rightarrow> u16 list) \<Rightarrow> nat
    \<Rightarrow> disks blk_state \<Rightarrow> disks \<Rightarrow> bool" where
  "hd_in_machine hw prim idn a dev i img n = embedded dk_ide put_ide dev (ide_serves hw prim idn a dev i img n)"

interpretation fdm: block_disk dev "fd_in_machine hw d0 disk dev" "floppy_image disk" 2880
  for dev hw d0 disk
  unfolding fd_in_machine_def by unfold_locales (rule fdcp.embedded_reads_disk [OF fdcd.readable])

interpretation hdm: block_disk dev "hd_in_machine hw prim idn a dev i img n" "ide_image img" "min n 268435456"
  for dev hw prim idn a i img n
  unfolding hd_in_machine_def by unfold_locales (rule idep.embedded_reads_disk [OF ided.readable])

section \<open>Initialising both drivers\<close>

text \<open>\<^verbatim>\<open>fdc_init\<close> and \<^verbatim>\<open>ide_init\<close> as \<^verbatim>\<open>kmain\<close> calls them, on the state of the machine.\<close>

definition machine_fdc_init :: "hardware \<Rightarrow> (disks blk_state \<Rightarrow> u32 \<Rightarrow> ptr) \<Rightarrow> disks kstate \<Rightarrow> disks kstate option" where
  "machine_fdc_init hw malloc s =
     map_option (\<lambda>(a, bs, irq). s\<lparr>ks_blk := bs, ks_world := put_fdc a (ks_world s)\<rparr>)
       (fdc_init (embed_ops dk_fdc put_fdc) hw malloc (dk_fdc (ks_world s)) (ks_blk s))"

definition machine_ide_init :: "hardware \<Rightarrow> ptr \<Rightarrow> (disks blk_state \<Rightarrow> u32 \<Rightarrow> ptr) \<Rightarrow> disks kstate \<Rightarrow> disks kstate option" where
  "machine_ide_init hw prim malloc s =
     (case ide_init (embed_ops dk_ide put_ide) hw prim malloc (dk_ide (ks_world s)) (ks_blk s) of
        (a, bs, irq) \<Rightarrow> Some (s\<lparr>ks_blk := bs, ks_world := put_ide a (ks_world s)\<rparr>))"

text \<open>After \<^verbatim>\<open>fdc_init\<close> the name \<^verbatim>\<open>fd0\<close> finds the floppy disk.\<close>

definition fd0_ready :: "hardware \<Rightarrow> dmac0 \<Rightarrow> (u8 \<Rightarrow> u8 \<Rightarrow> u8 \<Rightarrow> u8 list) \<Rightarrow> ptr \<Rightarrow> disks kstate \<Rightarrow> bool" where
  "fd0_ready hw d0 disk dev s \<longleftrightarrow> blk_inv (ks_blk s) \<and> dev \<noteq> NULL \<and> dev = blkdev_get_by_name (ks_blk s) (Some [102, 100, 48])
     \<and> fd_in_machine hw d0 disk dev (ks_blk s) (ks_world s)"

lemma machine_fdc_init_ready:
  assumes hw: "fdc_answers hw" "fdc_reports_seek hw" "floppy_serves hw d0 disk" and inv: "blk_inv (ks_blk s)" "malloc_fresh malloc"
    and reg: "fst (blkdev_register malloc [102, 100, 48] 512 2880 (Some (embed_ops dk_fdc put_fdc (fdc_block_ops hw))) NULL (ks_blk s)) = 0"
  obtains b w dev where "machine_fdc_init hw malloc s = Some (s\<lparr>ks_blk := b, ks_world := w\<rparr>)"
    and "fd0_ready hw d0 disk dev (s\<lparr>ks_blk := b, ks_world := w\<rparr>)"
proof -
  obtain a b dev where r: "fdc_init (embed_ops dk_fdc put_fdc) hw malloc (dk_fdc (ks_world s)) (ks_blk s) = Some (a, b, IRQ6_FLOPPY)"
    "fdc_current_drive a = 0" "blk_inv b" "dev = blkdev_get_by_name b (Some [102, 100, 48])" "dev \<noteq> NULL"
    "blk_store b dev = Some \<lparr>bd_name = [102, 100, 48], bd_block_size = 512, bd_num_blocks = 2880, bd_private = NULL,
       bd_ops = Some (embed_ops dk_fdc put_fdc (fdc_block_ops hw))\<rparr>"
    by (rule fdc_init_registers [OF hw(1) inv, where emb = "embed_ops dk_fdc put_fdc" and s = "dk_fdc (ks_world s)"]) (use reg in simp)
  let ?d = "\<lparr>bd_name = [102, 100, 48], bd_block_size = 512, bd_num_blocks = 2880, bd_private = NULL, bd_ops = Some (fdc_block_ops hw)\<rparr>"
  let ?b0 = "no_devices\<lparr>blk_store := [dev \<mapsto> ?d]\<rparr>"
  have "fdc_serves hw d0 disk dev ?b0 a" using hw r(2,5) by (simp add: fdc_serves_def fdc_motor_mask_def)
  then have "fd_in_machine hw d0 disk dev b (put_fdc a (ks_world s))"
    unfolding fd_in_machine_def embedded_def using r(6) by (intro exI [of _ ?b0]) (simp add: embed_dev_def)
  then have "fd0_ready hw d0 disk dev (s\<lparr>ks_blk := b, ks_world := put_fdc a (ks_world s)\<rparr>)" using r(3-5) by (simp add: fd0_ready_def)
  moreover have "machine_fdc_init hw malloc s = Some (s\<lparr>ks_blk := b, ks_world := put_fdc a (ks_world s)\<rparr>)"
    using r(1) by (simp add: machine_fdc_init_def)
  ultimately show ?thesis by (intro that)
qed

lemma ide_init_loop_keeps:
  assumes "malloc_fresh malloc" and "blk_inv bs" and "dev = blkdev_get_by_name bs (Some [102, 100, 48])" and "dev \<noteq> NULL"
    and "ide_init_loop emb hw prim malloc is (s, bs) = (s', bs')"
  shows "blk_inv bs' \<and> blkdev_get_by_name bs' (Some [102, 100, 48]) = dev \<and> blk_store bs' dev = blk_store bs dev"
  using assms(2-5)
proof (induction "is" arbitrary: s bs)
  case (Cons i "is")
  let ?s1 = "ide_probe hw i s"
  let ?bs1 = "ide_register emb hw prim malloc i (ide_dev ?s1 i) bs"
  have "blk_inv ?bs1 \<and> blkdev_get_by_name ?bs1 (Some [102, 100, 48]) = dev \<and> blk_store ?bs1 dev = blk_store bs dev"
  proof (cases "ide_present (ide_dev ?s1 i) \<and> ide_is_hdd (ide_dev ?s1 i) \<and> ide_total_sectors (ide_dev ?s1 i) > 0")
    case True
    obtain r where r: "blkdev_register malloc (if i = 0 then [104, 100, 48] else [104, 100, 49]) IDE_SECTOR_SIZE
         (ide_total_sectors (ide_dev ?s1 i)) (Some (emb (ide_block_device_ops hw prim))) (ide_dev_ptr prim i) bs = (r, ?bs1)"
      using True by (metis ide_register_def prod.collapse)
    show ?thesis
      using blkdev_register_keeps_inv [OF Cons.prems(1) assms(1) r] blkdev_register_keeps_devices [OF Cons.prems(1) assms(1) r Cons.prems(2,3)]
      by simp
  next
    case False
    then have "?bs1 = bs" by (auto simp: ide_register_def)
    then show ?thesis using Cons.prems by simp
  qed
  then show ?case using Cons.IH [of ?bs1 ?s1] Cons.prems(3,4) by (simp add: Let_def)
qed simp

lemma machine_ide_init_ready:
  assumes "malloc_fresh malloc" and "fd0_ready fhw d0 disk dev s"
  obtains b w where "machine_ide_init hw prim malloc s = Some (s\<lparr>ks_blk := b, ks_world := w\<rparr>)"
    and "fd0_ready fhw d0 disk dev (s\<lparr>ks_blk := b, ks_world := w\<rparr>)"
proof -
  obtain a b irq where r: "ide_init (embed_ops dk_ide put_ide) hw prim malloc (dk_ide (ks_world s)) (ks_blk s) = (a, b, irq)"
    by (cases "ide_init (embed_ops dk_ide put_ide) hw prim malloc (dk_ide (ks_world s)) (ks_blk s)")
  then obtain s2 where "ide_init_loop (embed_ops dk_ide put_ide) hw prim malloc [0..<IDE_MAX_DEVICES] (s2, ks_blk s) = (a, b)"
    by (auto simp: ide_init_def Let_def split: prod.splits)
  then have k: "blk_inv b" "blkdev_get_by_name b (Some [102, 100, 48]) = dev" "blk_store b dev = blk_store (ks_blk s) dev"
    using ide_init_loop_keeps [OF assms(1)] assms(2) unfolding fd0_ready_def by blast+
  have "fd_in_machine fhw d0 disk dev (ks_blk s) (ks_world s)" using assms(2) unfolding fd0_ready_def by blast
  then have "fd_in_machine fhw d0 disk dev b (put_ide a (ks_world s))"
    unfolding fd_in_machine_def by (rule fdcp.embedded_cong [OF _ k(3)]) simp
  then have "fd0_ready fhw d0 disk dev (s\<lparr>ks_blk := b, ks_world := put_ide a (ks_world s)\<rparr>)"
    using k assms(2) by (auto simp: fd0_ready_def)
  moreover have "machine_ide_init hw prim malloc s = Some (s\<lparr>ks_blk := b, ks_world := put_ide a (ks_world s)\<rparr>)"
    using r by (simp add: machine_ide_init_def)
  ultimately show ?thesis by (intro that)
qed

end
