(* ===== verification/Kernel_Boot.thy ===== *)
theory Kernel_Boot
  imports Kernel_Machine Init_Kmain
begin

text \<open>
  The boot of \<^verbatim>\<open>init/kmain.c\<close> with the drivers and the file systems in it: the initialisers that the other theories
  model act on the state of the machine, those in object files are arguments. The boot is proved step by
  step with triples for total correctness over that state, up to the mount of the floppy disk; what follows, the
  format and the mount of the HFS disk, the scheduler and the first process, is in object files.
\<close>

section \<open>The machine at boot\<close>

record 't machine =
  mc_term :: 't
  mc_ks :: "disks kstate"

definition machine_tty :: "'t tty_ops \<Rightarrow> 't machine tty_ops" where
  "machine_tty tty =
     \<lparr>terminal_writestring = \<lambda>m p w. w\<lparr>mc_term := terminal_writestring tty m p (mc_term w)\<rparr>,
      terminal_read = \<lambda>p n m w. map_option (\<lambda>(m', t). (m', w\<lparr>mc_term := t\<rparr>)) (terminal_read tty p n m (mc_term w)),
      terminal_settext_color = \<lambda>c w. w\<lparr>mc_term := terminal_settext_color tty c (mc_term w)\<rparr>,
      terminal_setbg_color = \<lambda>c w. w\<lparr>mc_term := terminal_setbg_color tty c (mc_term w)\<rparr>,
      terminal_reset_color = \<lambda>w. w\<lparr>mc_term := terminal_reset_color tty (mc_term w)\<rparr>\<rparr>"

definition on_ks :: "(disks kstate \<Rightarrow> disks kstate option) \<Rightarrow> 't machine boot_step" where
  "on_ks f con = map_option (\<lambda>s. con\<lparr>con_tty := (con_tty con)\<lparr>mc_ks := s\<rparr>\<rparr>) (f (mc_ks (con_tty con)))"

abbreviation con_ks :: "'t machine console \<Rightarrow> disks kstate" where
  "con_ks con \<equiv> mc_ks (con_tty con)"

text \<open>The initialisers: those of the disks and of the virtual file system as modelled, the others as given. \<^verbatim>\<open>kmain\<close>
  uses no result of theirs.\<close>

definition kernel_boot_ops :: "disks kheap \<Rightarrow> disks fs_table \<Rightarrow> hardware \<Rightarrow> hardware \<Rightarrow> ptr \<Rightarrow> (disks blk_state \<Rightarrow> u32 \<Rightarrow> ptr)
    \<Rightarrow> 't machine boot_ops \<Rightarrow> 't machine boot_ops" where
  "kernel_boot_ops kh ft fhw ihw prim malloc rest = rest
     \<lparr>bo_fdc_init := on_ks (machine_fdc_init fhw malloc),
      bo_ide_init := on_ks (machine_ide_init ihw prim malloc),
      bo_vfs_init := on_ks (vfs_init kh),
      bo_vfs_mount := \<lambda>dev path ty. on_ks (\<lambda>s. map_option snd (vfs_mount kh ft (Some (bytes_of dev)) (Some (bytes_of path)) (bytes_of ty) s))\<rparr>"

section \<open>Triples\<close>

text \<open>From a state with \<open>P\<close> and the literals in place the step returns, with \<open>Q\<close> and the literals in place.\<close>

definition boots :: "layout \<Rightarrow> (disks kstate \<Rightarrow> bool) \<Rightarrow> 't machine boot_step \<Rightarrow> (disks kstate \<Rightarrow> bool) \<Rightarrow> bool" where
  "boots ly P f Q \<longleftrightarrow> (\<forall>con. boot_inv ly con \<and> P (con_ks con) \<longrightarrow> (\<exists>con'. f con = Some con' \<and> boot_inv ly con' \<and> Q (con_ks con')))"

lemma boots_bind: "boots ly P f Q \<Longrightarrow> boots ly Q g R \<Longrightarrow> boots ly P (\<lambda>con. Option.bind (f con) g) R"
  unfolding boots_def by (metis bind.bind_lunit)

lemma boots_on_ks: "(\<And>s. P s \<Longrightarrow> \<exists>s'. f s = Some s' \<and> Q s') \<Longrightarrow> boots ly P (on_ks f) Q"
  unfolding boots_def on_ks_def boot_inv_def by fastforce

text \<open>A step that leaves the file systems and disks alone.\<close>

definition keeps_ks :: "'t machine boot_step \<Rightarrow> bool" where
  "keeps_ks f \<longleftrightarrow> (\<forall>con con'. f con = Some con' \<longrightarrow> con_ks con' = con_ks con)"

definition quiet_step :: "layout \<Rightarrow> 't machine boot_step \<Rightarrow> bool" where
  "quiet_step ly f \<longleftrightarrow> (\<forall>con. boot_inv ly con \<longrightarrow> (\<exists>con'. f con = Some con' \<and> boot_inv ly con' \<and> con_ks con' = con_ks con))"

lemma boots_quiet: "quiet_step ly f \<Longrightarrow> boots ly P f P"
  unfolding boots_def quiet_step_def by metis

lemma quiet_sends: "sends ly tx f \<Longrightarrow> keeps_ks f \<Longrightarrow> quiet_step ly f"
  unfolding quiet_step_def sends_def keeps_ks_def by meson

lemma keeps_ks_bind: "keeps_ks f \<Longrightarrow> keeps_ks g \<Longrightarrow> keeps_ks (\<lambda>con. Option.bind (f con) g)"
  unfolding keeps_ks_def by (auto simp: Option.bind_eq_Some_conv)

lemma machine_tty_keeps [simp]:
  "mc_ks (terminal_writestring (machine_tty tty) m p w) = mc_ks w" "mc_ks (terminal_settext_color (machine_tty tty) c w) = mc_ks w"
  "mc_ks (terminal_setbg_color (machine_tty tty) c w) = mc_ks w" "mc_ks (terminal_reset_color (machine_tty tty) w) = mc_ks w"
  by (simp_all add: machine_tty_def)

lemma printk_keeps: "printk hw (machine_tty tty) ly fmt ap con = Some (r, con') \<Longrightarrow> con_ks con' = con_ks con"
  by (auto simp: printk_def Option.bind_eq_Some_conv)

lemma boot_print_keeps: "boot_print hw (machine_tty tty) ly fmt con = Some con' \<Longrightarrow> con_ks con' = con_ks con"
  using printk_keeps by (fastforce simp: boot_print_def)

lemma messages_keep:
  "keeps_ks (load_msg hw (machine_tty tty) ly)" "keeps_ks (tests_msg hw (machine_tty tty) ly)" "keeps_ks boot_serial"
  "keeps_ks (boot_say hw (machine_tty tty) ly debug msg)"
  unfolding keeps_ks_def
  by (auto simp: load_msg_def tests_msg_def boot_serial_def boot_say_def LOG_P_def LOG_def PRINT_PREFIX_def Let_def
      Option.bind_eq_Some_conv dest!: boot_print_keeps printk_keeps split: if_splits option.splits)

section \<open>The volume is mounted\<close>

text \<open>The floppy disk's volume is mounted, and the heap has room for \<open>m\<close> more blocks.\<close>

definition fd0_mounted :: "disks kheap \<Rightarrow> hardware \<Rightarrow> dmac0 \<Rightarrow> (u8 \<Rightarrow> u8 \<Rightarrow> u8 \<Rightarrow> u8 list) \<Rightarrow> nat \<Rightarrow> disks kstate \<Rightarrow> bool" where
  "fd0_mounted kh hw d0 disk m s \<longleftrightarrow> heap_room kh s m
     \<and> (\<exists>p. mount_map s = [[102, 100, 48] \<mapsto> p])
     \<and> (\<exists>dev fs. vfs_volume kh [102, 100, 48] dev (floppy_image disk) 2880 fs s \<and> fd_in_machine hw d0 disk dev (ks_blk s) (ks_world s))"

lemma fd0_mount:
  assumes heap: "heap_ok kh" "heap_room kh s (8 + m)" and fd0: "fd0_ready hw d0 disk dev s"
    and vol: "fat12_volume (floppy_image disk) 2880" and vfs: "vfs_inv s" "mount_map s = Map.empty" "curr_size s = 0"
    and ft: "ft = kernel_fs kh stack hfs_fs_type hfs_ops"
  shows "\<exists>s'. vfs_mount kh ft (Some [102, 100, 48]) (Some [47, 102, 100, 48]) [102, 97, 116, 49, 50] s = Some (0, s')
     \<and> fd0_mounted kh hw d0 disk (Suc m) s'"
proof -
  let ?mount = "vfs_mount kh ft (Some [102, 100, 48]) (Some [47, 102, 100, 48]) [102, 97, 116, 49, 50]"
  have d: "dev = blkdev_get_by_name (ks_blk s) (Some [102, 100, 48])" "dev \<noteq> NULL" "fd_in_machine hw d0 disk dev (ks_blk s) (ks_world s)"
    using fd0 unfolding fd0_ready_def by blast+
  have room: "Some NULL \<in> set (mp_slots s) \<or> curr_size s = 0" using vfs(3) by simp
  have name: "0 \<notin> set [102, 100, 48 :: u8]" "length [102, 100, 48 :: u8] < 28" "mount_map s [102, 100, 48] = None" using vfs(2) by simp_all
  obtain s' fs p where s': "?mount s = Some (0, s')" "vfs_volume kh [102, 100, 48] dev (floppy_image disk) 2880 fs s'"
    "fd_in_machine hw d0 disk dev (ks_blk s') (ks_world s')" "heap_room kh s' (Suc m)" "mount_map s' = (mount_map s)([102, 100, 48] \<mapsto> p)"
    using vfs_mount_volume [OF heap vfs(1) d(1,2) fdm.readable d(3) vol name room ft] by blast
  then show ?thesis using vfs(2) unfolding fd0_mounted_def by auto
qed

section \<open>The steps of the boot\<close>

text \<open>The initialisers that run before the disks are looked at, some in object files and some modelled on a state of
  their own: each returns, and leaves the string literals, the disks and the file systems alone.\<close>

definition boot_others :: "layout \<Rightarrow> 't machine boot_ops \<Rightarrow> bool" where
  "boot_others ly ops \<longleftrightarrow>
     quiet_step ly (bo_tty_init ops) \<and> quiet_step ly (bo_gdt_init_flat_protected ops) \<and> quiet_step ly (bo_setup_x86_interrutps ops)
     \<and> quiet_step ly (bo_terminal_stdin_init ops) \<and> quiet_step ly (bo_syscall_init ops) \<and> quiet_step ly (bo_kmm_init ops)
     \<and> quiet_step ly (bo_vmm_init ops) \<and> quiet_step ly (bo_kheap_init ops KERNEL_HEAP_VIRT KERNEL_HEAP_SIZE KERNEL_HEAP_SIZE True False)
     \<and> quiet_step ly (bo_init_system_timer ops 1000)"

lemma boot_run_append: "boot_run (xs @ ys) = (\<lambda>con. Option.bind (boot_run xs con) (boot_run ys))"
  by (induction xs) (simp_all add: boot_run_eta bind_assoc)

definition boot_seq :: "hardware \<Rightarrow> 't machine tty_ops \<Rightarrow> layout \<Rightarrow> (string option \<times> 't machine boot_step) list \<Rightarrow> 't machine boot_step" where
  "boot_seq hw tty ly cs = boot_run (map (\<lambda>(msg, f). (boot_say hw tty ly False msg, f)) cs)"

lemma boots_seq_Nil: "boots ly P (boot_seq hw tty ly []) P"
  unfolding boot_seq_def by (simp add: boots_def)

lemma boots_seq_Cons:
  assumes "quiet_step ly (boot_say hw tty ly False msg)" and "boots ly P f Q" and "boots ly Q (boot_seq hw tty ly cs) R"
  shows "boots ly P (boot_seq hw tty ly ((msg, f) # cs)) R"
  using boots_bind [OF boots_quiet [OF assms(1)] boots_bind [OF assms(2,3)]] by (simp add: boot_seq_def boot_run_eta)

lemma boots_seq_append:
  assumes "boots ly P (boot_seq hw tty ly cs) Q" and "boots ly Q (boot_seq hw tty ly cs') R"
  shows "boots ly P (boot_seq hw tty ly (cs @ cs')) R"
proof -
  have "boot_seq hw tty ly (cs @ cs') = (\<lambda>con. Option.bind (boot_seq hw tty ly cs con) (boot_seq hw tty ly cs'))"
    by (rule ext) (simp add: boot_seq_def boot_run_append)
  then show ?thesis using boots_bind [OF assms] by simp
qed

lemma boots_seq_quiet:
  assumes "\<forall>(msg, f) \<in> set cs. quiet_step ly (boot_say hw tty ly False msg) \<and> quiet_step ly f"
  shows "boots ly P (boot_seq hw tty ly cs) P"
  using assms
proof (induction cs)
  case (Cons c cs)
  then show ?case by (cases c) (auto intro: boots_seq_Cons [OF _ boots_quiet])
qed (rule boots_seq_Nil)

lemma boot_say_quiet:
  assumes "thr_gets_empty hw" and "msg = None \<or> msg \<in> Some ` set boot_msgs"
  shows "quiet_step ly (boot_say hw (machine_tty tty) ly False msg)"
proof (cases msg)
  case None
  then show ?thesis by (simp add: boot_say_def quiet_step_def)
next
  case (Some s)
  then have "sends ly (boot_line msg) (boot_say hw (machine_tty tty) ly False msg)"
    using assms(2) LOG_P_sends [OF assms(1)] by (auto simp: boot_line_def boot_say_def)
  then show ?thesis using quiet_sends messages_keep(4) by blast
qed

text \<open>What follows the mount of the floppy disk.\<close>

definition kmain_rest :: "hardware \<Rightarrow> 't machine tty_ops \<Rightarrow> layout \<Rightarrow> bool \<Rightarrow> 't machine boot_ops \<Rightarrow> 't machine boot_step" where
  "kmain_rest hw tty ly testing ops con =
     do {
       con \<leftarrow> LOG_P hw tty ly False ''Formatting and mounting HFS filesystem on /hd1...'' con;
       con \<leftarrow> bo_hfs_format ops ''hd1'' con;
       con \<leftarrow> bo_vfs_mount ops ''hd1'' ''/hd1'' ''hfs'' con;
       con \<leftarrow> LOG_P hw tty ly False ''Initializing scheduler...'' con;
       con \<leftarrow> bo_scheduler_init ops con;
       con \<leftarrow> (if testing
         then do {
           con \<leftarrow> LOG_P hw tty ly False ''Running kernel tests...'' con;
           con \<leftarrow> tests_msg hw tty ly con;
           bo_start_tests ops con
         }
         else Some con);
       con \<leftarrow> LOG_P hw tty ly False ''Starting init user process...'' con;
       bo_process_spawn ops ''/fd0/SHALL'' con
     }"

text \<open>What precedes it.\<close>

definition boot_before :: "hardware \<Rightarrow> 't machine tty_ops \<Rightarrow> layout \<Rightarrow> linker \<Rightarrow> bool \<Rightarrow> 't machine boot_ops \<Rightarrow> 't machine boot_step" where
  "boot_before hw tty ly lk testing ops =
     (\<lambda>con. Option.bind (Some (con\<lparr>con_mem := zero_bss lk (con_mem con)\<rparr>)) (\<lambda>con. Option.bind (bo_tty_init ops con)
        (\<lambda>con. Option.bind (load_msg hw tty ly con) (\<lambda>con. Option.bind (boot_serial con)
          (boot_seq hw tty ly (take 12 (boot_calls hw tty ly testing ops)))))))"

lemma kmain_rest_seq: "boot_seq hw tty ly (drop 12 (boot_calls hw tty ly testing ops)) = kmain_rest hw tty ly testing ops"
  by (cases testing; rule ext)
    (simp_all add: boot_seq_def boot_calls_def kmain_rest_def boot_say_def LOG_def boot_run_eta del: boot_run.simps)

lemma kmain_before:
  "kmain hw tty ly lk False testing ops con = Option.bind (boot_before hw tty ly lk testing ops con) (kmain_rest hw tty ly testing ops)"
proof -
  let ?cs = "boot_calls hw tty ly testing ops" and ?say = "\<lambda>(msg, f). (boot_say hw tty ly False msg, f)"
  have "boot_run (map ?say ?cs) = boot_run (map ?say (take 12 ?cs @ drop 12 ?cs))" by simp
  also have "\<dots> = (\<lambda>con. Option.bind (boot_seq hw tty ly (take 12 ?cs) con) (kmain_rest hw tty ly testing ops))"
    unfolding map_append boot_run_append kmain_rest_seq [symmetric] boot_seq_def ..
  finally show ?thesis unfolding kmain_run boot_before_def by (simp add: bind_assoc)
qed

section \<open>The disks and the file systems\<close>

text \<open>The floppy disk is registered and the heap has room for \<open>m\<close> blocks; then, the table of mount points is empty.\<close>

definition fd0_up :: "disks kheap \<Rightarrow> hardware \<Rightarrow> dmac0 \<Rightarrow> (u8 \<Rightarrow> u8 \<Rightarrow> u8 \<Rightarrow> u8 list) \<Rightarrow> nat \<Rightarrow> disks kstate \<Rightarrow> bool" where
  "fd0_up kh hw d0 disk m s \<longleftrightarrow> heap_room kh s m \<and> (\<exists>dev. fd0_ready hw d0 disk dev s)"

definition vfs_up :: "disks kheap \<Rightarrow> hardware \<Rightarrow> dmac0 \<Rightarrow> (u8 \<Rightarrow> u8 \<Rightarrow> u8 \<Rightarrow> u8 list) \<Rightarrow> nat \<Rightarrow> disks kstate \<Rightarrow> bool" where
  "vfs_up kh hw d0 disk m s \<longleftrightarrow> fd0_up kh hw d0 disk m s \<and> vfs_inv s \<and> mount_map s = Map.empty \<and> curr_size s = 0"

lemma boots_fdc_init:
  assumes hw: "fdc_answers hw" "fdc_reports_seek hw" "floppy_serves hw d0 disk" and blk: "blk_inv (ks_blk s0)" "malloc_fresh malloc"
      "fst (blkdev_register malloc [102, 100, 48] 512 2880 (Some (embed_ops dk_fdc put_fdc (fdc_block_ops hw))) NULL (ks_blk s0)) = 0"
    and room: "heap_room kh s0 m"
  shows "boots ly (\<lambda>s. s = s0) (on_ks (machine_fdc_init hw malloc)) (fd0_up kh hw d0 disk m)"
proof (rule boots_on_ks)
  fix s :: "disks kstate" assume s: "s = s0"
  obtain b w dev where i: "machine_fdc_init hw malloc s0 = Some (s0\<lparr>ks_blk := b, ks_world := w\<rparr>)"
    "fd0_ready hw d0 disk dev (s0\<lparr>ks_blk := b, ks_world := w\<rparr>)"
    by (rule machine_fdc_init_ready [OF hw blk])
  have "heap_room kh (s0\<lparr>ks_blk := b, ks_world := w\<rparr>) m" using room by (subst heap_room_same [where s = s0]) simp_all
  then show "\<exists>s'. machine_fdc_init hw malloc s = Some s' \<and> fd0_up kh hw d0 disk m s'" using i s by (auto simp: fd0_up_def)
qed

lemma boots_ide_init:
  assumes "malloc_fresh malloc"
  shows "boots ly (fd0_up kh fhw d0 disk m) (on_ks (machine_ide_init hw prim malloc)) (fd0_up kh fhw d0 disk m)"
proof (rule boots_on_ks)
  fix s assume "fd0_up kh fhw d0 disk m s"
  then obtain dev where up: "fd0_ready fhw d0 disk dev s" "heap_room kh s m" by (auto simp: fd0_up_def)
  obtain b w where i: "machine_ide_init hw prim malloc s = Some (s\<lparr>ks_blk := b, ks_world := w\<rparr>)"
    "fd0_ready fhw d0 disk dev (s\<lparr>ks_blk := b, ks_world := w\<rparr>)"
    by (rule machine_ide_init_ready [OF assms up(1)])
  have "heap_room kh (s\<lparr>ks_blk := b, ks_world := w\<rparr>) m" using up(2) by (subst heap_room_same [where s = s]) simp_all
  then show "\<exists>s'. machine_ide_init hw prim malloc s = Some s' \<and> fd0_up kh fhw d0 disk m s'" using i by (auto simp: fd0_up_def)
qed

lemma boots_vfs_init:
  assumes "0 < m"
  shows "boots ly (fd0_up kh hw d0 disk m) (on_ks (vfs_init kh)) (vfs_up kh hw d0 disk m)"
proof (rule boots_on_ks)
  fix s assume "fd0_up kh hw d0 disk m s"
  then obtain dev where up: "fd0_ready hw d0 disk dev s" "heap_room kh s m" by (auto simp: fd0_up_def)
  obtain s' where s': "vfs_init kh s = Some s'" "ks_store s' = ks_store s" "ks_blk s' = ks_blk s" "ks_world s' = ks_world s"
    using heap_room_malloc [of kh s "m - 1" s "of_nat INIT_MPOINTS * sizeof_ptr"] up(2) assms by (simp add: vfs_init_def const_defs)
  have "heap_room kh s' m" using up(2) by (subst heap_room_same [where s = s]) (simp_all add: heap_use_store [OF s'(2)])
  moreover have "fd0_ready hw d0 disk dev s'" using up(1) unfolding fd0_ready_def s'(3,4) .
  ultimately show "\<exists>s'. vfs_init kh s = Some s' \<and> vfs_up kh hw d0 disk m s'"
    using s'(1) vfs_init_inv [OF s'(1)] by (auto simp: vfs_up_def fd0_up_def)
qed

text \<open>A mount, as \<^verbatim>\<open>kmain\<close> calls it.\<close>

abbreviation boot_mount :: "disks kheap \<Rightarrow> disks fs_table \<Rightarrow> string \<Rightarrow> string \<Rightarrow> string \<Rightarrow> disks kstate \<Rightarrow> disks kstate option" where
  "boot_mount kh ft dev path ty s \<equiv> map_option snd (vfs_mount kh ft (Some (bytes_of dev)) (Some (bytes_of path)) (bytes_of ty) s)"

lemma boots_fd0_mount:
  assumes "heap_ok kh" and "fat12_volume (floppy_image disk) 2880" and "ft = kernel_fs kh stack hfs_fs_type hfs_ops"
  shows "boots ly (vfs_up kh hw d0 disk (8 + m)) (on_ks (boot_mount kh ft ''fd0'' ''/fd0'' ''fat12'')) (fd0_mounted kh hw d0 disk (Suc m))"
proof (rule boots_on_ks)
  fix s assume "vfs_up kh hw d0 disk (8 + m) s"
  then obtain dev where "fd0_ready hw d0 disk dev s" "heap_room kh s (8 + m)" "vfs_inv s" "mount_map s = Map.empty" "curr_size s = 0"
    by (auto simp: vfs_up_def fd0_up_def)
  from fd0_mount [OF assms(1) this(2,1) assms(2) this(3-5) assms(3)]
  show "\<exists>s'. boot_mount kh ft ''fd0'' ''/fd0'' ''fat12'' s = Some s' \<and> fd0_mounted kh hw d0 disk (Suc m) s'"
    by (auto simp: bytes_of_def)
qed

section \<open>The boot up to the mount\<close>

lemma boots_disks:
  assumes say: "\<And>msg. msg = None \<or> msg \<in> Some ` set boot_msgs \<Longrightarrow> quiet_step ly (boot_say hw tty ly False msg)"
    and heap: "heap_ok kh" "heap_room kh s0 (8 + m)"
    and fdc: "fdc_answers fhw" "fdc_reports_seek fhw" "floppy_serves fhw d0 disk"
    and blk: "blk_inv (ks_blk s0)" "malloc_fresh malloc"
      "fst (blkdev_register malloc [102, 100, 48] 512 2880 (Some (embed_ops dk_fdc put_fdc (fdc_block_ops fhw))) NULL (ks_blk s0)) = 0"
    and vol: "fat12_volume (floppy_image disk) 2880" and ft: "ft = kernel_fs kh stack hfs_fs_type hfs_ops"
  shows "boots ly (\<lambda>s. s = s0) (boot_seq hw tty ly
     [(Some ''Initializing floppy disk controller...'', on_ks (machine_fdc_init fhw malloc)),
      (Some ''Initializing IDE controller...'', on_ks (machine_ide_init ihw prim malloc)),
      (Some ''Initializing VFS layer...'', on_ks (vfs_init kh)),
      (Some ''Mounting initfs FAT12 on /fd0'', on_ks (boot_mount kh ft ''fd0'' ''/fd0'' ''fat12''))]) (fd0_mounted kh fhw d0 disk (Suc m))"
  by (rule boots_seq_Cons [OF say boots_fdc_init [OF fdc blk heap(2)]], simp add: boot_msgs_def,
      rule boots_seq_Cons [OF say boots_ide_init [OF blk(2)]], simp add: boot_msgs_def,
      rule boots_seq_Cons [OF say boots_vfs_init], simp add: boot_msgs_def, simp,
      rule boots_seq_Cons [OF say boots_fd0_mount [OF heap(1) vol ft] boots_seq_Nil], simp add: boot_msgs_def)

lemma boots_calls:
  assumes uart: "thr_gets_empty hw" and others: "boot_others ly rest" and heap: "heap_ok kh" "heap_room kh s0 (8 + m)"
    and fdc: "fdc_answers fhw" "fdc_reports_seek fhw" "floppy_serves fhw d0 disk"
    and blk: "blk_inv (ks_blk s0)" "malloc_fresh malloc"
      "fst (blkdev_register malloc [102, 100, 48] 512 2880 (Some (embed_ops dk_fdc put_fdc (fdc_block_ops fhw))) NULL (ks_blk s0)) = 0"
    and vol: "fat12_volume (floppy_image disk) 2880" and ft: "ft = kernel_fs kh stack hfs_fs_type hfs_ops"
    and ops: "ops = kernel_boot_ops kh ft fhw ihw prim malloc rest"
  shows "boots ly (\<lambda>s. s = s0) (boot_seq hw (machine_tty tty) ly (take 12 (boot_calls hw (machine_tty tty) ly testing ops)))
     (fd0_mounted kh fhw d0 disk (Suc m))"
proof -
  let ?calls = "boot_calls hw (machine_tty tty) ly testing ops"
  have say: "quiet_step ly (boot_say hw (machine_tty tty) ly False msg)" if "msg = None \<or> msg \<in> Some ` set boot_msgs" for msg
    by (rule boot_say_quiet [OF uart that])
  have "boots ly (\<lambda>s. s = s0) (boot_seq hw (machine_tty tty) ly (take 8 ?calls)) (\<lambda>s. s = s0)"
    by (rule boots_seq_quiet) (use others say in \<open>simp add: boot_calls_def ops kernel_boot_ops_def boot_others_def boot_msgs_def\<close>)
  from boots_seq_append [OF this boots_disks [OF say heap fdc blk vol ft]] show ?thesis
    by (simp add: boot_calls_def ops kernel_boot_ops_def)
qed

lemma boots_before:
  assumes uart: "thr_gets_empty hw" and bss: "\<forall>s\<in>set boot_lits. region (lay_lit ly s) (Suc (length s)) \<inter> region (kbss_start lk) (unat (kbss_end lk - kbss_start lk)) = {}"
    and tty_init: "quiet_step ly (bo_tty_init ops)"
    and calls: "boots ly P (boot_seq hw (machine_tty tty) ly (take 12 (boot_calls hw (machine_tty tty) ly testing ops))) Q"
  shows "boots ly P (boot_before hw (machine_tty tty) ly lk testing ops) Q"
proof -
  have zero: "quiet_step ly (\<lambda>con. Some (con\<lparr>con_mem := zero_bss lk (con_mem con)\<rparr>))"
    by (rule quiet_sends [OF zero_bss_sends [OF bss]]) (simp add: keeps_ks_def)
  have msg: "quiet_step ly (load_msg hw (machine_tty tty) ly)" by (rule quiet_sends [OF load_msg_sends [OF uart] messages_keep(1)])
  have serial: "quiet_step ly boot_serial" by (rule quiet_sends [OF boot_serial_sends messages_keep(3)])
  show ?thesis unfolding boot_before_def
    by (rule boots_bind [OF boots_quiet [OF zero]], rule boots_bind [OF boots_quiet [OF tty_init]], rule boots_bind [OF boots_quiet [OF msg]],
        rule boots_bind [OF boots_quiet [OF serial] calls])
qed


section \<open>A machine that boots to its files\<close>

definition demo_mc_ks :: "disks kstate" where
  "demo_mc_ks = \<lparr>ks_store = Map.empty, ks_blk = no_devices,
     ks_world = \<lparr>dk_fdc = \<lparr>fdc_current_drive = 0, fdc_irq_fired = False, fdc_trace = [], fdc_dmabuf = []\<rparr>, dk_ide = ide_demo\<rparr>,
     mountpoints = None, curr_size = 0, vfs_root_vnode = NULL\<rparr>"

definition demo_mc_con :: "u8 list machine console" where
  "demo_mc_con = \<lparr>con_mem = con_mem demo_console, con_tty = \<lparr>mc_term = [], mc_ks = demo_mc_ks\<rparr>, con_trace = []\<rparr>"

definition demo_mc_ft :: "disks fs_table" where
  "demo_mc_ft = kernel_fs demo_heap (replicate 512 0) (fat12_fs_type demo_heap) (fat12_vnode_ops demo_heap [])"

definition demo_mc_rest :: "u8 list machine boot_ops" where
  "demo_mc_rest = \<lparr>bo_tty_init = Some, bo_gdt_init_flat_protected = Some, bo_setup_x86_interrutps = Some, bo_terminal_stdin_init = Some,
     bo_syscall_init = Some, bo_kmm_init = Some, bo_vmm_init = Some, bo_kheap_init = \<lambda>a b c d e. Some, bo_init_system_timer = \<lambda>a. Some,
     bo_fdc_init = Some, bo_ide_init = Some, bo_vfs_init = Some, bo_vfs_mount = \<lambda>a b c. Some, bo_hfs_format = \<lambda>a. Some,
     bo_scheduler_init = Some, bo_start_tests = Some, bo_process_spawn = \<lambda>a. Some\<rparr>"

definition demo_mc_ops :: "u8 list machine boot_ops" where
  "demo_mc_ops = kernel_boot_ops demo_heap demo_mc_ft demo_fd (ata_hw ata_demo (\<lambda>_. replicate 256 0x2020)) 0x5000 bump_malloc demo_mc_rest"


end
