(* ===== verification/Proc_Elf.thy ===== *)
theory Proc_Elf
  imports C_Layout
begin

text \<open>
  The executable file format of \<^verbatim>\<open>include/proc/elf.h\<close>: the codes of the header fields, the file header
  \<^verbatim>\<open>elf_header_t\<close> (packed) and the program header \<^verbatim>\<open>elf_phdr_t\<close>, with the bytes they have in a file.
  The loader itself, \<^verbatim>\<open>proc/elf.o\<close>, is an object file.
\<close>

section \<open>Codes\<close>

definition ELF_MAGIC :: u32 where [const_defs]: "ELF_MAGIC = 0x464C457F"

datatype elf_class_t = ELF_CLASS_NONE | ELF_CLASS_32 | ELF_CLASS_64

primrec elf_class_code :: "elf_class_t \<Rightarrow> u8" where
  "elf_class_code ELF_CLASS_NONE = 0"
| "elf_class_code ELF_CLASS_32 = 1"
| "elf_class_code ELF_CLASS_64 = 2"

datatype elf_data_t = ELF_DATA_NONE | ELF_DATA_LSB | ELF_DATA_MSB

primrec elf_data_code :: "elf_data_t \<Rightarrow> u8" where
  "elf_data_code ELF_DATA_NONE = 0"
| "elf_data_code ELF_DATA_LSB = 1"
| "elf_data_code ELF_DATA_MSB = 2"

definition ELF_VERSION_CURRENT :: u8 where [const_defs]: "ELF_VERSION_CURRENT = 1"
definition ELF_OSABI_SYSV :: u8 where [const_defs]: "ELF_OSABI_SYSV = 0"
definition ELF_ABIVERSION_CURRENT :: u8 where [const_defs]: "ELF_ABIVERSION_CURRENT = 0"

datatype elf_type_t = ELF_TYPE_NONE | ELF_TYPE_REL | ELF_TYPE_EXEC | ELF_TYPE_DYN | ELF_TYPE_CORE

primrec elf_type_code :: "elf_type_t \<Rightarrow> u16" where
  "elf_type_code ELF_TYPE_NONE = 0"
| "elf_type_code ELF_TYPE_REL = 1"
| "elf_type_code ELF_TYPE_EXEC = 2"
| "elf_type_code ELF_TYPE_DYN = 3"
| "elf_type_code ELF_TYPE_CORE = 4"

datatype elf_machine_t = ELF_MACHINE_NONE | ELF_MACHINE_X86 | ELF_MACHINE_ARM | ELF_MACHINE_AARCH64 | ELF_MACHINE_X86_64

primrec elf_machine_code :: "elf_machine_t \<Rightarrow> u16" where
  "elf_machine_code ELF_MACHINE_NONE = 0x0"
| "elf_machine_code ELF_MACHINE_X86 = 0x3"
| "elf_machine_code ELF_MACHINE_ARM = 0x28"
| "elf_machine_code ELF_MACHINE_AARCH64 = 0xB7"
| "elf_machine_code ELF_MACHINE_X86_64 = 0x3E"

definition ELF_FLAG_NONE :: u32 where [const_defs]: "ELF_FLAG_NONE = 0x0"

datatype elf_pt_t = ELF_PT_NULL | ELF_PT_LOAD | ELF_PT_DYNAMIC | ELF_PT_INTERP | ELF_PT_NOTE | ELF_PT_SHLIB | ELF_PT_PHDR

primrec elf_pt_code :: "elf_pt_t \<Rightarrow> u32" where
  "elf_pt_code ELF_PT_NULL = 0x0"
| "elf_pt_code ELF_PT_LOAD = 0x1"
| "elf_pt_code ELF_PT_DYNAMIC = 0x2"
| "elf_pt_code ELF_PT_INTERP = 0x3"
| "elf_pt_code ELF_PT_NOTE = 0x4"
| "elf_pt_code ELF_PT_SHLIB = 0x5"
| "elf_pt_code ELF_PT_PHDR = 0x6"

definition ELF_PF_R :: u32 where [const_defs]: "ELF_PF_R = 0x4"
definition ELF_PF_W :: u32 where [const_defs]: "ELF_PF_W = 0x2"
definition ELF_PF_X :: u32 where [const_defs]: "ELF_PF_X = 0x1"

section \<open>Headers\<close>

record elf_header_t =
  eh_magic :: u32
  eh_class :: u8
  eh_data :: u8
  eh_version :: u8
  eh_os_abi :: u8
  eh_abi_version :: u8
  eh_pad :: "u8 list"
  eh_type :: u16
  eh_machine :: u16
  eh_elf_version :: u32
  eh_entry :: u32
  eh_ph_offset :: u32
  eh_sh_offset :: u32
  eh_flags :: u32
  eh_eh_size :: u16
  eh_ph_entry_size :: u16
  eh_ph_entry_count :: u16
  eh_sh_entry_size :: u16
  eh_sh_entry_count :: u16
  eh_sh_str_index :: u16

record elf_phdr_t =
  ph_type :: u32
  ph_offset :: u32
  ph_vaddr :: u32
  ph_paddr :: u32
  ph_file_size :: u32
  ph_mem_size :: u32
  ph_flags :: u32
  ph_align :: u32

text \<open>The widths of the members, in their order.\<close>

definition elf_header_ws :: "nat list" where
  "elf_header_ws = [4, 1, 1, 1, 1, 1] @ replicate 7 1 @ [2, 2, 4, 4, 4, 4, 4, 2, 2, 2, 2, 2, 2]"

definition elf_header_fields :: "elf_header_t \<Rightarrow> nat list" where
  "elf_header_fields h =
     [unat (eh_magic h), unat (eh_class h), unat (eh_data h), unat (eh_version h), unat (eh_os_abi h),
      unat (eh_abi_version h)] @ map unat (eh_pad h) @
     [unat (eh_type h), unat (eh_machine h), unat (eh_elf_version h), unat (eh_entry h), unat (eh_ph_offset h),
      unat (eh_sh_offset h), unat (eh_flags h), unat (eh_eh_size h), unat (eh_ph_entry_size h),
      unat (eh_ph_entry_count h), unat (eh_sh_entry_size h), unat (eh_sh_entry_count h), unat (eh_sh_str_index h)]"

definition elf_header_build :: "nat list \<Rightarrow> elf_header_t" where
  "elf_header_build vs =
     \<lparr>eh_magic = of_nat (vs ! 0), eh_class = of_nat (vs ! 1), eh_data = of_nat (vs ! 2),
      eh_version = of_nat (vs ! 3), eh_os_abi = of_nat (vs ! 4), eh_abi_version = of_nat (vs ! 5),
      eh_pad = map of_nat (take 7 (drop 6 vs)), eh_type = of_nat (vs ! 13), eh_machine = of_nat (vs ! 14),
      eh_elf_version = of_nat (vs ! 15), eh_entry = of_nat (vs ! 16), eh_ph_offset = of_nat (vs ! 17),
      eh_sh_offset = of_nat (vs ! 18), eh_flags = of_nat (vs ! 19), eh_eh_size = of_nat (vs ! 20),
      eh_ph_entry_size = of_nat (vs ! 21), eh_ph_entry_count = of_nat (vs ! 22),
      eh_sh_entry_size = of_nat (vs ! 23), eh_sh_entry_count = of_nat (vs ! 24),
      eh_sh_str_index = of_nat (vs ! 25)\<rparr>"

definition elf_phdr_ws :: "nat list" where
  "elf_phdr_ws = [4, 4, 4, 4, 4, 4, 4, 4]"

definition elf_phdr_fields :: "elf_phdr_t \<Rightarrow> nat list" where
  "elf_phdr_fields p =
     [unat (ph_type p), unat (ph_offset p), unat (ph_vaddr p), unat (ph_paddr p), unat (ph_file_size p),
      unat (ph_mem_size p), unat (ph_flags p), unat (ph_align p)]"

definition elf_phdr_build :: "nat list \<Rightarrow> elf_phdr_t" where
  "elf_phdr_build vs =
     \<lparr>ph_type = of_nat (vs ! 0), ph_offset = of_nat (vs ! 1), ph_vaddr = of_nat (vs ! 2),
      ph_paddr = of_nat (vs ! 3), ph_file_size = of_nat (vs ! 4), ph_mem_size = of_nat (vs ! 5),
      ph_flags = of_nat (vs ! 6), ph_align = of_nat (vs ! 7)\<rparr>"

interpretation elf_hdr: c_struct "\<lambda>h. length (eh_pad h) = 7" elf_header_ws elf_header_fields elf_header_build
proof
  fix h :: elf_header_t assume ok: "length (eh_pad h) = 7"
  show "fits elf_header_ws (elf_header_fields h)"
    using ok by (simp add: elf_header_ws_def elf_header_fields_def struct_fit)
  show "elf_header_build (elf_header_fields h) = h"
    using ok by (simp add: elf_header_build_def elf_header_fields_def nth_append)
next
  fix vs assume "fits elf_header_ws vs"
  then show "length (eh_pad (elf_header_build vs)) = 7 \<and> elf_header_fields (elf_header_build vs) = vs"
    by (clarsimp simp: elf_header_ws_def elf_header_build_def elf_header_fields_def struct_split)
qed

interpretation elf_ph: c_struct "\<lambda>_. True" elf_phdr_ws elf_phdr_fields elf_phdr_build
proof
  fix vs assume "fits elf_phdr_ws vs"
  then show "True \<and> elf_phdr_fields (elf_phdr_build vs) = vs"
    by (clarsimp simp: elf_phdr_ws_def elf_phdr_build_def elf_phdr_fields_def struct_split)
qed (simp_all add: elf_phdr_ws_def elf_phdr_fields_def elf_phdr_build_def)

text \<open>The bytes of the headers in a file, and the headers read from the bytes.\<close>

definition elf_header_bytes :: "elf_header_t \<Rightarrow> u8 list" where
  "elf_header_bytes = enc_struct elf_header_ws elf_header_fields"

definition elf_header_of :: "u8 list \<Rightarrow> elf_header_t" where
  "elf_header_of = dec_struct elf_header_ws elf_header_build"

definition elf_phdr_bytes :: "elf_phdr_t \<Rightarrow> u8 list" where
  "elf_phdr_bytes = enc_struct elf_phdr_ws elf_phdr_fields"

definition elf_phdr_of :: "u8 list \<Rightarrow> elf_phdr_t" where
  "elf_phdr_of = dec_struct elf_phdr_ws elf_phdr_build"

lemmas elf_bytes_defs = elf_header_bytes_def elf_header_of_def elf_phdr_bytes_def elf_phdr_of_def

lemma sizeof_elf [simp]: "sum_list elf_header_ws = 52" "sum_list elf_phdr_ws = 32"
  by (simp_all add: elf_header_ws_def elf_phdr_ws_def sum_list_replicate)

lemma elf_magic_bytes:
  "take 4 (elf_header_bytes h) = le_bytes 4 (unat (eh_magic h))"
  by (simp add: elf_header_bytes_def enc_struct_def elf_header_ws_def elf_header_fields_def)

lemma elf_magic_chars: "le_bytes 4 (unat ELF_MAGIC) = 0x7F # bytes_of ''ELF''"
  by (simp add: ELF_MAGIC_def le_bytes_numeral bytes_of_def)

lemma elf_magic_iff: "take 4 (elf_header_bytes h) = 0x7F # bytes_of ''ELF'' \<longleftrightarrow> eh_magic h = ELF_MAGIC"
  unfolding elf_magic_bytes elf_magic_chars [symmetric] by (simp add: le_bytes_inject word_unat_eq_iff)

lemma elf_no_padding: "no_padding elf_header_ws \<and> no_padding elf_phdr_ws"
  by code_simp

section \<open>Properties\<close>

text \<open>Further property: an ELF file header has 52 bytes and a program header 32, without padding; reading the
  bytes of a header gives the header back, and any bytes read as a header are the header's bytes; the
  file starts with the character 0x7F and the letters ELF exactly when the magic field is
  \<^verbatim>\<open>ELF_MAGIC\<close>; the program headers of a table are read back one by one.\<close>

theorem elf_headers_roundtrip:
  assumes "length (eh_pad h) = 7" and "52 \<le> length bs"
  shows "elf_header_of (elf_header_bytes h @ rest) = h \<and> length (elf_header_bytes h) = 52
    \<and> elf_header_bytes (elf_header_of bs) = take 52 bs
    \<and> (take 4 (elf_header_bytes h) = 0x7F # bytes_of ''ELF'' \<longleftrightarrow> eh_magic h = ELF_MAGIC)
    \<and> no_padding elf_header_ws \<and> no_padding elf_phdr_ws
    \<and> elems elf_phdr_ws elf_phdr_build (concat (map elf_phdr_bytes ps)) (length ps) = ps"
  using assms elf_hdr.dec_enc elf_hdr.length_enc elf_hdr.enc_dec elf_ph.elems_concat [of ps "[]"]
  by (simp add: elf_bytes_defs elf_magic_iff elf_no_padding flip: elf_header_bytes_def)

definition demo_elf :: elf_header_t where
  "demo_elf = \<lparr>eh_magic = ELF_MAGIC, eh_class = elf_class_code ELF_CLASS_32, eh_data = elf_data_code ELF_DATA_LSB,
     eh_version = ELF_VERSION_CURRENT, eh_os_abi = ELF_OSABI_SYSV, eh_abi_version = ELF_ABIVERSION_CURRENT,
     eh_pad = replicate 7 0, eh_type = elf_type_code ELF_TYPE_EXEC, eh_machine = elf_machine_code ELF_MACHINE_X86,
     eh_elf_version = 1, eh_entry = 0x8048000, eh_ph_offset = 52, eh_sh_offset = 0, eh_flags = ELF_FLAG_NONE,
     eh_eh_size = 52, eh_ph_entry_size = 32, eh_ph_entry_count = 1, eh_sh_entry_size = 0,
     eh_sh_entry_count = 0, eh_sh_str_index = 0\<rparr>"

definition demo_phdr :: elf_phdr_t where
  "demo_phdr = \<lparr>ph_type = elf_pt_code ELF_PT_LOAD, ph_offset = 0x1000, ph_vaddr = 0x8048000, ph_paddr = 0x8048000,
     ph_file_size = 0x200, ph_mem_size = 0x300, ph_flags = ELF_PF_R OR ELF_PF_X, ph_align = 0x1000\<rparr>"

theorem elf_headers_roundtrip_witness:
  "length (eh_pad demo_elf) = 7 \<and> 52 \<le> length (replicate 60 (0 :: u8))
    \<and> elf_header_of (elf_header_bytes demo_elf @ elf_phdr_bytes demo_phdr) = demo_elf
    \<and> take 4 (elf_header_bytes demo_elf) = 0x7F # bytes_of ''ELF''
    \<and> elems elf_phdr_ws elf_phdr_build (elf_phdr_bytes demo_phdr @ elf_phdr_bytes demo_phdr) (Suc 1) = [demo_phdr, demo_phdr]"
  using elf_headers_roundtrip [of demo_elf "replicate 60 0" "elf_phdr_bytes demo_phdr" "[demo_phdr, demo_phdr]"]
  by (simp add: demo_elf_def)

end
