(* ===== verification/Proc_Process.thy ===== *)
theory Proc_Process
  imports C_Layout Libc_List
begin

text \<open>
  The process and thread control blocks of \<^verbatim>\<open>include/proc/process.h\<close> and the macro \<^verbatim>\<open>LIST_ENTRY\<close> of
  \<^verbatim>\<open>libc/include/kernel/list.h\<close>, which leads from a list element to the structure it is embedded in.
  Scheduler and process management are object files; what they rely on is shown here: the layout of the
  blocks as the compiler makes it, and that the list operations, on the elements embedded in the
  blocks, are the operations of a queue of processes or threads. The locale \<open>owner_queue\<close> is that
  interface, over any \<open>deque\<close> of elements.
\<close>

section \<open>Structures\<close>

datatype state_t = STATE_RUNNING | STATE_READY | STATE_BLOCKED | STATE_TERMINATED | STATE_SLEEPING | STATE_WAITING

text \<open>The enumerators are numbered from zero, and a member of the type is an \<^verbatim>\<open>int\<close>.\<close>

primrec state_code :: "state_t \<Rightarrow> u32" where
  "state_code STATE_RUNNING = 0"
| "state_code STATE_READY = 1"
| "state_code STATE_BLOCKED = 2"
| "state_code STATE_TERMINATED = 3"
| "state_code STATE_SLEEPING = 4"
| "state_code STATE_WAITING = 5"

definition PROCESS_PRI_MIN :: nat where [const_defs]: "PROCESS_PRI_MIN = 0"
definition PROCESS_PRI_MAX :: nat where [const_defs]: "PROCESS_PRI_MAX = 10"
definition PROCESS_PRI_DEFAULT :: nat where [const_defs]: "PROCESS_PRI_DEFAULT = 5"
definition PROCESS_NUM_PRIORITIES :: nat where "PROCESS_NUM_PRIORITIES = PROCESS_PRI_MAX - PROCESS_PRI_MIN + 1"
definition PROCESS_NAME_MAX_LEN :: nat where [const_defs]: "PROCESS_NAME_MAX_LEN = 16"
definition TIMESLICE_DEFAULT :: nat where [const_defs]: "TIMESLICE_DEFAULT = 5"
definition KSTACK_SIZE :: u32 where [const_defs]: "KSTACK_SIZE = 4096"

record process_t =
  p_name :: "u8 list"
  p_pid :: u32
  p_priority :: u32
  p_time_slice :: u32
  p_pagedir :: ptr
  p_parent :: ptr
  p_exit_code :: u32
  p_threads :: list_t
  p_child_processes :: list_t
  p_list_all :: list_element_t
  p_list_child :: list_element_t

record thread_t =
  t_tid :: u32
  t_state :: u32
  t_parent :: ptr
  t_esp0_start :: ptr
  t_kern_esp :: ptr
  t_kstack_size :: u32
  t_trap_frame :: ptr
  t_entry_point :: ptr
  t_entry_arg :: ptr
  t_list_element :: list_element_t
  t_list_all :: list_element_t

section \<open>Layout\<close>

definition element_ws :: "nat list" where
  "element_ws = [4, 4]"

definition list_fields :: "list_t \<Rightarrow> nat list" where
  "list_fields l = [unat (l_head l), unat (l_tail l), unat (l_size l)]"

definition element_fields :: "list_element_t \<Rightarrow> nat list" where
  "element_fields e = [unat (e_next e), unat (e_prev e)]"

definition process_ws :: "nat list" where
  "process_ws = replicate PROCESS_NAME_MAX_LEN 1 @ [4, 4, 4, 4, 4, 4] @ [4, 4, 4] @ [4, 4, 4] @ element_ws @ element_ws"

definition process_fields :: "process_t \<Rightarrow> nat list" where
  "process_fields p = map unat (p_name p) @
     [unat (p_pid p), unat (p_priority p), unat (p_time_slice p), unat (p_pagedir p), unat (p_parent p), unat (p_exit_code p)]
     @ list_fields (p_threads p) @ list_fields (p_child_processes p) @ element_fields (p_list_all p)
     @ element_fields (p_list_child p)"

definition process_build :: "nat list \<Rightarrow> process_t" where
  "process_build vs = (let v = (\<lambda>i. vs ! (PROCESS_NAME_MAX_LEN + i)) in
     \<lparr>p_name = map of_nat (take PROCESS_NAME_MAX_LEN vs), p_pid = of_nat (v 0), p_priority = of_nat (v 1),
      p_time_slice = of_nat (v 2), p_pagedir = of_nat (v 3), p_parent = of_nat (v 4), p_exit_code = of_nat (v 5),
      p_threads = \<lparr>l_head = of_nat (v 6), l_tail = of_nat (v 7), l_size = of_nat (v 8)\<rparr>,
      p_child_processes = \<lparr>l_head = of_nat (v 9), l_tail = of_nat (v 10), l_size = of_nat (v 11)\<rparr>,
      p_list_all = \<lparr>e_next = of_nat (v 12), e_prev = of_nat (v 13)\<rparr>,
      p_list_child = \<lparr>e_next = of_nat (v 14), e_prev = of_nat (v 15)\<rparr>\<rparr>)"

definition thread_ws :: "nat list" where
  "thread_ws = [4, 4, 4, 4, 4, 4, 4, 4, 4] @ element_ws @ element_ws"

definition thread_fields :: "thread_t \<Rightarrow> nat list" where
  "thread_fields t = [unat (t_tid t), unat (t_state t), unat (t_parent t), unat (t_esp0_start t), unat (t_kern_esp t),
     unat (t_kstack_size t), unat (t_trap_frame t), unat (t_entry_point t), unat (t_entry_arg t)]
     @ element_fields (t_list_element t) @ element_fields (t_list_all t)"

definition thread_build :: "nat list \<Rightarrow> thread_t" where
  "thread_build vs = \<lparr>t_tid = of_nat (vs ! 0), t_state = of_nat (vs ! 1), t_parent = of_nat (vs ! 2),
     t_esp0_start = of_nat (vs ! 3), t_kern_esp = of_nat (vs ! 4), t_kstack_size = of_nat (vs ! 5),
     t_trap_frame = of_nat (vs ! 6), t_entry_point = of_nat (vs ! 7), t_entry_arg = of_nat (vs ! 8),
     t_list_element = \<lparr>e_next = of_nat (vs ! 9), e_prev = of_nat (vs ! 10)\<rparr>,
     t_list_all = \<lparr>e_next = of_nat (vs ! 11), e_prev = of_nat (vs ! 12)\<rparr>\<rparr>"

lemmas process_defs = process_ws_def process_fields_def process_build_def list_fields_def element_fields_def element_ws_def
  PROCESS_NAME_MAX_LEN_def Let_def

lemmas thread_defs = thread_ws_def thread_fields_def thread_build_def element_fields_def element_ws_def

interpretation pcb: c_struct "\<lambda>p. length (p_name p) = PROCESS_NAME_MAX_LEN" process_ws process_fields process_build
proof
  fix p :: process_t assume "length (p_name p) = PROCESS_NAME_MAX_LEN"
  then show "fits process_ws (process_fields p)" and "process_build (process_fields p) = p"
    by (simp_all add: process_defs struct_fit nth_append)
next
  fix vs assume "fits process_ws vs"
  then show "length (p_name (process_build vs)) = PROCESS_NAME_MAX_LEN \<and> process_fields (process_build vs) = vs"
    by (clarsimp simp: process_defs struct_split)
qed

interpretation tcb: c_struct "\<lambda>_. True" thread_ws thread_fields thread_build
proof
  fix vs assume "fits thread_ws vs"
  then show "True \<and> thread_fields (thread_build vs) = vs"
    by (clarsimp simp: thread_defs struct_split)
qed (simp_all add: thread_defs)

section \<open>From an element to its owner\<close>

text \<open>Which member of a structure a list element is, as the position of its field \<^verbatim>\<open>next\<close>.\<close>

definition PROCESS_LIST_ALL :: nat where [const_defs]: "PROCESS_LIST_ALL = 28"
definition PROCESS_LIST_CHILD :: nat where [const_defs]: "PROCESS_LIST_CHILD = 30"
definition THREAD_LIST_ELEMENT :: nat where [const_defs]: "THREAD_LIST_ELEMENT = 9"
definition THREAD_LIST_ALL :: nat where [const_defs]: "THREAD_LIST_ALL = 11"

text \<open>The address of the element embedded in the structure at \<open>p\<close>; the field \<^verbatim>\<open>next\<close> is the element's first.\<close>

definition member_addr :: "nat list \<Rightarrow> nat \<Rightarrow> ptr \<Rightarrow> ptr" where
  "member_addr ws member p = p + of_nat (offset_of ws member)"

definition LIST_ENTRY :: "nat list \<Rightarrow> nat \<Rightarrow> ptr \<Rightarrow> ptr" where
  "LIST_ENTRY ws member element = (element + of_nat (offset_of element_ws 0)) - of_nat (offset_of ws member)"

locale owner_queue = deque rep nil app pre rmh rmt
  for rep :: "'s \<Rightarrow> 'e list \<Rightarrow> bool" and nil :: 'e and app pre rmh rmt +
  fixes elem :: "'o \<Rightarrow> 'e" and owner :: "'e \<Rightarrow> 'o"
  assumes owner_elem: "owner (elem p) = p" and elem_owner: "elem (owner e) = e"

sublocale owner_queue \<subseteq> own: deque "\<lambda>s ps. rep s (map elem ps)" "owner nil" "\<lambda>s p. app s (elem p)"
    "\<lambda>s p. pre s (elem p)" "\<lambda>s. apfst owner (rmh s)" "\<lambda>s. apfst owner (rmt s)"
proof
  fix s ps p assume a: "rep s (map elem ps)" "p \<noteq> owner nil" "p \<notin> set ps"
  have "elem p \<noteq> nil"
    using a(2) owner_elem [of p] by metis
  moreover have "elem p \<notin> set (map elem ps)"
    using a(3) owner_elem by (metis (no_types, lifting) imageE list.set_map)
  ultimately show "rep (app s (elem p)) (map elem (ps @ [p]))" "rep (pre s (elem p)) (map elem (p # ps))"
    using app [OF a(1)] pre [OF a(1)] by simp_all
next
  fix s p ps assume "rep s (map elem (p # ps))"
  then show "fst (apfst owner (rmh s)) = p \<and> rep (snd (apfst owner (rmh s))) (map elem ps)"
    using rmh [of s "elem p" "map elem ps"] owner_elem by simp
next
  fix s p ps assume "rep s (map elem (ps @ [p]))"
  then show "fst (apfst owner (rmt s)) = p \<and> rep (snd (apfst owner (rmt s))) (map elem ps)"
    using rmt [of s "map elem ps" "elem p"] owner_elem by simp
next
  fix s assume "rep s (map elem [])"
  then show "apfst owner (rmh s) = (owner nil, s)" "apfst owner (rmt s) = (owner nil, s)"
    using rmh_empty [of s] rmt_empty [of s] by simp_all
qed

lemma list_entry_inverse: "LIST_ENTRY ws i (member_addr ws i p) = p" "member_addr ws i (LIST_ENTRY ws i e) = e"
  by (simp_all add: member_addr_def LIST_ENTRY_def offset_of_def)

interpretation ready: owner_queue dl_rep NULL dl_append dl_prepend dl_remove_head dl_remove_tail
    "member_addr thread_ws THREAD_LIST_ALL" "LIST_ENTRY thread_ws THREAD_LIST_ALL"
  by unfold_locales (simp_all add: list_entry_inverse)

interpretation members: owner_queue dl_rep NULL dl_append dl_prepend dl_remove_head dl_remove_tail
    "member_addr thread_ws THREAD_LIST_ELEMENT" "LIST_ENTRY thread_ws THREAD_LIST_ELEMENT"
  by unfold_locales (simp_all add: list_entry_inverse)

interpretation processes: owner_queue dl_rep NULL dl_append dl_prepend dl_remove_head dl_remove_tail
    "member_addr process_ws PROCESS_LIST_ALL" "LIST_ENTRY process_ws PROCESS_LIST_ALL"
  by unfold_locales (simp_all add: list_entry_inverse)

interpretation children: owner_queue dl_rep NULL dl_append dl_prepend dl_remove_head dl_remove_tail
    "member_addr process_ws PROCESS_LIST_CHILD" "LIST_ENTRY process_ws PROCESS_LIST_CHILD"
  by unfold_locales (simp_all add: list_entry_inverse)

section \<open>Properties\<close>

lemma sizeof_control_blocks [simp]: "sum_list process_ws = 80" "sum_list thread_ws = 52"
  by (simp_all add: process_ws_def thread_ws_def element_ws_def sum_list_replicate PROCESS_NAME_MAX_LEN_def)

text \<open>Property C25: threads queued through their embedded list elements come out in the order they went in.
  On an empty list, appending the element \<^verbatim>\<open>list_all\<close> of each thread, and then removing heads and taking
  \<^verbatim>\<open>LIST_ENTRY\<close> of each, gives the threads; and the list of children of a process does so too. On an
  empty queue \<^verbatim>\<open>LIST_ENTRY\<close> of the NULL removed is not NULL, so the caller has to test the element and
  not the thread.\<close>

theorem thread_queue_order:
  assumes "dl_rep s []" and "distinct ts" and "LIST_ENTRY thread_ws THREAD_LIST_ALL NULL \<notin> set ts"
    and "distinct ps" and "LIST_ENTRY process_ws PROCESS_LIST_CHILD NULL \<notin> set ps"
  shows "fst (drain (\<lambda>s. apfst (LIST_ENTRY thread_ws THREAD_LIST_ALL) (dl_remove_head s)) (length ts)
        (foldl (\<lambda>s t. dl_append s (member_addr thread_ws THREAD_LIST_ALL t)) s ts)) = ts
    \<and> fst (drain (\<lambda>s. apfst (LIST_ENTRY process_ws PROCESS_LIST_CHILD) (dl_remove_head s)) (length ps)
        (foldl (\<lambda>s p. dl_append s (member_addr process_ws PROCESS_LIST_CHILD p)) s ps)) = ps
    \<and> LIST_ENTRY thread_ws THREAD_LIST_ALL (fst (dl_remove_head s)) = - 44"
proof -
  have "LIST_ENTRY thread_ws THREAD_LIST_ALL NULL = - 44"
    by (simp add: LIST_ENTRY_def offset_of_def thread_ws_def element_ws_def THREAD_LIST_ALL_def)
  then show ?thesis
    using ready.own.queue_order [of s ts] children.own.queue_order [of s ps] dlq.rmh_empty [OF assms(1)] assms by simp
qed

theorem thread_queue_order_witness:
  "fst (drain (\<lambda>s. apfst (LIST_ENTRY thread_ws THREAD_LIST_ALL) (dl_remove_head s)) 3
      (foldl (\<lambda>s t. dl_append s (member_addr thread_ws THREAD_LIST_ALL t)) empty_list [0x1000, 0x3000, 0x2000]))
    = [0x1000, 0x3000, 0x2000]"
  using thread_queue_order [OF empty_list_rep, of "[0x1000, 0x3000, 0x2000]" "[]"]
  by (simp add: numeral_3_eq_3 LIST_ENTRY_def offset_of_def thread_ws_def element_ws_def THREAD_LIST_ALL_def)

end
