(* ===== verification/Fs_Hfs.thy ===== *)
theory Fs_Hfs
  imports C_Layout
begin

text \<open>
  The on-disk structures of the inode file system, \<^verbatim>\<open>include/fs/hfs.h\<close>: the superblock, the inode, the
  directory entry and \<^verbatim>\<open>union block\<close>, the 512 bytes of a disk block seen as any of them. The operations
  of the file system are an object file, so what is shown concerns the declarations alone: how many of the members
  fit a block, which block numbers an indirect block can hold, and the bytes of the magic number.
\<close>

section \<open>Structures\<close>

record superblock =
  s_blocks_count :: u32
  s_inodes_count :: u32
  s_block_bitmap :: u32
  s_inode_bitmap :: u32
  s_inode_table_block_start :: u32
  s_data_blocks_start :: u32
  s_magic :: u32

definition INODE_DIRECT_POINTERS :: nat where [const_defs]: "INODE_DIRECT_POINTERS = 13"
definition DIRECTORY_NAME_SIZE :: nat where [const_defs]: "DIRECTORY_NAME_SIZE = 28"
definition HFS_MAGIC :: u32 where [const_defs]: "HFS_MAGIC = 0x48465331"

record hfs_inode =
  i_size :: u32
  i_is_directory :: u32
  i_direct_pointers :: "u32 list"
  i_single_indirect_pointer :: u32

record directory_entry =
  dirent_inode_number :: u32
  dirent_name :: "u8 list"

definition inode_ok :: "hfs_inode \<Rightarrow> bool" where
  "inode_ok n \<longleftrightarrow> length (i_direct_pointers n) = INODE_DIRECT_POINTERS"

definition dirent_ok :: "directory_entry \<Rightarrow> bool" where
  "dirent_ok d \<longleftrightarrow> length (dirent_name d) = DIRECTORY_NAME_SIZE"

section \<open>Layout\<close>

definition superblock_ws :: "nat list" where
  "superblock_ws = [4, 4, 4, 4, 4, 4, 4]"

definition superblock_fields :: "superblock \<Rightarrow> nat list" where
  "superblock_fields s = [unat (s_blocks_count s), unat (s_inodes_count s), unat (s_block_bitmap s),
     unat (s_inode_bitmap s), unat (s_inode_table_block_start s), unat (s_data_blocks_start s), unat (s_magic s)]"

definition superblock_build :: "nat list \<Rightarrow> superblock" where
  "superblock_build vs = \<lparr>s_blocks_count = of_nat (vs ! 0), s_inodes_count = of_nat (vs ! 1),
     s_block_bitmap = of_nat (vs ! 2), s_inode_bitmap = of_nat (vs ! 3),
     s_inode_table_block_start = of_nat (vs ! 4), s_data_blocks_start = of_nat (vs ! 5), s_magic = of_nat (vs ! 6)\<rparr>"

definition inode_ws :: "nat list" where
  "inode_ws = [4, 4] @ replicate INODE_DIRECT_POINTERS 4 @ [4]"

definition inode_fields :: "hfs_inode \<Rightarrow> nat list" where
  "inode_fields n = [unat (i_size n), unat (i_is_directory n)] @ map unat (i_direct_pointers n)
     @ [unat (i_single_indirect_pointer n)]"

definition inode_build :: "nat list \<Rightarrow> hfs_inode" where
  "inode_build vs = \<lparr>i_size = of_nat (vs ! 0), i_is_directory = of_nat (vs ! 1),
     i_direct_pointers = map of_nat (take INODE_DIRECT_POINTERS (drop 2 vs)),
     i_single_indirect_pointer = of_nat (vs ! (2 + INODE_DIRECT_POINTERS))\<rparr>"

definition dirent_ws :: "nat list" where
  "dirent_ws = [4] @ replicate DIRECTORY_NAME_SIZE 1"

definition dirent_fields :: "directory_entry \<Rightarrow> nat list" where
  "dirent_fields d = [unat (dirent_inode_number d)] @ map unat (dirent_name d)"

definition dirent_build :: "nat list \<Rightarrow> directory_entry" where
  "dirent_build vs = \<lparr>dirent_inode_number = of_nat (vs ! 0), dirent_name = map of_nat (take DIRECTORY_NAME_SIZE (drop 1 vs))\<rparr>"

interpretation hsb: c_struct "\<lambda>_. True" superblock_ws superblock_fields superblock_build
proof
  fix vs assume "fits superblock_ws vs"
  then show "True \<and> superblock_fields (superblock_build vs) = vs"
    by (clarsimp simp: superblock_ws_def superblock_build_def superblock_fields_def struct_split)
qed (simp_all add: superblock_ws_def superblock_fields_def superblock_build_def)

interpretation hino: c_struct inode_ok inode_ws inode_fields inode_build
proof
  fix n assume "inode_ok n"
  then show "fits inode_ws (inode_fields n)" and "inode_build (inode_fields n) = n"
    by (simp_all add: inode_ok_def inode_ws_def inode_fields_def inode_build_def struct_fit nth_append
        INODE_DIRECT_POINTERS_def)
next
  fix vs assume "fits inode_ws vs"
  then show "inode_ok (inode_build vs) \<and> inode_fields (inode_build vs) = vs"
    by (clarsimp simp: inode_ok_def inode_ws_def inode_build_def inode_fields_def struct_split
        INODE_DIRECT_POINTERS_def)
qed

interpretation hdir: c_struct dirent_ok dirent_ws dirent_fields dirent_build
proof
  fix d assume "dirent_ok d"
  then show "fits dirent_ws (dirent_fields d)" and "dirent_build (dirent_fields d) = d"
    by (simp_all add: dirent_ok_def dirent_ws_def dirent_fields_def dirent_build_def struct_fit
        DIRECTORY_NAME_SIZE_def)
next
  fix vs assume "fits dirent_ws vs"
  then show "dirent_ok (dirent_build vs) \<and> dirent_fields (dirent_build vs) = vs"
    by (clarsimp simp: dirent_ok_def dirent_ws_def dirent_build_def dirent_fields_def struct_split
        DIRECTORY_NAME_SIZE_def)
qed

section \<open>A block of the disk\<close>

definition HFS_BLOCK_SIZE :: nat where [const_defs]: "HFS_BLOCK_SIZE = 512"
definition INODE_SIZE :: nat where "INODE_SIZE = sum_list inode_ws"
definition INODES_PER_BLOCK :: nat where "INODES_PER_BLOCK = HFS_BLOCK_SIZE div INODE_SIZE"
definition INODE_INDIRECT_POINTERS_PER_BLOCK :: nat where "INODE_INDIRECT_POINTERS_PER_BLOCK = HFS_BLOCK_SIZE div 2"
definition DIRECTORY_ENTRY_SIZE :: nat where "DIRECTORY_ENTRY_SIZE = sum_list dirent_ws"
definition DIRECTORY_ENTRIES_PER_BLOCK :: nat where
  "DIRECTORY_ENTRIES_PER_BLOCK = HFS_BLOCK_SIZE div DIRECTORY_ENTRY_SIZE"
definition FLAGS_PER_BLOCK :: nat where "FLAGS_PER_BLOCK = HFS_BLOCK_SIZE div 4"

text \<open>\<^verbatim>\<open>union block\<close> is its bytes; each member is a way to read and write them. An element of a member
  array is assigned as in C, so that a 32-bit block number is truncated when it is stored in the
  16-bit elements of \<^verbatim>\<open>pointers\<close>.\<close>

type_synonym block = "u8 list"

definition b_superblock :: "block \<Rightarrow> superblock" where
  "b_superblock b = dec_struct superblock_ws superblock_build b"

definition b_inodes :: "block \<Rightarrow> hfs_inode list" where
  "b_inodes b = elems inode_ws inode_build b INODES_PER_BLOCK"

definition b_bitmap :: "block \<Rightarrow> u32 list" where
  "b_bitmap b = elems [4] scalar_build b FLAGS_PER_BLOCK"

definition b_directory :: "block \<Rightarrow> directory_entry list" where
  "b_directory b = elems dirent_ws dirent_build b DIRECTORY_ENTRIES_PER_BLOCK"

definition b_pointers :: "block \<Rightarrow> u16 list" where
  "b_pointers b = elems [2] scalar_build b INODE_INDIRECT_POINTERS_PER_BLOCK"

definition b_set_pointer :: "block \<Rightarrow> nat \<Rightarrow> u32 \<Rightarrow> block" where
  "b_set_pointer b i n = put_elem [2] scalar_fields b i (ucast n :: u16)"

lemma sizeof_hfs [simp]: "sum_list superblock_ws = 28" "sum_list inode_ws = 64" "sum_list dirent_ws = 32"
  by (simp_all add: superblock_ws_def inode_ws_def dirent_ws_def sum_list_replicate const_defs)

lemma per_block [simp]:
  "INODES_PER_BLOCK = 8" "DIRECTORY_ENTRIES_PER_BLOCK = 16" "FLAGS_PER_BLOCK = 128"
  "INODE_INDIRECT_POINTERS_PER_BLOCK = 256"
  by (simp_all add: INODES_PER_BLOCK_def DIRECTORY_ENTRIES_PER_BLOCK_def FLAGS_PER_BLOCK_def
      INODE_INDIRECT_POINTERS_PER_BLOCK_def INODE_SIZE_def DIRECTORY_ENTRY_SIZE_def HFS_BLOCK_SIZE_def)

lemma put_pointer:
  assumes "length b = HFS_BLOCK_SIZE" and "i < 256"
  shows "length (b_set_pointer b i n) = HFS_BLOCK_SIZE \<and> b_pointers (b_set_pointer b i n) = (b_pointers b)[i := ucast n]"
  using assms u16s.elems_put [of 256 b i "ucast n"] u16s.length_put [of i b "ucast n"]
  by (simp add: b_pointers_def b_set_pointer_def HFS_BLOCK_SIZE_def)

section \<open>Properties\<close>

text \<open>Further property: the inode file system's disk blocks. No structure has padding; eight inodes, sixteen
  directory entries, 128 bitmap words or 256 indirect pointers fill a block of 512 bytes exactly and the
  superblock fits into it, so that no access to an element of a member of \<^verbatim>\<open>union block\<close> leaves the
  block.\<close>

theorem hfs_block_bounds:
  "no_padding superblock_ws \<and> no_padding inode_ws \<and> no_padding dirent_ws
    \<and> sum_list superblock_ws \<le> HFS_BLOCK_SIZE
    \<and> INODES_PER_BLOCK * INODE_SIZE = HFS_BLOCK_SIZE
    \<and> DIRECTORY_ENTRIES_PER_BLOCK * DIRECTORY_ENTRY_SIZE = HFS_BLOCK_SIZE
    \<and> FLAGS_PER_BLOCK * 4 = HFS_BLOCK_SIZE \<and> INODE_INDIRECT_POINTERS_PER_BLOCK * 2 = HFS_BLOCK_SIZE
    \<and> (INODE_DIRECT_POINTERS + INODE_INDIRECT_POINTERS_PER_BLOCK) * HFS_BLOCK_SIZE = 137728"
proof -
  have "no_padding superblock_ws" "no_padding inode_ws" "no_padding dirent_ws"
    by code_simp+
  then show ?thesis
    by (simp add: INODE_SIZE_def DIRECTORY_ENTRY_SIZE_def const_defs)
qed

text \<open>Further property: a block number stored in an indirect block survives exactly when it is below 65536:
  the elements of \<^verbatim>\<open>pointers\<close> are 16 bits wide, although the superblock counts blocks, and the direct
  pointers and the pointer to the indirect block name them, with 32 bits.\<close>

theorem hfs_indirect_pointer_width:
  assumes "length b = HFS_BLOCK_SIZE" and "i < INODE_INDIRECT_POINTERS_PER_BLOCK"
  shows "ucast (b_pointers (b_set_pointer b i n) ! i) = n \<longleftrightarrow> n < 65536"
proof -
  have "length (b_pointers b) = 256"
    by (simp add: b_pointers_def elems_def)
  then have "b_pointers (b_set_pointer b i n) ! i = ucast n"
    using assms put_pointer [of b i n] by simp
  moreover have "ucast (ucast n :: u16) = n \<longleftrightarrow> n < 65536"
  proof -
    have "unat (ucast (ucast n :: u16) :: u32) = unat n mod 65536"
      by (simp add: unsigned_ucast_eq unsigned_take_bit_eq take_bit_nat_def)
    then show ?thesis
      unfolding word_unat_eq_iff word_less_nat_alt by auto
  qed
  ultimately show ?thesis
    by simp
qed

theorem hfs_indirect_pointer_width_witness:
  "ucast (b_pointers (b_set_pointer (replicate 512 0) 3 65537) ! 3) \<noteq> (65537 :: u32)"
  using hfs_indirect_pointer_width [of "replicate 512 0" 3 65537] by (simp add: const_defs)

text \<open>Further property: on the disk the magic number is the text HFS1 backwards, and a superblock's bytes
  end with it exactly when its magic field is \<^verbatim>\<open>HFS_MAGIC\<close>.\<close>

theorem hfs_magic_on_disk:
  "take 4 (drop 24 (enc_struct superblock_ws superblock_fields s)) = rev (bytes_of ''HFS1'') \<longleftrightarrow> s_magic s = HFS_MAGIC"
proof -
  have "take 4 (drop 24 (enc_struct superblock_ws superblock_fields s)) = le_bytes 4 (unat (s_magic s))"
    by (simp add: enc_struct_def superblock_ws_def superblock_fields_def)
  moreover have "rev (bytes_of ''HFS1'') = le_bytes 4 (unat HFS_MAGIC)"
    by (simp add: HFS_MAGIC_def le_bytes_numeral bytes_of_def)
  ultimately show ?thesis
    by (simp add: le_bytes_inject word_unat_eq_iff)
qed

end
