(* ===== verification/Fs_Fat12_Layout.thy ===== *)
theory Fs_Fat12_Layout
  imports C_Layout Fs_Fat12
begin

text \<open>
  The packed structures of \<^verbatim>\<open>include/fs/fat12.h\<close> as the compiler lays them out. The driver casts the bytes
  of a sector to \<^verbatim>\<open>fat12_bpb_t\<close> and \<^verbatim>\<open>fat12_dir_entry_t\<close>; \<open>bpb_of\<close> and \<open>dir_entry_of\<close> read those bytes at
  fixed offsets. They are shown to be the members of the declared structures. The extended boot record
  \<^verbatim>\<open>fat12_ebr_t\<close>, which the driver does not read, completes the boot sector.
\<close>

section \<open>Scalars at an offset\<close>

lemma or_add_shift:
  fixes a b :: "'a::len word"
  assumes "\<And>n. bit a n \<Longrightarrow> n < k"
  shows "a + push_bit k b = a OR push_bit k b"
  by (rule disjunctive_add) (use assms in \<open>fastforce simp: bit_push_bit_iff\<close>)

lemma le_nat_1: "i < length bs \<Longrightarrow> of_nat (le_nat (take 1 (drop i bs))) = (bs ! i :: u8)"
  by (simp add: Cons_nth_drop_Suc [symmetric] take_Suc_conv_app_nth)

lemma take_2_drop: "i + 1 < length bs \<Longrightarrow> take 2 (drop i bs) = [bs ! i, bs ! (i + 1)]"
  by (simp add: numeral_2_eq_2 Cons_nth_drop_Suc [symmetric])

lemma le_nat_2: "i + 1 < length bs \<Longrightarrow> of_nat (le_nat (take 2 (drop i bs))) = le16 bs i"
proof -
  assume "i + 1 < length bs"
  then have "(of_nat (le_nat (take 2 (drop i bs))) :: u16) = ucast (bs ! i) + push_bit 8 (ucast (bs ! (i + 1)))"
    by (simp add: take_2_drop push_bit_eq_mult)
  also have "\<dots> = le16 bs i"
    unfolding le16_def by (rule or_add_shift) (auto simp: bit_simps dest: bit_imp_le_length)
  finally show ?thesis .
qed

lemma unat_le16: "i + 1 < length bs \<Longrightarrow> unat (le16 bs i) = le_nat (take 2 (drop i bs))"
proof -
  assume l: "i + 1 < length bs"
  then have "le_nat (take 2 (drop i bs)) < 65536"
    using le_nat_bound [of "[bs ! i, bs ! (i + 1)]"] by (simp add: take_2_drop)
  then show ?thesis
    unfolding le_nat_2 [OF l, symmetric] by (simp add: unat_of_nat)
qed

lemma le_nat_4: "i + 3 < length bs \<Longrightarrow> of_nat (le_nat (take 4 (drop i bs))) = le32 bs i"
proof -
  assume l: "i + 3 < length bs"
  have half: "ucast (le16 bs j) = (of_nat (le_nat (take 2 (drop j bs))) :: u32)" if "j + 1 < length bs" for j
    using unat_le16 [OF that] of_nat_unat [of "le16 bs j", where 'a = u32] by simp
  have "take 4 (drop i bs) = take 2 (drop i bs) @ take 2 (drop (i + 2) bs)"
    using take_add [of 2 2 "drop i bs"] by (simp add: add.commute)
  moreover have "le_nat (xs @ ys) = le_nat xs + 256 ^ length xs * le_nat ys" for xs ys
    by (induction xs) (auto simp: algebra_simps)
  ultimately have "(of_nat (le_nat (take 4 (drop i bs))) :: u32)
      = of_nat (le_nat (take 2 (drop i bs))) + push_bit 16 (of_nat (le_nat (take 2 (drop (i + 2) bs))))"
    using l by (simp add: push_bit_eq_mult)
  also have "\<dots> = ucast (le16 bs i) + push_bit 16 (ucast (le16 bs (i + 2)))"
    using half [of i] half [of "i + 2"] l by simp
  also have "\<dots> = le32 bs i"
    unfolding le32_def by (rule or_add_shift) (auto simp: bit_simps dest: bit_imp_le_length)
  finally show ?thesis .
qed

section \<open>Structures\<close>

definition bpb_ws :: "nat list" where
  "bpb_ws = replicate 3 1 @ replicate 8 1 @ [2, 1, 2, 1, 2, 2, 1, 2, 2, 2, 4, 4]"

definition bpb_build :: "nat list \<Rightarrow> fat12_bpb_t" where
  "bpb_build vs = \<lparr>bpb_bytes_per_sector = of_nat (vs ! 11), bpb_sectors_per_cluster = of_nat (vs ! 12),
     bpb_rsrvd_cnt = of_nat (vs ! 13), bpb_num_fats = of_nat (vs ! 14), bpb_max_root_dir_entries = of_nat (vs ! 15),
     bpb_total_sectors = of_nat (vs ! 16), bpb_media_descriptor = of_nat (vs ! 17), bpb_sectors_per_fat = of_nat (vs ! 18),
     bpb_sectors_per_track = of_nat (vs ! 19), bpb_num_heads = of_nat (vs ! 20), bpb_hidden_sectors = of_nat (vs ! 21),
     bpb_total_sectors_large = of_nat (vs ! 22)\<rparr>"

definition dirent12_ws :: "nat list" where
  "dirent12_ws = replicate 8 1 @ replicate 3 1 @ [1, 1, 1, 2, 2, 2, 2, 2, 2, 2, 4]"

definition dirent12_fields :: "fat12_dir_entry_t \<Rightarrow> nat list" where
  "dirent12_fields d = map unat (de_filename d) @ map unat (de_extension d) @
     [unat (de_attributes d), unat (de_reserved d), unat (de_create_time_tenth d), unat (de_create_time d),
      unat (de_create_date d), unat (de_last_access_date d), unat (de_first_cluster_high d),
      unat (de_last_write_time d), unat (de_last_write_date d), unat (de_first_cluster_low d), unat (de_file_size d)]"

definition dirent12_build :: "nat list \<Rightarrow> fat12_dir_entry_t" where
  "dirent12_build vs = \<lparr>de_filename = map of_nat (take 8 vs), de_extension = map of_nat (take 3 (drop 8 vs)),
     de_attributes = of_nat (vs ! 11), de_reserved = of_nat (vs ! 12), de_create_time_tenth = of_nat (vs ! 13),
     de_create_time = of_nat (vs ! 14), de_create_date = of_nat (vs ! 15), de_last_access_date = of_nat (vs ! 16),
     de_first_cluster_high = of_nat (vs ! 17), de_last_write_time = of_nat (vs ! 18),
     de_last_write_date = of_nat (vs ! 19), de_first_cluster_low = of_nat (vs ! 20), de_file_size = of_nat (vs ! 21)\<rparr>"

record fat12_ebr_t =
  ebr_drive_number :: u8
  ebr_reserved1 :: u8
  ebr_ext_boot_sig :: u8
  ebr_volume_id :: u32
  ebr_volume_label :: "u8 list"
  ebr_file_system_type :: "u8 list"
  ebr_boot_code :: "u8 list"
  ebr_boot_signature :: "u8 list"

definition ebr_ok :: "fat12_ebr_t \<Rightarrow> bool" where
  "ebr_ok e \<longleftrightarrow> length (ebr_volume_label e) = 11 \<and> length (ebr_file_system_type e) = 8
     \<and> length (ebr_boot_code e) = 448 \<and> length (ebr_boot_signature e) = 2"

definition ebr_ws :: "nat list" where
  "ebr_ws = [1, 1, 1, 4] @ replicate 11 1 @ replicate 8 1 @ replicate 448 1 @ replicate 2 1"

definition ebr_fields :: "fat12_ebr_t \<Rightarrow> nat list" where
  "ebr_fields e = [unat (ebr_drive_number e), unat (ebr_reserved1 e), unat (ebr_ext_boot_sig e), unat (ebr_volume_id e)]
     @ map unat (ebr_volume_label e) @ map unat (ebr_file_system_type e) @ map unat (ebr_boot_code e)
     @ map unat (ebr_boot_signature e)"

definition ebr_build :: "nat list \<Rightarrow> fat12_ebr_t" where
  "ebr_build vs = \<lparr>ebr_drive_number = of_nat (vs ! 0), ebr_reserved1 = of_nat (vs ! 1), ebr_ext_boot_sig = of_nat (vs ! 2),
     ebr_volume_id = of_nat (vs ! 3), ebr_volume_label = map of_nat (take 11 (drop 4 vs)),
     ebr_file_system_type = map of_nat (take 8 (drop 15 vs)), ebr_boot_code = map of_nat (take 448 (drop 23 vs)),
     ebr_boot_signature = map of_nat (take 2 (drop 471 vs))\<rparr>"

interpretation dent12: c_struct "\<lambda>d. length (de_filename d) = 8 \<and> length (de_extension d) = 3"
    dirent12_ws dirent12_fields dirent12_build
proof
  fix d :: fat12_dir_entry_t assume "length (de_filename d) = 8 \<and> length (de_extension d) = 3"
  then show "fits dirent12_ws (dirent12_fields d)" and "dirent12_build (dirent12_fields d) = d"
    by (simp_all add: dirent12_ws_def dirent12_fields_def dirent12_build_def struct_fit nth_append)
next
  fix vs assume "fits dirent12_ws vs"
  then show "(length (de_filename (dirent12_build vs)) = 8 \<and> length (de_extension (dirent12_build vs)) = 3)
      \<and> dirent12_fields (dirent12_build vs) = vs"
    by (clarsimp simp: dirent12_ws_def dirent12_fields_def dirent12_build_def struct_split)
qed

interpretation ebr: c_struct ebr_ok ebr_ws ebr_fields ebr_build
proof
  fix e assume "ebr_ok e"
  then show "fits ebr_ws (ebr_fields e)" and "ebr_build (ebr_fields e) = e"
    by (simp_all add: ebr_ok_def ebr_ws_def ebr_fields_def ebr_build_def struct_fit)
next
  fix vs assume "fits ebr_ws vs"
  then show "ebr_ok (ebr_build vs) \<and> ebr_fields (ebr_build vs) = vs"
    by (clarsimp simp: ebr_ok_def ebr_ws_def ebr_fields_def ebr_build_def struct_split)
qed

lemma sizeof_fat12 [simp]: "sum_list bpb_ws = 36" "sum_list dirent12_ws = 32" "sum_list ebr_ws = 476"
  by (simp_all add: bpb_ws_def dirent12_ws_def ebr_ws_def sum_list_replicate)

section \<open>Offsets\<close>

lemma unpack_byte_array:
  "n \<le> length bs \<Longrightarrow> unpack (replicate n 1 @ ws) bs = map unat (take n bs) @ unpack ws (drop n bs)"
proof (induction n arbitrary: bs)
  case (Suc n)
  then obtain b bs' where "bs = b # bs'"
    by (cases bs) auto
  with Suc show ?case by simp
qed simp

lemma unpack_bpb:
  assumes "36 \<le> length bs"
  shows "unpack bpb_ws bs = map unat (take 3 bs) @ map unat (take 8 (drop 3 bs)) @ unpack [2, 1, 2, 1, 2, 2, 1, 2, 2, 2, 4, 4] (drop 11 bs)"
  using assms by (simp add: bpb_ws_def unpack_byte_array del: unpack.simps One_nat_def)

lemma unpack_dirent12:
  assumes "32 \<le> length bs"
  shows "unpack dirent12_ws bs = map unat (take 8 bs) @ map unat (take 3 (drop 8 bs)) @ unpack [1, 1, 1, 2, 2, 2, 2, 2, 2, 2, 4] (drop 11 bs)"
  using assms by (simp add: dirent12_ws_def unpack_byte_array del: unpack.simps One_nat_def)

lemma unpack_ebr:
  assumes "476 \<le> length bs"
  shows "unpack ebr_ws bs = unpack [1, 1, 1, 4] bs @ map unat (take 11 (drop 7 bs)) @ map unat (take 8 (drop 18 bs))
     @ map unat (take 448 (drop 26 bs)) @ map unat (take 2 (drop 474 bs))"
  using assms unpack_byte_array [of 2 "drop 474 bs" "[]"]
  by (simp add: ebr_ws_def unpack_byte_array del: One_nat_def)

text \<open>The offsets at which the model reads the parameter block and a directory entry are those of the members of
  \<^verbatim>\<open>fat12_bpb_t\<close> and \<^verbatim>\<open>fat12_dir_entry_t\<close>, and the boot signature ends the sector.\<close>

lemma bpb_of_packed: "36 \<le> length bs \<Longrightarrow> bpb_of bs = dec_struct bpb_ws bpb_build bs"
  using le_nat_1 [of _ bs] le_nat_2 [of _ bs] le_nat_4 [of _ bs]
  by (simp add: bpb_of_def dec_struct_def bpb_build_def unpack_bpb nth_append)

lemma dir_entry_of_packed: "32 \<le> length es \<Longrightarrow> dir_entry_of es = dec_struct dirent12_ws dirent12_build es"
  using le_nat_1 [of _ es] le_nat_2 [of _ es] le_nat_4 [of _ es]
  by (simp add: dir_entry_of_def dec_struct_def dirent12_build_def unpack_dirent12 nth_append)

lemma ebr_signature_last: "length sector = 512 \<Longrightarrow> ebr_boot_signature (dec_struct ebr_ws ebr_build (drop 36 sector)) = drop 510 sector"
  using unpack_ebr [of "drop 36 sector"] by (simp add: dec_struct_def ebr_build_def)

end
