(* ===== verification/Init_Idt.thy ===== *)
theory Init_Idt
  imports C_Layout
begin

text \<open>
  The interrupt interface of \<^verbatim>\<open>include/init/idt.h\<close> and \<^verbatim>\<open>include/interrupts.h\<close>: the gates of the
  interrupt descriptor table with the codes their attribute byte is put together from, the pointer
  loaded into the processor, and the context saved on the stack when an interrupt is taken. The code
  that fills the table and the assembly entry points are object files.
\<close>

section \<open>Gates\<close>

datatype idt_gate_type = IDT_GATE_TYPE_TASK | IDT_GATE_TYPE_16_INT | IDT_GATE_TYPE_16_TRAP
  | IDT_GATE_TYPE_32_INT | IDT_GATE_TYPE_32_TRAP

primrec gate_type_code :: "idt_gate_type \<Rightarrow> u8" where
  "gate_type_code IDT_GATE_TYPE_TASK = 0x5"
| "gate_type_code IDT_GATE_TYPE_16_INT = 0x6"
| "gate_type_code IDT_GATE_TYPE_16_TRAP = 0x7"
| "gate_type_code IDT_GATE_TYPE_32_INT = 0xE"
| "gate_type_code IDT_GATE_TYPE_32_TRAP = 0xF"

datatype idt_dpl = IDT_ATTR_DPL0 | IDT_ATTR_DPL1 | IDT_ATTR_DPL2 | IDT_ATTR_DPL3

primrec dpl_code :: "idt_dpl \<Rightarrow> u8" where
  "dpl_code IDT_ATTR_DPL0 = 0x00"
| "dpl_code IDT_ATTR_DPL1 = 0x20"
| "dpl_code IDT_ATTR_DPL2 = 0x40"
| "dpl_code IDT_ATTR_DPL3 = 0x60"

definition IDT_ATTR_PRESENT :: u8 where [const_defs]: "IDT_ATTR_PRESENT = 0x80"

record idt_entry_t =
  offset_low :: u16
  idt_selector :: u16
  idt_zero :: u8
  gate_type_attr :: u8
  offset_high :: u16

record idt_ptr_t =
  idt_limit :: u16
  idt_base :: u32

definition idt_entry_ws :: "nat list" where
  "idt_entry_ws = [2, 2, 1, 1, 2]"

definition idt_entry_fields :: "idt_entry_t \<Rightarrow> nat list" where
  "idt_entry_fields e = [unat (offset_low e), unat (idt_selector e), unat (idt_zero e), unat (gate_type_attr e),
     unat (offset_high e)]"

definition idt_entry_build :: "nat list \<Rightarrow> idt_entry_t" where
  "idt_entry_build vs = \<lparr>offset_low = of_nat (vs ! 0), idt_selector = of_nat (vs ! 1), idt_zero = of_nat (vs ! 2),
     gate_type_attr = of_nat (vs ! 3), offset_high = of_nat (vs ! 4)\<rparr>"

definition idt_ptr_ws :: "nat list" where
  "idt_ptr_ws = [2, 4]"

definition idt_ptr_fields :: "idt_ptr_t \<Rightarrow> nat list" where
  "idt_ptr_fields p = [unat (idt_limit p), unat (idt_base p)]"

definition idt_ptr_build :: "nat list \<Rightarrow> idt_ptr_t" where
  "idt_ptr_build vs = \<lparr>idt_limit = of_nat (vs ! 0), idt_base = of_nat (vs ! 1)\<rparr>"

interpretation gate: c_struct "\<lambda>_. True" idt_entry_ws idt_entry_fields idt_entry_build
proof
  fix vs assume "fits idt_entry_ws vs"
  then show "True \<and> idt_entry_fields (idt_entry_build vs) = vs"
    by (clarsimp simp: idt_entry_ws_def idt_entry_build_def idt_entry_fields_def struct_split)
qed (simp_all add: idt_entry_ws_def idt_entry_fields_def idt_entry_build_def)

interpretation idtr: c_struct "\<lambda>_. True" idt_ptr_ws idt_ptr_fields idt_ptr_build
proof
  fix vs assume "fits idt_ptr_ws vs"
  then show "True \<and> idt_ptr_fields (idt_ptr_build vs) = vs"
    by (clarsimp simp: idt_ptr_ws_def idt_ptr_build_def idt_ptr_fields_def struct_split)
qed (simp_all add: idt_ptr_ws_def idt_ptr_fields_def idt_ptr_build_def)

text \<open>How the processor reads a gate of eight bytes.\<close>

definition gate_handler :: "u8 list \<Rightarrow> u32" where
  "gate_handler bs = of_nat (le_nat (take 2 bs)) OR push_bit 16 (of_nat (le_nat (take 2 (drop 6 bs))))"

definition gate_present :: "u8 list \<Rightarrow> bool" where
  "gate_present bs = bit (bs ! 5) 7"

definition gate_dpl :: "u8 list \<Rightarrow> nat" where
  "gate_dpl bs = unat (drop_bit 5 (bs ! 5) AND 3)"

definition gate_type :: "u8 list \<Rightarrow> u8" where
  "gate_type bs = bs ! 5 AND 0xF"

section \<open>The saved context\<close>

record interrupt_context_t =
  ic_ds :: u32
  ic_edi :: u32
  ic_esi :: u32
  ic_ebp :: u32
  ic_esp :: u32
  ic_ebx :: u32
  ic_edx :: u32
  ic_ecx :: u32
  ic_eax :: u32
  ic_interrupt_number :: u32
  ic_error_code :: u32
  ic_eip :: u32
  ic_cs :: u32
  ic_eflags :: u32
  ic_useresp :: u32
  ic_ss :: u32

definition context_ws :: "nat list" where
  "context_ws = [4, 4, 4, 4, 4, 4, 4, 4, 4, 4, 4, 4, 4, 4, 4, 4]"

definition context_fields :: "interrupt_context_t \<Rightarrow> nat list" where
  "context_fields c = [unat (ic_ds c), unat (ic_edi c), unat (ic_esi c), unat (ic_ebp c), unat (ic_esp c),
     unat (ic_ebx c), unat (ic_edx c), unat (ic_ecx c), unat (ic_eax c), unat (ic_interrupt_number c),
     unat (ic_error_code c), unat (ic_eip c), unat (ic_cs c), unat (ic_eflags c), unat (ic_useresp c), unat (ic_ss c)]"

definition context_build :: "nat list \<Rightarrow> interrupt_context_t" where
  "context_build vs = \<lparr>ic_ds = of_nat (vs ! 0), ic_edi = of_nat (vs ! 1), ic_esi = of_nat (vs ! 2),
     ic_ebp = of_nat (vs ! 3), ic_esp = of_nat (vs ! 4), ic_ebx = of_nat (vs ! 5), ic_edx = of_nat (vs ! 6),
     ic_ecx = of_nat (vs ! 7), ic_eax = of_nat (vs ! 8), ic_interrupt_number = of_nat (vs ! 9),
     ic_error_code = of_nat (vs ! 10), ic_eip = of_nat (vs ! 11), ic_cs = of_nat (vs ! 12),
     ic_eflags = of_nat (vs ! 13), ic_useresp = of_nat (vs ! 14), ic_ss = of_nat (vs ! 15)\<rparr>"

interpretation ictx: c_struct "\<lambda>_. True" context_ws context_fields context_build
proof
  fix vs assume "fits context_ws vs"
  then show "True \<and> context_fields (context_build vs) = vs"
    by (clarsimp simp: context_ws_def context_build_def context_fields_def struct_split)
qed (simp_all add: context_ws_def context_fields_def context_build_def)

text \<open>The context at an address of the stack.\<close>

definition context_at :: "mem \<Rightarrow> ptr \<Rightarrow> interrupt_context_t" where
  "context_at m p = dec_struct context_ws context_build (bytes_at m p 64)"

section \<open>Properties\<close>

lemma idt_attr_decodes:
  "bit (IDT_ATTR_PRESENT OR dpl_code d OR gate_type_code t) 7
    \<and> unat (drop_bit 5 (IDT_ATTR_PRESENT OR dpl_code d OR gate_type_code t) AND 3) = unat (dpl_code d) div 32
    \<and> (IDT_ATTR_PRESENT OR dpl_code d OR gate_type_code t) AND 0xF = gate_type_code t"
  by (cases d; cases t; simp add: IDT_ATTR_PRESENT_def bit_numeral_rec)

lemma split_u32: "ucast (ucast (h :: u32) :: u16) OR push_bit 16 (ucast (ucast (drop_bit 16 h) :: u16)) = h"
  by (rule bit_word_eqI) (auto simp: bit_simps)

lemma gate_bytes:
  "enc_struct idt_entry_ws idt_entry_fields e =
     le_bytes 2 (unat (offset_low e)) @ le_bytes 2 (unat (idt_selector e)) @ [idt_zero e, gate_type_attr e]
       @ le_bytes 2 (unat (offset_high e))"
  by (simp add: enc_struct_def idt_entry_ws_def idt_entry_fields_def)

lemma gate_handler_bytes:
  "gate_handler (enc_struct idt_entry_ws idt_entry_fields e) = ucast (offset_low e) OR push_bit 16 (ucast (offset_high e))"
  by (simp add: gate_bytes gate_handler_def)

text \<open>Further property: a gate holding the two halves of a handler's address and an attribute byte put
  together from \<^verbatim>\<open>IDT_ATTR_PRESENT\<close>, a privilege level and a gate type has eight bytes, which the
  processor reads as a present gate to that handler with that privilege level and that type; the
  pointer to the table has the six bytes the processor loads, and gates and pointer are read back from
  their bytes.\<close>

theorem idt_gate_decodes:
  assumes "offset_low e = ucast (h :: u32)" and "offset_high e = ucast (drop_bit 16 h)"
    and "gate_type_attr e = IDT_ATTR_PRESENT OR dpl_code d OR gate_type_code t"
  shows "let bs = enc_struct idt_entry_ws idt_entry_fields e in
    length bs = 8 \<and> gate_handler bs = h \<and> gate_present bs \<and> gate_dpl bs = unat (dpl_code d) div 32
    \<and> gate_type bs = gate_type_code t \<and> dec_struct idt_entry_ws idt_entry_build (bs @ rest) = e
    \<and> length (enc_struct idt_ptr_ws idt_ptr_fields p) = 6
    \<and> dec_struct idt_ptr_ws idt_ptr_build (enc_struct idt_ptr_ws idt_ptr_fields p @ rest) = p"
proof -
  let ?bs = "enc_struct idt_entry_ws idt_entry_fields e"
  have "length ?bs = 8" "length (enc_struct idt_ptr_ws idt_ptr_fields p) = 6"
    using gate.length_enc [of e] idtr.length_enc [of p] by (simp_all add: idt_entry_ws_def idt_ptr_ws_def)
  moreover have "gate_handler ?bs = h"
    using assms(1, 2) split_u32 [of h] by (simp add: gate_handler_bytes)
  moreover have "?bs ! 5 = gate_type_attr e"
    by (simp add: gate_bytes nth_append)
  ultimately show ?thesis
    using idt_attr_decodes [of d t] assms(3) gate.dec_enc [of e rest] idtr.dec_enc [of p rest]
    by (simp add: gate_present_def gate_dpl_def gate_type_def)
qed

theorem idt_gate_decodes_witness:
  "let e = \<lparr>offset_low = 0x4567, idt_selector = 8, idt_zero = 0, gate_type_attr = 0xEE, offset_high = 0xC010\<rparr>;
       bs = enc_struct idt_entry_ws idt_entry_fields e
   in gate_handler bs = 0xC0104567 \<and> gate_dpl bs = 3 \<and> gate_type bs = gate_type_code IDT_GATE_TYPE_32_INT"
  using idt_gate_decodes [of "\<lparr>offset_low = 0x4567, idt_selector = 8, idt_zero = 0, gate_type_attr = 0xEE,
      offset_high = 0xC010\<rparr>" "0xC0104567" IDT_ATTR_DPL3 IDT_GATE_TYPE_32_INT "[]" "\<lparr>idt_limit = 0, idt_base = 0\<rparr>"]
  by (simp add: Let_def IDT_ATTR_PRESENT_def)

end
