(* ===== verification/Proc_Usermode.thy ===== *)
theory Proc_Usermode
  imports Init_Idt Init_Gdt
begin

text \<open>
  Entering user mode: the macro \<^verbatim>\<open>SWITCH_TO_USER\<close> of \<^verbatim>\<open>include/utils.h\<close>, with the interrupt flag
  instructions \<^verbatim>\<open>cli\<close> and \<^verbatim>\<open>sti\<close> and the segment selectors of \<^verbatim>\<open>include/proc/process.h\<close>. The macro is
  inline assembly, so its instructions are executed here as the processor does: the registers and
  flags the instructions use are a record, the stack is in memory, and loading a segment register or
  returning with \<^verbatim>\<open>iret\<close> checks the descriptor tables, where \<open>None\<close> is the fault the processor raises.
  The descriptor table is the one \<^verbatim>\<open>gdt_init_flat_protected\<close> installs.
\<close>

section \<open>Selectors\<close>

definition KCODE_SEG :: u16 where [const_defs]: "KCODE_SEG = 0x08"
definition KDATA_SEG :: u16 where [const_defs]: "KDATA_SEG = 0x10"
definition UCODE_SEG :: u16 where [const_defs]: "UCODE_SEG = 0x1B"
definition UDATA_SEG :: u16 where [const_defs]: "UDATA_SEG = 0x23"

section \<open>The processor\<close>

record cpu =
  c_eax :: u32
  c_esp :: u32
  c_eip :: u32
  c_eflags :: u32
  c_cs :: u16
  c_ss :: u16
  c_ds :: u16
  c_es :: u16
  c_fs :: u16
  c_gs :: u16
  c_mem :: mem

datatype seg_reg = DS | ES | FS | GS

definition rpl :: "u16 \<Rightarrow> nat" where
  "rpl sel = unat (sel AND 3)"

definition cpl :: "cpu \<Rightarrow> nat" where
  "cpl c = rpl (c_cs c)"

text \<open>The descriptor a selector names: none for the null selector, a local table (there is none) or an
  index beyond the table.\<close>

definition descriptor :: "gdt_entry_t list \<Rightarrow> u16 \<Rightarrow> gdt_entry_t option" where
  "descriptor g sel =
     (let i = unat (drop_bit 3 sel) in if i = 0 \<or> bit sel 2 \<or> length g \<le> i then None else Some (g ! i))"

definition desc_is_data :: "gdt_entry_t \<Rightarrow> bool" where
  "desc_is_data e \<longleftrightarrow> bit (access e) 4 \<and> \<not> bit (access e) 3"

definition desc_conforming :: "gdt_entry_t \<Rightarrow> bool" where
  "desc_conforming e \<longleftrightarrow> desc_is_code e \<and> bit (access e) 2"

text \<open>Bit 1 of the access byte: a data segment that can be written, a code segment that can be read.\<close>

definition desc_rw :: "gdt_entry_t \<Rightarrow> bool" where
  "desc_rw e = bit (access e) 1"

definition can_load_data :: "gdt_entry_t list \<Rightarrow> nat \<Rightarrow> u16 \<Rightarrow> bool" where
  "can_load_data g lev sel =
     (if unat (drop_bit 2 sel) = 0 then True
      else case descriptor g sel of None \<Rightarrow> False
        | Some e \<Rightarrow> desc_present e \<and> (desc_is_data e \<or> desc_is_code e \<and> desc_rw e)
            \<and> (desc_conforming e \<or> max lev (rpl sel) \<le> unat (desc_dpl e)))"

definition set_seg :: "seg_reg \<Rightarrow> u16 \<Rightarrow> cpu \<Rightarrow> cpu" where
  "set_seg r v c = (case r of DS \<Rightarrow> c\<lparr>c_ds := v\<rparr> | ES \<Rightarrow> c\<lparr>c_es := v\<rparr> | FS \<Rightarrow> c\<lparr>c_fs := v\<rparr> | GS \<Rightarrow> c\<lparr>c_gs := v\<rparr>)"

definition push32 :: "u32 \<Rightarrow> cpu \<Rightarrow> cpu" where
  "push32 v c = c\<lparr>c_esp := c_esp c - 4, c_mem := write32 (c_mem c) (c_esp c - 4) v\<rparr>"

definition pop32 :: "cpu \<Rightarrow> u32 \<times> cpu" where
  "pop32 c = (read32 (c_mem c) (c_esp c), c\<lparr>c_esp := c_esp c + 4\<rparr>)"

text \<open>A data segment register whose segment is more privileged than the level returned to is cleared.\<close>

definition outer_seg :: "gdt_entry_t list \<Rightarrow> nat \<Rightarrow> u16 \<Rightarrow> u16" where
  "outer_seg g lev sel =
     (case descriptor g sel of None \<Rightarrow> 0
      | Some e \<Rightarrow> if \<not> desc_conforming e \<and> unat (desc_dpl e) < lev then 0 else sel)"

text \<open>\<^verbatim>\<open>iret\<close>: instruction pointer, code segment and flags are popped, and on a return to an outer level the
  stack pointer and segment too. A return with the nested task flag (bit 14) is a task switch, which
  is not modelled and counts as a fault.\<close>

definition iret_code_ok :: "gdt_entry_t list \<Rightarrow> nat \<Rightarrow> u16 \<Rightarrow> u32 \<Rightarrow> bool" where
  "iret_code_ok g lev cs eip =
     (case descriptor g cs of None \<Rightarrow> False
      | Some e \<Rightarrow> desc_present e \<and> desc_is_code e \<and> lev \<le> rpl cs \<and> eip \<le> desc_last e - desc_base e
          \<and> (if desc_conforming e then unat (desc_dpl e) \<le> rpl cs else unat (desc_dpl e) = rpl cs))"

definition iret_stack_ok :: "gdt_entry_t list \<Rightarrow> u16 \<Rightarrow> u16 \<Rightarrow> bool" where
  "iret_stack_ok g cs ss =
     (case descriptor g ss of None \<Rightarrow> False
      | Some e \<Rightarrow> desc_present e \<and> desc_is_data e \<and> desc_rw e \<and> rpl ss = rpl cs \<and> unat (desc_dpl e) = rpl cs)"

text \<open>The flags \<^verbatim>\<open>iret\<close> loads: outside level zero the I/O privilege level stays, and the interrupt flag stays
  unless that level allows to change it.\<close>

definition iopl :: "cpu \<Rightarrow> nat" where
  "iopl c = unat (drop_bit 12 (c_eflags c) AND 3)"

definition FLAGS_IF :: u32 where "FLAGS_IF = push_bit 9 1"
definition FLAGS_IOPL :: u32 where "FLAGS_IOPL = push_bit 12 (mask 2)"

definition iret_flags :: "cpu \<Rightarrow> u32 \<Rightarrow> u32" where
  "iret_flags c fl =
     (let keep = (if cpl c = 0 then 0 else if cpl c \<le> iopl c then FLAGS_IOPL else FLAGS_IOPL OR FLAGS_IF)
      in (fl AND NOT keep) OR (c_eflags c AND keep))"

definition iret :: "gdt_entry_t list \<Rightarrow> cpu \<Rightarrow> cpu option" where
  "iret g c =
     (let (eip, c1) = pop32 c; (cs32, c2) = pop32 c1; (fl, c3) = pop32 c2; cs = ucast cs32 in
      if bit (c_eflags c) 14 \<or> \<not> iret_code_ok g (cpl c) cs eip then None
      else if rpl cs = cpl c then Some (c3\<lparr>c_eip := eip, c_cs := cs, c_eflags := iret_flags c fl\<rparr>)
      else
        let (esp, c4) = pop32 c3; (ss32, c5) = pop32 c4; ss = ucast ss32; lev = rpl cs in
        if \<not> iret_stack_ok g cs ss then None
        else Some (c5\<lparr>c_eip := eip, c_cs := cs, c_eflags := iret_flags c fl, c_esp := esp, c_ss := ss,
               c_ds := outer_seg g lev (c_ds c), c_es := outer_seg g lev (c_es c),
               c_fs := outer_seg g lev (c_fs c), c_gs := outer_seg g lev (c_gs c)\<rparr>))"

section \<open>Instructions\<close>

datatype instr = CLI | STI | MOVW_IMM_AX u16 | MOVW_AX_SEG seg_reg | MOVL_ESP_EAX | PUSHL u32 | PUSHL_EAX
  | PUSHF | POP_EAX | OR_IMM_EAX u32 | IRET

text \<open>At privilege level zero, where these run, \<^verbatim>\<open>cli\<close> and \<^verbatim>\<open>sti\<close> change the interrupt flag; elsewhere they
  fault unless the I/O privilege level of the flags allows them.\<close>

definition cli :: "cpu \<Rightarrow> cpu option" where
  "cli c = (if cpl c \<le> iopl c then Some (c\<lparr>c_eflags := c_eflags c AND NOT 0x200\<rparr>) else None)"

definition sti :: "cpu \<Rightarrow> cpu option" where
  "sti c = (if cpl c \<le> iopl c then Some (c\<lparr>c_eflags := c_eflags c OR 0x200\<rparr>) else None)"

text \<open>\<^verbatim>\<open>hlt\<close> of \<^verbatim>\<open>init/kmain.c\<close>: the state in which the processor stops, which it may do in ring 0 only.\<close>

definition hlt :: "cpu \<Rightarrow> cpu option" where
  "hlt c = Option.bind (cli c) (\<lambda>c1. if cpl c1 = 0 then Some c1 else None)"

fun exec1 :: "gdt_entry_t list \<Rightarrow> instr \<Rightarrow> cpu \<Rightarrow> cpu option" where
  "exec1 g CLI c = cli c"
| "exec1 g STI c = sti c"
| "exec1 g (MOVW_IMM_AX v) c = Some (c\<lparr>c_eax := (c_eax c AND 0xFFFF0000) OR ucast v\<rparr>)"
| "exec1 g (MOVW_AX_SEG r) c =
     (let v = ucast (c_eax c) in if can_load_data g (cpl c) v then Some (set_seg r v c) else None)"
| "exec1 g MOVL_ESP_EAX c = Some (c\<lparr>c_eax := c_esp c\<rparr>)"
| "exec1 g (PUSHL v) c = Some (push32 v c)"
| "exec1 g PUSHL_EAX c = Some (push32 (c_eax c) c)"
| "exec1 g PUSHF c = Some (push32 (c_eflags c AND 0x00FCFFFF) c)"
| "exec1 g POP_EAX c = (let (v, c1) = pop32 c in Some (c1\<lparr>c_eax := v\<rparr>))"
| "exec1 g (OR_IMM_EAX v) c = Some (c\<lparr>c_eax := c_eax c OR v\<rparr>)"
| "exec1 g IRET c = iret g c"

primrec exec :: "gdt_entry_t list \<Rightarrow> instr list \<Rightarrow> cpu \<Rightarrow> cpu option" where
  "exec g [] c = Some c"
| "exec g (i # is') c = Option.bind (exec1 g i c) (exec g is')"

text \<open>The macro, with the address of its label 1.\<close>

definition SWITCH_TO_USER :: "u32 \<Rightarrow> instr list" where
  "SWITCH_TO_USER label1 =
     [CLI,
      MOVW_IMM_AX 0x23, MOVW_AX_SEG DS, MOVW_AX_SEG ES, MOVW_AX_SEG FS, MOVW_AX_SEG GS,
      MOVL_ESP_EAX,
      PUSHL 0x23,
      PUSHL_EAX,
      PUSHF,
      POP_EAX,
      OR_IMM_EAX 0x200,
      PUSHL_EAX,
      PUSHL 0x1b,
      PUSHL label1,
      IRET]"

definition GET_ESP :: "cpu \<Rightarrow> u32" where
  "GET_ESP c = c_esp c"

section \<open>Segments\<close>

definition user_gdt :: "gdt_entry_t list \<Rightarrow> bool" where
  "user_gdt g \<longleftrightarrow> (\<exists>code data. descriptor g 0x1B = Some code \<and> access code = GDT_ACCESS_USER_CODE
     \<and> desc_base code = 0 \<and> desc_last code = 0xFFFFFFFF
     \<and> descriptor g 0x23 = Some data \<and> access data = GDT_ACCESS_USER_DATA)"

lemma user_gdt_init:
  assumes "length (gdt s) = GDT_ENTRIES"
  shows "user_gdt (gdt (gdt_init_flat_protected ga gpa ta s))"
proof -
  have lim: "take_bit 20 (0xFFFFFFFF :: u32) = 0xFFFFF"
    by (simp add: take_bit_eq_mod)
  have sel: "unat (drop_bit 3 (0x1B :: u16)) = 3" "unat (drop_bit 3 (0x23 :: u16)) = 4"
      "\<not> bit (0x1B :: u16) 2" "\<not> bit (0x23 :: u16) 2"
    by (simp_all add: bit_numeral_rec)
  show ?thesis
    using assms unfolding user_gdt_def
    by (simp add: descriptor_def sel gdt_init_flat_protected_def Let_def set_entry_def desc_create
        desc_last_def lim const_defs)
qed

lemma word_max_le: "(w :: u32) \<le> 0xFFFFFFFF"
  using unat_u32_bound [of w] by (simp add: word_le_nat_alt del: unat_u32_bound)

lemma user_segments:
  assumes "user_gdt g"
  shows "can_load_data g 0 0x23" and "iret_code_ok g 0 0x1B eip" and "iret_stack_ok g 0x1B 0x23"
    and "outer_seg g 3 0x23 = 0x23" and "rpl 0x1B = 3"
  using assms word_max_le [of eip]
  by (auto simp: user_gdt_def can_load_data_def iret_code_ok_def iret_stack_ok_def outer_seg_def rpl_def
      desc_present_def desc_is_data_def desc_is_code_def desc_conforming_def desc_rw_def desc_dpl_def
      const_defs bit_numeral_rec)

lemma load_ax: "ucast ((x AND 0xFFFF0000) OR ucast (v :: u16) :: u32) = v"
proof -
  have "(0xFFFF0000 :: u32) = push_bit 16 (mask 16)"
    by (simp add: mask_eq_exp_minus_1)
  show ?thesis
    unfolding \<open>(0xFFFF0000 :: u32) = push_bit 16 (mask 16)\<close>
    by (rule bit_word_eqI) (auto simp: bit_simps)
qed

lemma load_udata: "(ucast (x AND 0xFFFF0000 OR 0x23 :: u32) :: u16) = 0x23"
  using load_ax [of x "0x23"] by simp

lemma cli_kernel: "cpl c = 0 \<Longrightarrow> cli c = Some (c\<lparr>c_eflags := c_eflags c AND NOT 0x200\<rparr>)"
  by (simp add: cli_def)

lemma iret_flags_kernel [simp]: "cpl c = 0 \<Longrightarrow> iret_flags c fl = fl"
  by (simp add: iret_flags_def)

lemma cpl_upds [simp]:
  "cpl (c\<lparr>c_eax := v\<rparr>) = cpl c" "cpl (c\<lparr>c_esp := v\<rparr>) = cpl c" "cpl (c\<lparr>c_eflags := v\<rparr>) = cpl c"
  "cpl (c\<lparr>c_mem := m\<rparr>) = cpl c" "cpl (c\<lparr>c_ds := s\<rparr>) = cpl c" "cpl (c\<lparr>c_es := s\<rparr>) = cpl c"
  "cpl (c\<lparr>c_fs := s\<rparr>) = cpl c" "cpl (c\<lparr>c_gs := s\<rparr>) = cpl c"
  by (simp_all add: cpl_def)

text \<open>The flags after the switch: those before, as \<^verbatim>\<open>pushf\<close> reads them, with the interrupt flag set.\<close>

definition user_flags :: "u32 \<Rightarrow> u32" where
  "user_flags fl = ((fl AND NOT 0x200) AND 0x00FCFFFF) OR 0x200"

definition user_stack :: "u32 \<Rightarrow> u32 \<Rightarrow> u32 \<Rightarrow> mem \<Rightarrow> mem" where
  "user_stack label1 fl esp m =
     write32 (write32 (write32 (write32 (write32 (write32 m (esp - 4) 0x23) (esp - 8) esp) (esp - 12)
       ((fl AND NOT 0x200) AND 0x00FCFFFF)) (esp - 12) (user_flags fl)) (esp - 16) 0x1B) (esp - 20) label1"

lemma switch_result:
  assumes g: "user_gdt g" and c: "cpl c = 0" "\<not> bit (c_eflags c) 14"
  shows "exec g (SWITCH_TO_USER l) c =
    Some (c\<lparr>c_eax := user_flags (c_eflags c), c_eip := l, c_eflags := user_flags (c_eflags c), c_cs := 0x1B, c_ss := 0x23,
            c_ds := 0x23, c_es := 0x23, c_fs := 0x23, c_gs := 0x23, c_mem := user_stack l (c_eflags c) (c_esp c) (c_mem c)\<rparr>)"
  using user_segments [OF g] c
  by (simp add: SWITCH_TO_USER_def cli_kernel load_udata set_seg_def push32_def pop32_def iret_def Let_def
      read_write_other bit_and_iff)
     (cases c; simp add: user_flags_def user_stack_def)

section \<open>Staying in user mode\<close>

lemma exec_append: "exec g (xs @ ys) c = Option.bind (exec g xs c) (exec g ys)"
  by (induction xs arbitrary: c) (auto split: Option.bind_split)

text \<open>A selector names the user code or data segment: entry 3 or 4 of the global table. A data segment register may
  hold a null selector instead. The kernel's segments are entries 1 and 2, and the TSS is entry 5.\<close>

definition user_entry :: "u16 \<Rightarrow> bool" where
  "user_entry sel \<longleftrightarrow> (unat (drop_bit 3 sel) = 3 \<or> unat (drop_bit 3 sel) = 4) \<and> \<not> bit sel 2"

definition user_seg :: "u16 \<Rightarrow> bool" where
  "user_seg sel \<longleftrightarrow> unat (drop_bit 2 sel) = 0 \<or> user_entry sel"

definition user_mode :: "cpu \<Rightarrow> bool" where
  "user_mode c \<longleftrightarrow> cpl c = 3 \<and> iopl c = 0 \<and> bit (c_eflags c) 9 \<and> user_entry (c_cs c) \<and> user_entry (c_ss c)
     \<and> user_seg (c_ds c) \<and> user_seg (c_es c) \<and> user_seg (c_fs c) \<and> user_seg (c_gs c)"

text \<open>Of the code and data segments of a table, only entries 3 and 4 can be used at level three.\<close>

definition ring3_entries :: "gdt_entry_t list \<Rightarrow> bool" where
  "ring3_entries g \<longleftrightarrow> (\<forall>i<length g. (desc_is_data (g ! i) \<or> desc_is_code (g ! i))
     \<and> (desc_conforming (g ! i) \<or> 3 \<le> unat (desc_dpl (g ! i))) \<longrightarrow> i = 3 \<or> i = 4)"

lemma ring3_entries_init:
  assumes "length (gdt s) = GDT_ENTRIES"
  shows "ring3_entries (gdt (gdt_init_flat_protected ga gpa ta s))"
  unfolding ring3_entries_def
proof (intro allI impI)
  let ?g = "gdt (gdt_init_flat_protected ga gpa ta s)"
  fix i assume i: "i < length ?g" "(desc_is_data (?g ! i) \<or> desc_is_code (?g ! i)) \<and> (desc_conforming (?g ! i) \<or> 3 \<le> unat (desc_dpl (?g ! i)))"
  note defs = gdt_init_flat_protected_def Let_def set_entry_def desc_conforming_def desc_is_data_def desc_is_code_def desc_dpl_def
    const_defs bit_numeral_rec
  have "length ?g = 6" using assms by (simp add: gdt_init_flat_protected_def Let_def set_entry_def const_defs)
  with i(1) consider "i = 0" | "i = 1" | "i = 2" | "i = 3 \<or> i = 4" | "i = 5" by fastforce
  then show "i = 3 \<or> i = 4" by cases (use i(2) assms in \<open>simp_all add: defs\<close>)
qed

lemma ring3_selector:
  assumes "ring3_entries g" and "descriptor g sel = Some e" and "desc_is_data e \<or> desc_is_code e"
    and "desc_conforming e \<or> 3 \<le> unat (desc_dpl e)"
  shows "user_entry sel"
  using assms by (auto simp: descriptor_def ring3_entries_def user_entry_def Let_def split: if_splits)

lemma unat_and_3: "unat ((w :: 'a::len word) AND 3) \<le> 3"
proof -
  have "w AND 3 = take_bit 2 w"
    by (simp add: take_bit_eq_mask mask_eq_exp_minus_1)
  then show ?thesis
    using take_bit_nat_less_exp [of 2 "unat w"] by (simp add: unsigned_take_bit_eq)
qed

lemma dpl_le_3: "unat (desc_dpl e) \<le> 3" and rpl_le_3: "rpl sel \<le> 3"
  by (simp_all add: desc_dpl_def rpl_def unat_and_3)

lemma user_flag_bits:
  "drop_bit 12 ((fl AND NOT (FLAGS_IOPL OR FLAGS_IF)) OR (x AND (FLAGS_IOPL OR FLAGS_IF))) AND 3 = drop_bit 12 (x :: u32) AND 3"
  "bit ((fl AND NOT (FLAGS_IOPL OR FLAGS_IF)) OR (x AND (FLAGS_IOPL OR FLAGS_IF))) 9 = bit (x :: u32) 9"
proof -
  have k: "(3 :: u32) = mask 2"
    by (simp_all add: mask_eq_exp_minus_1)
  show "drop_bit 12 ((fl AND NOT (FLAGS_IOPL OR FLAGS_IF)) OR (x AND (FLAGS_IOPL OR FLAGS_IF))) AND 3 = drop_bit 12 x AND 3"
    unfolding k FLAGS_IF_def FLAGS_IOPL_def by (rule bit_word_eqI) (auto simp: bit_simps)
  show "bit ((fl AND NOT (FLAGS_IOPL OR FLAGS_IF)) OR (x AND (FLAGS_IOPL OR FLAGS_IF))) 9 = bit (x :: u32) 9"
    unfolding FLAGS_IF_def by (simp add: bit_simps)
qed

lemma iret_flags_user:
  assumes "cpl c = 3" and "iopl c = 0" and "c_eflags d = iret_flags c fl"
  shows "iopl d = 0 \<and> bit (c_eflags d) 9 = bit (c_eflags c) 9"
proof -
  have "c_eflags d = (fl AND NOT (FLAGS_IOPL OR FLAGS_IF)) OR (c_eflags c AND (FLAGS_IOPL OR FLAGS_IF))"
    using assms by (simp add: iret_flags_def Let_def)
  then show ?thesis
    using assms(2) unfolding iopl_def by (simp only: user_flag_bits)
qed

text \<open>From level three, \<^verbatim>\<open>iret\<close> can only return to level three and to the user's code, and the flags it loads cannot
  change the I/O privilege level or the interrupt flag.\<close>

lemma iret_user:
  assumes "ring3_entries g" and "cpl c = 3" and "iopl c = 0" and "iret g c = Some c'"
  shows "cpl c' = 3 \<and> iopl c' = 0 \<and> bit (c_eflags c') 9 = bit (c_eflags c) 9 \<and> user_entry (c_cs c')
    \<and> c_ss c' = c_ss c \<and> c_ds c' = c_ds c \<and> c_es c' = c_es c \<and> c_fs c' = c_fs c \<and> c_gs c' = c_gs c"
proof -
  have ok: "rpl cs = 3 \<and> user_entry cs" if "iret_code_ok g 3 cs eip" for cs eip
  proof -
    obtain e where e: "descriptor g cs = Some e" "desc_is_code e" "3 \<le> rpl cs"
      "if desc_conforming e then unat (desc_dpl e) \<le> rpl cs else unat (desc_dpl e) = rpl cs"
      using \<open>iret_code_ok g 3 cs eip\<close> by (auto simp: iret_code_ok_def split: option.splits)
    then have "desc_conforming e \<or> 3 \<le> unat (desc_dpl e)" by (simp split: if_splits)
    then show ?thesis using ring3_selector [OF assms(1) e(1)] e(2,3) rpl_le_3 [of cs] by simp
  qed
  then have "cpl c' = 3 \<and> (\<exists>fl. c_eflags c' = iret_flags c fl) \<and> user_entry (c_cs c')
      \<and> c_ss c' = c_ss c \<and> c_ds c' = c_ds c \<and> c_es c' = c_es c \<and> c_fs c' = c_fs c \<and> c_gs c' = c_gs c"
    using assms(2,4) by (auto simp: iret_def pop32_def Let_def cpl_def split: if_splits)
  with iret_flags_user [OF assms(2,3)] show ?thesis
    by blast
qed

lemma load_user:
  assumes "ring3_entries g" and "can_load_data g 3 sel"
  shows "user_seg sel"
proof (cases "unat (drop_bit 2 sel) = 0")
  case False
  with assms(2) obtain e where "descriptor g sel = Some e" "desc_is_data e \<or> desc_is_code e" "desc_conforming e \<or> 3 \<le> unat (desc_dpl e)"
    by (auto simp: can_load_data_def split: option.splits)
  then show ?thesis using ring3_selector [OF assms(1)] by (simp add: user_seg_def)
qed (simp add: user_seg_def)

lemma user_mode_step:
  assumes "ring3_entries g" and "user_mode c" and "exec1 g i c = Some c'"
  shows "user_mode c'"
proof (cases i)
  case (MOVW_AX_SEG r)
  with assms load_user [OF assms(1), of "ucast (c_eax c)"] show ?thesis
    by (cases r) (auto simp: user_mode_def iopl_def set_seg_def Let_def split: if_splits)
next
  case IRET
  with assms iret_user [OF assms(1), of c c'] show ?thesis
    by (simp add: user_mode_def)
qed (use assms in \<open>auto simp: user_mode_def iopl_def cli_def sti_def push32_def pop32_def\<close>)

lemma user_mode_exec: "ring3_entries g \<Longrightarrow> user_mode c \<Longrightarrow> exec g is' c = Some c' \<Longrightarrow> user_mode c'"
proof (induction is' arbitrary: c)
  case (Cons i is')
  then obtain c1 where "exec1 g i c = Some c1" "exec g is' c1 = Some c'"
    by (auto split: Option.bind_splits)
  with Cons user_mode_step show ?case
    by blast
qed simp

section \<open>The frame on the stack\<close>

lemma pushes_apart:
  assumes "a \<notin> region (e - 20) 20"
  shows "a \<notin> region (e - 4) 4" "a \<notin> region (e - 8) 4" "a \<notin> region (e - 12) 4" "a \<notin> region (e - 16) 4" "a \<notin> region (e - 20) 4"
proof -
  have "a \<notin> region (e - 20 + of_nat k) 4" if "k \<le> 16" for k
    using assms that region_tail_subset [of "e - 20" k 4] region_mono [of "k + 4" 20 "e - 20"] by auto
  from this [of 16] this [of 12] this [of 8] this [of 4] this [of 0] show
    "a \<notin> region (e - 4) 4" "a \<notin> region (e - 8) 4" "a \<notin> region (e - 12) 4" "a \<notin> region (e - 16) 4" "a \<notin> region (e - 20) 4"
    by simp_all
qed

lemma user_stack_other: "a \<notin> region (esp - 20) 20 \<Longrightarrow> user_stack l fl esp m a = m a"
  by (simp add: user_stack_def write32_other pushes_apart)

lemma context_word:
  assumes "i < 16"
  shows "of_nat (unpack context_ws (bytes_at m p 64) ! i) = read32 m (p + of_nat (4 * i))"
proof -
  have ws: "context_ws = replicate 16 4"
    by (simp add: context_ws_def numeral_eq_Suc)
  have "context_ws ! i = 4" "offset_of context_ws i = 4 * i" "i < length context_ws"
    using assms unfolding ws offset_of_def take_replicate by (simp_all add: sum_list_replicate min_def)
  then show ?thesis
    using assms by (simp add: unpack_nth take_drop_bytes_at read32_def)
qed

lemma switch_frame:
  "let ic = context_at (user_stack l fl esp m) (esp - 64) in
    ic_eip ic = l \<and> ic_cs ic = 0x1B \<and> ic_eflags ic = user_flags fl \<and> ic_useresp ic = esp \<and> ic_ss ic = 0x23"
  by (simp add: context_at_def dec_struct_def context_build_def context_word user_stack_def read_write_other)

lemma user_flags_bit: "bit (user_flags fl) n \<longleftrightarrow> n = 9 \<or> n \<notin> {16, 17} \<and> n < 24 \<and> bit fl n"
proof -
  have k: "(0x00FCFFFF :: u32) = mask 24 AND NOT (push_bit 16 (mask 2))" "(0x200 :: u32) = FLAGS_IF"
    by (simp_all add: mask_eq_exp_minus_1 FLAGS_IF_def)
  have "bit FLAGS_IF n \<longleftrightarrow> n = 9"
    unfolding FLAGS_IF_def bit_push_bit_iff bit_1_iff by auto
  then show ?thesis
    unfolding user_flags_def k by (auto simp: bit_simps dest: bit_imp_le_length)
qed

lemma switch_user_mode:
  assumes g: "user_gdt g" and c: "cpl c = 0" "\<not> bit (c_eflags c) 14" "iopl c = 0"
    and "exec g (SWITCH_TO_USER l) c = Some c'"
  shows "user_mode c'"
proof -
  have k: "(3 :: u32) = mask 2"
    by (simp add: mask_eq_exp_minus_1)
  have "drop_bit 12 (user_flags fl) AND 3 = drop_bit 12 fl AND 3" for fl
    unfolding k by (rule bit_word_eqI) (auto simp: bit_simps user_flags_bit)
  moreover have "user_entry 0x23" "user_entry 0x1B"
    by (simp_all add: user_entry_def bit_numeral_rec)
  ultimately show ?thesis
    using switch_result [OF g c(1, 2), of l] assms(5) c(3) user_segments(5) [OF g]
    by (auto simp: user_mode_def user_seg_def cpl_def iopl_def user_flags_bit)
qed

section \<open>Properties\<close>

text \<open>Property C11: on the descriptor table that \<^verbatim>\<open>gdt_init_flat_protected\<close> installs, \<^verbatim>\<open>SWITCH_TO_USER\<close> run in
  the kernel does not fault and continues at its label in ring 3: the code segment is \<^verbatim>\<open>UCODE_SEG\<close>, all
  data and stack segments are \<^verbatim>\<open>UDATA_SEG\<close>, the stack pointer is the one before the switch, interrupts
  are enabled and the other flags below bit 24 are kept (but for the two that \<^verbatim>\<open>pushf\<close> clears); memory
  changes only in the 20 bytes below the stack pointer, which hold the part of an
  \<^verbatim>\<open>interrupt_context_t\<close> that the processor pushes; and the register \<^verbatim>\<open>eax\<close> is overwritten with the
  flags.\<close>

theorem switch_to_user_enters_ring3:
  assumes "length (gdt s) = GDT_ENTRIES" and "cpl c = 0" and "\<not> bit (c_eflags c) 14"
  shows "\<exists>c'. exec (gdt (gdt_init_flat_protected ga gpa ta s)) (SWITCH_TO_USER l) c = Some c'
    \<and> cpl c' = 3 \<and> c_eip c' = l \<and> c_cs c' = UCODE_SEG
    \<and> (\<forall>r\<in>{c_ss, c_ds, c_es, c_fs, c_gs}. r c' = UDATA_SEG) \<and> GET_ESP c' = GET_ESP c
    \<and> (\<forall>n. bit (c_eflags c') n \<longleftrightarrow> n = 9 \<or> n \<notin> {16, 17} \<and> n < 24 \<and> bit (c_eflags c) n)
    \<and> (\<forall>a. a \<notin> region (c_esp c - 20) 20 \<longrightarrow> c_mem c' a = c_mem c a)
    \<and> (let ic = context_at (c_mem c') (c_esp c - 64) in
         ic_eip ic = l \<and> ic_cs ic = ucast UCODE_SEG \<and> ic_eflags ic = c_eflags c' \<and> ic_useresp ic = c_esp c
         \<and> ic_ss ic = ucast UDATA_SEG)
    \<and> c_eax c' = c_eflags c'"
  using switch_result [OF user_gdt_init [OF assms(1)] assms(2, 3), of ga gpa ta l]
    user_segments(5) [OF user_gdt_init [OF assms(1)]] switch_frame [of l "c_eflags c" "c_esp c" "c_mem c"]
  by (simp add: UCODE_SEG_def UDATA_SEG_def GET_ESP_def user_flags_bit user_stack_other cpl_def Let_def)

definition demo_cpu :: cpu where
  "demo_cpu = \<lparr>c_eax = 7, c_esp = 0xC0101000, c_eip = 0, c_eflags = 0x202, c_cs = 8, c_ss = 16, c_ds = 16,
     c_es = 16, c_fs = 16, c_gs = 16, c_mem = (\<lambda>_. 0)\<rparr>"

definition demo_gdt :: gdt_state where
  "demo_gdt = \<lparr>gdt = replicate 6 \<lparr>limit_low = 1, base_low = 2, base_middle = 3, access = 4, granularity = 5,
     base_high = 6\<rparr>, gdt_ptr = \<lparr>gp_limit = 0, gp_base = 0\<rparr>, tss = zero_tss, reg_gdtr = None, reg_tr = None\<rparr>"

theorem switch_to_user_enters_ring3_witness:
  "length (gdt demo_gdt) = GDT_ENTRIES \<and> cpl demo_cpu = 0 \<and> \<not> bit (c_eflags demo_cpu) 14
    \<and> (\<exists>c'. exec (gdt (gdt_init_flat_protected 0x1000 0x2000 0x3000 demo_gdt)) (SWITCH_TO_USER 0xC0105000) demo_cpu = Some c'
         \<and> cpl c' = 3 \<and> c_eip c' = 0xC0105000)"
  using switch_to_user_enters_ring3 [of demo_gdt demo_cpu "0x1000" "0x2000" "0x3000" "0xC0105000"]
  by (auto simp: demo_gdt_def demo_cpu_def GDT_ENTRIES_def cpl_def rpl_def bit_numeral_rec)

text \<open>Property C12: after the switch, done with an I/O privilege level of zero in the flags, whatever of the modelled
  instructions run next cannot leave ring 3: as long as none of them faults the code segment stays at privilege
  level 3, code and stack segment are the user's entries 3 and 4 of the table, each data segment register holds one
  of these or null, never a kernel segment or the TSS, the I/O privilege level stays zero and interrupts stay
  enabled; in particular \<^verbatim>\<open>cli\<close>, \<^verbatim>\<open>sti\<close> and \<^verbatim>\<open>hlt\<close> fault.\<close>

theorem user_mode_confined:
  assumes "length (gdt s) = GDT_ENTRIES" and "g = gdt (gdt_init_flat_protected ga gpa ta s)"
    and "cpl c = 0" and "\<not> bit (c_eflags c) 14" and "iopl c = 0"
    and "exec g (SWITCH_TO_USER l @ prog) c = Some c'"
  shows "user_mode c' \<and> cli c' = None \<and> sti c' = None \<and> hlt c' = None"
proof -
  obtain c1 where c1: "exec g (SWITCH_TO_USER l) c = Some c1" "exec g prog c1 = Some c'"
    using assms(6) by (auto simp: exec_append split: Option.bind_splits)
  have "user_mode c1"
    using user_gdt_init [OF assms(1)] assms(2) by (intro switch_user_mode [OF _ assms(3-5) c1(1)]) simp
  then have "user_mode c'"
    using c1(2) ring3_entries_init [OF assms(1)] assms(2) by (intro user_mode_exec [of g c1 prog c']) simp_all
  then show ?thesis
    by (simp add: user_mode_def cli_def sti_def hlt_def)
qed

theorem user_mode_confined_witness:
  "\<exists>c'. exec (gdt (gdt_init_flat_protected 0x1000 0x2000 0x3000 demo_gdt)) (SWITCH_TO_USER 0xC0105000 @ [PUSHL_EAX, POP_EAX]) demo_cpu = Some c'
     \<and> cli c' = None"
proof -
  let ?g = "gdt (gdt_init_flat_protected 0x1000 0x2000 0x3000 demo_gdt)"
  have pre: "length (gdt demo_gdt) = GDT_ENTRIES" "cpl demo_cpu = 0" "\<not> bit (c_eflags demo_cpu) 14" "iopl demo_cpu = 0"
    by (simp_all add: demo_gdt_def demo_cpu_def GDT_ENTRIES_def cpl_def rpl_def iopl_def bit_numeral_rec)
  then obtain c' where "exec ?g (SWITCH_TO_USER 0xC0105000 @ [PUSHL_EAX, POP_EAX]) demo_cpu = Some c'"
    using switch_result [OF user_gdt_init [OF pre(1)] pre(2, 3)] by (auto simp: exec_append pop32_def)
  with user_mode_confined [OF pre(1) refl pre(2-4)] show ?thesis
    by blast
qed

end
