(* ===== verification/Proc_Interrupt.thy ===== *)
theory Proc_Interrupt
  imports Proc_Usermode
begin

text \<open>
  Taking an interrupt and returning from it, as the structures of the kernel make the processor do it: the
  gate of \<^verbatim>\<open>include/init/idt.h\<close>, the segments and the task state segment that \<^verbatim>\<open>gdt_init_flat_protected\<close>
  sets up, and the frame that \<^verbatim>\<open>interrupt_context_t\<close> of \<^verbatim>\<open>include/interrupts.h\<close> describes. The entry points
  between the two, which save the remaining registers, are an object file.
\<close>

section \<open>The task state segment in memory\<close>

definition tss_ws :: "nat list" where
  "tss_ws = [4, 4, 4, 4, 4, 4, 4, 4, 4, 4] @ replicate 8 4 @ [4, 4, 4, 4, 4, 4, 4, 2, 2]"

definition tss_fields :: "tss_t \<Rightarrow> nat list" where
  "tss_fields t = [unat (prev_tss t), unat (tss_esp0 t), unat (tss_ss0 t), unat (tss_esp1 t), unat (tss_ss1 t),
     unat (tss_esp2 t), unat (tss_ss2 t), unat (tss_cr3 t), unat (tss_eip t), unat (tss_eflags t)]
     @ map unat (tss_gpregs t) @ [unat (tss_es t), unat (tss_cs t), unat (tss_ss t), unat (tss_ds t), unat (tss_fs t),
     unat (tss_gs t), unat (tss_ldt t), unat (tss_trap t), unat (tss_iomap_base t)]"

definition tss_build :: "nat list \<Rightarrow> tss_t" where
  "tss_build vs = \<lparr>prev_tss = of_nat (vs ! 0), tss_esp0 = of_nat (vs ! 1), tss_ss0 = of_nat (vs ! 2),
     tss_esp1 = of_nat (vs ! 3), tss_ss1 = of_nat (vs ! 4), tss_esp2 = of_nat (vs ! 5), tss_ss2 = of_nat (vs ! 6),
     tss_cr3 = of_nat (vs ! 7), tss_eip = of_nat (vs ! 8), tss_eflags = of_nat (vs ! 9),
     tss_gpregs = map of_nat (take 8 (drop 10 vs)), tss_es = of_nat (vs ! 18), tss_cs = of_nat (vs ! 19),
     tss_ss = of_nat (vs ! 20), tss_ds = of_nat (vs ! 21), tss_fs = of_nat (vs ! 22), tss_gs = of_nat (vs ! 23),
     tss_ldt = of_nat (vs ! 24), tss_trap = of_nat (vs ! 25), tss_iomap_base = of_nat (vs ! 26)\<rparr>"

interpretation tss_seg: c_struct "\<lambda>t. length (tss_gpregs t) = 8" tss_ws tss_fields tss_build
proof
  fix t :: tss_t assume "length (tss_gpregs t) = 8"
  then show "fits tss_ws (tss_fields t)" and "tss_build (tss_fields t) = t"
    by (simp_all add: tss_ws_def tss_fields_def tss_build_def struct_fit nth_append)
next
  fix vs assume "fits tss_ws vs"
  then show "length (tss_gpregs (tss_build vs)) = 8 \<and> tss_fields (tss_build vs) = vs"
    by (clarsimp simp: tss_ws_def tss_fields_def tss_build_def struct_split)
qed

section \<open>Taking an interrupt\<close>

text \<open>The stack of ring 0, as the processor reads it from the bytes of the task state segment.\<close>

definition tss_stack0 :: "u8 list \<Rightarrow> u32 \<times> u16" where
  "tss_stack0 bs = (of_nat (le_nat (take 4 (drop 4 bs))), of_nat (le_nat (take 2 (drop 8 bs))))"

definition gate_selector :: "u8 list \<Rightarrow> u16" where
  "gate_selector bs = of_nat (le_nat (take 2 (drop 2 bs)))"

text \<open>The flags while the handler runs: the trap, nested task, resume and virtual mode flags are cleared,
  and through an interrupt gate the interrupt flag too.\<close>

definition handler_flags :: "u8 list \<Rightarrow> u32 \<Rightarrow> u32" where
  "handler_flags gate fl =
     (let fl1 = fl AND NOT 0x34100 in if gate_type gate = gate_type_code IDT_GATE_TYPE_32_INT then fl1 AND NOT 0x200 else fl1)"

text \<open>An interrupt through a 32-bit interrupt or trap gate into ring 0. A software interrupt needs a gate of
  at least the current level; from an outer ring the stack is the one of the task state segment and the
  old one is pushed, within ring 0 only flags, code segment and instruction pointer are. \<open>None\<close> is a fault
  (a gate of another type, or into another ring, counts as one).\<close>

definition take_interrupt :: "gdt_entry_t list \<Rightarrow> u8 list \<Rightarrow> u8 list \<Rightarrow> bool \<Rightarrow> cpu \<Rightarrow> cpu option" where
  "take_interrupt g tsb gate software c =
     (let cs = gate_selector gate; (esp0, ss0) = tss_stack0 tsb in
      case descriptor g cs of None \<Rightarrow> None
      | Some e \<Rightarrow>
        if \<not> gate_present gate \<or> gate_type gate \<notin> {gate_type_code IDT_GATE_TYPE_32_INT, gate_type_code IDT_GATE_TYPE_32_TRAP}
          \<or> software \<and> gate_dpl gate < cpl c
          \<or> \<not> (desc_present e \<and> desc_is_code e \<and> \<not> desc_conforming e \<and> desc_dpl e = 0 \<and> rpl cs = 0) then None
        else
          let frame = (\<lambda>c'. push32 (c_eip c) (push32 (ucast (c_cs c)) (push32 (c_eflags c) c')));
              enter = (\<lambda>c'. c'\<lparr>c_cs := cs, c_eip := gate_handler gate, c_eflags := handler_flags gate (c_eflags c)\<rparr>)
          in if cpl c = 0 then Some (enter (frame c))
          else if \<not> iret_stack_ok g cs ss0 then None
          else Some (enter (frame (push32 (c_esp c) (push32 (ucast (c_ss c)) (c\<lparr>c_esp := esp0, c_ss := ss0\<rparr>))))))"

lemma kernel_segments:
  assumes "length (gdt s) = GDT_ENTRIES" and "g = gdt (gdt_init_flat_protected ga gpa ta s)"
  obtains e where "descriptor g 8 = Some e" and "access e = GDT_ACCESS_KERNEL_CODE" and "iret_stack_ok g 8 16"
proof -
  have sel: "unat (drop_bit 3 (8 :: u16)) = 1" "unat (drop_bit 3 (16 :: u16)) = 2" "\<not> bit (8 :: u16) 2" "\<not> bit (16 :: u16) 2"
    by (simp_all add: bit_numeral_rec)
  have "descriptor g 8 = Some (g ! 1)" "access (g ! 1) = GDT_ACCESS_KERNEL_CODE" "iret_stack_ok g 8 16"
    using assms
    by (simp_all add: descriptor_def sel gdt_init_flat_protected_def Let_def set_entry_def const_defs iret_stack_ok_def
        desc_present_def desc_is_data_def desc_rw_def desc_dpl_def rpl_def bit_numeral_rec)
  then show ?thesis ..
qed

lemma take_le_bytes: "take k (le_bytes w v) = le_bytes (min k w) v"
proof (induction w arbitrary: k v)
  case (Suc w)
  then show ?case by (cases k) auto
qed simp

lemma tss_stack0_bytes: "tss_stack0 (enc_struct tss_ws tss_fields t) = (tss_esp0 t, ucast (tss_ss0 t))"
proof -
  have "le_nat (le_bytes 2 v) = v mod 65536" for v
    using mod_mult2_eq [of v 256 256] by (simp add: le_bytes_numeral unat_of_nat)
  moreover have "(of_nat (unat w mod 65536) :: u16) = ucast (w :: u32)" for w
    by (simp add: word_unat_eq_iff unat_of_nat unsigned_ucast_eq take_bit_nat_def)
  ultimately show ?thesis
    by (simp add: tss_stack0_def enc_struct_def tss_ws_def tss_fields_def take_le_bytes)
qed

lemma gate_fields:
  "gate_selector (enc_struct idt_entry_ws idt_entry_fields e) = idt_selector e"
  "gate_type (enc_struct idt_entry_ws idt_entry_fields e) = gate_type_attr e AND 0xF"
  "gate_dpl (enc_struct idt_entry_ws idt_entry_fields e) = unat (drop_bit 5 (gate_type_attr e) AND 3)"
  "gate_present (enc_struct idt_entry_ws idt_entry_fields e) = bit (gate_type_attr e) 7"
  by (simp_all add: gate_selector_def gate_type_def gate_dpl_def gate_present_def gate_bytes nth_append)

definition user_frame :: "cpu \<Rightarrow> u32 \<Rightarrow> mem" where
  "user_frame c esp0 =
     write32 (write32 (write32 (write32 (write32 (c_mem c) (esp0 - 4) (ucast (c_ss c))) (esp0 - 8) (c_esp c)) (esp0 - 12)
       (c_eflags c)) (esp0 - 16) (ucast (c_cs c))) (esp0 - 20) (c_eip c)"

lemma take_interrupt_user:
  assumes "length (gdt s) = GDT_ENTRIES" and "g = gdt (gdt_init_flat_protected ga gpa ta s)"
    and t: "tss_ss0 t = 16" and e: "idt_selector e = 8" "gate_type_attr e = IDT_ATTR_PRESENT OR dpl_code d OR gate_type_code IDT_GATE_TYPE_32_INT"
      "offset_low e = ucast (h :: u32)" "offset_high e = ucast (drop_bit 16 h)"
    and c: "cpl c = 3" and sw: "software \<longrightarrow> d = IDT_ATTR_DPL3"
  shows "take_interrupt g (enc_struct tss_ws tss_fields t) (enc_struct idt_entry_ws idt_entry_fields e) software c =
    Some (c\<lparr>c_esp := tss_esp0 t - 20, c_ss := 16, c_mem := user_frame c (tss_esp0 t), c_cs := 8, c_eip := h,
            c_eflags := (c_eflags c AND NOT 0x34100) AND NOT 0x200\<rparr>)"
proof -
  let ?gate = "enc_struct idt_entry_ws idt_entry_fields e"
  obtain k where k: "descriptor g 8 = Some k" "access k = GDT_ACCESS_KERNEL_CODE" "iret_stack_ok g 8 16"
    by (rule kernel_segments [OF assms(1, 2)])
  have "rpl 8 = 0" "desc_present k" "desc_is_code k" "\<not> desc_conforming k" "desc_dpl k = 0"
    using k(2) by (simp_all add: rpl_def desc_present_def desc_is_code_def desc_conforming_def desc_dpl_def const_defs bit_numeral_rec)
  moreover have "gate_present ?gate" "gate_type ?gate = gate_type_code IDT_GATE_TYPE_32_INT" "gate_selector ?gate = 8" "gate_handler ?gate = h"
    using e idt_attr_decodes [of d IDT_GATE_TYPE_32_INT] split_u32 [of h] by (simp_all add: gate_fields gate_handler_bytes)
  moreover have "software \<longrightarrow> gate_dpl ?gate = 3"
    using e(2) sw idt_attr_decodes [of d IDT_GATE_TYPE_32_INT] by (auto simp: gate_fields)
  ultimately show ?thesis
    using k(1, 3) c t
    by (simp add: take_interrupt_def tss_stack0_bytes Let_def push32_def handler_flags_def user_frame_def)
qed

text \<open>Returning: the frame is popped again.\<close>

lemma iret_user_frame:
  assumes g: "user_gdt g" and c: "c_cs c = 0x1B" "c_ss c = 0x23" and d: "c_cs d = 8" "c_esp d = e - 20" "c_mem d = user_frame c e"
    and "\<not> bit (c_eflags d) 14" and "c_ds d = 0x23" "c_es d = 0x23" "c_fs d = 0x23" "c_gs d = 0x23"
  shows "iret g d = Some (d\<lparr>c_eip := c_eip c, c_cs := 0x1B, c_eflags := c_eflags c, c_esp := c_esp c, c_ss := 0x23\<rparr>)"
proof -
  have "cpl d = 0"
    using d(1) by (simp add: cpl_def rpl_def)
  then show ?thesis
    using user_segments [OF g] assms
    by (simp add: iret_def pop32_def Let_def user_frame_def read_write_other)
qed

lemma user_frame_context:
  "let ic = context_at (user_frame c e) (e - 64) in
    ic_eip ic = c_eip c \<and> ic_cs ic = ucast (c_cs c) \<and> ic_eflags ic = c_eflags c \<and> ic_useresp ic = c_esp c \<and> ic_ss ic = ucast (c_ss c)"
  by (simp add: context_at_def dec_struct_def context_build_def context_word user_frame_def read_write_other)

lemma user_frame_other: "a \<notin> region (e - 20) 20 \<Longrightarrow> user_frame c e a = c_mem c a"
  by (simp add: user_frame_def write32_other pushes_apart)

lemma handler_flag_bits:
  "\<not> bit ((fl AND NOT 0x34100) AND NOT 0x200 :: u32) 9" "\<not> bit ((fl AND NOT 0x34100) AND NOT 0x200 :: u32) 14"
  by (simp_all add: bit_simps bit_numeral_rec)

lemma init_tss: "tss_ss0 (tss (gdt_init_flat_protected ga gpa ta s)) = 16" "length (tss_gpregs (tss (gdt_init_flat_protected ga gpa ta s))) = 8"
  by (simp_all add: gdt_init_flat_protected_def Let_def GDT_SEG_OFFSET_def const_defs zero_tss_def)

section \<open>Properties\<close>

text \<open>Property C13: an interrupt taken in user mode and returned from. With the descriptor table and the task
  state segment that \<^verbatim>\<open>gdt_init_flat_protected\<close> sets up, the kernel stack entered in the latter, and a
  present 32-bit interrupt gate to \<^verbatim>\<open>KCODE_SEG\<close> (for a software interrupt one of level 3), the processor
  enters the handler in ring 0 on the kernel stack with interrupts disabled; the 20 bytes it pushes are
  the last five fields of an \<^verbatim>\<open>interrupt_context_t\<close> and hold the interrupted program's instruction
  pointer, flags, stack and segments; nothing else in memory changes; and \<^verbatim>\<open>iret\<close> from there resumes
  the program with every register as it was.\<close>

theorem interrupt_roundtrip:
  assumes "length (gdt s) = GDT_ENTRIES" and "s' = gdt_init_flat_protected ga gpa ta s"
    and "idt_selector e = KCODE_SEG" and "gate_type_attr e = IDT_ATTR_PRESENT OR dpl_code d OR gate_type_code IDT_GATE_TYPE_32_INT"
    and "offset_low e = ucast (h :: u32)" and "offset_high e = ucast (drop_bit 16 h)" and "software \<longrightarrow> d = IDT_ATTR_DPL3"
    and "c_cs c = UCODE_SEG" and "\<forall>r\<in>{c_ss, c_ds, c_es, c_fs, c_gs}. r c = UDATA_SEG"
  shows "\<exists>c1. take_interrupt (gdt s') (enc_struct tss_ws tss_fields ((tss s')\<lparr>tss_esp0 := esp0\<rparr>))
        (enc_struct idt_entry_ws idt_entry_fields e) software c = Some c1
    \<and> cpl c1 = 0 \<and> c_eip c1 = h \<and> c_ss c1 = KDATA_SEG \<and> c_esp c1 = esp0 - 20 \<and> \<not> bit (c_eflags c1) 9
    \<and> (let ic = context_at (c_mem c1) (esp0 - 64) in
         ic_eip ic = c_eip c \<and> ic_cs ic = ucast (c_cs c) \<and> ic_eflags ic = c_eflags c \<and> ic_useresp ic = c_esp c
         \<and> ic_ss ic = ucast (c_ss c))
    \<and> (\<forall>a. a \<notin> region (esp0 - 20) 20 \<longrightarrow> c_mem c1 a = c_mem c a)
    \<and> iret (gdt s') c1 = Some (c\<lparr>c_mem := c_mem c1\<rparr>)"
proof -
  let ?c1 = "c\<lparr>c_esp := esp0 - 20, c_ss := 16, c_mem := user_frame c esp0, c_cs := 8, c_eip := h,
    c_eflags := (c_eflags c AND NOT 0x34100) AND NOT 0x200\<rparr>"
  have regs: "c_cs c = 0x1B" "c_ss c = 0x23" "c_ds c = 0x23" "c_es c = 0x23" "c_fs c = 0x23" "c_gs c = 0x23"
    using assms(8, 9) by (simp_all add: UCODE_SEG_def UDATA_SEG_def)
  have g: "user_gdt (gdt s')"
    using user_gdt_init [OF assms(1)] assms(2) by simp
  have "cpl c = 3"
    using regs user_segments(5) [OF g] by (simp add: cpl_def)
  then have "take_interrupt (gdt s') (enc_struct tss_ws tss_fields ((tss s')\<lparr>tss_esp0 := esp0\<rparr>))
      (enc_struct idt_entry_ws idt_entry_fields e) software c = Some ?c1"
    using assms take_interrupt_user [OF assms(1) refl _ _ assms(4-6) _ assms(7), of "(tss s')\<lparr>tss_esp0 := esp0\<rparr>" c]
    by (simp add: init_tss KCODE_SEG_def)
  moreover have "iret (gdt s') ?c1 = Some (c\<lparr>c_mem := c_mem ?c1\<rparr>)"
    using iret_user_frame [OF g regs(1, 2), of ?c1 esp0] regs handler_flag_bits [of "c_eflags c"] by (cases c) simp
  moreover have "cpl ?c1 = 0"
    by (simp add: cpl_def rpl_def)
  ultimately show ?thesis
    using user_frame_context [of c esp0] user_frame_other handler_flag_bits [of "c_eflags c"]
    by (intro exI [of _ ?c1]) (simp add: KDATA_SEG_def)
qed

definition demo_user :: cpu where
  "demo_user = \<lparr>c_eax = 7, c_esp = 0xBFFFDF00, c_eip = 0x8048123, c_eflags = 0x246, c_cs = 0x1B, c_ss = 0x23, c_ds = 0x23,
     c_es = 0x23, c_fs = 0x23, c_gs = 0x23, c_mem = (\<lambda>_. 0)\<rparr>"

definition demo_gate :: idt_entry_t where
  "demo_gate = \<lparr>offset_low = 0x4567, idt_selector = 8, idt_zero = 0, gate_type_attr = 0xEE, offset_high = 0xC010\<rparr>"

theorem interrupt_roundtrip_witness:
  "\<exists>c1. take_interrupt (gdt (gdt_init_flat_protected 0x1000 0x2000 0x3000 demo_gdt))
      (enc_struct tss_ws tss_fields ((tss (gdt_init_flat_protected 0x1000 0x2000 0x3000 demo_gdt))\<lparr>tss_esp0 := 0xC0108000\<rparr>))
      (enc_struct idt_entry_ws idt_entry_fields demo_gate) True demo_user = Some c1
    \<and> c_eip c1 = 0xC0104567 \<and> c_esp c1 = 0xC0107FEC \<and> ic_useresp (context_at (c_mem c1) 0xC0107FC0) = 0xBFFFDF00"
  using interrupt_roundtrip [of demo_gdt _ "0x1000" "0x2000" "0x3000" demo_gate IDT_ATTR_DPL3 "0xC0104567" True demo_user "0xC0108000"]
  by (auto simp: demo_gdt_def GDT_ENTRIES_def demo_gate_def demo_user_def KCODE_SEG_def UCODE_SEG_def UDATA_SEG_def
      IDT_ATTR_PRESENT_def Let_def)

end
