(* ===== verification/Kernel_Sizes.thy ===== *)
theory Kernel_Sizes
  imports Fs_Fat12_Layout Proc_Interrupt Fs_Vfs Drv_Ide
begin

text \<open>
  The sizes the kernel asks of its allocator. The component theories name \<^verbatim>\<open>sizeof\<close> of each structure as a
  constant; here the constants are computed from the members of the structures, with the alignment and the
  padding the compiler gives them.
\<close>

definition vnode_ws :: "nat list" where
  "vnode_ws = replicate 28 1 @ [4, 4, 4, 4, 4, 4]"

definition vfs_ws :: "nat list" where
  "vfs_ws = [4, 4, 4, 4]"

definition file_ws :: "nat list" where
  "file_ws = [4, 4, 4]"

definition handle_ws :: "nat list" where
  "handle_ws = [4, 4, 4, 4, 4, 4, 4, 4]"

definition inode12_ws :: "nat list" where
  "inode12_ws = dirent12_ws @ [4, 4]"

definition block_device_ws :: "nat list" where
  "block_device_ws = [4, 4, 4, 4, 4]"

definition ide_device_ws :: "nat list" where
  "ide_device_ws = replicate 41 1 @ [1, 1, 4, 4, 4, 4, 1, 4]"

definition gdt_entry_ws :: "nat list" where
  "gdt_entry_ws = [2, 2, 1, 1, 1, 1]"

text \<open>Further property: every size the kernel passes to \<^verbatim>\<open>malloc\<close>, \<^verbatim>\<open>memset\<close> or \<^verbatim>\<open>memcpy\<close> for one of its structures
  is the size the compiler gives it: members at multiples of their width, and padding at the end up to
  the strictest alignment. Only \<^verbatim>\<open>ide_device_t\<close> has padding, one byte behind its flags and three behind
  its number.\<close>

theorem kernel_struct_sizes:
  "natural_size vnode_ws = unat sizeof_vnode \<and> natural_size vfs_ws = unat sizeof_vfs
    \<and> natural_size file_ws = unat sizeof_file_t \<and> natural_size handle_ws = unat sizeof_fat12_handle_t
    \<and> natural_size inode12_ws = unat sizeof_inode \<and> natural_size block_device_ws = unat sizeof_block_device_t
    \<and> natural_size ide_device_ws = unat sizeof_ide_device_t \<and> sum_list ide_device_ws + 4 = unat sizeof_ide_device_t
    \<and> sum_list bpb_ws = unat sizeof_fat12_bpb_t \<and> sum_list dirent12_ws = unat sizeof_fat12_dir_entry_t
    \<and> sum_list bpb_ws + sum_list ebr_ws = 512
    \<and> sum_list gdt_entry_ws = sizeof_gdt_entry_t \<and> sum_list tss_ws = sizeof_tss_t"
proof -
  have "natural_size vnode_ws = 52" "natural_size vfs_ws = 16" "natural_size file_ws = 12" "natural_size handle_ws = 32"
    "natural_size inode12_ws = 40" "natural_size block_device_ws = 20" "natural_size ide_device_ws = 68"
    "sum_list ide_device_ws = 64" "sum_list gdt_entry_ws = 8" "sum_list tss_ws = 104"
    by code_simp+
  then show ?thesis
    by (simp add: const_defs)
qed

end
