(* ===== verification/Spec2Isabelle.thy ===== *)
theory Spec2Isabelle
  imports Libc_String Libc_List Libc_Bitmap Libc_Printf Mm_Paging Init_Gdt Drv_Pic Drv_Serial Drv_Fdc Drv_Ide Drv_Keyboard Fs_Fat12_Demo Fs_Vfs Fs_Vfs_Read Fs_Vfs_Mount Fs_Vfs_Demo Fs_Vfs_Run Fs_Ide Fs_Floppy User_Shell User_Shell_Session Init_Kmain Kernel_Boot Proc_Elf Proc_Process Fs_Hfs Kernel_Sizes
begin

text \<open>
  A verification of LeanixOS, a teaching kernel for 32-bit x86 machines with a small C library and user programs.

  \<^bold>\<open>The program.\<close> \<^verbatim>\<open>init/kmain.c\<close> boots the kernel: it clears the BSS, prints a banner, initialises the serial port,
  the descriptor tables, the interrupt controller, memory management, the disks and the file systems, and starts
  the shell of \<^verbatim>\<open>user/shall.c\<close> as the first process. The shell reads lines through system calls
  (\<^verbatim>\<open>libc/stdio.c\<close>, \<^verbatim>\<open>libc/unitstd.c\<close>) and prints through \<^verbatim>\<open>vsnprintf\<close> (\<^verbatim>\<open>libc/vsprintf.c\<close>). A file is found by
  the virtual file system (\<^verbatim>\<open>fs/vfs.c\<close>), which asks the driver of the file system mounted at the front of the path
  (\<^verbatim>\<open>fs/fat12.c\<close>); that driver reads sectors through the block layer (\<^verbatim>\<open>driver/block.c\<close>), which calls the floppy
  controller (\<^verbatim>\<open>driver/fdc.c\<close> with \<^verbatim>\<open>driver/dma.c\<close>) or the IDE disk (\<^verbatim>\<open>driver/ide.c\<close>), and these talk to their
  hardware by port accesses. The kernel's tables are doubly linked lists (\<^verbatim>\<open>libc/kernel/list.c\<close>) and bitmaps.

  \<^bold>\<open>The theories.\<close>
  \<^item> \<open>Kernel_Prelude\<close>: the machine types (\<open>u8\<close>, \<open>u16\<close>, \<open>u32\<close>, pointers), generic lemmas on words and lists, and the
    collections \<open>mem_simps\<close>, \<open>io_simps\<close>, \<open>dll_simps\<close>, \<open>const_defs\<close>.
  \<^item> \<open>C_Memory\<close>: the flat memory \<^typ>\<open>mem\<close>, C strings in it (\<^const>\<open>cstr_at\<close>), address ranges (\<^const>\<open>region\<close>).
  \<^item> \<open>C_Layout\<close>: the bytes of C structures, little-endian, with the offsets and the padding the compiler gives them;
    the locale \<open>c_struct\<close> has the laws of encoding and decoding a structure and an array of them, and is
    interpreted in the theories below for the structures of each header.
  \<^item> \<open>Libc_String\<close>, \<open>Libc_List\<close>, \<open>Libc_Bitmap\<close>, \<open>Libc_Printf\<close>, \<open>Libc_Stdio\<close>: the C library of the kernel and of
    the programs, on that memory. The lists refine sequences (locale \<open>deque\<close>), the bitmaps refine sets
    (locale \<open>bit_set\<close>), \<^verbatim>\<open>vsnprintf\<close> is specified by a list of format pieces and the text of each, which is written
    down from the digits of a number and the flag characters (\<^const>\<open>int_text\<close>).
  \<^item> \<open>Mm_Paging\<close>, \<open>Init_Gdt\<close>: page table entries, address splitting and alignment; segment descriptors. \<open>Mm_Layout\<close>:
    the memory map and the boot loader's reports (\<^verbatim>\<open>include/mem.h\<close>, \<^verbatim>\<open>include/mm/kmm.h\<close>), page tables in memory
    and the page walk of the processor over them, by the bit fields of addresses and entries.
  \<^item> \<open>Init_Idt\<close>, \<open>Proc_Usermode\<close>, \<open>Proc_Interrupt\<close>: gates and the saved context (\<^verbatim>\<open>include/init/idt.h\<close>,
    \<^verbatim>\<open>include/interrupts.h\<close>); the registers, flags and stack of the processor with the macro \<^verbatim>\<open>SWITCH_TO_USER\<close>
    instruction by instruction; the task state segment, and taking an interrupt through a gate and returning from it.
  \<^item> \<open>Proc_Process\<close>: the control blocks of processes and threads (\<^verbatim>\<open>include/proc/process.h\<close>) and the queues made of
    the list elements inside them, which the locale \<open>owner_queue\<close> derives from \<open>deque\<close>; \<open>Proc_Elf\<close>, \<open>Fs_Hfs\<close>,
    \<open>Fs_Fat12_Layout\<close>, \<open>Kernel_Sizes\<close>: the structures of ELF files, of HFS and FAT12 volumes, and the sizes of the rest.
  \<^item> \<open>Port_IO\<close>: port accesses as a chronological trace and devices as functions of the trace, with the polling loops
    with a bound in the locale \<open>bounded_poll\<close>; \<open>Drv_Dma\<close>, \<open>Drv_Pic\<close>, \<open>Drv_Serial\<close>, \<open>Drv_Block\<close>, \<open>Drv_Fdc\<close>,
    \<open>Drv_Ide\<close>: the drivers, each with a model of what its device does with the accesses where the property needs one
    (for the interrupt controller an inductive step relation); \<open>Drv_Keyboard\<close>: the key codes.
  \<^item> \<open>Fs_Node\<close>: the kernel heap as a partial map from addresses to typed objects, and the structures of the file
    systems; \<open>Fs_Fat12\<close>, \<open>Fs_Fat12_Read\<close>, \<open>Fs_Fat12_Volume\<close>, \<open>Fs_Fat12_Demo\<close>: the FAT12 driver, over any disk that
    the locale \<open>block_disk\<close> describes; \<open>Fs_Vfs\<close>, \<open>Fs_Vfs_Read\<close>, \<open>Fs_Vfs_Mount\<close>, \<open>Fs_Vfs_Demo\<close>: the virtual file
    system, over any driver that the locale \<open>fs_reader\<close> describes; \<open>Fs_Vfs_Run\<close>: its calls as a step relation with
    the invariant of the reachable states; \<open>Fs_File\<close>: mounting, opening and reading put
    together; \<open>Fs_Ide\<close>, \<open>Fs_Floppy\<close>: the IDE disk and the floppy disk as a \<open>block_disk\<close>.
  \<^item> \<open>User_Shell\<close>, \<open>User_Shell_Cmds\<close>, \<open>User_Shell_Session\<close>: the user programs, the shell's commands and a whole session.
  \<^item> \<open>Init_Kmain\<close>: the boot sequence, with its initialisers as arguments; \<open>Kernel_Machine\<close>: one machine with both disk
    drivers, each on its part of the state (locale \<open>state_part\<close>); \<open>Kernel_Boot\<close>: the boot with the disks and the file
    systems in it, step by step as triples for total correctness.

  \<^bold>\<open>How the code is modelled.\<close> Integers have the width they have in the code and wrap; \<^verbatim>\<open>char\<close> is signed and
  \<^verbatim>\<open>long\<close> has 32 bits, as with the flags of \<^verbatim>\<open>config.mk\<close>. \<open>None\<close> stands for a run without a defined result: a NULL or
  dangling pointer is used, an array is left, a function pointer is NULL, or a loop never ends. Loops that may
  run forever (scans for a terminator, waits for a device without a bound) are \<^theory_text>\<open>partial_function (option)\<close>, so that
  every claim that they return is a claim that the value is \<open>Some\<close>; loops with a counter are recursive functions on
  it and need no fuel. What is not in the repository as source is an argument: the hardware (\<open>hardware\<close>), the
  allocator (\<open>kheap\<close>, with \<open>heap_ok\<close> for what \<^verbatim>\<open>malloc\<close> returns, and \<open>heap_room\<close> for how much it can still provide: a
  number of blocks of at most 6144 bytes, the size of the largest FAT12 table), the terminal (\<open>tty_ops\<close>), the
  kernel's side of a system call (\<open>kernel\<close>), the second file system, the places the linker chooses (\<open>layout\<close>,
  \<open>linker\<close>).

  \<^bold>\<open>What is shown.\<close>
  \<^item> For the C library: the string functions meet their specifications, \<^verbatim>\<open>strtol\<close> and \<^verbatim>\<open>%d\<close> are inverse, \<^verbatim>\<open>vsnprintf\<close>
    prints what the format says and never writes outside its buffer, \<^verbatim>\<open>printf\<close> and \<^verbatim>\<open>printk\<close> pass it on, the list
    operations refine operations on sequences, sorted insertion keeps a list sorted, and the first free bit is found.
  \<^item> For the drivers: the accesses have the documented effect on the device, bounded loops end with the documented
    result, a sector read is the sector of the disk and a sector written is read back, and the table of block
    devices keeps its invariant.
  \<^item> For the file systems: FAT12 entries, names and the layout of a volume; mounting allocates what unmounting frees;
    which bytes a read returns; mounting refines the update of a map from names to file systems; whatever calls
    to the FAT12 driver follow, what is mounted stays mounted; and, at the end of this theory, that a file of a FAT12
    volume on an IDE disk or a floppy disk is returned to the program byte by byte. The last holds for volumes with one
    sector of 512 bytes per cluster and reads that start in a cluster the driver looks for at the right number
    (\<^const>\<open>in_place\<close>), as the driver is wrong about others.
  \<^item> For the programs: the words of a line, the commands, memory dumps, a whole session; for the boot, that it reaches
    its idle loop when its initialisers return, what it prints, and that it goes on from the mount of the floppy disk
    with that disk's files readable (\<open>boot_reads_files\<close>).
  \<^item> For the processor's tables: the flat segments are those the descriptors say, \<^verbatim>\<open>SWITCH_TO_USER\<close> arrives in ring 3
    at the function given, from where the segment checks keep the program out of the kernel's segments, an interrupt
    saves on the kernel's stack exactly what the return restores, and the page walk, which returns an address and
    whether it may be written and used in ring 3, finds for a page the frame and the rights its entries were given.
  \<^item> For the structures: their sizes are those the code passes on, the FAT12 structures have their members at the offsets
    where the model reads them, and threads and processes come out of the queues made of their list elements in order.
  \<^item> Where the code does not do what it means to, the property says what it does: a read that starts behind the
    first cluster takes the cluster whose number is at that distance from the first instead of following the chain, and
    one sector of each cluster (\<open>fat12_read_correct\<close>, for any chain and any number of sectors); a partition is looked
    for at its start modulo 256 (\<open>fat12_mount_layout\<close>); unmounted file systems stay in the table
    (\<open>vfs_unmount_dangles\<close>); errors of the disk are not reported (\<open>ide_blk_read_hides_errors\<close>); an empty line is
    undefined (\<open>shell_session\<close>), among others.

  \<^bold>\<open>Not modelled.\<close> The operations of the heap, of the physical and virtual memory managers, of processes and the
  scheduler, of the ELF loader, of HFS, of interrupt entry, and of the keyboard, timer, terminal and VGA drivers and the
  kernel's own shell exist in the repository only as object files. What their headers define (structures, inline
  functions, macros and codes) is modelled, except for register constants that no source uses. Of the processor the
  model has what the macros and tables above need: the segment checks and privilege rules of the instructions of
  \<^verbatim>\<open>SWITCH_TO_USER\<close>, gates with and without a change of stack, and two-level paging; it has no task
  switches, no virtual 8086 mode and no faults with error codes. The IDE device of the model is never busy, and the
  floppy controller's interrupt arrives at the place the driver waits for it. \<^verbatim>\<open>GET_EBP\<close> reads a register that the
  model leaves out. The boot loader and \<^verbatim>\<open>load_descriptors.s\<close> are assembly. The test programs under \<^verbatim>\<open>tests\<close> run on a
  real machine and are no part of the kernel. Delay loops and the log lines of the drivers are left out.
\<close>

section \<open>A file on a disk\<close>

text \<open>Property C1: a file on a disk reaches the program that reads it. On a machine whose IDE drive holds a FAT12
  volume, mounting the drive returns 0, opening a path of the volume returns a file, and reading that file
  in pieces yields, put together, exactly the bytes the disk has for it, up to its end. Every
  layer takes part: the mount table and the path resolution, the directory search, the cluster chain and the
  allocation of every structure on the kernel heap, the block layer, and the port protocol of the drive. The volume has
  one sector of 512 bytes per cluster, a table of at most 12 sectors and a partition start below block 256
  (\<open>fat12_volume\<close>); the clusters of the file may lie anywhere, but each read has to start in one that has the number
  the driver computes for it (\<open>in_place\<close>), as one read of the whole file does, and any read of a file in one
  piece; the heap can provide 11 more blocks of at most 6144 bytes (\<open>heap_room\<close>).\<close>

theorem ide_file_contents:
  assumes "heap_ok kh" and "heap_room kh s 11" and "vfs_inv s"
    and "dev = blkdev_get_by_name (ks_blk s) device"
    and disk: "ide_serves hw prim idn a dev i img n (ks_blk s) (ks_world s)" "n \<le> 268435456"
    and vol: "fat12_volume (ide_image img) n" and df: "disk_file (ide_image img) n (47 # path) cs d"
    and "0 \<notin> set name" and "47 \<notin> set name" and "name \<noteq> []" and "length name < 28" and "mount_map s name = None"
    and "Some NULL \<in> set (mp_slots s) \<or> curr_size s = 0"
    and "length path < 255" and "512 \<le> length stack" and "\<forall>sz\<in>set szs. 0 < sz" and "reads_total szs < 4294967296"
    and "\<forall>p\<in>set (read_starts 0 szs). p < length d \<longrightarrow> in_place cs p" and "ft = kernel_fs kh stack hfs_fs_type hfs_ops"
  shows "\<exists>s1 fp s2 s3. vfs_mount kh ft device (Some (47 # name)) [102, 97, 116, 49, 50] s = Some (0, s1)
     \<and> vfs_open kh ft (Some (47 # name @ 47 # path)) flags s1 = Some (fp, s2)
     \<and> vfs_read_seq ft fp szs s2 = Some (take (reads_total szs) d, s3)"
proof -
  have min: "min n 268435456 = n" using disk(2) by simp
  have dev: "dev \<noteq> NULL" using disk(1) by (simp add: ide_serves_def)
  show ?thesis
    by (rule mount_open_read [OF assms(1-4) dev ided.readable [where dev = dev and hw = hw and prim = prim and idn = idn and a = a
            and i = i and img = img and n = n, unfolded min] disk(1) vol assms(9-15) df assms(16-20)])
qed

theorem ide_file_contents_witness:
  "\<exists>s1 fp s2 s3. vfs_mount demo_heap demo_ide_ft (Some [104, 100, 49]) (Some [47, 104, 100]) [102, 97, 116, 49, 50] demo_ide_ks = Some (0, s1)
     \<and> vfs_open demo_heap demo_ide_ft (Some [47, 104, 100, 47, 65, 46, 84, 88, 84]) 0 s1 = Some (fp, s2)
     \<and> vfs_read_seq demo_ide_ft fp [500, 300] s2 = Some (replicate 512 3 @ replicate 88 4, s3)"
proof -
  have c: "curr_size demo_ide_ks = 0" by (simp add: demo_ide_ks_def)
  have t: "reads_total [500, 300] = 800" by (simp add: reads_total_def)
  show ?thesis
    using ide_file_contents [OF demo_heap_ok demo_ide_room demo_ide_inv(1) demo_ide_lookup [symmetric] demo_ide_serves _ demo_ide_volume(1)
        demo_ide_volume(2) _ _ _ _ demo_ide_inv(2) _ _ _ _ _ _ demo_ide_ft_def, of "[104, 100]" "[500, 300]" 0] c t demo_in_place
    by fastforce
qed

section \<open>A file on the floppy disk\<close>

text \<open>Property C2: from the initialisation of the floppy driver to the bytes of a file. With a controller and a drive
  that answer as their data sheet says and a FAT12 volume on the disk, the initialisation registers the drive as
  \<^verbatim>\<open>fd0\<close>; mounting it returns 0, opening a path of the volume returns a file, and reading that file in pieces yields,
  put together, exactly the bytes the disk has for it. The volume, the start of each read and the heap are as in
  the property above.\<close>

theorem floppy_file_contents:
  assumes "heap_ok kh" and "heap_room kh s 11" and "vfs_inv s"
    and hw: "fdc_answers hw" "fdc_reports_seek hw" "floppy_serves hw d0 disk"
    and blk: "blk_inv (ks_blk s)" "malloc_fresh malloc"
      "fst (blkdev_register malloc [102, 100, 48] 512 2880 (Some (fdc_block_ops hw)) NULL (ks_blk s)) = 0"
    and vol: "fat12_volume (floppy_image disk) 2880" and df: "disk_file (floppy_image disk) 2880 (47 # path) cs d"
    and "0 \<notin> set name" and "47 \<notin> set name" and "name \<noteq> []" and "length name < 28" and "mount_map s name = None"
    and "Some NULL \<in> set (mp_slots s) \<or> curr_size s = 0"
    and "length path < 255" and "512 \<le> length stack" and "\<forall>sz\<in>set szs. 0 < sz" and "reads_total szs < 4294967296"
    and "\<forall>p\<in>set (read_starts 0 szs). p < length d \<longrightarrow> in_place cs p" and "ft = kernel_fs kh stack hfs_fs_type hfs_ops"
  shows "\<exists>w bs s1 fp s2 s3. fdc_init id hw malloc (ks_world s) (ks_blk s) = Some (w, bs, IRQ6_FLOPPY)
     \<and> vfs_mount kh ft (Some [102, 100, 48]) (Some (47 # name)) [102, 97, 116, 49, 50] (s\<lparr>ks_blk := bs, ks_world := w\<rparr>) = Some (0, s1)
     \<and> vfs_open kh ft (Some (47 # name @ 47 # path)) flags s1 = Some (fp, s2)
     \<and> vfs_read_seq ft fp szs s2 = Some (take (reads_total szs) d, s3)"
proof -
  obtain w bs where init: "fdc_init id hw malloc (ks_world s) (ks_blk s) = Some (w, bs, IRQ6_FLOPPY)"
    "fdc_serves hw d0 disk (blkdev_get_by_name bs (Some [102, 100, 48])) bs w"
    by (rule fdc_init_serves [OF hw blk])
  let ?s = "s\<lparr>ks_blk := bs, ks_world := w\<rparr>" and ?dev = "blkdev_get_by_name bs (Some [102, 100, 48])"
  have dev: "?dev = blkdev_get_by_name (ks_blk ?s) (Some [102, 100, 48])" "?dev \<noteq> NULL" using init(2) by (simp_all add: fdc_serves_def)
  have room: "heap_room kh ?s 11" using assms(2) by (subst heap_room_same [where s = s]) simp_all
  note inv = vfs_inv_device [OF assms(3), where b = bs and w = w]
  have mm: "mount_map ?s name = None" using inv(2) assms(16) by simp
  have slots: "Some NULL \<in> set (mp_slots ?s) \<or> curr_size ?s = 0"
    using assms(17) by (simp add: mp_slots_def)
  have I: "fdc_serves hw d0 disk ?dev (ks_blk ?s) (ks_world ?s)" using init(2) by simp
  from mount_open_read [OF assms(1) room inv(1) dev fdcd.readable I vol assms(12-15) mm slots assms(18) df assms(19-23)] init(1)
  show ?thesis by blast
qed

theorem floppy_file_contents_witness:
  "\<exists>w bs s1 fp s2 s3. fdc_init id demo_fd bump_malloc (ks_world demo_fd_ks) (ks_blk demo_fd_ks) = Some (w, bs, IRQ6_FLOPPY)
     \<and> vfs_mount demo_heap demo_fd_ft (Some [102, 100, 48]) (Some [47, 102, 100, 48]) [102, 97, 116, 49, 50] (demo_fd_ks\<lparr>ks_blk := bs, ks_world := w\<rparr>) = Some (0, s1)
     \<and> vfs_open demo_heap demo_fd_ft (Some [47, 102, 100, 48, 47, 65, 46, 84, 88, 84]) 0 s1 = Some (fp, s2)
     \<and> vfs_read_seq demo_fd_ft fp [500, 300] s2 = Some (replicate 512 3 @ replicate 88 4, s3)"
proof -
  have c: "curr_size demo_fd_ks = 0" "blk_inv (ks_blk demo_fd_ks)" using no_devices_inv by (simp_all add: demo_fd_ks_def)
  have room: "heap_room demo_heap demo_fd_ks 11" by (rule demo_room) (simp_all add: demo_fd_ks_def)
  have t: "reads_total [500, 300] = 800" by (simp add: reads_total_def)
  have n: "(5 :: nat) \<le> 2880" by simp
  note vol = demo_image_volume [OF demo_floppy_image n]
  show ?thesis
    using floppy_file_contents [OF demo_heap_ok room demo_fd_inv(1) demo_fd_hyps c(2) bump_malloc_fresh demo_fd_register vol
        _ _ _ _ demo_fd_inv(2) _ _ _ _ _ _ demo_fd_ft_def, of "[102, 100, 48]" "[500, 300]" 0] c(1) t demo_in_place
    by fastforce
qed

end
